(* ===== verification/Prelude.thy ===== *)
theory Prelude
  imports Main "HOL-Library.Word"
begin

text \<open>
  Shared vocabulary of the development: the machine types of the C code, the project-wide
  status values and callback pairs of \<^verbatim>\<open>src/src/config.h\<close>, the helper macros of
  \<^verbatim>\<open>src/src/gencmdef.h\<close>, a flat memory with \<open>memcpy\<close>, index arithmetic on rings, runs of
  operation sequences, and the interface \<open>forward_sim\<close> through which a component's detailed
  operations are shown to implement an abstract specification.
\<close>

unbundle bit_operations_syntax

section \<open>Machine types\<close>

type_synonym u8 = "8 word"
type_synonym u16 = "16 word"
type_synonym u32 = "32 word"
type_synonym u64 = "64 word"
type_synonym i16 = "16 word"
type_synonym i32 = "32 word"

named_theorems mem_simps \<open>reading and writing blocks of memory\<close>
named_theorems ring_simps \<open>index arithmetic on rings\<close>

section \<open>Status values and callbacks (config.h)\<close>

text \<open>The enumeration \<open>Status_t\<close>, in the order of its numeric values.\<close>

datatype Status_t =
    Status_BadState | Status_Param | Status_Failed | Status_OK | Status_Interrupt
  | Status_Timeout | Status_FULL | Status_EMPTY | Status_BUSY | Status_Unexpected

fun status_code :: "Status_t \<Rightarrow> int" where
  "status_code Status_BadState = -3"
| "status_code Status_Param = -2"
| "status_code Status_Failed = -1"
| "status_code Status_OK = 0"
| "status_code Status_Interrupt = 1"
| "status_code Status_Timeout = 2"
| "status_code Status_FULL = 3"
| "status_code Status_EMPTY = 4"
| "status_code Status_BUSY = 5"
| "status_code Status_Unexpected = 6"

lemma status_code_inject [simp]: "status_code a = status_code b \<longleftrightarrow> a = b"
  by (cases a; cases b) simp_all

text \<open>
  C compares status values as integers (``negative are serious''), so their order is that of
  the codes.
\<close>

instantiation Status_t :: linorder
begin

definition less_eq_Status_t :: "Status_t \<Rightarrow> Status_t \<Rightarrow> bool" where
  "less_eq_Status_t a b \<longleftrightarrow> status_code a \<le> status_code b"

definition less_Status_t :: "Status_t \<Rightarrow> Status_t \<Rightarrow> bool" where
  "less_Status_t a b \<longleftrightarrow> status_code a < status_code b"

instance
  by standard (auto simp: less_eq_Status_t_def less_Status_t_def)

end

text \<open>
  \<open>Context_t\<close> is a union the code only uses through its integer member \<open>v_context\<close>; a
  callback pointer is a value of a type \<open>'cb\<close> of function names, \<open>None\<close> for NULL.
\<close>

type_synonym Context_t = int

record 'cb CbInstance_t =
  cbi_callback :: "'cb option"
  cbi_context :: Context_t

section \<open>Saturating counters (gencmdef.h)\<close>

text \<open>
  \<open>USAT_INC(ui)\<close> is \<open>ui = (ui)+1 ? (ui)+1 : (ui)\<close>. At a type as wide as \<open>int\<close> the sum is
  unsigned and wraps to 0, which the test catches. At a narrower type C promotes the operand
  to \<open>int\<close> first, the sum is at least 1, and the wrap happens in the assignment.
\<close>

definition USAT_INC_wide :: "'a::len word \<Rightarrow> 'a word" where
  "USAT_INC_wide ui = (if ui + 1 \<noteq> 0 then ui + 1 else ui)"

definition USAT_INC_narrow :: "'a::len word \<Rightarrow> 'a word" where
  "USAT_INC_narrow ui = (if uint ui + 1 \<noteq> 0 then word_of_int (uint ui + 1) else ui)"

definition USAT_DEC :: "'a::len word \<Rightarrow> 'a word" where
  "USAT_DEC ui = (if ui \<noteq> 0 then ui - 1 else ui)"

text \<open>
  \<open>BYTE2HEX(byte)\<close>: the two digits of a byte as characters, the first in the low eight bits of the sum, so that
  a little-endian controller stores them in reading order. The sum is an \<open>int\<close>.
\<close>

definition BYTE2HEX :: "u8 \<Rightarrow> int" where
  "BYTE2HEX byte =
     (if byte AND 0xF0 < 0xA0
      then uint (drop_bit 4 (byte AND 0xF0)) + 48 +
        (if byte AND 0xF < 0xA then uint (byte AND 0xF) + 48 else uint (byte AND 0xF) + 55) * 256
      else uint (drop_bit 4 (byte AND 0xF0)) + 55 +
        (if byte AND 0xF < 0xA then uint (byte AND 0xF) + 48 else uint (byte AND 0xF) + 55) * 256)"

definition hex_digit :: "int \<Rightarrow> int" where
  "hex_digit d = (if d < 10 then d + 48 else d + 55)"

lemma BYTE2HEX_digits:
  "BYTE2HEX byte = hex_digit (uint byte div 16) + 256 * hex_digit (uint byte mod 16)"
proof -
  have all: "list_all (\<lambda>n. BYTE2HEX (word_of_int n) = hex_digit (n div 16) + 256 * hex_digit (n mod 16)) [0..255]"
    by code_simp
  have "uint byte < 2 ^ LENGTH(8)"
    by (rule unsigned_less)
  then have "uint byte \<in> set [0..255]"
    by simp
  from all [unfolded list_all_iff, rule_format, OF this] show ?thesis
    by simp
qed

lemma USAT_INC_narrow_add: "USAT_INC_narrow ui = ui + 1"
proof -
  have "uint ui + 1 \<noteq> 0"
    using uint_ge_0 [of ui] by linarith
  then show ?thesis
    by (simp add: USAT_INC_narrow_def)
qed

lemma unat_inc: "x + 1 \<noteq> 0 \<Longrightarrow> unat (x + 1) = unat x + 1" for x :: "'a::len word"
  using unatSuc [of x] by (simp add: add.commute)

lemma unat_inc_less: "x < y \<Longrightarrow> unat (x + 1) = unat x + 1" for x y :: "'a::len word"
  by (rule unat_inc) (metis eq_neg_iff_add_eq_0 linorder_not_le word_order.extremum)

lemma unat_dec: "x \<noteq> 0 \<Longrightarrow> unat (x - 1) = unat x - 1" for x :: "'a::len word"
  by (simp add: unat_minus_one)

lemma USAT_INC_wide_unat:
  "unat (USAT_INC_wide ui) = min (unat ui + 1) (2 ^ LENGTH('a) - 1)" for ui :: "'a::len word"
proof (cases "ui + 1 = 0")
  case True
  then have "ui = - 1"
    by (simp add: eq_neg_iff_add_eq_0)
  then show ?thesis
    by (simp add: USAT_INC_wide_def unsigned_minus_1_eq_mask mask_eq_exp_minus_1)
next
  case False
  then have "unat ui + 1 < 2 ^ LENGTH('a)"
    using unsigned_less [where w = "ui + 1" and ?'a = nat] by (simp add: unat_inc)
  with False show ?thesis
    by (simp add: USAT_INC_wide_def unat_inc)
qed

lemma USAT_DEC_unat: "unat (USAT_DEC ui) = unat ui - 1"
  by (simp add: USAT_DEC_def unat_dec)

text \<open>The sign bit of a 32 bit word, the test the tick comparisons use.\<close>

lemma word_bit_top: "bit w 31 \<longleftrightarrow> 2 ^ 31 \<le> unat w" for w :: u32
proof -
  have "bit w 31 \<longleftrightarrow> bit (unat w) 31"
    by (simp add: bit_unsigned_iff)
  also have "\<dots> \<longleftrightarrow> odd (unat w div 2 ^ 31)"
    by (rule bit_iff_odd)
  finally have "bit w 31 \<longleftrightarrow> odd (unat w div 2 ^ 31)" .
  moreover have "unat w div 2 ^ 31 < 2"
    using unsigned_less [where w = w and ?'a = nat] by (simp add: div_less_iff_less_mult)
  ultimately show ?thesis
    by (cases "unat w < 2 ^ 31") (auto simp: less_2_cases_iff div_greater_zero_iff linorder_not_less)
qed

section \<open>Memory\<close>

text \<open>
  Memory maps addresses to units (bytes, or words where only word-sized objects are stored).
  \<open>mem_read\<close> and \<open>mem_write\<close> are the two halves of a \<open>memcpy\<close>.
\<close>

definition mem_read :: "(nat \<Rightarrow> 'b) \<Rightarrow> nat \<Rightarrow> nat \<Rightarrow> 'b list" where
  "mem_read m a n = map m [a..<a + n]"

definition mem_write :: "(nat \<Rightarrow> 'b) \<Rightarrow> nat \<Rightarrow> 'b list \<Rightarrow> (nat \<Rightarrow> 'b)" where
  "mem_write m a xs = (\<lambda>x. if a \<le> x \<and> x < a + length xs then xs ! (x - a) else m x)"

lemma length_mem_read [simp, mem_simps]: "length (mem_read m a n) = n"
  by (simp add: mem_read_def)

lemma mem_read_nth: "k < n \<Longrightarrow> mem_read m a n ! k = m (a + k)"
  by (simp add: mem_read_def)

lemma mem_read_write_same [mem_simps]: "mem_read (mem_write m a xs) a (length xs) = xs"
  by (rule nth_equalityI) (simp_all add: mem_read_def mem_write_def)

lemma mem_read_write_other [mem_simps]:
  "b + n \<le> a \<or> a + length xs \<le> b \<Longrightarrow> mem_read (mem_write m a xs) b n = mem_read m b n"
  by (auto simp: mem_read_def mem_write_def)

lemma mem_read_cong:
  "(\<And>x. a \<le> x \<Longrightarrow> x < a + n \<Longrightarrow> m x = m' x) \<Longrightarrow> mem_read m a n = mem_read m' a n"
  by (simp add: mem_read_def)

section \<open>Rings of slots\<close>

text \<open>Number of steps from slot \<open>j\<close> forward to slot \<open>i\<close> on a ring of \<open>n\<close> slots.\<close>

definition ring_count :: "nat \<Rightarrow> nat \<Rightarrow> nat \<Rightarrow> nat" where
  "ring_count n i j = (i + n - j) mod n"

lemma ring_count_alt: "i < n \<Longrightarrow> j < n \<Longrightarrow> ring_count n i j = (if j \<le> i then i - j else i + n - j)"
  by (auto simp: ring_count_def mod_if)

lemma ring_succ: "i < n \<Longrightarrow> Suc i mod n = (if Suc i = n then 0 else Suc i)"
  by (auto simp: mod_if)

lemma ring_add: "j < n \<Longrightarrow> k < n \<Longrightarrow> (j + k) mod n = (if j + k < n then j + k else j + k - n)"
  for j k n :: nat
  by (simp add: mod_if)

lemma ring_count_less: "i < n \<Longrightarrow> j < n \<Longrightarrow> ring_count n i j < n"
  by (simp add: ring_count_def)

lemma ring_count_zero [ring_simps]: "i < n \<Longrightarrow> j < n \<Longrightarrow> ring_count n i j = 0 \<longleftrightarrow> i = j"
  by (auto simp: ring_count_alt)

lemma ring_count_full [ring_simps]:
  assumes "i < n" "j < n"
  shows "Suc i mod n = j \<longleftrightarrow> ring_count n i j = n - 1"
  unfolding ring_succ [OF assms(1)] ring_count_alt [OF assms] using assms
  by (cases "Suc i = n"; cases "j \<le> i"; simp; linarith)

lemma ring_count_push [ring_simps]:
  assumes "i < n" "j < n" "Suc i mod n \<noteq> j"
  shows "ring_count n (Suc i mod n) j = Suc (ring_count n i j)"
proof -
  have "Suc i mod n < n"
    using assms(1) by simp
  from ring_count_alt [OF this assms(2)] show ?thesis
    using assms unfolding ring_count_alt [OF assms(1,2)]
    by (auto simp: ring_succ split: if_splits)
qed

lemma ring_count_pop [ring_simps]:
  assumes "i < n" "j < n" "i \<noteq> j"
  shows "Suc (ring_count n i (Suc j mod n)) = ring_count n i j"
proof -
  have "Suc j mod n < n"
    using assms(1) by simp
  from ring_count_alt [OF assms(1) this] show ?thesis
    using assms unfolding ring_count_alt [OF assms(1,2)]
    by (auto simp: ring_succ split: if_splits)
qed

lemma ring_count_target:
  assumes "i < n" "j < n"
  shows "(j + ring_count n i j) mod n = i"
  using assms ring_count_less [OF assms] by (simp add: ring_add ring_count_alt)

lemma ring_before_target:
  assumes "i < n" "j < n" "k < ring_count n i j"
  shows "(j + k) mod n \<noteq> i"
proof -
  have "k < n"
    using assms ring_count_less [OF assms(1,2)] by linarith
  with assms show ?thesis
    by (auto simp: ring_add ring_count_alt split: if_splits)
qed

lemma upt_split: "a \<le> m \<Longrightarrow> m \<le> b \<Longrightarrow> [a..<b] = [a..<m] @ [m..<b]"
  using upt_add_eq_append [of a m "b - m"] by simp

lemma filter_upt_find:
  assumes "find P [a..<b] = Some n"
  shows "filter P [a..<b] = n # filter P [Suc n..<b]"
proof -
  obtain i where i: "i < b - a" "n = a + i" "P n" "\<forall>j<i. \<not> P (a + j)"
    using assms by (auto simp: find_Some_iff)
  have "[a..<b] = [a..<n] @ [n..<b]" "[n..<b] = n # [Suc n..<b]"
    using i upt_split [of a n b] upt_conv_Cons [of n b] by simp_all
  moreover have "filter P [a..<n] = []"
    using i by (auto simp: filter_empty_conv) (metis le_add_diff_inverse nat_add_left_cancel_less)
  ultimately show ?thesis
    using i(3) by simp
qed

text \<open>Bounded quantifiers over numerals, for ground instances.\<close>

lemma all_less_numeral:
  "(\<forall>i < numeral k. P i) \<longleftrightarrow> (\<forall>i < pred_numeral k. P i) \<and> P (pred_numeral k)"
  "(\<forall>i < (1 :: nat). P i) \<longleftrightarrow> P 0"
  "(\<forall>i < (0 :: nat). P i) \<longleftrightarrow> True"
  by (auto simp: numeral_eq_Suc less_Suc_eq)

section \<open>Runs of operations and forward simulation\<close>

text \<open>Running a list of operations, collecting what each returns.\<close>

fun run_ops :: "('o \<Rightarrow> 's \<Rightarrow> 'r \<times> 's) \<Rightarrow> 'o list \<Rightarrow> 's \<Rightarrow> 'r list \<times> 's" where
  "run_ops f [] s = ([], s)"
| "run_ops f (x # xs) s =
     (let (r, s1) = f x s; (rs, s2) = run_ops f xs s1 in (r # rs, s2))"

lemma run_ops_append:
  "run_ops f (xs @ ys) s =
     (let (rs, s1) = run_ops f xs s; (rs', s2) = run_ops f ys s1 in (rs @ rs', s2))"
  by (induction xs arbitrary: s) (auto simp: Let_def split: prod.splits)

lemma run_ops_inv:
  assumes "\<And>x s. P s \<Longrightarrow> P (snd (f x s))" and "P s"
  shows "P (snd (run_ops f xs s))"
  using assms(2)
proof (induction xs arbitrary: s)
  case (Cons x xs)
  have "P (snd (run_ops f xs (snd (f x s))))"
    using Cons assms(1) by blast
  then show ?case
    by (auto simp: Let_def split: prod.splits)
qed simp

text \<open>
  The interface between a component and its abstract specification: a detailed step, an
  abstract step, the abstraction and the invariant; \<open>adm\<close> says which operations a client may
  perform. A client of the component may reason about the abstract steps alone.
\<close>

locale forward_sim =
  fixes cstep :: "'o \<Rightarrow> 'c \<Rightarrow> 'r \<times> 'c"
    and astep :: "'o \<Rightarrow> 'a \<Rightarrow> 'r \<times> 'a"
    and abs :: "'c \<Rightarrow> 'a"
    and inv :: "'c \<Rightarrow> bool"
    and adm :: "'c \<Rightarrow> 'o \<Rightarrow> bool"
  assumes inv_step: "inv c \<Longrightarrow> adm c x \<Longrightarrow> inv (snd (cstep x c))"
    and adm_step: "inv c \<Longrightarrow> adm c x \<Longrightarrow> adm (snd (cstep x c)) y = adm c y"
    and sim_step: "inv c \<Longrightarrow> adm c x \<Longrightarrow>
          astep x (abs c) = (fst (cstep x c), abs (snd (cstep x c)))"
begin

lemma run_sim:
  "inv c \<Longrightarrow> list_all (adm c) xs \<Longrightarrow>
   inv (snd (run_ops cstep xs c)) \<and>
   run_ops astep xs (abs c) = (fst (run_ops cstep xs c), abs (snd (run_ops cstep xs c)))"
proof (induction xs arbitrary: c)
  case (Cons x xs)
  let ?c = "snd (cstep x c)"
  have adm: "adm c x" "list_all (adm c) xs" and inv: "inv c"
    using Cons.prems by simp_all
  have "inv ?c" "list_all (adm ?c) xs"
    using inv_step [OF inv adm(1)] adm_step [OF inv adm(1)] adm(2)
    by (simp_all add: list_all_iff)
  from Cons.IH [OF this] show ?case
    using sim_step [OF inv adm(1)]
    by (auto simp: Let_def split: prod.splits)
qed simp

lemma run_inv: "inv c \<Longrightarrow> list_all (adm c) xs \<Longrightarrow> inv (snd (run_ops cstep xs c))"
  using run_sim by blast

lemma run_results:
  "inv c \<Longrightarrow> list_all (adm c) xs \<Longrightarrow>
   fst (run_ops cstep xs c) = fst (run_ops astep xs (abs c))"
  using run_sim [of c xs] by simp

lemma run_abs:
  "inv c \<Longrightarrow> list_all (adm c) xs \<Longrightarrow>
   abs (snd (run_ops cstep xs c)) = snd (run_ops astep xs (abs c))"
  using run_sim [of c xs] by simp

end

end
