(* ===== verification/QueueSpec.thy ===== *)
theory QueueSpec
  imports Prelude
begin

text \<open>
  What the queue headers promise: a bounded first-in first-out buffer of objects of one size,
  holding one object fewer than the memory has slots. Two implementations meet it,
  \<^verbatim>\<open>src/src/genQ.c\<close> (theory \<open>GenQ\<close>) and \<^verbatim>\<open>src/src/generalQueue.c\<close> (theory
  \<open>GeneralQueue\<close>); the clients of either reason through the locale \<open>bounded_queue\<close>.
\<close>

section \<open>The abstract bounded queue\<close>

text \<open>
  Its capacity (the \<open>totalObjects\<close> of the initialisation less one), the object size and the
  queued objects, oldest first. An object is the list of the memory units it occupies.
\<close>

record 'b fifo =
  ff_cap :: nat
  ff_size :: nat
  ff_items :: "'b list list"

datatype 'b qop = QPut "'b list" | QGet | QReset | QHasData | QHasSpace | QObjectSize

datatype 'b qres =
    RStatus Status_t
  | RGot Status_t "'b list option"
  | RBool bool
  | RSize nat
  | RNone

text \<open>One operation on the abstract queue, with the status the header documents.\<close>

fun fifo_step :: "'b qop \<Rightarrow> 'b fifo \<Rightarrow> 'b qres \<times> 'b fifo" where
  "fifo_step (QPut x) f =
     (if length (ff_items f) < ff_cap f
      then (RStatus Status_OK, f\<lparr>ff_items := ff_items f @ [x]\<rparr>)
      else (RStatus Status_FULL, f))"
| "fifo_step QGet f =
     (case ff_items f of
        [] \<Rightarrow> (RGot Status_EMPTY None, f)
      | x # xs \<Rightarrow> (RGot Status_OK (Some x), f\<lparr>ff_items := xs\<rparr>))"
| "fifo_step QReset f = (RNone, f\<lparr>ff_items := []\<rparr>)"
| "fifo_step QHasData f = (RBool (ff_items f \<noteq> []), f)"
| "fifo_step QHasSpace f = (RBool (length (ff_items f) < ff_cap f), f)"
| "fifo_step QObjectSize f = (RSize (ff_size f), f)"

text \<open>The operations a client may perform: an object put has the configured size.\<close>

fun qop_fits :: "nat \<Rightarrow> 'b qop \<Rightarrow> bool" where
  "qop_fits s (QPut x) \<longleftrightarrow> length x = s"
| "qop_fits s _ \<longleftrightarrow> True"

text \<open>The objects a run accepted and the objects it delivered.\<close>

fun puts_of :: "'b qop list \<Rightarrow> 'b qres list \<Rightarrow> 'b list list" where
  "puts_of (QPut x # os) (RStatus Status_OK # rs) = x # puts_of os rs"
| "puts_of (_ # os) (_ # rs) = puts_of os rs"
| "puts_of _ _ = []"

fun gets_of :: "'b qres list \<Rightarrow> 'b list list" where
  "gets_of (RGot _ (Some x) # rs) = x # gets_of rs"
| "gets_of (_ # rs) = gets_of rs"
| "gets_of [] = []"

lemma fifo_run_conservation:
  assumes "QReset \<notin> set ops"
  shows "ff_items f @ puts_of ops (fst (run_ops fifo_step ops f)) =
         gets_of (fst (run_ops fifo_step ops f)) @ ff_items (snd (run_ops fifo_step ops f))"
  using assms
proof (induction ops arbitrary: f)
  case (Cons x xs)
  note IH = Cons.IH [of "snd (fifo_step x f)"]
  show ?case
    using IH Cons.prems
    by (cases x) (auto simp: Let_def split: prod.splits list.splits if_splits)
qed simp

section \<open>The interface of a bounded queue\<close>

text \<open>
  \<open>enq\<close> and \<open>deq\<close> fail on a full and on an empty queue; \<open>okobj\<close> says which objects the queue
  is configured for.
\<close>

locale bounded_queue =
  fixes enq :: "'x \<Rightarrow> 'q \<Rightarrow> 'q option"
    and deq :: "'q \<Rightarrow> ('x \<times> 'q) option"
    and items :: "'q \<Rightarrow> 'x list"
    and cap :: "'q \<Rightarrow> nat"
    and okobj :: "'q \<Rightarrow> 'x \<Rightarrow> bool"
    and inv :: "'q \<Rightarrow> bool"
  assumes items_bound: "inv q \<Longrightarrow> length (items q) \<le> cap q"
    and enq_full: "inv q \<Longrightarrow> okobj q x \<Longrightarrow> enq x q = None \<longleftrightarrow> length (items q) = cap q"
    and enq_step: "inv q \<Longrightarrow> okobj q x \<Longrightarrow> enq x q = Some q' \<Longrightarrow>
          inv q' \<and> items q' = items q @ [x] \<and> cap q' = cap q \<and> okobj q' = okobj q"
    and deq_empty: "inv q \<Longrightarrow> deq q = None \<longleftrightarrow> items q = []"
    and deq_step: "inv q \<Longrightarrow> deq q = Some (x, q') \<Longrightarrow>
          inv q' \<and> items q = x # items q' \<and> cap q' = cap q \<and> okobj q' = okobj q"
begin

lemma enq_room:
  assumes "inv q" "okobj q x" "length (items q) < cap q"
  obtains q' where "enq x q = Some q'" "inv q'" "items q' = items q @ [x]" "cap q' = cap q"
    "okobj q' = okobj q"
proof -
  have "enq x q \<noteq> None"
    using enq_full [OF assms(1,2)] assms(3) by simp
  then obtain q' where q': "enq x q = Some q'"
    by blast
  with enq_step [OF assms(1,2) q'] show ?thesis
    by (intro that [of q']) simp_all
qed

lemma deq_hd:
  assumes "inv q" "items q \<noteq> []"
  obtains q' where "deq q = Some (hd (items q), q')" "inv q'" "items q' = tl (items q)"
    "cap q' = cap q" "okobj q' = okobj q"
proof -
  have "deq q \<noteq> None"
    using deq_empty [OF assms(1)] assms(2) by simp
  then obtain x q' where q': "deq q = Some (x, q')"
    by fast
  from deq_step [OF assms(1) q'] have "inv q'" "hd (items q) = x" "tl (items q) = items q'"
    "cap q' = cap q" "okobj q' = okobj q"
    by simp_all
  with q' show ?thesis
    by (intro that [of q']) simp_all
qed

text \<open>Enqueuing a burst that fits, then dequeuing until empty, returns everything in order.\<close>

primrec enq_all :: "'x list \<Rightarrow> 'q \<Rightarrow> 'q option" where
  "enq_all [] q = Some q"
| "enq_all (x # xs) q = (case enq x q of None \<Rightarrow> None | Some q' \<Rightarrow> enq_all xs q')"

primrec deq_n :: "nat \<Rightarrow> 'q \<Rightarrow> ('x list \<times> 'q) option" where
  "deq_n 0 q = Some ([], q)"
| "deq_n (Suc n) q = (case deq q of None \<Rightarrow> None
     | Some (x, q') \<Rightarrow> (case deq_n n q' of None \<Rightarrow> None | Some (xs, q'') \<Rightarrow> Some (x # xs, q'')))"

lemma enq_all_items:
  "inv q \<Longrightarrow> list_all (okobj q) xs \<Longrightarrow> length (items q) + length xs \<le> cap q \<Longrightarrow>
   \<exists>q'. enq_all xs q = Some q' \<and> inv q' \<and> items q' = items q @ xs"
proof (induction xs arbitrary: q)
  case (Cons x xs)
  then obtain q' where q': "enq x q = Some q'" "inv q'" "items q' = items q @ [x]"
    "cap q' = cap q" "okobj q' = okobj q"
    by (auto intro: enq_room [of q x])
  with Cons.IH [of q'] Cons.prems show ?case
    by auto
qed simp

lemma deq_n_items:
  "inv q \<Longrightarrow> n \<le> length (items q) \<Longrightarrow>
   \<exists>q'. deq_n n q = Some (take n (items q), q') \<and> inv q' \<and> items q' = drop n (items q)"
proof (induction n arbitrary: q)
  case (Suc n)
  then have "items q \<noteq> []"
    by auto
  then obtain q' where q': "deq q = Some (hd (items q), q')" "inv q'" "items q' = tl (items q)"
    using deq_hd [OF Suc.prems(1)] by metis
  have "n \<le> length (items q')"
    using Suc.prems(2) q'(3) by simp
  from Suc.IH [OF q'(2) this] obtain q'' where
    "deq_n n q' = Some (take n (items q'), q'')" "inv q''" "items q'' = drop n (items q')"
    by blast
  with q' \<open>items q \<noteq> []\<close> show ?case
    by (simp add: take_Suc drop_Suc)
qed simp

lemma burst_roundtrip:
  assumes "inv q" "list_all (okobj q) xs" "length (items q) + length xs \<le> cap q"
  shows "\<exists>q' q''. enq_all xs q = Some q' \<and>
           deq_n (length (items q) + length xs) q' = Some (items q @ xs, q'') \<and> items q'' = []"
proof -
  obtain q' where "enq_all xs q = Some q'" "inv q'" "items q' = items q @ xs"
    using enq_all_items [OF assms] by blast
  with deq_n_items [of q' "length (items q) + length xs"] show ?thesis
    by auto
qed

end

end
