(* ===== verification/GenQ.thy ===== *)
theory GenQ
  imports QueueSpec
begin

text \<open>
  \<^verbatim>\<open>src/src/genQ.c\<close>: a ring of equal-sized objects in a caller-supplied buffer, with separate
  read and write pointers. Pointers are addresses; the memory they point into is a field of the
  model's state because the queue is its only user. The theory shows that every operation
  implements the abstract queue of \<open>QueueSpec\<close>, for single operations and for whole runs.
\<close>

section \<open>State and operations\<close>

record 'b GenQ_t =
  gq_end :: nat
  gq_objectSize :: nat
  gq_next :: nat
  gq_last :: nat
  gq_base_add :: nat
  gq_mem :: "nat \<Rightarrow> 'b"

definition NEXTINQ :: "('b, 'z) GenQ_t_scheme \<Rightarrow> nat \<Rightarrow> nat" where
  "NEXTINQ q val = (if val \<ge> gq_end q then gq_base_add q else val + gq_objectSize q)"

text \<open>
  A \<open>GenQ_t *\<close> argument is an option, \<open>None\<close> for NULL. The operations return the updated
  object beside their result.
\<close>

definition GenQ_Init ::
  "'b GenQ_t option \<Rightarrow> nat \<Rightarrow> u16 \<Rightarrow> u16 \<Rightarrow> Status_t \<times> 'b GenQ_t option" where
  "GenQ_Init qp buffer objectSize totalObjects =
     (case qp of
        None \<Rightarrow> (Status_Param, None)
      | Some q \<Rightarrow>
          if unat totalObjects < 2 then (Status_Param, Some q)
          else (Status_OK, Some (q\<lparr>gq_base_add := buffer, gq_next := buffer, gq_last := buffer,
                  gq_end := buffer + unat objectSize * (unat totalObjects - 1),
                  gq_objectSize := unat objectSize\<rparr>)))"

definition GenQ_Reset :: "'b GenQ_t \<Rightarrow> 'b GenQ_t" where
  "GenQ_Reset q = q\<lparr>gq_last := gq_next q\<rparr>"

text \<open>\<open>obj\<close> holds the units at the address the caller passes; \<open>memcpy\<close> takes \<open>objectSize\<close> of them.\<close>

definition GenQ_Put :: "'b GenQ_t option \<Rightarrow> 'b list \<Rightarrow> Status_t \<times> 'b GenQ_t option" where
  "GenQ_Put qp obj =
     (case qp of
        None \<Rightarrow> (Status_Param, None)
      | Some q \<Rightarrow>
          (let nxt = NEXTINQ q (gq_next q) in
           if nxt = gq_last q then (Status_FULL, Some q)
           else (Status_OK,
                 Some (q\<lparr>gq_mem := mem_write (gq_mem q) (gq_next q) (take (gq_objectSize q) obj),
                         gq_next := nxt\<rparr>))))"

text \<open>The middle result is what is copied to the caller's object, \<open>None\<close> when nothing is.\<close>

definition GenQ_Get :: "'b GenQ_t option \<Rightarrow> Status_t \<times> 'b list option \<times> 'b GenQ_t option" where
  "GenQ_Get qp =
     (case qp of
        None \<Rightarrow> (Status_Param, None, None)
      | Some q \<Rightarrow>
          if gq_next q = gq_last q then (Status_EMPTY, None, Some q)
          else (Status_OK, Some (mem_read (gq_mem q) (gq_last q) (gq_objectSize q)),
                Some (q\<lparr>gq_last := NEXTINQ q (gq_last q)\<rparr>)))"

definition GenQ_HasData :: "'b GenQ_t option \<Rightarrow> bool" where
  "GenQ_HasData qp = (case qp of None \<Rightarrow> False | Some q \<Rightarrow> gq_next q \<noteq> gq_last q)"

definition GenQ_HasSpace :: "'b GenQ_t option \<Rightarrow> bool" where
  "GenQ_HasSpace qp =
     (case qp of None \<Rightarrow> False | Some q \<Rightarrow> gq_last q \<noteq> NEXTINQ q (gq_next q))"

definition GenQ_ObjectSize :: "'b GenQ_t \<Rightarrow> nat" where
  "GenQ_ObjectSize q = gq_objectSize q"

section \<open>Compile-time definitions (genQGenerators.h)\<close>

text \<open>
  \<open>DefineGenQFromStore(name, store, len)\<close> uses an existing array of \<open>len\<close> elements;
  \<open>DefineGenQ(name, type, len)\<close> and \<open>DefineStaticGenQ\<close> reserve \<open>len + 1\<close> slots, all zero.
\<close>

definition DefineGenQFromStore :: "nat \<Rightarrow> nat \<Rightarrow> nat \<Rightarrow> (nat \<Rightarrow> 'b) \<Rightarrow> 'b GenQ_t" where
  "DefineGenQFromStore store sz len mem =
     \<lparr>gq_end = store + sz * (len - 1), gq_objectSize = sz, gq_next = store,
      gq_last = store, gq_base_add = store, gq_mem = mem\<rparr>"

definition DefineGenQ :: "nat \<Rightarrow> nat \<Rightarrow> nat \<Rightarrow> 'b::zero GenQ_t" where
  "DefineGenQ space sz len =
     \<lparr>gq_end = space + sz * len, gq_objectSize = sz, gq_next = space,
      gq_last = space, gq_base_add = space, gq_mem = (\<lambda>_. 0)\<rparr>"

definition DefineStaticGenQ :: "nat \<Rightarrow> nat \<Rightarrow> nat \<Rightarrow> 'b::zero GenQ_t" where
  "DefineStaticGenQ space sz len =
     \<lparr>gq_end = space + sz * len, gq_objectSize = sz, gq_next = space,
      gq_last = space, gq_base_add = space, gq_mem = (\<lambda>_. 0)\<rparr>"

section \<open>Invariant and abstraction\<close>

text \<open>
  \<open>genq_at q n i j\<close>: the buffer has \<open>n\<close> slots, the writer is at slot \<open>i\<close>, the reader at \<open>j\<close>.
\<close>

definition genq_at :: "('b, 'z) GenQ_t_scheme \<Rightarrow> nat \<Rightarrow> nat \<Rightarrow> nat \<Rightarrow> bool" where
  "genq_at q n i j \<longleftrightarrow> 0 < gq_objectSize q \<and> 2 \<le> n \<and> i < n \<and> j < n \<and>
     gq_end q = gq_base_add q + gq_objectSize q * (n - 1) \<and>
     gq_next q = gq_base_add q + gq_objectSize q * i \<and>
     gq_last q = gq_base_add q + gq_objectSize q * j"

definition gq_slots :: "('b, 'z) GenQ_t_scheme \<Rightarrow> nat" where
  "gq_slots q = Suc ((gq_end q - gq_base_add q) div gq_objectSize q)"

definition gq_slot_of :: "('b, 'z) GenQ_t_scheme \<Rightarrow> nat \<Rightarrow> nat" where
  "gq_slot_of q a = (a - gq_base_add q) div gq_objectSize q"

definition genq_inv :: "('b, 'z) GenQ_t_scheme \<Rightarrow> bool" where
  "genq_inv q \<longleftrightarrow> genq_at q (gq_slots q) (gq_slot_of q (gq_next q)) (gq_slot_of q (gq_last q))"

definition slot_read :: "('b, 'z) GenQ_t_scheme \<Rightarrow> nat \<Rightarrow> 'b list" where
  "slot_read q k = mem_read (gq_mem q) (gq_base_add q + gq_objectSize q * k) (gq_objectSize q)"

definition genq_items :: "('b, 'z) GenQ_t_scheme \<Rightarrow> 'b list list" where
  "genq_items q =
     (let n = gq_slots q; i = gq_slot_of q (gq_next q); j = gq_slot_of q (gq_last q)
      in map (\<lambda>k. slot_read q ((j + k) mod n)) [0..<ring_count n i j])"

definition genq_abs :: "'b GenQ_t \<Rightarrow> 'b fifo" where
  "genq_abs q = \<lparr>ff_cap = gq_slots q - 1, ff_size = gq_objectSize q, ff_items = genq_items q\<rparr>"

lemma genq_at_coords:
  assumes "genq_at q n i j"
  shows "gq_slots q = n" "gq_slot_of q (gq_next q) = i" "gq_slot_of q (gq_last q) = j"
  using assms by (auto simp: genq_at_def gq_slots_def gq_slot_of_def)

lemma genq_at_inv: "genq_at q n i j \<Longrightarrow> genq_inv q"
  by (simp add: genq_inv_def genq_at_coords)

lemma genq_invE:
  assumes "genq_inv q"
  obtains n i j where "genq_at q n i j"
  using assms by (auto simp: genq_inv_def)

lemma genq_at_items:
  "genq_at q n i j \<Longrightarrow>
   genq_items q = map (\<lambda>k. slot_read q ((j + k) mod n)) [0..<ring_count n i j]"
  by (simp add: genq_items_def genq_at_coords)

lemma NEXTINQ_slot:
  assumes "genq_at q n i j" "k < n"
  shows "NEXTINQ q (gq_base_add q + gq_objectSize q * k) =
         gq_base_add q + gq_objectSize q * (Suc k mod n)"
proof (cases "Suc k = n")
  case True
  then show ?thesis
    using assms by (auto simp: NEXTINQ_def genq_at_def)
next
  case False
  then have "k < n - 1"
    using assms(2) by simp
  then show ?thesis
    using assms False by (auto simp: NEXTINQ_def genq_at_def ring_succ)
qed

lemma genq_next_full:
  assumes "genq_at q n i j"
  shows "NEXTINQ q (gq_next q) = gq_last q \<longleftrightarrow> length (genq_items q) = n - 1"
proof -
  have *: "i < n" "j < n" "0 < gq_objectSize q" "gq_next q = gq_base_add q + gq_objectSize q * i"
    "gq_last q = gq_base_add q + gq_objectSize q * j"
    using assms by (simp_all add: genq_at_def)
  have "NEXTINQ q (gq_next q) = gq_last q \<longleftrightarrow> Suc i mod n = j"
    using NEXTINQ_slot [OF assms *(1)] *(3-5) by simp
  then show ?thesis
    using * ring_count_full [OF *(1,2)] by (simp add: genq_at_items [OF assms])
qed

lemma genq_next_empty:
  assumes "genq_at q n i j"
  shows "gq_next q = gq_last q \<longleftrightarrow> genq_items q = []"
  using assms ring_count_zero [of i n j]
  by (auto simp: genq_at_items [OF assms]) (auto simp: genq_at_def)

lemma slots_apart:
  fixes s :: nat
  assumes "a \<noteq> b"
  shows "s * a + s \<le> s * b \<or> s * b + s \<le> s * a"
proof (cases "a < b")
  case True
  then have "s * Suc a \<le> s * b"
    by (intro mult_le_mono2) simp
  then show ?thesis
    by simp
next
  case False
  with assms have "s * Suc b \<le> s * a"
    by (intro mult_le_mono2) simp
  then show ?thesis
    by simp
qed

lemma slot_read_write:
  assumes "length x = gq_objectSize q"
  shows "mem_read (mem_write (gq_mem q) (gq_base_add q + gq_objectSize q * i) x)
           (gq_base_add q + gq_objectSize q * k) (gq_objectSize q) =
         (if k = i then x else slot_read q k)"
proof (cases "k = i")
  case True
  then show ?thesis
    using mem_read_write_same [of "gq_mem q" _ x] by (simp add: assms)
next
  case False
  then show ?thesis
    using slots_apart [OF False, of "gq_objectSize q"]
    by (simp add: slot_read_def mem_read_write_other assms)
qed

section \<open>Each operation implements the abstract queue\<close>

lemma genq_put_at:
  assumes at: "genq_at q n i j" and len: "length x = gq_objectSize q"
    and room: "NEXTINQ q (gq_next q) \<noteq> gq_last q"
  defines "q' \<equiv> q\<lparr>gq_mem := mem_write (gq_mem q) (gq_next q) x, gq_next := NEXTINQ q (gq_next q)\<rparr>"
  shows "genq_at q' n (Suc i mod n) j" "genq_items q' = genq_items q @ [x]"
proof -
  have *: "i < n" "j < n" "0 < gq_objectSize q" "gq_next q = gq_base_add q + gq_objectSize q * i"
    "gq_last q = gq_base_add q + gq_objectSize q * j"
    using at by (simp_all add: genq_at_def)
  have nxt: "NEXTINQ q (gq_next q) = gq_base_add q + gq_objectSize q * (Suc i mod n)"
    using NEXTINQ_slot [OF at *(1)] *(4) by simp
  then have ne: "Suc i mod n \<noteq> j"
    using room *(5) by auto
  show at': "genq_at q' n (Suc i mod n) j"
    using at nxt by (simp add: genq_at_def q'_def)
  have sl: "slot_read q' k = (if k = i then x else slot_read q k)" for k
    using slot_read_write [of x q i k] len *(4) by (simp add: slot_read_def q'_def)
  have "map (\<lambda>k. slot_read q' ((j + k) mod n)) [0..<ring_count n i j] =
        map (\<lambda>k. slot_read q ((j + k) mod n)) [0..<ring_count n i j]"
    using ring_before_target [OF *(1,2)] by (simp add: sl)
  moreover have "slot_read q' ((j + ring_count n i j) mod n) = x"
    by (simp add: sl ring_count_target [OF *(1,2)])
  ultimately show "genq_items q' = genq_items q @ [x]"
    by (simp add: genq_at_items [OF at'] genq_at_items [OF at] ring_count_push [OF *(1,2) ne])
qed

lemma genq_get_at:
  assumes at: "genq_at q n i j" and ne: "gq_next q \<noteq> gq_last q"
  defines "q' \<equiv> q\<lparr>gq_last := NEXTINQ q (gq_last q)\<rparr>"
  shows "genq_at q' n i (Suc j mod n)"
    "genq_items q = mem_read (gq_mem q) (gq_last q) (gq_objectSize q) # genq_items q'"
proof -
  have *: "i < n" "j < n" "0 < gq_objectSize q" "gq_next q = gq_base_add q + gq_objectSize q * i"
    "gq_last q = gq_base_add q + gq_objectSize q * j"
    using at by (simp_all add: genq_at_def)
  have nxt: "NEXTINQ q (gq_last q) = gq_base_add q + gq_objectSize q * (Suc j mod n)"
    using NEXTINQ_slot [OF at *(2)] *(5) by simp
  have ij: "i \<noteq> j"
    using ne *(4,5) by auto
  show at': "genq_at q' n i (Suc j mod n)"
    using at nxt by (simp add: genq_at_def q'_def)
  have sl: "slot_read q' k = slot_read q k" for k
    by (simp add: slot_read_def q'_def)
  have shift: "(Suc j mod n + k) mod n = (j + Suc k) mod n" for k
    by (simp add: mod_simps)
  have "genq_items q = map (\<lambda>k. slot_read q ((j + k) mod n)) [0..<Suc (ring_count n i (Suc j mod n))]"
    by (simp only: genq_at_items [OF at] ring_count_pop [OF *(1,2) ij])
  also have "\<dots> = slot_read q (j mod n) #
      map (\<lambda>k. slot_read q ((j + Suc k) mod n)) [0..<ring_count n i (Suc j mod n)]"
    by (simp add: map_upt_Suc del: upt_Suc)
  also have "\<dots> = slot_read q j # genq_items q'"
    using *(2) by (simp add: genq_at_items [OF at'] sl shift)
  finally show "genq_items q = mem_read (gq_mem q) (gq_last q) (gq_objectSize q) # genq_items q'"
    by (simp add: slot_read_def *(5))
qed

lemma genq_frame [simp]:
  "genq_at q n i j \<Longrightarrow> gq_slots q = n"
  by (rule genq_at_coords)

lemma GenQ_Put_cases:
  assumes "genq_inv q" "length x = gq_objectSize q"
  shows "length (genq_items q) < gq_slots q - 1 \<Longrightarrow>
           \<exists>q'. GenQ_Put (Some q) x = (Status_OK, Some q') \<and> genq_inv q' \<and>
             genq_items q' = genq_items q @ [x] \<and> gq_slots q' = gq_slots q \<and>
             gq_objectSize q' = gq_objectSize q"
    and "\<not> length (genq_items q) < gq_slots q - 1 \<Longrightarrow>
           GenQ_Put (Some q) x = (Status_FULL, Some q)"
    and "length (genq_items q) \<le> gq_slots q - 1"
proof -
  obtain n i j where at: "genq_at q n i j"
    using assms(1) by (rule genq_invE)
  have n: "gq_slots q = n" "2 \<le> n"
    using genq_at_coords(1) [OF at] at by (simp_all add: genq_at_def)
  show bound: "length (genq_items q) \<le> gq_slots q - 1"
    using ring_count_less [of i n j] at by (simp add: genq_at_items [OF at] n genq_at_def)
  show "\<exists>q'. GenQ_Put (Some q) x = (Status_OK, Some q') \<and> genq_inv q' \<and>
      genq_items q' = genq_items q @ [x] \<and> gq_slots q' = gq_slots q \<and>
      gq_objectSize q' = gq_objectSize q"
    if "length (genq_items q) < gq_slots q - 1"
  proof -
    have room: "NEXTINQ q (gq_next q) \<noteq> gq_last q"
      using that genq_next_full [OF at] n by simp
    note put = genq_put_at [OF at assms(2) room]
    show ?thesis
      using put genq_at_inv [OF put(1)] genq_at_coords(1) [OF put(1)] n room assms(2)
      by (simp add: GenQ_Put_def)
  qed
  show "GenQ_Put (Some q) x = (Status_FULL, Some q)"
    if "\<not> length (genq_items q) < gq_slots q - 1"
    using that bound genq_next_full [OF at] n by (simp add: GenQ_Put_def)
qed

lemma GenQ_Get_cases:
  assumes "genq_inv q"
  shows "genq_items q = [] \<Longrightarrow> GenQ_Get (Some q) = (Status_EMPTY, None, Some q)"
    and "genq_items q = x # xs \<Longrightarrow>
           \<exists>q'. GenQ_Get (Some q) = (Status_OK, Some x, Some q') \<and> genq_inv q' \<and>
             genq_items q' = xs \<and> gq_slots q' = gq_slots q \<and>
             gq_objectSize q' = gq_objectSize q"
proof -
  obtain n i j where at: "genq_at q n i j"
    using assms(1) by (rule genq_invE)
  show "GenQ_Get (Some q) = (Status_EMPTY, None, Some q)" if "genq_items q = []"
    using that genq_next_empty [OF at] by (simp add: GenQ_Get_def)
  show "\<exists>q'. GenQ_Get (Some q) = (Status_OK, Some x, Some q') \<and> genq_inv q' \<and>
      genq_items q' = xs \<and> gq_slots q' = gq_slots q \<and> gq_objectSize q' = gq_objectSize q"
    if "genq_items q = x # xs"
  proof -
    have ne: "gq_next q \<noteq> gq_last q"
      using that genq_next_empty [OF at] by simp
    note get = genq_get_at [OF at ne]
    show ?thesis
      using get that genq_at_inv [OF get(1)] genq_at_coords(1) [OF get(1)] genq_at_coords(1) [OF at] ne
      by (simp add: GenQ_Get_def)
  qed
qed

lemma GenQ_Reset_items:
  assumes "genq_inv q"
  shows "genq_inv (GenQ_Reset q)" "genq_items (GenQ_Reset q) = []"
    "gq_slots (GenQ_Reset q) = gq_slots q" "gq_objectSize (GenQ_Reset q) = gq_objectSize q"
proof -
  obtain n i j where at: "genq_at q n i j"
    using assms by (rule genq_invE)
  then have at': "genq_at (GenQ_Reset q) n i i"
    by (simp add: genq_at_def GenQ_Reset_def)
  show "genq_inv (GenQ_Reset q)" "genq_items (GenQ_Reset q) = []"
    "gq_slots (GenQ_Reset q) = gq_slots q"
    using at at' genq_at_inv [OF at'] genq_next_empty [OF at'] genq_at_coords(1) [OF at']
    by (simp_all add: GenQ_Reset_def)
qed (simp add: GenQ_Reset_def)

lemma GenQ_tests:
  assumes "genq_inv q"
  shows "GenQ_HasData (Some q) \<longleftrightarrow> genq_items q \<noteq> []"
    and "GenQ_HasSpace (Some q) \<longleftrightarrow> length (genq_items q) < gq_slots q - 1"
proof -
  obtain n i j where at: "genq_at q n i j"
    using assms by (rule genq_invE)
  have x: "length (replicate (gq_objectSize q) undefined) = gq_objectSize q"
    by simp
  show "GenQ_HasData (Some q) \<longleftrightarrow> genq_items q \<noteq> []"
    using genq_next_empty [OF at] by (simp add: GenQ_HasData_def)
  have "GenQ_HasSpace (Some q) \<longleftrightarrow> length (genq_items q) \<noteq> gq_slots q - 1"
    using genq_next_full [OF at] genq_at_coords(1) [OF at] by (auto simp: GenQ_HasSpace_def)
  then show "GenQ_HasSpace (Some q) \<longleftrightarrow> length (genq_items q) < gq_slots q - 1"
    using GenQ_Put_cases(3) [OF assms x] by linarith
qed

text \<open>A present queue under a sequence of operations.\<close>

fun genq_step :: "'b qop \<Rightarrow> 'b GenQ_t \<Rightarrow> 'b qres \<times> 'b GenQ_t" where
  "genq_step (QPut x) q =
     (case GenQ_Put (Some q) x of (st, q') \<Rightarrow> (RStatus st, case q' of None \<Rightarrow> q | Some q' \<Rightarrow> q'))"
| "genq_step QGet q =
     (case GenQ_Get (Some q) of (st, x, q') \<Rightarrow> (RGot st x, case q' of None \<Rightarrow> q | Some q' \<Rightarrow> q'))"
| "genq_step QReset q = (RNone, GenQ_Reset q)"
| "genq_step QHasData q = (RBool (GenQ_HasData (Some q)), q)"
| "genq_step QHasSpace q = (RBool (GenQ_HasSpace (Some q)), q)"
| "genq_step QObjectSize q = (RSize (GenQ_ObjectSize q), q)"

lemma genq_step_sim:
  assumes "genq_inv q" "qop_fits (gq_objectSize q) x"
  shows "genq_inv (snd (genq_step x q)) \<and>
    gq_objectSize (snd (genq_step x q)) = gq_objectSize q \<and>
    fifo_step x (genq_abs q) = (fst (genq_step x q), genq_abs (snd (genq_step x q)))"
proof (cases x)
  case (QPut y)
  then have "length y = gq_objectSize q"
    using assms(2) by simp
  from GenQ_Put_cases [OF assms(1) this] QPut assms(1) show ?thesis
    by (cases "length (genq_items q) < gq_slots q - 1") (auto simp: genq_abs_def)
next
  case QGet
  with GenQ_Get_cases [OF assms(1)] assms(1) show ?thesis
    by (cases "genq_items q") (auto simp: genq_abs_def)
next
  case QReset
  with GenQ_Reset_items [OF assms(1)] show ?thesis
    by (simp add: genq_abs_def)
qed (use assms(1) GenQ_tests [OF assms(1)] in
      \<open>simp_all add: genq_abs_def GenQ_ObjectSize_def\<close>)

interpretation gq_sim: forward_sim genq_step fifo_step genq_abs genq_inv
  "\<lambda>q. qop_fits (gq_objectSize q)"
  by unfold_locales (simp_all add: genq_step_sim)

section \<open>The queue interface\<close>

definition genq_enq :: "'b list \<Rightarrow> 'b GenQ_t \<Rightarrow> 'b GenQ_t option" where
  "genq_enq x q = (case GenQ_Put (Some q) x of (Status_OK, q') \<Rightarrow> q' | _ \<Rightarrow> None)"

definition genq_deq :: "'b GenQ_t \<Rightarrow> ('b list \<times> 'b GenQ_t) option" where
  "genq_deq q = (case GenQ_Get (Some q) of (Status_OK, Some x, Some q') \<Rightarrow> Some (x, q') | _ \<Rightarrow> None)"

interpretation gq: bounded_queue genq_enq genq_deq genq_items "\<lambda>q. gq_slots q - 1"
  "\<lambda>q x. length x = gq_objectSize q" genq_inv
proof (unfold_locales, goal_cases)
  case (1 q)
  then show ?case
    using GenQ_Put_cases(3) [of q "replicate (gq_objectSize q) undefined"] by simp
next
  case (2 q x)
  then show ?case
    using GenQ_Put_cases [of q x]
    by (cases "length (genq_items q) < gq_slots q - 1") (auto simp: genq_enq_def)
next
  case (3 q x q')
  then show ?case
    using GenQ_Put_cases [of q x]
    by (cases "length (genq_items q) < gq_slots q - 1") (auto simp: genq_enq_def)
next
  case (4 q)
  then show ?case
    using GenQ_Get_cases [of q] by (cases "genq_items q") (auto simp: genq_deq_def)
next
  case (5 q x q')
  then show ?case
    using GenQ_Get_cases [of q] by (cases "genq_items q") (auto simp: genq_deq_def)
qed

section \<open>Initialisation\<close>

lemma genq_fresh:
  assumes "0 < gq_objectSize q" "2 \<le> n" "gq_next q = gq_base_add q" "gq_last q = gq_base_add q"
    "gq_end q = gq_base_add q + gq_objectSize q * (n - 1)"
  shows "genq_inv q" "genq_items q = []" "gq_slots q = n"
proof -
  have at: "genq_at q n 0 0"
    using assms by (simp add: genq_at_def)
  show "genq_inv q" "genq_items q = []" "gq_slots q = n"
    using genq_at_inv [OF at] genq_next_empty [OF at] genq_at_coords(1) [OF at] assms by simp_all
qed

lemma DefineGenQ_fresh:
  assumes "0 < sz" "0 < len"
  shows "genq_inv (DefineGenQ sp sz len :: 'b::zero GenQ_t)"
    "genq_abs (DefineGenQ sp sz len :: 'b GenQ_t) = \<lparr>ff_cap = len, ff_size = sz, ff_items = []\<rparr>"
  using genq_fresh [of "DefineGenQ sp sz len :: 'b GenQ_t" "Suc len"] assms
  by (simp_all add: DefineGenQ_def genq_abs_def)

lemma GenQ_Init_fresh:
  assumes "GenQ_Init (Some q) buffer sz n = (Status_OK, Some q')" "sz \<noteq> 0"
  shows "genq_inv q'"
    "genq_abs q' = \<lparr>ff_cap = unat n - 1, ff_size = unat sz, ff_items = []\<rparr>"
proof -
  have "2 \<le> unat n"
    using assms(1) by (auto simp: GenQ_Init_def split: if_splits)
  moreover have "0 < unat sz"
    using assms(2) by (simp add: unat_gt_0)
  ultimately show "genq_inv q'"
    "genq_abs q' = \<lparr>ff_cap = unat n - 1, ff_size = unat sz, ff_items = []\<rparr>"
    using genq_fresh [of q' "unat n"] assms(1)
    by (auto simp: GenQ_Init_def genq_abs_def split: if_splits)
qed

section \<open>Properties\<close>

text \<open>
  C1. Any sequence of operations on an initialised queue returns exactly the results of the
  bounded first-in first-out queue the header describes (status codes, delivered objects,
  space and data tests), and leaves the buffer holding what that queue holds.
\<close>

theorem GenQ_run_refines_fifo:
  assumes "genq_inv q" and "list_all (qop_fits (gq_objectSize q)) ops"
  shows "fst (run_ops genq_step ops q) = fst (run_ops fifo_step ops (genq_abs q)) \<and>
    genq_abs (snd (run_ops genq_step ops q)) = snd (run_ops fifo_step ops (genq_abs q)) \<and>
    genq_inv (snd (run_ops genq_step ops q))"
  using gq_sim.run_sim [OF assms] by simp

theorem GenQ_run_refines_fifo_witness:
  "fst (run_ops genq_step [QPut [1, 2], QPut [3, 4], QPut [5, 6], QGet, QGet, QGet]
      (DefineGenQ 100 2 2 :: u8 GenQ_t)) =
   [RStatus Status_OK, RStatus Status_OK, RStatus Status_FULL,
    RGot Status_OK (Some [1, 2]), RGot Status_OK (Some [3, 4]), RGot Status_EMPTY None]"
proof -
  let ?q = "DefineGenQ 100 2 2 :: u8 GenQ_t"
  have inv: "genq_inv ?q" and abs: "genq_abs ?q = \<lparr>ff_cap = 2, ff_size = 2, ff_items = []\<rparr>"
    using DefineGenQ_fresh [of 2 2 100] by simp_all
  have "list_all (qop_fits (gq_objectSize ?q))
     [QPut [1, 2], QPut [3, 4], QPut [5, 6], QGet, QGet, QGet]"
    by (simp add: DefineGenQ_def)
  from GenQ_run_refines_fifo [OF inv this] show ?thesis
    by (simp add: abs)
qed

text \<open>
  After a successful \<open>GenQ_Init\<close> with \<open>totalObjects\<close> slots, and as long as nobody resets the
  queue, every accepted object is delivered exactly once, unchanged and in order: the accepted
  objects are the delivered ones followed by those still queued, and at most
  \<open>totalObjects - 1\<close> are ever held.
\<close>

lemma GenQ_no_loss_no_duplication:
  assumes "GenQ_Init (Some q0) buffer objectSize totalObjects = (Status_OK, Some q)"
    and "objectSize \<noteq> 0"
    and "list_all (qop_fits (unat objectSize)) ops" and "QReset \<notin> set ops"
  shows "puts_of ops (fst (run_ops genq_step ops q)) =
      gets_of (fst (run_ops genq_step ops q)) @ genq_items (snd (run_ops genq_step ops q)) \<and>
    length (genq_items (snd (run_ops genq_step ops q))) \<le> unat totalObjects - 1"
proof -
  note fresh = GenQ_Init_fresh [OF assms(1,2)]
  have os: "gq_objectSize q = unat objectSize"
    using fresh(2) by (simp add: genq_abs_def)
  have ops: "list_all (qop_fits (gq_objectSize q)) ops"
    using assms(3) by (simp add: os)
  let ?r = "run_ops genq_step ops q" and ?a = "run_ops fifo_step ops (genq_abs q)"
  have eq: "fst ?r = fst ?a" "genq_items (snd ?r) = ff_items (snd ?a)"
    using gq_sim.run_results [OF fresh(1) ops] gq_sim.run_abs [OF fresh(1) ops]
    by (auto simp: genq_abs_def dest: arg_cong [where f = ff_items])
  have cap: "ff_cap (snd ?a) = unat totalObjects - 1 \<and> length (ff_items (snd ?a)) \<le> ff_cap (snd ?a)"
  proof (rule run_ops_inv [where P = "\<lambda>f. ff_cap f = unat totalObjects - 1 \<and> length (ff_items f) \<le> ff_cap f"])
    fix x and f :: "'b fifo"
    assume "ff_cap f = unat totalObjects - 1 \<and> length (ff_items f) \<le> ff_cap f"
    then show "ff_cap (snd (fifo_step x f)) = unat totalObjects - 1 \<and>
        length (ff_items (snd (fifo_step x f))) \<le> ff_cap (snd (fifo_step x f))"
      by (cases x) (auto split: list.split)
  qed (simp add: fresh(2))
  show ?thesis
    using fifo_run_conservation [OF assms(4), of "genq_abs q"] cap fresh(2) by (simp add: eq)
qed

lemma GenQ_no_loss_no_duplication_witness:
  "\<exists>q. GenQ_Init (Some (DefineGenQ 0 1 1 :: u8 GenQ_t)) 64 2 3 = (Status_OK, Some q) \<and>
     puts_of [QPut [7, 8], QGet] (fst (run_ops genq_step [QPut [7, 8], QGet] q)) =
       gets_of (fst (run_ops genq_step [QPut [7, 8], QGet] q)) @
       genq_items (snd (run_ops genq_step [QPut [7, 8], QGet] q))"
proof -
  obtain q where q: "GenQ_Init (Some (DefineGenQ 0 1 1 :: u8 GenQ_t)) 64 2 3 = (Status_OK, Some q)"
    by (simp add: GenQ_Init_def)
  then show ?thesis
    using GenQ_no_loss_no_duplication [OF q, of "[QPut [7, 8], QGet]"] by simp
qed

end
