(* ===== verification/GenQSpsc.thy ===== *)
theory GenQSpsc
  imports GenQ
begin

text \<open>
  The claim \<^verbatim>\<open>src/src/genQ.c\<close> makes for itself: because the putter only writes \<open>next\<close> and
  the getter only writes \<open>last\<close>, one producer and one consumer may run in different layers (an
  interrupt and the background) without disabling interrupts. Here \<open>GenQ_Put\<close> and \<open>GenQ_Get\<close>
  are cut into their memory accesses, each unit of the \<open>memcpy\<close> being one, and the two sides
  interleave in any way.
\<close>

section \<open>Interleaved steps\<close>

text \<open>
  Where each side is: outside the function, or inside \<open>memcpy\<close> after \<open>k\<close> units. The producer
  keeps the new \<open>next\<close> it computed in a local variable; the consumer keeps what it has copied.
\<close>

datatype 'b producer_pc = PIdle | PCopy nat "'b list" nat
datatype 'b consumer_pc = CIdle | CCopy "'b list"

record 'b spsc =
  sp_q :: "'b GenQ_t"
  sp_prod :: "'b producer_pc"
  sp_cons :: "'b consumer_pc"
  sp_sent :: "'b list list"
  sp_received :: "'b list list"

inductive spsc_step :: "'b spsc \<Rightarrow> 'b spsc \<Rightarrow> bool" where
  put_full: "sp_prod s = PIdle \<Longrightarrow> NEXTINQ (sp_q s) (gq_next (sp_q s)) = gq_last (sp_q s) \<Longrightarrow>
    spsc_step s s"
| put_start: "sp_prod s = PIdle \<Longrightarrow> nxt = NEXTINQ (sp_q s) (gq_next (sp_q s)) \<Longrightarrow>
    nxt \<noteq> gq_last (sp_q s) \<Longrightarrow> length obj = gq_objectSize (sp_q s) \<Longrightarrow>
    spsc_step s (s\<lparr>sp_prod := PCopy nxt obj 0\<rparr>)"
| put_copy: "sp_prod s = PCopy nxt obj k \<Longrightarrow> k < gq_objectSize (sp_q s) \<Longrightarrow>
    spsc_step s (s\<lparr>sp_q := (sp_q s)\<lparr>gq_mem := (gq_mem (sp_q s))(gq_next (sp_q s) + k := obj ! k)\<rparr>,
                   sp_prod := PCopy nxt obj (Suc k)\<rparr>)"
| put_commit: "sp_prod s = PCopy nxt obj k \<Longrightarrow> k = gq_objectSize (sp_q s) \<Longrightarrow>
    spsc_step s (s\<lparr>sp_q := (sp_q s)\<lparr>gq_next := nxt\<rparr>, sp_prod := PIdle,
                   sp_sent := sp_sent s @ [obj]\<rparr>)"
| get_empty: "sp_cons s = CIdle \<Longrightarrow> gq_next (sp_q s) = gq_last (sp_q s) \<Longrightarrow> spsc_step s s"
| get_start: "sp_cons s = CIdle \<Longrightarrow> gq_next (sp_q s) \<noteq> gq_last (sp_q s) \<Longrightarrow>
    spsc_step s (s\<lparr>sp_cons := CCopy []\<rparr>)"
| get_copy: "sp_cons s = CCopy buf \<Longrightarrow> length buf < gq_objectSize (sp_q s) \<Longrightarrow>
    spsc_step s (s\<lparr>sp_cons := CCopy (buf @ [gq_mem (sp_q s) (gq_last (sp_q s) + length buf)])\<rparr>)"
| get_commit: "sp_cons s = CCopy buf \<Longrightarrow> length buf = gq_objectSize (sp_q s) \<Longrightarrow>
    spsc_step s (s\<lparr>sp_q := (sp_q s)\<lparr>gq_last := NEXTINQ (sp_q s) (gq_last (sp_q s))\<rparr>,
                   sp_cons := CIdle, sp_received := sp_received s @ [buf]\<rparr>)"

inductive spsc_reach :: "'b spsc \<Rightarrow> bool" where
  start: "genq_inv q \<Longrightarrow> genq_items q = [] \<Longrightarrow>
    spsc_reach \<lparr>sp_q = q, sp_prod = PIdle, sp_cons = CIdle, sp_sent = [], sp_received = []\<rparr>"
| step: "spsc_reach s \<Longrightarrow> spsc_step s t \<Longrightarrow> spsc_reach t"

section \<open>Invariant\<close>

text \<open>
  A copying producer owns the slot at \<open>next\<close>, which is outside the queued part, and has written
  the first \<open>k\<close> units there; a copying consumer has read a prefix of the oldest object.
\<close>

definition prod_ok :: "'b spsc \<Rightarrow> bool" where
  "prod_ok s = (case sp_prod s of PIdle \<Rightarrow> True
     | PCopy nxt obj k \<Rightarrow> nxt = NEXTINQ (sp_q s) (gq_next (sp_q s)) \<and> nxt \<noteq> gq_last (sp_q s) \<and>
         length obj = gq_objectSize (sp_q s) \<and> k \<le> length obj \<and>
         mem_read (gq_mem (sp_q s)) (gq_next (sp_q s)) k = take k obj)"

definition cons_ok :: "'b spsc \<Rightarrow> bool" where
  "cons_ok s = (case sp_cons s of CIdle \<Rightarrow> True
     | CCopy buf \<Rightarrow> gq_next (sp_q s) \<noteq> gq_last (sp_q s) \<and> length buf \<le> gq_objectSize (sp_q s) \<and>
         buf = mem_read (gq_mem (sp_q s)) (gq_last (sp_q s)) (length buf))"

definition spsc_inv :: "'b spsc \<Rightarrow> bool" where
  "spsc_inv s \<longleftrightarrow> genq_inv (sp_q s) \<and> prod_ok s \<and> cons_ok s \<and>
     sp_sent s = sp_received s @ genq_items (sp_q s)"

lemma mem_read_snoc: "mem_read m a (Suc k) = mem_read m a k @ [m (a + k)]"
  by (simp add: mem_read_def)

lemma mem_read_upd: "x < a \<or> a + n \<le> x \<Longrightarrow> mem_read (m(x := v)) a n = mem_read m a n"
  by (auto intro!: mem_read_cong)

lemma mem_write_idle:
  assumes "mem_read m a (length xs) = xs"
  shows "mem_write m a xs = m"
proof
  fix x
  show "mem_write m a xs x = m x"
  proof (cases "a \<le> x \<and> x < a + length xs")
    case True
    have "xs ! (x - a) = mem_read m a (length xs) ! (x - a)"
      by (simp only: assms)
    also have "\<dots> = m (a + (x - a))"
      by (rule mem_read_nth) (use True in arith)
    also have "\<dots> = m x"
      using True by simp
    finally show ?thesis
      using True by (simp add: mem_write_def)
  qed (auto simp: mem_write_def)
qed

text \<open>Writing into the free slot at \<open>next\<close> changes neither the queued objects nor the one being read.\<close>

lemma free_slot_write:
  fixes q :: "'b GenQ_t" and v :: 'b
  assumes inv: "genq_inv q" and k: "k < gq_objectSize q"
  defines "q' \<equiv> q\<lparr>gq_mem := (gq_mem q)(gq_next q + k := v)\<rparr>"
  shows "genq_inv q'" "genq_items q' = genq_items q"
    "gq_next q \<noteq> gq_last q \<Longrightarrow> l \<le> gq_objectSize q \<Longrightarrow>
       mem_read (gq_mem q') (gq_last q) l = mem_read (gq_mem q) (gq_last q) l"
proof -
  obtain n i j where at: "genq_at q n i j"
    using inv by (rule genq_invE)
  then have at': "genq_at q' n i j"
    by (simp add: genq_at_def q'_def)
  have *: "i < n" "j < n" "gq_next q = gq_base_add q + gq_objectSize q * i"
    "gq_last q = gq_base_add q + gq_objectSize q * j"
    using at by (simp_all add: genq_at_def)
  have other: "mem_read (gq_mem q') (gq_base_add q + gq_objectSize q * a) l =
      mem_read (gq_mem q) (gq_base_add q + gq_objectSize q * a) l"
    if "a \<noteq> i" "l \<le> gq_objectSize q" for a l
    using slots_apart [OF that(1), of "gq_objectSize q"] that(2) k
    by (auto simp: q'_def *(3) intro!: mem_read_upd)
  then have "slot_read q' a = slot_read q a" if "a \<noteq> i" for a
    using that by (simp add: slot_read_def) (simp add: q'_def)
  then show "genq_inv q'" "genq_items q' = genq_items q"
    using genq_at_inv [OF at'] ring_before_target [OF *(1,2)]
    by (simp_all add: genq_at_items [OF at'] genq_at_items [OF at])
  show "mem_read (gq_mem q') (gq_last q) l = mem_read (gq_mem q) (gq_last q) l"
    if "gq_next q \<noteq> gq_last q" "l \<le> gq_objectSize q"
    using other [of j l] that *(3,4) by auto
qed

lemma spsc_put_commit:
  assumes "genq_inv q" "length obj = gq_objectSize q"
    "NEXTINQ q (gq_next q) \<noteq> gq_last q" "mem_read (gq_mem q) (gq_next q) (gq_objectSize q) = obj"
  shows "genq_inv (q\<lparr>gq_next := NEXTINQ q (gq_next q)\<rparr>)"
    "genq_items (q\<lparr>gq_next := NEXTINQ q (gq_next q)\<rparr>) = genq_items q @ [obj]"
proof -
  obtain n i j where at: "genq_at q n i j"
    using assms(1) by (rule genq_invE)
  have "mem_write (gq_mem q) (gq_next q) obj = gq_mem q"
    using mem_write_idle [of "gq_mem q" "gq_next q" obj] assms(2,4) by simp
  then have eq: "q\<lparr>gq_mem := mem_write (gq_mem q) (gq_next q) obj, gq_next := NEXTINQ q (gq_next q)\<rparr> =
      q\<lparr>gq_next := NEXTINQ q (gq_next q)\<rparr>"
    by simp
  note put = genq_put_at [OF at assms(2,3), unfolded eq]
  show "genq_inv (q\<lparr>gq_next := NEXTINQ q (gq_next q)\<rparr>)"
    "genq_items (q\<lparr>gq_next := NEXTINQ q (gq_next q)\<rparr>) = genq_items q @ [obj]"
    using put genq_at_inv [OF put(1)] by simp_all
qed

lemma NEXTINQ_move [simp]:
  "NEXTINQ (q\<lparr>gq_next := v\<rparr>) = NEXTINQ q" "NEXTINQ (q\<lparr>gq_last := v\<rparr>) = NEXTINQ q"
  "NEXTINQ (q\<lparr>gq_mem := m\<rparr>) = NEXTINQ q"
  by (simp_all add: NEXTINQ_def fun_eq_iff)

text \<open>The reader moving on never catches up with the slot the writer is filling.\<close>

lemma writer_keeps_slot:
  assumes "genq_inv q" "gq_next q \<noteq> gq_last q"
  shows "NEXTINQ q (gq_next q) \<noteq> NEXTINQ q (gq_last q)"
proof -
  obtain n i j where at: "genq_at q n i j"
    using assms(1) by (rule genq_invE)
  have *: "i < n" "j < n" "gq_next q = gq_base_add q + gq_objectSize q * i"
    "gq_last q = gq_base_add q + gq_objectSize q * j" "0 < gq_objectSize q"
    using at by (simp_all add: genq_at_def)
  have "Suc i mod n \<noteq> Suc j mod n"
    using assms(2) *(1-4) by (auto simp: ring_succ split: if_splits)
  then show ?thesis
    using NEXTINQ_slot [OF at *(1)] NEXTINQ_slot [OF at *(2)] * by simp
qed

lemma spsc_get_commit:
  assumes "genq_inv q" "gq_next q \<noteq> gq_last q"
  defines "q' \<equiv> q\<lparr>gq_last := NEXTINQ q (gq_last q)\<rparr>"
  shows "genq_inv q'"
    "genq_items q = mem_read (gq_mem q) (gq_last q) (gq_objectSize q) # genq_items q'"
proof -
  obtain n i j where at: "genq_at q n i j"
    using assms(1) by (rule genq_invE)
  note get = genq_get_at [OF at assms(2)]
  show "genq_inv q'"
    "genq_items q = mem_read (gq_mem q) (gq_last q) (gq_objectSize q) # genq_items q'"
    using get genq_at_inv [OF get(1)] by (simp_all add: q'_def)
qed

lemmas spsc_defs = spsc_inv_def prod_ok_def cons_ok_def

inductive_cases spsc_stepE: "spsc_step s t"

lemma spsc_step_inv:
  assumes "spsc_inv s" "spsc_step s t"
  shows "spsc_inv t"
  using assms(2)
proof cases
  case (put_start nxt obj)
  with assms(1) show ?thesis
    by (simp add: spsc_defs mem_read_def split: consumer_pc.splits)
next
  case (put_copy nxt obj k)
  let ?q = "sp_q s"
  let ?m = "(gq_mem ?q)(gq_next ?q + k := obj ! k)"
  have P: "genq_inv ?q" "nxt = NEXTINQ ?q (gq_next ?q)" "nxt \<noteq> gq_last ?q"
    "length obj = gq_objectSize ?q" "mem_read (gq_mem ?q) (gq_next ?q) k = take k obj"
    "sp_sent s = sp_received s @ genq_items ?q" "cons_ok s"
    using assms(1) put_copy by (simp_all add: spsc_inv_def prod_ok_def)
  note w = free_slot_write [OF P(1) put_copy(3), where v = "obj ! k"]
  have "mem_read ?m (gq_next ?q) (Suc k) = take (Suc k) obj"
    using P(4,5) put_copy(3) mem_read_upd [of "gq_next ?q + k" "gq_next ?q" k "gq_mem ?q"]
    by (simp add: mem_read_snoc take_Suc_conv_app_nth)
  moreover have "cons_ok t"
    using P(7) w(3) put_copy(1) by (auto simp: cons_ok_def split: consumer_pc.splits)
  ultimately show ?thesis
    using w P put_copy by (simp add: spsc_inv_def prod_ok_def Suc_le_eq)
next
  case (put_commit nxt obj k)
  let ?q = "sp_q s"
  have P: "genq_inv ?q" "length obj = gq_objectSize ?q" "NEXTINQ ?q (gq_next ?q) \<noteq> gq_last ?q"
    "mem_read (gq_mem ?q) (gq_next ?q) (gq_objectSize ?q) = obj" "nxt = NEXTINQ ?q (gq_next ?q)"
    "sp_sent s = sp_received s @ genq_items ?q" "cons_ok s"
    using assms(1) put_commit by (auto simp: spsc_inv_def prod_ok_def)
  show ?thesis
    using spsc_put_commit [OF P(1-4)] P put_commit(1)
    by (auto simp: spsc_inv_def prod_ok_def cons_ok_def split: consumer_pc.splits)
next
  case get_start
  with assms(1) show ?thesis
    by (simp add: spsc_defs mem_read_def split: producer_pc.splits)
next
  case (get_copy buf)
  with assms(1) show ?thesis
    by (auto simp: spsc_defs mem_read_snoc split: producer_pc.splits)
next
  case (get_commit buf)
  let ?q = "sp_q s"
  have P: "genq_inv ?q" "gq_next ?q \<noteq> gq_last ?q"
    "buf = mem_read (gq_mem ?q) (gq_last ?q) (gq_objectSize ?q)"
    "sp_sent s = sp_received s @ genq_items ?q" "prod_ok s"
    using assms(1) get_commit by (auto simp: spsc_inv_def cons_ok_def)
  show ?thesis
    using spsc_get_commit [OF P(1,2)] P writer_keeps_slot [OF P(1,2)] get_commit(1)
    by (auto simp: spsc_inv_def prod_ok_def cons_ok_def split: producer_pc.splits)
qed (use assms(1) in simp_all)

lemma spsc_reach_inv: "spsc_reach s \<Longrightarrow> spsc_inv s"
proof (induction rule: spsc_reach.induct)
  case (start q)
  then show ?case
    by (simp add: spsc_defs)
next
  case (step s t)
  then show ?case
    by (blast intro: spsc_step_inv)
qed

section \<open>Properties\<close>

text \<open>
  C2. With one producer and one consumer interleaved at every single memory access, and no
  interrupt locking, the consumer always receives exactly the objects sent, complete and in
  order: what was sent is what was received followed by what is queued, and no object is torn.
\<close>

theorem GenQ_lock_free:
  assumes "spsc_reach s"
  shows "sp_sent s = sp_received s @ genq_items (sp_q s) \<and> genq_inv (sp_q s)"
  using spsc_reach_inv [OF assms] by (simp add: spsc_inv_def)

text \<open>A run where the consumer starts while the producer is in the middle of its second copy.\<close>

definition spsc_sample :: "u8 spsc" where
  "spsc_sample = \<lparr>sp_q = DefineGenQ 0 1 2, sp_prod = PIdle, sp_cons = CIdle, sp_sent = [], sp_received = []\<rparr>"

theorem GenQ_lock_free_witness:
  "\<exists>s. spsc_reach s \<and> sp_sent s = [[5 :: u8]] \<and> sp_prod s = PCopy 2 [6] 1 \<and>
     sp_cons s = CIdle \<and> sp_received s = [[5]] \<and>
     sp_sent s = sp_received s @ genq_items (sp_q s)"
proof -
  have "genq_inv (DefineGenQ 0 1 2 :: u8 GenQ_t)" "genq_items (DefineGenQ 0 1 2 :: u8 GenQ_t) = []"
    using DefineGenQ_fresh [of 1 2 0, where ?'b = u8] by (simp_all add: genq_abs_def)
  then have r0: "spsc_reach spsc_sample"
    unfolding spsc_sample_def by (rule spsc_reach.start)
  note simps = spsc_sample_def DefineGenQ_def NEXTINQ_def
  from spsc_reach.step [OF r0 spsc_step.put_start [of _ 1 "[5]"]]
  have r1: "spsc_reach (spsc_sample\<lparr>sp_prod := PCopy 1 [5] 0\<rparr>)"
    by (simp add: simps)
  let ?q1 = "(DefineGenQ 0 1 2 :: u8 GenQ_t)\<lparr>gq_mem := (\<lambda>_. 0)(0 := 5)\<rparr>"
  from spsc_reach.step [OF r1 spsc_step.put_copy [of _ 1 "[5]" 0]]
  have r2: "spsc_reach (spsc_sample\<lparr>sp_q := ?q1, sp_prod := PCopy 1 [5] 1\<rparr>)"
    by (simp add: simps)
  let ?q2 = "?q1\<lparr>gq_next := 1\<rparr>"
  from spsc_reach.step [OF r2 spsc_step.put_commit [of _ 1 "[5]" 1]]
  have r3: "spsc_reach (spsc_sample\<lparr>sp_q := ?q2, sp_sent := [[5]]\<rparr>)"
    by (simp add: simps)
  from spsc_reach.step [OF r3 spsc_step.put_start [of _ 2 "[6]"]]
  have r4: "spsc_reach (spsc_sample\<lparr>sp_q := ?q2, sp_sent := [[5]], sp_prod := PCopy 2 [6] 0\<rparr>)"
    by (simp add: simps)
  from spsc_reach.step [OF r4 spsc_step.get_start]
  have r5: "spsc_reach (spsc_sample\<lparr>sp_q := ?q2, sp_sent := [[5]], sp_prod := PCopy 2 [6] 0,
      sp_cons := CCopy []\<rparr>)"
    by (simp add: simps)
  let ?q3 = "?q2\<lparr>gq_mem := (\<lambda>_. 0)(0 := 5, 1 := 6)\<rparr>"
  from spsc_reach.step [OF r5 spsc_step.put_copy [of _ 2 "[6]" 0]]
  have r6: "spsc_reach (spsc_sample\<lparr>sp_q := ?q3, sp_sent := [[5]], sp_prod := PCopy 2 [6] 1,
      sp_cons := CCopy []\<rparr>)"
    by (simp add: simps)
  from spsc_reach.step [OF r6 spsc_step.get_copy [of _ "[]"]]
  have r7: "spsc_reach (spsc_sample\<lparr>sp_q := ?q3, sp_sent := [[5]], sp_prod := PCopy 2 [6] 1,
      sp_cons := CCopy [5]\<rparr>)"
    by (simp add: simps)
  from spsc_reach.step [OF r7 spsc_step.get_commit [of _ "[5]"]]
  have r8: "spsc_reach (spsc_sample\<lparr>sp_q := ?q3\<lparr>gq_last := 1\<rparr>, sp_sent := [[5]],
      sp_prod := PCopy 2 [6] 1, sp_received := [[5]]\<rparr>)"
    by (simp add: simps)
  with GenQ_lock_free [OF r8] show ?thesis
    by (intro exI [of _ "spsc_sample\<lparr>sp_q := ?q3\<lparr>gq_last := 1\<rparr>, sp_sent := [[5]],
      sp_prod := PCopy 2 [6] 1, sp_received := [[5]]\<rparr>"]) (simp add: simps)
qed

end
