(* ===== verification/LinkNode.thy ===== *)
theory LinkNode
  imports Prelude
begin

text \<open>
  The intrusive stack of \<^verbatim>\<open>src/src/linkNode.c\<close> and \<^verbatim>\<open>linkNode.h\<close>. A node is an
  address, its \<open>next\<close> member lives in an explicit store, NULL is \<open>None\<close>. The promise of the
  two operations is that of a stack of distinct nodes.
\<close>

section \<open>Nodes and operations\<close>

record LinkBase_t =
  lb_next :: "int option"

type_synonym links = "int \<Rightarrow> LinkBase_t"

definition StackPop :: "links \<Rightarrow> int option \<Rightarrow> int option \<times> int option" where
  "StackPop m head = (case head of
     Some nxt \<Rightarrow> (Some nxt, lb_next (m nxt))
   | None \<Rightarrow> (None, None))"

definition StackPush :: "links \<Rightarrow> int option \<Rightarrow> int \<Rightarrow> int option \<times> links" where
  "StackPush m head node = (case head of
     Some nxt \<Rightarrow> (Some node, m(node := (m node)\<lparr>lb_next := Some nxt\<rparr>))
   | None \<Rightarrow> (Some node, m(node := (m node)\<lparr>lb_next := None\<rparr>)))"

section \<open>The stack a head pointer denotes\<close>

fun chain :: "links \<Rightarrow> int option \<Rightarrow> int list \<Rightarrow> bool" where
  "chain m p [] \<longleftrightarrow> p = None"
| "chain m p (a # as) \<longleftrightarrow> p = Some a \<and> chain m (lb_next (m a)) as"

lemma chain_unique: "chain m p xs \<Longrightarrow> chain m p ys \<Longrightarrow> xs = ys"
proof (induction xs arbitrary: p ys)
  case Nil
  then show ?case by (cases ys) auto
next
  case (Cons x xs)
  then show ?case by (cases ys) auto
qed

lemma chain_upd [simp]: "a \<notin> set xs \<Longrightarrow> chain (m(a := v)) p xs = chain m p xs"
  by (induction xs arbitrary: p) auto

lemma StackPush_chain:
  assumes "chain m head xs" "node \<notin> set xs"
  shows "chain (snd (StackPush m head node)) (fst (StackPush m head node)) (node # xs)"
  using assms by (cases xs) (auto simp: StackPush_def)

lemma StackPop_chain:
  assumes "chain m head xs"
  shows "fst (StackPop m head) = (case xs of [] \<Rightarrow> None | x # _ \<Rightarrow> Some x)"
    "chain m (snd (StackPop m head)) (tl xs)"
  using assms by (cases xs; auto simp: StackPop_def)+

text \<open>Pushing a list of distinct nodes and popping as many gives them back last in, first out.\<close>

fun push_all :: "links \<Rightarrow> int option \<Rightarrow> int list \<Rightarrow> int option \<times> links" where
  "push_all m head [] = (head, m)"
| "push_all m head (a # as) = (let (h, m') = StackPush m head a in push_all m' h as)"

fun pop_n :: "links \<Rightarrow> int option \<Rightarrow> nat \<Rightarrow> int option list \<times> int option" where
  "pop_n m head 0 = ([], head)"
| "pop_n m head (Suc n) = (let (r, h) = StackPop m head; (rs, h') = pop_n m h n in (r # rs, h'))"

lemma push_all_chain:
  "chain m head ys \<Longrightarrow> distinct xs \<Longrightarrow> set xs \<inter> set ys = {} \<Longrightarrow>
   chain (snd (push_all m head xs)) (fst (push_all m head xs)) (rev xs @ ys)"
proof (induction xs arbitrary: m head ys)
  case (Cons a as)
  let ?p = "StackPush m head a"
  have "chain (snd ?p) (fst ?p) (a # ys)"
    using Cons.prems by (intro StackPush_chain) auto
  from Cons.IH [OF this] Cons.prems show ?case
    by (auto split: prod.splits)
qed simp

lemma pop_n_chain:
  "chain m head (xs @ ys) \<Longrightarrow>
   fst (pop_n m head (length xs)) = map Some xs \<and> chain m (snd (pop_n m head (length xs))) ys"
proof (induction xs arbitrary: head)
  case (Cons a as)
  have "chain m (snd (StackPop m head)) (as @ ys)" "fst (StackPop m head) = Some a"
    using StackPop_chain [OF Cons.prems] by simp_all
  with Cons.IH show ?case
    by (fastforce simp: Let_def split: prod.splits)
qed simp

end
