(* ===== verification/GenPool.thy ===== *)
theory GenPool
  imports Prelude
begin

text \<open>
  The object pool of \<^verbatim>\<open>src/src/genPool.c\<close>, \<^verbatim>\<open>genPool.h\<close> and
  \<^verbatim>\<open>genPoolGenerators.h\<close>. A pool is a header followed by \<open>n\<close> cells; each cell is a
  \<open>PreBuf_t\<close> header followed by the user's object. The store maps addresses to the \<open>PreBuf_t\<close>
  and to the \<open>GenPool_t\<close> that memory holds there, because \<open>getPoolId\<close> works back from a bare
  object address to the header of the pool it came from. The layout is that of a 32 bit target:
  a \<open>PreBuf_t\<close> is 12 bytes and the cells start 20 bytes after the pool header. Addresses are
  integers (no wrap of the address space), NULL is 0.

  A callback is a value of type \<open>'cb\<close>; what calling it does is the argument \<open>run_cb\<close> of the
  definitions that call one. The result \<open>None\<close> of an operation with a loop means that it does not
  return (an endless loop or a failed \<open>assert\<close>); a null object pointer is \<open>Some (None, _)\<close>.
\<close>

section \<open>Layout\<close>

record 'cb PreBuf_t =
  pb_theboss :: u16
  pb_guard :: u16
  pb_onRelease :: "'cb CbInstance_t"

record 'cb GenPool_t =
  gp_next :: int
  gp_end :: int
  gp_onRelease :: "'cb option"
  gp_objectSize :: nat
  gp_cellSize :: int

record 'cb PreBufMeta_t =
  pm_objectSize :: nat
  pm_index :: int
  pm_onRelease :: "'cb CbInstance_t"

record PoolObjId_t =
  id_pool :: int
  id_pre :: int
  id_index :: int

record 'cb pool_heap =
  ph_pre :: "int \<Rightarrow> 'cb PreBuf_t"
  ph_pool :: "int \<Rightarrow> 'cb GenPool_t"

abbreviation sizeof_PreBuf :: int where "sizeof_PreBuf \<equiv> 12"
abbreviation offsetof_base :: int where "offsetof_base \<equiv> 20"

definition cell :: "('cb, 'z) pool_heap_scheme \<Rightarrow> int \<Rightarrow> int \<Rightarrow> int" where
  "cell h self i = self + offsetof_base + gp_cellSize (ph_pool h self) * i"

definition upd_pre ::
    "int \<Rightarrow> ('cb PreBuf_t \<Rightarrow> 'cb PreBuf_t) \<Rightarrow> ('cb, 'z) pool_heap_scheme \<Rightarrow> ('cb, 'z) pool_heap_scheme" where
  "upd_pre a f h = h\<lparr>ph_pre := (ph_pre h)(a := f (ph_pre h a))\<rparr>"

definition set_next :: "int \<Rightarrow> int \<Rightarrow> ('cb, 'z) pool_heap_scheme \<Rightarrow> ('cb, 'z) pool_heap_scheme" where
  "set_next self p h = h\<lparr>ph_pool := (ph_pool h)(self := (ph_pool h self)\<lparr>gp_next := p\<rparr>)\<rparr>"

section \<open>Operations\<close>

text \<open>\<open>GenPool_reset\<close>: the loop over the cells runs while \<open>next \<le> end\<close>.\<close>

partial_function (option) reset_loop ::
    "int \<Rightarrow> int \<Rightarrow> int \<Rightarrow> ('cb, 'z) pool_heap_scheme \<Rightarrow> ('cb, 'z) pool_heap_scheme option" where
  "reset_loop self nxt index h =
     (if nxt \<le> gp_end (ph_pool h self) then
        let h' = upd_pre nxt (\<lambda>p. p\<lparr>pb_theboss := 0, pb_guard := (if index \<noteq> 0 then 0 else 1)\<rparr>) h
        in reset_loop self (cell h' self (index + 1)) (index + 1) h'
      else Some h)"

declare reset_loop.simps [code]

definition GenPool_reset :: "int \<Rightarrow> ('cb, 'z) pool_heap_scheme \<Rightarrow> ('cb, 'z) pool_heap_scheme option" where
  "GenPool_reset self h =
     (if self \<noteq> 0 then
        case reset_loop self (cell h self 0) 0 h of
          None \<Rightarrow> None
        | Some h' \<Rightarrow> Some (set_next self (cell h' self 0) h')
      else Some h)"

text \<open>
  \<open>getPoolId\<close>: \<open>theboss\<close> is the distance back to the pool header in 32 bit words, \<open>guard\<close> the
  cell index plus one. \<open>div\<close> truncates; with remainder 0 its quotient is that of HOL.
\<close>

definition getPoolId :: "('cb, 'z) pool_heap_scheme \<Rightarrow> int \<Rightarrow> PoolObjId_t" where
  "getPoolId h p_obj =
     (let pre = p_obj - sizeof_PreBuf; b = ph_pre h pre in
      if pb_theboss b \<noteq> 0 \<and> pb_guard b \<noteq> 0 then
        let pool = pre - uint (pb_theboss b) * 4;
            c = gp_cellSize (ph_pool h pool);
            delta = pre - (pool + offsetof_base)
        in if delta mod c = 0 \<and> delta div c = uint (pb_guard b) - 1
           then \<lparr>id_pool = pool, id_pre = pre, id_index = delta div c\<rparr>
           else \<lparr>id_pool = 0, id_pre = 0, id_index = 0\<rparr>
      else \<lparr>id_pool = 0, id_pre = 0, id_index = 0\<rparr>)"

definition GenPool_object_meta :: "('cb, 'z) pool_heap_scheme \<Rightarrow> int \<Rightarrow> 'cb PreBufMeta_t" where
  "GenPool_object_meta h obj =
     (let id = getPoolId h obj in
      if id_pool id \<noteq> 0 then
        \<lparr>pm_objectSize = gp_objectSize (ph_pool h (id_pool id)), pm_index = id_index id,
         pm_onRelease = pb_onRelease (ph_pre h (id_pre id))\<rparr>
      else \<lparr>pm_objectSize = 0, pm_index = 0, pm_onRelease = \<lparr>cbi_callback = None, cbi_context = 0\<rparr>\<rparr>)"

text \<open>
  The search of \<open>GenPool_allocate_with_callback\<close>: it starts at \<open>self->next\<close>, skips claimed
  cells, wraps after the last one and gives up when it is back at the first index.
\<close>

partial_function (option) alloc_scan ::
    "('cb, 'z) pool_heap_scheme \<Rightarrow> int \<Rightarrow> int \<Rightarrow> int \<Rightarrow> int \<Rightarrow> (int \<times> int) option option" where
  "alloc_scan h self first nxt index =
     (if pb_theboss (ph_pre h nxt) \<noteq> 0 then
        let (nxt', index') =
              (if gp_end (ph_pool h self) \<le> nxt then (cell h self 0, 0)
               else (nxt + gp_cellSize (ph_pool h self), index + 1))
        in if index' = first then Some None else alloc_scan h self first nxt' index'
      else Some (Some (nxt, index)))"

declare alloc_scan.simps [code]

definition GenPool_allocate_with_callback ::
    "int \<Rightarrow> 'cb option \<Rightarrow> Context_t \<Rightarrow> ('cb, 'z) pool_heap_scheme \<Rightarrow>
     (int option \<times> ('cb, 'z) pool_heap_scheme) option" where
  "GenPool_allocate_with_callback self cb context h =
     (let nxt0 = gp_next (ph_pool h self);
          first = uint (pb_guard (ph_pre h nxt0)) - 1
      in case alloc_scan h self first nxt0 first of
           None \<Rightarrow> None
         | Some None \<Rightarrow> Some (None, h)
         | Some (Some (nxt, index)) \<Rightarrow>
             (let h1 = upd_pre nxt (\<lambda>p. p\<lparr>pb_theboss := pb_theboss p + 1\<rparr>) h;
                  h2 = upd_pre nxt (\<lambda>p. p\<lparr>pb_guard := word_of_int (index + 1)\<rparr>) h1;
                  delta = nxt - self
              in if delta mod 4 \<noteq> 0 then None
                 else let h3 = set_next self nxt h2;
                          ctx = (if context = -1 then nxt + sizeof_PreBuf else context);
                          h4 = upd_pre nxt (\<lambda>p. p\<lparr>pb_onRelease := \<lparr>cbi_callback = cb, cbi_context = ctx\<rparr>\<rparr>) h3;
                          h5 = upd_pre nxt (\<lambda>p. p\<lparr>pb_theboss := word_of_int (delta div 4)\<rparr>) h4
                      in Some (Some (nxt + sizeof_PreBuf), h5)))"

definition GenPool_allocate ::
    "int \<Rightarrow> ('cb, 'z) pool_heap_scheme \<Rightarrow> (int option \<times> ('cb, 'z) pool_heap_scheme) option" where
  "GenPool_allocate self h =
     GenPool_allocate_with_callback self (gp_onRelease (ph_pool h self)) (-1) h"

definition GenPool_return ::
    "('cb \<Rightarrow> Context_t \<Rightarrow> ('cb, 'z) pool_heap_scheme \<Rightarrow> Status_t \<times> ('cb, 'z) pool_heap_scheme) \<Rightarrow>
     int \<Rightarrow> ('cb, 'z) pool_heap_scheme \<Rightarrow> Status_t \<times> ('cb, 'z) pool_heap_scheme" where
  "GenPool_return run_cb obj h =
     (let id = getPoolId h obj; pre = id_pre id;
          release = (\<lambda>h. upd_pre pre (\<lambda>p. p\<lparr>pb_theboss := 0\<rparr>) (set_next (id_pool id) pre h))
      in if id_pool id \<noteq> 0 then
           (case cbi_callback (pb_onRelease (ph_pre h pre)) of
              Some cb \<Rightarrow>
                (let (status, h1) = run_cb cb (cbi_context (pb_onRelease (ph_pre h pre))) h in
                 if status = Status_Interrupt then (Status_OK, h1)
                 else (status, release
                        (upd_pre pre (\<lambda>p. p\<lparr>pb_onRelease := (pb_onRelease p)\<lparr>cbi_callback := None\<rparr>\<rparr>) h1)))
            | None \<Rightarrow> (Status_OK, release h))
         else (Status_Unexpected, h))"

definition GenPool_extract_callback ::
    "int \<Rightarrow> ('cb, 'z) pool_heap_scheme \<Rightarrow> 'cb CbInstance_t \<times> ('cb, 'z) pool_heap_scheme" where
  "GenPool_extract_callback obj h =
     (let id = getPoolId h obj in
      if id_pool id \<noteq> 0 then
        (pb_onRelease (ph_pre h (id_pre id)),
         upd_pre (id_pre id) (\<lambda>p. p\<lparr>pb_onRelease := (pb_onRelease p)\<lparr>cbi_callback := None\<rparr>\<rparr>) h)
      else (\<lparr>cbi_callback = None, cbi_context = 0\<rparr>, h))"

definition GenPool_set_return_callback ::
    "int \<Rightarrow> 'cb option \<Rightarrow> Context_t \<Rightarrow> ('cb, 'z) pool_heap_scheme \<Rightarrow>
     Status_t \<times> ('cb, 'z) pool_heap_scheme" where
  "GenPool_set_return_callback obj cb context h =
     (let id = getPoolId h obj in
      if id_pool id \<noteq> 0 then
        (Status_OK, upd_pre (id_pre id)
           (\<lambda>p. p\<lparr>pb_onRelease := \<lparr>cbi_callback = cb, cbi_context = context\<rparr>\<rparr>) h)
      else (Status_Unexpected, h))"

text \<open>\<open>GenPool_status\<close>: the out parameters are \<open>Some (available, total)\<close> when it gets that far.\<close>

partial_function (option) status_loop ::
    "('cb, 'z) pool_heap_scheme \<Rightarrow> int \<Rightarrow> int \<Rightarrow> int \<Rightarrow> int \<Rightarrow> (Status_t \<times> (int \<times> int) option) option" where
  "status_loop h self nxt guard unclaimed =
     (if nxt \<le> gp_end (ph_pool h self) then
        let b = ph_pre h nxt in
        if pb_guard b = 0 \<or> guard = uint (pb_guard b) then
          if pb_theboss b = 0 then
            status_loop h self (cell h self guard) (guard + 1) (unclaimed + 1)
          else if word_of_int ((nxt - self) div 4) \<noteq> pb_theboss b then Some (Status_BadState, None)
          else status_loop h self (cell h self guard) (guard + 1) unclaimed
        else Some (Status_BadState, None)
      else Some (Status_OK, Some (unclaimed, guard - 1)))"

declare status_loop.simps [code]

definition GenPool_status ::
    "int \<Rightarrow> ('cb, 'z) pool_heap_scheme \<Rightarrow> (Status_t \<times> (int \<times> int) option) option" where
  "GenPool_status self h =
     (if gp_next (ph_pool h self) \<le> gp_end (ph_pool h self) \<and> cell h self 0 \<le> gp_next (ph_pool h self)
      then status_loop h self (cell h self 0) 1 0
      else Some (Status_BadState, None))"

text \<open>The generator macros: the initial pool, and the typed status wrapper.\<close>

definition DefineGenPool ::
    "int \<Rightarrow> nat \<Rightarrow> nat \<Rightarrow> 'cb option \<Rightarrow> ('cb, 'z) pool_heap_scheme \<Rightarrow> ('cb, 'z) pool_heap_scheme" where
  "DefineGenPool self objsize len onRel h =
     (let c = 4 * ((12 + int objsize + 3) div 4);
          z = \<lparr>pb_theboss = 0, pb_guard = 0, pb_onRelease = \<lparr>cbi_callback = None, cbi_context = 0\<rparr>\<rparr>;
          base = self + offsetof_base
      in h\<lparr>ph_pool := (ph_pool h)(self :=
              \<lparr>gp_next = base, gp_end = base + c * (int len - 1), gp_onRelease = onRel,
               gp_objectSize = objsize, gp_cellSize = c\<rparr>),
            ph_pre := (\<lambda>a. if a = base then z\<lparr>pb_guard := 1\<rparr>
              else if base \<le> a \<and> a < base + c * int len \<and> (a - base) mod c = 0 then z
              else ph_pre h a)\<rparr>)"

definition pool_status :: "int \<Rightarrow> ('cb, 'z) pool_heap_scheme \<Rightarrow> int option" where
  "pool_status self h = (case GenPool_status self h of
     None \<Rightarrow> None
   | Some (s, out) \<Rightarrow> Some (case (s, out) of (Status_OK, Some (a, t)) \<Rightarrow> a | _ \<Rightarrow> 0))"

section \<open>Invariant\<close>

text \<open>
  The header describes \<open>n\<close> word-aligned cells whose distance from the header fits \<open>theboss\<close> and
  whose index plus one fits \<open>guard\<close>; every cell's guard is unset or right, a claimed cell carries
  its distance and its guard, and \<open>next\<close> is a cell whose guard is set.
\<close>

named_theorems pool_simps \<open>effect of the store updates on the store\<close>

definition boss :: "int \<Rightarrow> int \<Rightarrow> u16" where
  "boss c i = word_of_int ((offsetof_base + c * i) div 4)"

definition pool_hdr :: "('cb, 'z) pool_heap_scheme \<Rightarrow> int \<Rightarrow> nat \<Rightarrow> bool" where
  "pool_hdr h self n \<longleftrightarrow> self > 0 \<and> 0 < n \<and> n < 2 ^ 16 \<and>
     gp_cellSize (ph_pool h self) mod 4 = 0 \<and> sizeof_PreBuf \<le> gp_cellSize (ph_pool h self) \<and>
     offsetof_base + gp_cellSize (ph_pool h self) * int n < 2 ^ 18 \<and>
     gp_end (ph_pool h self) = cell h self (int n - 1)"

definition cell_ok :: "('cb, 'z) pool_heap_scheme \<Rightarrow> int \<Rightarrow> nat \<Rightarrow> bool" where
  "cell_ok h self i \<longleftrightarrow> (let b = ph_pre h (cell h self (int i)) in
     (pb_guard b = 0 \<or> uint (pb_guard b) = int i + 1) \<and>
     (pb_theboss b \<noteq> 0 \<longrightarrow> pb_theboss b = boss (gp_cellSize (ph_pool h self)) (int i) \<and>
        pb_guard b \<noteq> 0))"

definition pool_inv :: "('cb, 'z) pool_heap_scheme \<Rightarrow> int \<Rightarrow> nat \<Rightarrow> bool" where
  "pool_inv h self n \<longleftrightarrow> pool_hdr h self n \<and> (\<forall>i<n. cell_ok h self i) \<and>
     (\<exists>k<n. gp_next (ph_pool h self) = cell h self (int k) \<and>
        uint (pb_guard (ph_pre h (cell h self (int k)))) = int k + 1)"

definition free_cell :: "('cb, 'z) pool_heap_scheme \<Rightarrow> int \<Rightarrow> nat \<Rightarrow> bool" where
  "free_cell h self i \<longleftrightarrow> pb_theboss (ph_pre h (cell h self (int i))) = 0"

definition allocated :: "('cb, 'z) pool_heap_scheme \<Rightarrow> int \<Rightarrow> nat \<Rightarrow> nat set" where
  "allocated h self n = {i. i < n \<and> \<not> free_cell h self i}"

text \<open>The index of the cell the next search starts at.\<close>

definition next_ix :: "('cb, 'z) pool_heap_scheme \<Rightarrow> int \<Rightarrow> nat" where
  "next_ix h self = nat ((gp_next (ph_pool h self) - (self + offsetof_base)) div gp_cellSize (ph_pool h self))"

definition obj_of :: "('cb, 'z) pool_heap_scheme \<Rightarrow> int \<Rightarrow> nat \<Rightarrow> int" where
  "obj_of h self i = cell h self (int i) + sizeof_PreBuf"

lemma upd_pre_simps [pool_simps]:
  "ph_pre (upd_pre a f h) = (ph_pre h)(a := f (ph_pre h a))"
  "ph_pool (upd_pre a f h) = ph_pool h"
  "ph_pre (set_next self p h) = ph_pre h"
  "gp_next (ph_pool (set_next self p h) self) = p"
  "gp_end (ph_pool (set_next self p h) s) = gp_end (ph_pool h s)"
  "gp_cellSize (ph_pool (set_next self p h) s) = gp_cellSize (ph_pool h s)"
  "gp_onRelease (ph_pool (set_next self p h) s) = gp_onRelease (ph_pool h s)"
  "gp_objectSize (ph_pool (set_next self p h) s) = gp_objectSize (ph_pool h s)"
  by (simp_all add: upd_pre_def set_next_def)

lemma cell_upd [pool_simps]:
  "cell (upd_pre a f h) s i = cell h s i" "cell (set_next self p h) s i = cell h s i"
  by (simp_all add: cell_def pool_simps)

lemma cell_inj:
  assumes "pool_hdr h self n"
  shows "cell h self i = cell h self j \<longleftrightarrow> i = j"
  using assms by (auto simp: pool_hdr_def cell_def)

lemma cell_le:
  assumes "pool_hdr h self n"
  shows "cell h self i \<le> cell h self j \<longleftrightarrow> i \<le> j"
  using assms by (auto simp: pool_hdr_def cell_def)

lemma cell_step: "cell h self i + gp_cellSize (ph_pool h self) = cell h self (i + 1)"
  by (simp add: cell_def algebra_simps)

lemma boss_bounds:
  assumes "pool_hdr h self n" "i < n"
  defines "d \<equiv> offsetof_base + gp_cellSize (ph_pool h self) * int i"
  shows "uint (boss (gp_cellSize (ph_pool h self)) (int i)) = d div 4" "d mod 4 = 0" "0 < d" "d < 2 ^ 18"
    "uint (boss (gp_cellSize (ph_pool h self)) (int i)) * 4 = d"
    "boss (gp_cellSize (ph_pool h self)) (int i) \<noteq> 0"
proof -
  let ?c = "gp_cellSize (ph_pool h self)"
  have c: "?c mod 4 = 0" "12 \<le> ?c" "20 + ?c * int n < 2 ^ 18"
    using assms(1) by (simp_all add: pool_hdr_def)
  have "?c * int i \<le> ?c * int n"
    using assms(2) c by (intro mult_left_mono) auto
  then show "d < 2 ^ 18"
    using c(3) unfolding d_def by linarith
  have "0 \<le> ?c * int i"
    using c by (intro mult_nonneg_nonneg) auto
  then show pos: "0 < d"
    by (simp add: d_def)
  have "4 dvd ?c"
    using c(1) by auto
  then have "4 dvd 20 + ?c * int i"
    by (intro dvd_add dvd_mult2) auto
  then show m: "d mod 4 = 0"
    by (simp add: d_def)
  show u: "uint (boss ?c (int i)) = d div 4"
    using \<open>d < 2 ^ 18\<close> pos by (simp add: boss_def d_def uint_word_of_int)
  with m show "uint (boss ?c (int i)) * 4 = d"
    by presburger
  then show "boss ?c (int i) \<noteq> 0"
    using pos by auto
qed

lemma getPoolId_free:
  assumes "free_cell h self i"
  shows "id_pool (getPoolId h (obj_of h self i)) = 0"
  using assms by (simp add: getPoolId_def obj_of_def free_cell_def)

lemma getPoolId_allocated:
  assumes inv: "pool_hdr h self n" "cell_ok h self i" and i: "i < n" "\<not> free_cell h self i"
  shows "getPoolId h (obj_of h self i) =
    \<lparr>id_pool = self, id_pre = cell h self (int i), id_index = int i\<rparr>"
proof -
  let ?b = "ph_pre h (cell h self (int i))"
  let ?c = "gp_cellSize (ph_pool h self)"
  have b: "pb_theboss ?b = boss ?c (int i)" "pb_theboss ?b \<noteq> 0" "pb_guard ?b \<noteq> 0"
    "uint (pb_guard ?b) = int i + 1"
    using inv(2) i(2) by (auto simp: cell_ok_def free_cell_def Let_def)
  have "uint (pb_theboss ?b) * 4 = offsetof_base + ?c * int i"
    using boss_bounds(5) [OF inv(1) i(1)] b(1) by simp
  then have self: "cell h self (int i) - uint (pb_theboss ?b) * 4 = self"
    by (simp add: cell_def)
  have "cell h self (int i) - (self + offsetof_base) = ?c * int i"
    by (simp add: cell_def)
  moreover have "?c \<noteq> 0"
    using inv(1) by (simp add: pool_hdr_def)
  ultimately show ?thesis
    using b(2,3,4) self by (simp add: getPoolId_def obj_of_def Let_def)
qed

lemma next_ix_cell:
  assumes "pool_hdr h self n" "gp_next (ph_pool h self) = cell h self (int k)"
  shows "next_ix h self = k"
  using assms by (simp add: next_ix_def cell_def pool_hdr_def)

section \<open>What a pool promises\<close>

text \<open>
  The contract of \<^verbatim>\<open>genPool.h\<close>: a fixed set of objects, each free or handed out with an
  optional release callback. \<open>ps_cells\<close> maps the objects handed out to their callback, \<open>ps_addr\<close>
  gives the address under which the user knows an object, \<open>ps_next\<close> where the search starts.
  \<open>eff\<close> says what a release callback answers.
\<close>

record 'cb pool_spec =
  ps_cap :: nat
  ps_addr :: "nat \<Rightarrow> int"
  ps_onRelease :: "'cb option"
  ps_objectSize :: nat
  ps_next :: nat
  ps_cells :: "nat \<Rightarrow> 'cb CbInstance_t option"

datatype 'cb pool_op =
    PAllocate
  | PAllocate_with "'cb option" Context_t
  | PReturn nat
  | PMeta nat
  | PExtract nat
  | PSet_callback nat "'cb option" Context_t
  | PStatus

datatype 'cb pool_res =
    PR_obj "int option" | PR_status Status_t | PR_meta "'cb PreBufMeta_t"
  | PR_cb "'cb CbInstance_t" | PR_count "Status_t \<times> (int \<times> int) option" | PR_no_return

definition ps_search :: "'cb pool_spec \<Rightarrow> nat option" where
  "ps_search s = find (\<lambda>j. ps_cells s j = None) (map (\<lambda>k. (ps_next s + k) mod ps_cap s) [0..<ps_cap s])"

definition ps_alloc :: "'cb option \<Rightarrow> Context_t \<Rightarrow> 'cb pool_spec \<Rightarrow> 'cb pool_res \<times> 'cb pool_spec" where
  "ps_alloc cb ctx s = (case ps_search s of
     None \<Rightarrow> (PR_obj None, s)
   | Some j \<Rightarrow> (PR_obj (Some (ps_addr s j)),
       s\<lparr>ps_next := j, ps_cells := (ps_cells s)(j \<mapsto>
          \<lparr>cbi_callback = cb, cbi_context = (if ctx = -1 then ps_addr s j else ctx)\<rparr>)\<rparr>))"

definition ps_free :: "nat \<Rightarrow> 'cb pool_spec \<Rightarrow> 'cb pool_spec" where
  "ps_free i s = s\<lparr>ps_next := i, ps_cells := (ps_cells s)(i := None)\<rparr>"

fun pool_spec_step ::
    "('cb \<Rightarrow> Context_t \<Rightarrow> Status_t) \<Rightarrow> 'cb pool_op \<Rightarrow> 'cb pool_spec \<Rightarrow> 'cb pool_res \<times> 'cb pool_spec" where
  "pool_spec_step eff PAllocate s = ps_alloc (ps_onRelease s) (-1) s"
| "pool_spec_step eff (PAllocate_with cb ctx) s = ps_alloc cb ctx s"
| "pool_spec_step eff (PReturn i) s = (case ps_cells s i of
     None \<Rightarrow> (PR_status Status_Unexpected, s)
   | Some inst \<Rightarrow> (case cbi_callback inst of
       None \<Rightarrow> (PR_status Status_OK, ps_free i s)
     | Some cb \<Rightarrow> (let st = eff cb (cbi_context inst) in
         if st = Status_Interrupt then (PR_status Status_OK, s) else (PR_status st, ps_free i s))))"
| "pool_spec_step eff (PMeta i) s = (case ps_cells s i of
     None \<Rightarrow> (PR_meta \<lparr>pm_objectSize = 0, pm_index = 0, pm_onRelease = \<lparr>cbi_callback = None, cbi_context = 0\<rparr>\<rparr>, s)
   | Some inst \<Rightarrow> (PR_meta \<lparr>pm_objectSize = ps_objectSize s, pm_index = int i, pm_onRelease = inst\<rparr>, s))"
| "pool_spec_step eff (PExtract i) s = (case ps_cells s i of
     None \<Rightarrow> (PR_cb \<lparr>cbi_callback = None, cbi_context = 0\<rparr>, s)
   | Some inst \<Rightarrow> (PR_cb inst, s\<lparr>ps_cells := (ps_cells s)(i \<mapsto> inst\<lparr>cbi_callback := None\<rparr>)\<rparr>))"
| "pool_spec_step eff (PSet_callback i cb ctx) s = (case ps_cells s i of
     None \<Rightarrow> (PR_status Status_Unexpected, s)
   | Some inst \<Rightarrow> (PR_status Status_OK,
       s\<lparr>ps_cells := (ps_cells s)(i \<mapsto> \<lparr>cbi_callback = cb, cbi_context = ctx\<rparr>)\<rparr>))"
| "pool_spec_step eff PStatus s =
     (PR_count (Status_OK, Some (int (length (filter (\<lambda>i. ps_cells s i = None) [0..<ps_cap s])),
                                 int (ps_cap s))), s)"

text \<open>The code's step for the same operations, on the object addresses the user holds.\<close>

definition alloc_res ::
    "(int option \<times> ('cb, 'z) pool_heap_scheme) option \<Rightarrow> ('cb, 'z) pool_heap_scheme \<Rightarrow>
     'cb pool_res \<times> ('cb, 'z) pool_heap_scheme" where
  "alloc_res r h = (case r of None \<Rightarrow> (PR_no_return, h) | Some (p, h') \<Rightarrow> (PR_obj p, h'))"

fun pool_step ::
    "('cb \<Rightarrow> Context_t \<Rightarrow> Status_t) \<Rightarrow> int \<Rightarrow> 'cb pool_op \<Rightarrow> ('cb, 'z) pool_heap_scheme \<Rightarrow>
     'cb pool_res \<times> ('cb, 'z) pool_heap_scheme" where
  "pool_step eff self PAllocate h = alloc_res (GenPool_allocate self h) h"
| "pool_step eff self (PAllocate_with cb ctx) h = alloc_res (GenPool_allocate_with_callback self cb ctx h) h"
| "pool_step eff self (PReturn i) h =
     (let (s, h') = GenPool_return (\<lambda>cb ctx h. (eff cb ctx, h)) (obj_of h self i) h in (PR_status s, h'))"
| "pool_step eff self (PMeta i) h = (PR_meta (GenPool_object_meta h (obj_of h self i)), h)"
| "pool_step eff self (PExtract i) h =
     (let (c, h') = GenPool_extract_callback (obj_of h self i) h in (PR_cb c, h'))"
| "pool_step eff self (PSet_callback i cb ctx) h =
     (let (s, h') = GenPool_set_return_callback (obj_of h self i) cb ctx h in (PR_status s, h'))"
| "pool_step eff self PStatus h =
     (case GenPool_status self h of None \<Rightarrow> (PR_no_return, h) | Some r \<Rightarrow> (PR_count r, h))"

fun pool_adm :: "nat \<Rightarrow> 'cb pool_op \<Rightarrow> bool" where
  "pool_adm n (PReturn i) = (i < n)"
| "pool_adm n (PMeta i) = (i < n)"
| "pool_adm n (PExtract i) = (i < n)"
| "pool_adm n (PSet_callback i cb ctx) = (i < n)"
| "pool_adm n op = True"

definition pool_abs :: "int \<Rightarrow> nat \<Rightarrow> ('cb, 'z) pool_heap_scheme \<Rightarrow> 'cb pool_spec" where
  "pool_abs self n h =
     \<lparr>ps_cap = n, ps_addr = obj_of h self, ps_onRelease = gp_onRelease (ph_pool h self),
      ps_objectSize = gp_objectSize (ph_pool h self), ps_next = next_ix h self,
      ps_cells = (\<lambda>i. if i < n \<and> \<not> free_cell h self i
                      then Some (pb_onRelease (ph_pre h (cell h self (int i)))) else None)\<rparr>"

section \<open>One updated cell\<close>

text \<open>Every operation writes one cell and perhaps \<open>next\<close>; this is what such a write does.\<close>

lemma pool_update:
  fixes h h' :: "('cb, 'z) pool_heap_scheme"
  assumes inv: "pool_inv h self n" and i: "i < n" and k: "k < n"
    and pre: "ph_pre h' = (ph_pre h)(cell h self (int i) := b)"
    and pool: "ph_pool h' self = (ph_pool h self)\<lparr>gp_next := cell h self (int k)\<rparr>"
    and kk: "k = i \<or> k = next_ix h self"
    and b: "uint (pb_guard b) = int i + 1"
      "pb_theboss b = 0 \<or> pb_theboss b = boss (gp_cellSize (ph_pool h self)) (int i)"
  shows "pool_inv h' self n"
    "pool_abs self n h' = (pool_abs self n h)\<lparr>ps_next := k,
       ps_cells := (ps_cells (pool_abs self n h))(i := if pb_theboss b = 0 then None else Some (pb_onRelease b))\<rparr>"
proof -
  have hdr: "pool_hdr h self n"
    using inv by (simp add: pool_inv_def)
  have cell: "cell h' self = cell h self"
    by (simp add: fun_eq_iff cell_def pool)
  have hdr': "pool_hdr h' self n"
    using hdr by (simp add: pool_hdr_def cell pool)
  have other: "ph_pre h' (cell h' self (int j)) = ph_pre h (cell h self (int j))" if "j \<noteq> i" for j
    using that cell_inj [OF hdr] by (simp add: pre cell)
  have same: "ph_pre h' (cell h' self (int i)) = b"
    by (simp add: pre cell)
  have free: "free_cell h' self j = (if j = i then pb_theboss b = 0 else free_cell h self j)" for j
    using other same by (simp add: free_cell_def)
  have "cell_ok h' self j" if "j < n" for j
  proof (cases "j = i")
    case True
    have "pb_guard b \<noteq> 0"
      using b(1) by auto
    with True b same show ?thesis
      by (auto simp: cell_ok_def Let_def pool)
  next
    case False
    with that inv other show ?thesis
      by (simp add: pool_inv_def cell_ok_def Let_def pool)
  qed
  moreover have "uint (pb_guard (ph_pre h' (cell h' self (int k)))) = int k + 1"
  proof (cases "k = i")
    case False
    with kk inv next_ix_cell [OF hdr] have
      "uint (pb_guard (ph_pre h (cell h self (int k)))) = int k + 1"
      by (auto simp: pool_inv_def)
    with other False show ?thesis by simp
  qed (simp add: same b)
  ultimately show "pool_inv h' self n"
    using hdr' k by (auto simp: pool_inv_def cell pool)
  show "pool_abs self n h' = (pool_abs self n h)\<lparr>ps_next := k,
       ps_cells := (ps_cells (pool_abs self n h))(i := if pb_theboss b = 0 then None else Some (pb_onRelease b))\<rparr>"
    using i next_ix_cell [OF hdr', of k] other same
    by (auto simp: pool_abs_def free cell pool obj_of_def fun_eq_iff)
qed

lemma pool_next_ix:
  assumes "pool_inv h self n"
  shows "next_ix h self < n" "gp_next (ph_pool h self) = cell h self (int (next_ix h self))"
    "uint (pb_guard (ph_pre h (gp_next (ph_pool h self)))) = int (next_ix h self) + 1"
  using assms next_ix_cell [of h self n] by (auto simp: pool_inv_def)

section \<open>The search\<close>

lemma alloc_scan_step:
  assumes hdr: "pool_hdr h self n" and i: "i < n"
  shows "alloc_scan h self f (cell h self (int i)) (int i) =
    (if free_cell h self i then Some (Some (cell h self (int i), int i))
     else if int (Suc i mod n) = f then Some None
     else alloc_scan h self f (cell h self (int (Suc i mod n))) (int (Suc i mod n)))"
proof -
  have last: "gp_end (ph_pool h self) \<le> cell h self (int i) \<longleftrightarrow> Suc i = n"
    using hdr i cell_le [OF hdr] by (auto simp: pool_hdr_def)
  have "int (Suc i mod n) = (if Suc i = n then 0 else int i + 1)"
    by (simp add: ring_succ [OF i])
  then show ?thesis
    by (subst alloc_scan.simps) (simp add: free_cell_def last cell_step)
qed

lemma alloc_scan_find:
  assumes hdr: "pool_hdr h self n"
  shows "i < n \<Longrightarrow> f = (i + Suc d) mod n \<Longrightarrow> d < n \<Longrightarrow>
    alloc_scan h self (int f) (cell h self (int i)) (int i) =
      Some (map_option (\<lambda>j. (cell h self (int j), int j))
        (find (free_cell h self) (map (\<lambda>k. (i + k) mod n) [0..<Suc d])))"
proof (induction d arbitrary: i)
  case 0
  then show ?case
    by (simp add: alloc_scan_step [OF hdr])
next
  case (Suc d)
  let ?i = "Suc i mod n"
  have f: "f = (?i + Suc d) mod n"
    using Suc.prems mod_add_left_eq [of "Suc i" n "Suc d"] by simp
  have ne: "int ?i \<noteq> int f"
    unfolding f using Suc.prems(3) ring_add [of ?i n "Suc d"] Suc.prems(1) by auto
  have ih: "alloc_scan h self (int f) (cell h self (int ?i)) (int ?i) =
      Some (map_option (\<lambda>j. (cell h self (int j), int j))
        (find (free_cell h self) (map (\<lambda>k. (?i + k) mod n) [0..<Suc d])))"
    using Suc.IH [OF _ f] Suc.prems by simp
  have shift: "(i + Suc k) mod n = (?i + k) mod n" for k
    by (metis add_Suc_shift mod_add_left_eq)
  have list: "map (\<lambda>k. (i + k) mod n) [0..<Suc (Suc d)] = i # map (\<lambda>k. (?i + k) mod n) [0..<Suc d]"
    by (simp only: map_upt_Suc shift mod_less add_0_right Suc.prems(1))
  show ?case
    unfolding alloc_scan_step [OF hdr Suc.prems(1)] list ih using ne by simp
qed

lemma pool_abs_cells:
  "i < n \<Longrightarrow> ps_cells (pool_abs self n h) i =
    (if free_cell h self i then None else Some (pb_onRelease (ph_pre h (cell h self (int i)))))"
  by (simp add: pool_abs_def)

lemma ps_search_Some:
  "ps_search s = Some j \<Longrightarrow> j < ps_cap s \<and> ps_cells s j = None"
  by (auto simp: ps_search_def find_Some_iff dest: gr_implies_not0)

lemma ps_search_None:
  assumes "ps_search s = None" "j < ps_cap s" "ps_next s < ps_cap s"
  shows "ps_cells s j \<noteq> None"
proof -
  have "j = (ps_next s + ring_count (ps_cap s) j (ps_next s)) mod ps_cap s"
    using ring_count_target [OF assms(2,3)] by simp
  moreover have "ring_count (ps_cap s) j (ps_next s) \<in> set [0..<ps_cap s]"
    using ring_count_less [OF assms(2,3)] by simp
  ultimately have "j \<in> set (map (\<lambda>k. (ps_next s + k) mod ps_cap s) [0..<ps_cap s])"
    unfolding set_map by (rule image_eqI)
  with assms(1) show ?thesis
    unfolding ps_search_def find_None_iff by metis
qed

lemma alloc_scan_search:
  assumes inv: "pool_inv h self n"
  shows "alloc_scan h self (int (next_ix h self)) (gp_next (ph_pool h self)) (int (next_ix h self)) =
    Some (map_option (\<lambda>j. (cell h self (int j), int j)) (ps_search (pool_abs self n h)))"
proof -
  let ?k = "next_ix h self"
  have hdr: "pool_hdr h self n" and k: "?k < n"
    using inv pool_next_ix [OF inv] by (simp_all add: pool_inv_def)
  have "find (\<lambda>j. ps_cells (pool_abs self n h) j = None) (map (\<lambda>k. (?k + k) mod n) [0..<n]) =
      find (free_cell h self) (map (\<lambda>k. (?k + k) mod n) [0..<n])"
    using k by (intro find_cong) (auto simp: pool_abs_cells split: if_splits)
  then have "ps_search (pool_abs self n h) = find (free_cell h self) (map (\<lambda>k. (?k + k) mod n) [0..<Suc (n - 1)])"
    using k by (simp add: ps_search_def pool_abs_def del: upt_Suc)
  moreover have "?k = (?k + Suc (n - 1)) mod n"
    using k by simp
  ultimately show ?thesis
    unfolding pool_next_ix(2) [OF inv] using alloc_scan_find [OF hdr k, of ?k "n - 1"] k by simp
qed

section \<open>Each operation implements the contract\<close>

lemma allocate_with_callback_sim:
  fixes h :: "('cb, 'z) pool_heap_scheme"
  assumes inv: "pool_inv h self n"
  shows "pool_inv (snd (alloc_res (GenPool_allocate_with_callback self cb ctx h) h)) self n"
    "ps_alloc cb ctx (pool_abs self n h) =
      (fst (alloc_res (GenPool_allocate_with_callback self cb ctx h) h),
       pool_abs self n (snd (alloc_res (GenPool_allocate_with_callback self cb ctx h) h)))"
proof -
  let ?r = "GenPool_allocate_with_callback self cb ctx h"
  let ?c = "gp_cellSize (ph_pool h self)"
  have hdr: "pool_hdr h self n"
    using inv by (simp add: pool_inv_def)
  have first: "uint (pb_guard (ph_pre h (gp_next (ph_pool h self)))) - 1 = int (next_ix h self)"
    using pool_next_ix [OF inv] by simp
  have "pool_inv (snd (alloc_res ?r h)) self n \<and>
    ps_alloc cb ctx (pool_abs self n h) = (fst (alloc_res ?r h), pool_abs self n (snd (alloc_res ?r h)))"
  proof (cases "ps_search (pool_abs self n h)")
    case None
    then show ?thesis
      using inv by (simp add: GenPool_allocate_with_callback_def first alloc_scan_search [OF inv]
          alloc_res_def ps_alloc_def)
  next
    case (Some j)
    let ?a = "cell h self (int j)"
    let ?cx = "if ctx = -1 then ?a + sizeof_PreBuf else ctx"
    let ?b = "\<lparr>pb_theboss = boss ?c (int j), pb_guard = word_of_int (int j + 1),
      pb_onRelease = \<lparr>cbi_callback = cb, cbi_context = ?cx\<rparr>\<rparr>"
    define h' where "h' = upd_pre ?a (\<lambda>p. p\<lparr>pb_theboss := pb_theboss ?b\<rparr>)
      (upd_pre ?a (\<lambda>p. p\<lparr>pb_onRelease := pb_onRelease ?b\<rparr>)
        (set_next self ?a (upd_pre ?a (\<lambda>p. p\<lparr>pb_guard := pb_guard ?b\<rparr>)
          (upd_pre ?a (\<lambda>p. p\<lparr>pb_theboss := pb_theboss p + 1\<rparr>) h))))"
    have j: "j < n"
      using ps_search_Some [OF Some] by (simp add: pool_abs_def)
    note bb = boss_bounds [OF hdr j]
    have delta: "?a - self = offsetof_base + ?c * int j"
      by (simp add: cell_def)
    have r: "?r = Some (Some (?a + sizeof_PreBuf), h')"
      using bb(2) delta by (simp add: GenPool_allocate_with_callback_def first alloc_scan_search [OF inv]
          Some h'_def Let_def boss_def)
    have g: "uint (pb_guard ?b) = int j + 1"
      by (simp only: PreBuf_t.simps uint_word_of_int) (use j hdr in \<open>simp add: pool_hdr_def\<close>)
    have pre: "ph_pre h' = (ph_pre h)(?a := ?b)"
      by (cases "ph_pre h ?a") (simp add: h'_def pool_simps)
    have pool: "ph_pool h' self = (ph_pool h self)\<lparr>gp_next := cell h self (int j)\<rparr>"
      by (simp add: h'_def upd_pre_def set_next_def)
    have bo: "pb_theboss ?b = 0 \<or> pb_theboss ?b = boss ?c (int j)"
      by simp
    note upd = pool_update [OF inv j j pre pool _ g bo, simplified]
    have addr: "ps_addr (pool_abs self n h) j = ?a + sizeof_PreBuf"
      by (simp add: pool_abs_def obj_of_def)
    show ?thesis
      using upd bb(6) by (simp add: r alloc_res_def ps_alloc_def Some addr)
  qed
  then show "pool_inv (snd (alloc_res ?r h)) self n"
    "ps_alloc cb ctx (pool_abs self n h) = (fst (alloc_res ?r h), pool_abs self n (snd (alloc_res ?r h)))"
    by blast+
qed

lemma allocate_sim:
  fixes h :: "('cb, 'z) pool_heap_scheme"
  assumes inv: "pool_inv h self n"
  shows "pool_inv (snd (pool_step eff self PAllocate h)) self n"
    "pool_spec_step eff PAllocate (pool_abs self n h) =
      (fst (pool_step eff self PAllocate h), pool_abs self n (snd (pool_step eff self PAllocate h)))"
  using allocate_with_callback_sim [OF inv]
  by (simp_all add: GenPool_allocate_def pool_abs_def [of self n h])

lemma getPoolId_cell:
  assumes inv: "pool_inv h self n" and i: "i < n"
  shows "getPoolId h (obj_of h self i) = (if free_cell h self i
      then getPoolId h (obj_of h self i)
      else \<lparr>id_pool = self, id_pre = cell h self (int i), id_index = int i\<rparr>)"
    "id_pool (getPoolId h (obj_of h self i)) = (if free_cell h self i then 0 else self)"
    "self \<noteq> 0"
  using getPoolId_free [of h self i] getPoolId_allocated [of h self n i] inv i
  by (auto simp: pool_inv_def pool_hdr_def)

text \<open>Rewriting the callback of a claimed cell.\<close>

lemma set_cb_sim:
  fixes h :: "('cb, 'z) pool_heap_scheme" and f :: "'cb PreBuf_t \<Rightarrow> 'cb PreBuf_t"
  assumes inv: "pool_inv h self n" and i: "i < n" "\<not> free_cell h self i"
    and f: "\<And>p. pb_theboss (f p) = pb_theboss p" "\<And>p. pb_guard (f p) = pb_guard p"
  defines "h' \<equiv> upd_pre (cell h self (int i)) f h"
  shows "pool_inv h' self n"
    "pool_abs self n h' = (pool_abs self n h)\<lparr>ps_cells := (ps_cells (pool_abs self n h))
       (i \<mapsto> pb_onRelease (f (ph_pre h (cell h self (int i)))))\<rparr>"
proof -
  let ?b = "f (ph_pre h (cell h self (int i)))"
  have ok: "cell_ok h self i"
    using inv i by (simp add: pool_inv_def)
  have b: "uint (pb_guard ?b) = int i + 1" "pb_theboss ?b = boss (gp_cellSize (ph_pool h self)) (int i)"
    "pb_theboss ?b \<noteq> 0"
    using ok i(2) by (auto simp: f cell_ok_def Let_def free_cell_def)
  have pre: "ph_pre h' = (ph_pre h)(cell h self (int i) := ?b)"
    by (simp add: h'_def pool_simps)
  have pool: "ph_pool h' self = (ph_pool h self)\<lparr>gp_next := cell h self (int (next_ix h self))\<rparr>"
    using pool_next_ix(2) [OF inv] by (simp add: h'_def pool_simps)
  note upd = pool_update [OF inv i(1) pool_next_ix(1) [OF inv] pre pool _ b(1)]
  show "pool_inv h' self n"
    by (rule upd(1)) (simp_all add: b(2))
  have "pool_abs self n h' = (pool_abs self n h)\<lparr>ps_next := next_ix h self,
       ps_cells := (ps_cells (pool_abs self n h))(i := if pb_theboss ?b = 0 then None else Some (pb_onRelease ?b))\<rparr>"
    by (rule upd(2)) (simp_all add: b(2))
  then show "pool_abs self n h' = (pool_abs self n h)\<lparr>ps_cells := (ps_cells (pool_abs self n h))
       (i \<mapsto> pb_onRelease ?b)\<rparr>"
    using b(3) by (simp add: pool_abs_def [of self n h])
qed

lemma release_sim:
  fixes h :: "('cb, 'z) pool_heap_scheme"
  assumes inv: "pool_inv h self n" and i: "i < n" "\<not> free_cell h self i"
  defines "h' \<equiv> upd_pre (cell h self (int i)) (\<lambda>p. p\<lparr>pb_theboss := 0\<rparr>) (set_next self (cell h self (int i)) h)"
  shows "pool_inv h' self n" "pool_abs self n h' = ps_free i (pool_abs self n h)"
proof -
  let ?b = "(ph_pre h (cell h self (int i)))\<lparr>pb_theboss := 0\<rparr>"
  have "cell_ok h self i"
    using inv i by (simp add: pool_inv_def)
  then have b: "uint (pb_guard ?b) = int i + 1"
    using i(2) by (auto simp: cell_ok_def Let_def free_cell_def)
  have pre: "ph_pre h' = (ph_pre h)(cell h self (int i) := ?b)"
    by (simp add: h'_def pool_simps)
  have pool: "ph_pool h' self = (ph_pool h self)\<lparr>gp_next := cell h self (int i)\<rparr>"
    by (simp add: h'_def upd_pre_def set_next_def)
  note upd = pool_update [OF inv i(1,1) pre pool _ b, simplified]
  show "pool_inv h' self n" "pool_abs self n h' = ps_free i (pool_abs self n h)"
    using upd by (simp_all add: ps_free_def)
qed

lemma return_sim:
  fixes h :: "('cb, 'z) pool_heap_scheme"
  assumes inv: "pool_inv h self n" and i: "i < n"
  shows "pool_inv (snd (pool_step eff self (PReturn i) h)) self n \<and>
    pool_spec_step eff (PReturn i) (pool_abs self n h) =
      (fst (pool_step eff self (PReturn i) h), pool_abs self n (snd (pool_step eff self (PReturn i) h)))"
proof (cases "free_cell h self i")
  case True
  then show ?thesis
    using inv by (simp add: GenPool_return_def getPoolId_free pool_abs_cells [OF i])
next
  case False
  let ?a = "cell h self (int i)"
  let ?r = "pb_onRelease (ph_pre h ?a)"
  let ?h1 = "upd_pre ?a (\<lambda>p. p\<lparr>pb_onRelease := (pb_onRelease p)\<lparr>cbi_callback := None\<rparr>\<rparr>) h"
  have id: "getPoolId h (obj_of h self i) = \<lparr>id_pool = self, id_pre = ?a, id_index = int i\<rparr>"
    and self: "self \<noteq> 0"
    using getPoolId_cell [OF inv i] False by simp_all
  have "pool_inv ?h1 self n" and abs1: "pool_abs self n ?h1 = (pool_abs self n h)\<lparr>ps_cells := (ps_cells (pool_abs self n h))
       (i \<mapsto> ?r\<lparr>cbi_callback := None\<rparr>)\<rparr>"
    using set_cb_sim [OF inv i False, of "\<lambda>p. p\<lparr>pb_onRelease := (pb_onRelease p)\<lparr>cbi_callback := None\<rparr>\<rparr>"]
    by simp_all
  note rel = release_sim [OF inv i False]
  have f1: "\<not> free_cell ?h1 self i"
    using False by (simp add: free_cell_def pool_simps)
  note rel1 = release_sim [OF \<open>pool_inv ?h1 self n\<close> i f1, unfolded abs1 cell_upd]
  show ?thesis
    using rel rel1 inv self False
    by (cases "cbi_callback ?r")
      (simp_all add: GenPool_return_def id pool_abs_cells [OF i] Let_def ps_free_def)
qed

lemma callback_ops_sim:
  fixes h :: "('cb, 'z) pool_heap_scheme"
  assumes inv: "pool_inv h self n" and i: "i < n" and x: "x = PMeta i \<or> x = PExtract i \<or> x = PSet_callback i cb ctx"
  shows "pool_inv (snd (pool_step eff self x h)) self n \<and>
    pool_spec_step eff x (pool_abs self n h) =
      (fst (pool_step eff self x h), pool_abs self n (snd (pool_step eff self x h)))"
proof (cases "free_cell h self i")
  case True
  then show ?thesis
    using x inv by (auto simp: getPoolId_free pool_abs_cells [OF i] GenPool_object_meta_def
        GenPool_extract_callback_def GenPool_set_return_callback_def)
next
  case False
  have id: "getPoolId h (obj_of h self i) = \<lparr>id_pool = self, id_pre = cell h self (int i), id_index = int i\<rparr>"
    and self: "self \<noteq> 0"
    using getPoolId_cell [OF inv i] False by simp_all
  have sz: "gp_objectSize (ph_pool h self) = ps_objectSize (pool_abs self n h)"
    by (simp add: pool_abs_def)
  from x show ?thesis
    using set_cb_sim [OF inv i False, of "\<lambda>p. p\<lparr>pb_onRelease := (pb_onRelease p)\<lparr>cbi_callback := None\<rparr>\<rparr>"]
      set_cb_sim [OF inv i False, of "\<lambda>p. p\<lparr>pb_onRelease := \<lparr>cbi_callback = cb, cbi_context = ctx\<rparr>\<rparr>"] inv
    by (auto simp: id self sz pool_abs_cells [OF i] False GenPool_object_meta_def
        GenPool_extract_callback_def GenPool_set_return_callback_def Let_def)
qed

section \<open>Status and reset\<close>

lemma status_loop_count:
  assumes inv: "pool_inv h self n"
  shows "j \<le> n \<Longrightarrow> status_loop h self (cell h self (int j)) (int j + 1) u =
    Some (Status_OK, Some (u + int (length (filter (free_cell h self) [j..<n])), int n))"
proof (induction "n - j" arbitrary: j u)
  case 0
  then have "j = n" by simp
  then show ?case
    using inv cell_le [of h self n "int n" "int n - 1"]
    by (subst status_loop.simps) (auto simp: pool_inv_def pool_hdr_def)
next
  case (Suc d)
  then have j: "j < n" by simp
  have hdr: "pool_hdr h self n" and ok: "cell_ok h self j"
    using inv j by (simp_all add: pool_inv_def)
  have le: "cell h self (int j) \<le> gp_end (ph_pool h self)"
    using hdr j cell_le [OF hdr] by (simp add: pool_hdr_def)
  have boss: "word_of_int ((cell h self (int j) - self) div 4) = boss (gp_cellSize (ph_pool h self)) (int j)"
    by (simp add: boss_def cell_def)
  have "d = n - Suc j" "Suc j \<le> n"
    using Suc.hyps(2) j by simp_all
  from Suc.hyps(1) [OF this] have ih:
    "status_loop h self (cell h self (int j + 1)) (int j + 1 + 1) v =
      Some (Status_OK, Some (v + int (length (filter (free_cell h self) [Suc j..<n])), int n))" for v
    by (simp add: add.commute)
  have fl: "length (filter (free_cell h self) [j..<n]) =
      (if free_cell h self j then 1 else 0) + length (filter (free_cell h self) [Suc j..<n])"
    using j by (simp add: upt_conv_Cons)
  let ?b = "ph_pre h (cell h self (int j))"
  have g: "pb_guard ?b = 0 \<or> int j + 1 = uint (pb_guard ?b)"
    and t: "pb_theboss ?b \<noteq> 0 \<Longrightarrow> word_of_int ((cell h self (int j) - self) div 4) = pb_theboss ?b"
    using ok by (auto simp: cell_ok_def Let_def boss)
  have "status_loop h self (cell h self (int j)) (int j + 1) u =
      status_loop h self (cell h self (int j + 1)) (int j + 1 + 1) (if free_cell h self j then u + 1 else u)"
    by (subst status_loop.simps) (simp add: le g t free_cell_def Let_def)
  then show ?case
    unfolding ih fl by simp
qed

lemma status_sim:
  assumes inv: "pool_inv h self n"
  shows "GenPool_status self h =
    Some (Status_OK, Some (int (length (filter (\<lambda>i. ps_cells (pool_abs self n h) i = None) [0..<n])), int n))"
proof -
  have hdr: "pool_hdr h self n" and k: "next_ix h self < n"
    using inv pool_next_ix [OF inv] by (simp_all add: pool_inv_def)
  have b: "gp_next (ph_pool h self) \<le> gp_end (ph_pool h self)" "cell h self 0 \<le> gp_next (ph_pool h self)"
    unfolding pool_next_ix(2) [OF inv] using hdr k cell_le [OF hdr] by (simp_all add: pool_hdr_def)
  have f: "filter (\<lambda>i. ps_cells (pool_abs self n h) i = None) [0..<n] = filter (free_cell h self) [0..<n]"
    by (intro filter_cong) (auto simp: pool_abs_cells split: if_splits)
  show ?thesis
    using b status_loop_count [OF inv, of 0 0] unfolding f by (simp add: GenPool_status_def)
qed

lemma pool_forward_sim:
  "forward_sim (pool_step eff self) (pool_spec_step eff) (pool_abs self n)
     (\<lambda>h :: ('cb, 'z) pool_heap_scheme. pool_inv h self n) (\<lambda>_. pool_adm n)"
proof
  fix h :: "('cb, 'z) pool_heap_scheme" and x :: "'cb pool_op"
  assume inv: "pool_inv h self n" and adm: "pool_adm n x"
  have "pool_inv (snd (pool_step eff self x h)) self n \<and>
    pool_spec_step eff x (pool_abs self n h) =
      (fst (pool_step eff self x h), pool_abs self n (snd (pool_step eff self x h)))"
  proof (cases x)
    case PAllocate
    then show ?thesis using allocate_sim [OF inv] by blast
  next
    case (PAllocate_with cb ctx)
    then show ?thesis using allocate_with_callback_sim [OF inv, of cb ctx] by simp
  next
    case (PReturn i)
    then show ?thesis using return_sim [OF inv] adm by (simp del: pool_step.simps pool_spec_step.simps)
  next
    case PStatus
    have "ps_cap (pool_abs self n h) = n"
      by (simp add: pool_abs_def)
    with PStatus show ?thesis using inv by (simp add: status_sim [OF inv])
  qed (use callback_ops_sim [OF inv] adm in \<open>simp_all del: pool_step.simps pool_spec_step.simps\<close>)
  then show "pool_inv (snd (pool_step eff self x h)) self n"
    "pool_spec_step eff x (pool_abs self n h) =
      (fst (pool_step eff self x h), pool_abs self n (snd (pool_step eff self x h)))"
    by blast+
qed simp

interpretation pool_sim: forward_sim "pool_step eff self" "pool_spec_step eff" "pool_abs self n"
    "\<lambda>h :: ('cb, 'z) pool_heap_scheme. pool_inv h self n" "\<lambda>_. pool_adm n"
  for eff :: "'cb \<Rightarrow> Context_t \<Rightarrow> Status_t" and self n
  by (rule pool_forward_sim)

text \<open>A defined pool is ready, with every object free.\<close>

definition pool_fits :: "int \<Rightarrow> nat \<Rightarrow> nat \<Rightarrow> bool" where
  "pool_fits self objsize len \<longleftrightarrow> self > 0 \<and> 0 < len \<and> len < 2 ^ 16 \<and>
     offsetof_base + 4 * ((12 + int objsize + 3) div 4) * int len < 2 ^ 18"

lemma DefineGenPool_inv:
  fixes h :: "('cb, 'z) pool_heap_scheme" and onRel :: "'cb option"
  assumes fits: "pool_fits self objsize len"
  defines "h' \<equiv> DefineGenPool self objsize len onRel h"
  shows "pool_inv h' self len" "i < len \<Longrightarrow> free_cell h' self i"
    "ps_cells (pool_abs self len h') = Map.empty"
proof -
  define c where "c = 4 * ((12 + int objsize + 3) div 4)"
  have c: "c mod 4 = 0" "12 \<le> c" "offsetof_base + c * int len < 2 ^ 18"
    using fits by (simp_all add: c_def pool_fits_def)
  have pool: "ph_pool h' self = \<lparr>gp_next = self + offsetof_base, gp_end = self + offsetof_base + c * (int len - 1),
      gp_onRelease = onRel, gp_objectSize = objsize, gp_cellSize = c\<rparr>"
    by (simp add: h'_def DefineGenPool_def c_def Let_def)
  have cell: "cell h' self i = self + offsetof_base + c * i" for i
    by (simp add: cell_def pool)
  let ?z = "\<lparr>pb_theboss = 0, pb_guard = 0, pb_onRelease = \<lparr>cbi_callback = None, cbi_context = 0\<rparr>\<rparr>"
  have pre0: "ph_pre h' a = (if a = self + offsetof_base then ?z\<lparr>pb_guard := 1\<rparr>
      else if self + offsetof_base \<le> a \<and> a < self + offsetof_base + c * int len \<and>
        (a - (self + offsetof_base)) mod c = 0 then ?z else ph_pre h a)" for a
    by (simp add: h'_def DefineGenPool_def c_def Let_def)
  have pre: "pb_theboss (ph_pre h' (cell h' self (int i))) = 0 \<and>
      pb_guard (ph_pre h' (cell h' self (int i))) = (if i = 0 then 1 else 0)" if "i < len" for i
  proof -
    have "c * int i < c * int len" "0 \<le> c * int i" "c * int i = 0 \<longleftrightarrow> i = 0"
      using that c(2) by (auto simp: zero_le_mult_iff)
    then show ?thesis
      unfolding cell pre0 by simp
  qed
  show "pool_inv h' self len"
    unfolding pool_inv_def
  proof (intro conjI allI impI exI [of _ 0])
    show "pool_hdr h' self len"
      using c fits by (simp add: pool_hdr_def pool cell pool_fits_def)
  qed (use pre pre [of 0] fits in \<open>auto simp: cell_ok_def Let_def pool cell pool_fits_def\<close>)
  show free: "i < len \<Longrightarrow> free_cell h' self i" for i
    using pre by (simp add: free_cell_def)
  show "ps_cells (pool_abs self len h') = Map.empty"
    using free by (auto simp: pool_abs_def)
qed

lemma reset_loop_cells:
  assumes hdr: "pool_hdr h self n"
  shows "j \<le> n \<Longrightarrow> pool_hdr h1 self n \<Longrightarrow> ph_pool h1 = ph_pool h \<Longrightarrow>
    \<exists>h'. reset_loop self (cell h self (int j)) (int j) h1 = Some h' \<and> ph_pool h' = ph_pool h \<and>
      (\<forall>i<n. ph_pre h' (cell h self (int i)) = (if i < j then ph_pre h1 (cell h self (int i))
         else (ph_pre h1 (cell h self (int i)))\<lparr>pb_theboss := 0, pb_guard := (if i = 0 then 1 else 0)\<rparr>)) \<and>
      (\<forall>a. (\<forall>i<n. a \<noteq> cell h self (int i)) \<longrightarrow> ph_pre h' a = ph_pre h1 a)"
proof (induction "n - j" arbitrary: j h1)
  case 0
  then have "j = n" by simp
  with 0 show ?case
    using cell_le [OF hdr, of "int n" "int n - 1"] hdr
    by (subst reset_loop.simps) (auto simp: pool_hdr_def)
next
  case (Suc d)
  then have j: "j < n" by simp
  define h2 where "h2 = upd_pre (cell h self (int j))
    (\<lambda>p. p\<lparr>pb_theboss := 0, pb_guard := (if int j \<noteq> 0 then 0 else 1)\<rparr>) h1"
  have cells: "cell h1 self = cell h self" "cell h2 self = cell h self"
    using Suc.prems(3) by (auto simp: fun_eq_iff cell_def h2_def pool_simps)
  have h2: "pool_hdr h2 self n" "ph_pool h2 = ph_pool h"
    using Suc.prems hdr by (simp_all add: h2_def pool_simps pool_hdr_def)
  have le: "cell h self (int j) \<le> gp_end (ph_pool h1 self)"
    using hdr j cell_le [OF hdr] by (simp add: pool_hdr_def Suc.prems(3))
  have "d = n - Suc j" "Suc j \<le> n"
    using Suc.hyps(2) j by simp_all
  from Suc.hyps(1) [OF this h2] obtain h' where h':
    "reset_loop self (cell h self (int (Suc j))) (int (Suc j)) h2 = Some h'" "ph_pool h' = ph_pool h"
    "\<forall>i<n. ph_pre h' (cell h self (int i)) = (if i < Suc j then ph_pre h2 (cell h self (int i))
         else (ph_pre h2 (cell h self (int i)))\<lparr>pb_theboss := 0, pb_guard := (if i = 0 then 1 else 0)\<rparr>)"
    "\<forall>a. (\<forall>i<n. a \<noteq> cell h self (int i)) \<longrightarrow> ph_pre h' a = ph_pre h2 a"
    by blast
  have step: "reset_loop self (cell h self (int j)) (int j) h1 =
      reset_loop self (cell h2 self (int j + 1)) (int j + 1) h2"
    by (subst reset_loop.simps) (simp only: le if_True h2_def Let_def)
  have "reset_loop self (cell h self (int j)) (int j) h1 = Some h'"
    using h'(1) unfolding step by (simp add: cells add.commute)
  moreover have "\<forall>i<n. ph_pre h' (cell h self (int i)) = (if i < j then ph_pre h1 (cell h self (int i))
         else (ph_pre h1 (cell h self (int i)))\<lparr>pb_theboss := 0, pb_guard := (if i = 0 then 1 else 0)\<rparr>)"
    using h'(3) cell_inj [OF hdr] by (auto simp: h2_def pool_simps less_Suc_eq)
  moreover have "\<forall>a. (\<forall>i<n. a \<noteq> cell h self (int i)) \<longrightarrow> ph_pre h' a = ph_pre h1 a"
    using h'(4) j by (simp add: h2_def pool_simps)
  ultimately show ?case
    using h'(2) by blast
qed

lemma GenPool_reset_cells:
  assumes hdr: "pool_hdr h self n"
  obtains h' where "GenPool_reset self h = Some h'" "pool_inv h' self n"
    "\<And>i. i < n \<Longrightarrow> free_cell h' self i" "ps_next (pool_abs self n h') = 0"
    "\<And>a. (\<forall>i<n. a \<noteq> cell h self (int i)) \<Longrightarrow> ph_pre h' a = ph_pre h a"
proof -
  obtain h1 where h1: "reset_loop self (cell h self 0) 0 h = Some h1" "ph_pool h1 = ph_pool h"
    "\<forall>i<n. ph_pre h1 (cell h self (int i)) =
       (ph_pre h (cell h self (int i)))\<lparr>pb_theboss := 0, pb_guard := (if i = 0 then 1 else 0)\<rparr>"
    "\<forall>a. (\<forall>i<n. a \<noteq> cell h self (int i)) \<longrightarrow> ph_pre h1 a = ph_pre h a"
    using reset_loop_cells [OF hdr, of 0 h] hdr by auto
  define h' where "h' = set_next self (cell h self 0) h1"
  have cells: "cell h1 self = cell h self" "cell h' self = cell h self"
    using h1(2) by (auto simp: fun_eq_iff cell_def h'_def pool_simps)
  have n: "0 < n" and self: "self \<noteq> 0"
    using hdr by (auto simp: pool_hdr_def)
  have hdr': "pool_hdr h' self n"
    using hdr by (simp add: pool_hdr_def cells) (simp add: h'_def pool_simps h1(2))
  have next': "gp_next (ph_pool h' self) = cell h' self (int 0)"
    unfolding cells by (simp add: h'_def pool_simps)
  have pre: "ph_pre h' = ph_pre h1"
    by (simp add: h'_def pool_simps)
  show thesis
  proof
    show "GenPool_reset self h = Some h'"
      using h1(1) self by (simp add: GenPool_reset_def h'_def cells)
    show "pool_inv h' self n"
      unfolding pool_inv_def
      using hdr' next' n h1(3) by (auto simp: cell_ok_def Let_def pre cells intro!: exI [of _ 0])
    show "free_cell h' self i" if "i < n" for i
      using h1(3) that by (simp add: free_cell_def pre cells)
    show "ps_next (pool_abs self n h') = 0"
      using next_ix_cell [OF hdr' next'] by (simp add: pool_abs_def)
    show "ph_pre h' a = ph_pre h a" if "\<forall>i<n. a \<noteq> cell h self (int i)" for a
      using h1(4) that by (simp add: pre)
  qed
qed

section \<open>The object found\<close>

lemma allocate_found:
  fixes h :: "('cb, 'z) pool_heap_scheme"
  assumes inv: "pool_inv h self n" and Some: "ps_search (pool_abs self n h) = Some j"
  shows "\<exists>h'. GenPool_allocate_with_callback self cb ctx h = Some (Some (obj_of h self j), h') \<and>
    pool_inv h' self n \<and> j < n \<and> j \<notin> allocated h self n \<and>
    allocated h' self n = insert j (allocated h self n) \<and>
    getPoolId h' (obj_of h self j) = \<lparr>id_pool = self, id_pre = cell h self (int j), id_index = int j\<rparr> \<and>
    pb_onRelease (ph_pre h' (cell h self (int j))) =
      \<lparr>cbi_callback = cb, cbi_context = (if ctx = -1 then obj_of h self j else ctx)\<rparr>"
proof -
  let ?r = "GenPool_allocate_with_callback self cb ctx h"
  let ?abs = "pool_abs self n"
  let ?inst = "\<lparr>cbi_callback = cb, cbi_context = (if ctx = -1 then obj_of h self j else ctx)\<rparr>"
  note sim = allocate_with_callback_sim [OF inv, of cb ctx]
  have alloc: "allocated g self n = dom (ps_cells (?abs g))" for g :: "('cb, 'z) pool_heap_scheme"
    by (auto simp: allocated_def pool_abs_def dom_def)
  have sa: "ps_addr (?abs h) = obj_of h self"
    by (simp add: pool_abs_def)
  obtain h' where r: "?r = Some (Some (obj_of h self j), h')"
    using sim(2) by (auto simp: ps_alloc_def Some alloc_res_def sa split: option.splits)
  have inv': "pool_inv h' self n"
    and abs': "?abs h' = (?abs h)\<lparr>ps_next := j, ps_cells := (ps_cells (?abs h))(j \<mapsto> ?inst)\<rparr>"
    using sim by (auto simp: ps_alloc_def Some alloc_res_def r sa)
  have j: "j < n" "j \<notin> allocated h self n"
    using ps_search_Some [OF Some] by (auto simp: alloc) (simp add: pool_abs_def)
  have "ps_addr (?abs h') j = ps_addr (?abs h) j" "ps_cells (?abs h') j = Some ?inst"
    by (simp_all add: abs')
  then have addr: "obj_of h' self j = obj_of h self j" "cell h' self (int j) = cell h self (int j)"
    and nf: "\<not> free_cell h' self j" and cb: "pb_onRelease (ph_pre h' (cell h' self (int j))) = ?inst"
    using j(1) by (auto simp: pool_abs_def obj_of_def split: if_splits)
  have "getPoolId h' (obj_of h self j) = \<lparr>id_pool = self, id_pre = cell h self (int j), id_index = int j\<rparr>"
    using getPoolId_cell(1) [OF inv' j(1)] nf by (simp add: addr)
  moreover have "allocated h' self n = insert j (allocated h self n)"
    by (auto simp: alloc abs')
  ultimately show ?thesis
    using r inv' j cb by (simp add: addr)
qed

text \<open>The object returned.\<close>

lemma allocated_abs: "allocated h self n = dom (ps_cells (pool_abs self n h))"
  by (auto simp: allocated_def pool_abs_def dom_def)

lemma release_effect:
  fixes h :: "('cb, 'z) pool_heap_scheme"
  assumes inv: "pool_inv h self n" and i: "i < n" "\<not> free_cell h self i"
  defines "h' \<equiv> upd_pre (cell h self (int i)) (\<lambda>p. p\<lparr>pb_theboss := 0\<rparr>) (set_next self (cell h self (int i)) h)"
  shows "pool_inv h' self n \<and> allocated h' self n = allocated h self n - {i} \<and> next_ix h' self = i"
proof -
  have "next_ix h' self = ps_next (pool_abs self n h')"
    by (simp add: pool_abs_def)
  with release_sim [OF inv i] show ?thesis
    by (auto simp: h'_def allocated_abs ps_free_def)
qed

lemma release_after_callback:
  fixes h :: "('cb, 'z) pool_heap_scheme"
  assumes inv: "pool_inv h self n" and i: "i < n" "\<not> free_cell h self i"
  defines "h1 \<equiv> upd_pre (cell h self (int i)) (\<lambda>p. p\<lparr>pb_onRelease := (pb_onRelease p)\<lparr>cbi_callback := None\<rparr>\<rparr>) h"
  defines "h' \<equiv> upd_pre (cell h self (int i)) (\<lambda>p. p\<lparr>pb_theboss := 0\<rparr>) (set_next self (cell h self (int i)) h1)"
  shows "pool_inv h' self n \<and> allocated h' self n = allocated h self n - {i} \<and> next_ix h' self = i"
proof -
  have inv1: "pool_inv h1 self n" and "dom (ps_cells (pool_abs self n h1)) = insert i (allocated h self n)"
    using set_cb_sim [OF inv i, of "\<lambda>p. p\<lparr>pb_onRelease := (pb_onRelease p)\<lparr>cbi_callback := None\<rparr>\<rparr>"]
    by (simp_all add: h1_def allocated_abs)
  moreover have "\<not> free_cell h1 self i" "cell h1 self = cell h self"
    using i(2) by (auto simp: h1_def free_cell_def pool_simps fun_eq_iff)
  ultimately show ?thesis
    using release_effect [OF inv1 i(1)] by (simp add: h'_def allocated_abs)
qed

section \<open>Properties\<close>

text \<open> C4. A pool behaves as a fixed set of objects: every sequence of allocations (with or without
  callback), returns, queries and callback updates on its objects returns what the contract says,
  whatever the order; in particular the search of an allocation always returns, and a returned or
  never allocated object is recognised as such. The pool's invariant holds throughout. \<close>

theorem GenPool_run_refines:
  fixes h :: "('cb, 'z) pool_heap_scheme"
  assumes "pool_inv h self n" "list_all (pool_adm n) xs"
  shows "fst (run_ops (pool_step eff self) xs h) = fst (run_ops (pool_spec_step eff) xs (pool_abs self n h)) \<and>
    pool_inv (snd (run_ops (pool_step eff self) xs h)) self n"
  using pool_sim.run_results [OF assms] pool_sim.run_inv [OF assms] by simp

definition demo_heap :: "nat pool_heap" where
  "demo_heap = DefineGenPool 1000 4 2 None
     \<lparr>ph_pre = (\<lambda>_. \<lparr>pb_theboss = 0, pb_guard = 0, pb_onRelease = \<lparr>cbi_callback = None, cbi_context = 0\<rparr>\<rparr>),
      ph_pool = (\<lambda>_. \<lparr>gp_next = 0, gp_end = 0, gp_onRelease = None, gp_objectSize = 0, gp_cellSize = 0\<rparr>)\<rparr>"

lemma demo_heap_inv: "pool_inv demo_heap 1000 2"
  unfolding demo_heap_def by (rule DefineGenPool_inv) (simp add: pool_fits_def)

theorem GenPool_run_refines_witness:
  "fst (run_ops (pool_step (\<lambda>_ _. Status_OK) 1000)
     [PAllocate, PAllocate_with (Some 7) 5, PAllocate, PReturn 0, PReturn 0, PStatus] demo_heap) =
   [PR_obj (Some 1032), PR_obj (Some 1048), PR_obj None, PR_status Status_OK,
    PR_status Status_Unexpected, PR_count (Status_OK, Some (1, 2))]"
proof -
  let ?xs = "[PAllocate, PAllocate_with (Some 7) 5, PAllocate, PReturn 0, PReturn 0, PStatus] :: nat pool_op list"
  have "list_all (pool_adm 2) ?xs"
    by simp
  from GenPool_run_refines [OF demo_heap_inv this, of "\<lambda>_ _. Status_OK", THEN conjunct1]
  have "fst (run_ops (pool_step (\<lambda>_ _. Status_OK) 1000) ?xs demo_heap) =
    fst (run_ops (pool_spec_step (\<lambda>_ _. Status_OK)) ?xs (pool_abs 1000 2 demo_heap))" .
  also have "\<dots> = [PR_obj (Some 1032), PR_obj (Some 1048), PR_obj None, PR_status Status_OK,
    PR_status Status_Unexpected, PR_count (Status_OK, Some (1, 2))]"
    by code_simp
  finally show ?thesis .
qed





text \<open> C7. Whatever a pool went through, \<open>GenPool_reset\<close> returns and leaves it ready with every
  object free, which \<open>GenPool_status\<close> then reports, without touching memory outside its cells. \<close>

theorem GenPool_reset_ready:
  fixes h :: "('cb, 'z) pool_heap_scheme"
  assumes "pool_hdr h self n"
  shows "\<exists>h'. GenPool_reset self h = Some h' \<and> pool_inv h' self n \<and> allocated h' self n = {} \<and>
    GenPool_status self h' = Some (Status_OK, Some (int n, int n)) \<and>
    (\<forall>a. (\<forall>i<n. a \<noteq> cell h self (int i)) \<longrightarrow> ph_pre h' a = ph_pre h a)"
proof -
  obtain h' where h': "GenPool_reset self h = Some h'" "pool_inv h' self n"
    "\<And>i. i < n \<Longrightarrow> free_cell h' self i"
    "\<And>a. (\<forall>i<n. a \<noteq> cell h self (int i)) \<Longrightarrow> ph_pre h' a = ph_pre h a"
    by (rule GenPool_reset_cells [OF assms], rule that, assumption+)
  have "filter (\<lambda>i. ps_cells (pool_abs self n h') i = None) [0..<n] = [0..<n]"
    using h'(3) by (intro filter_True) (simp add: pool_abs_cells)
  then have "GenPool_status self h' = Some (Status_OK, Some (int n, int n))"
    using status_sim [OF h'(2)] by simp
  moreover have "allocated h' self n = {}"
    using h'(3) by (simp add: allocated_def)
  ultimately show ?thesis
    using h'(1,2,4) by blast
qed

theorem GenPool_reset_ready_witness:
  "\<exists>h'. GenPool_reset 1000 demo_heap = Some h' \<and>
     GenPool_status 1000 h' = Some (Status_OK, Some (2, 2))"
  using GenPool_reset_ready [of demo_heap 1000 2] demo_heap_inv
  by (auto simp: pool_inv_def)

end
