(* ===== verification/IsrComm.thy ===== *)
theory IsrComm
  imports GenPool GenQ
begin

text \<open>
  \<^verbatim>\<open>src/src/isr_comm.c\<close>, \<^verbatim>\<open>isr_comm.h\<close> and \<^verbatim>\<open>isr_comm_generators.h\<close>: pool objects
  travel from user code to an interrupt handler and back through queues of object pointers, and
  release callbacks must only run in user code. The world extends the pool store of \<open>GenPool\<close> by
  the queues (by handle; \<open>isrRetQ\<close> is handle 0), the process targets and the error counters.
  A queue unit is one pointer. A function with a loop returns \<open>None\<close> when it does not return.
\<close>

section \<open>State\<close>

record IsrProcessTarget_t =
  ipt_iptPool :: int
  ipt_toIsrQ :: "nat option"
  ipt_fromIsrQ :: "nat option"
  ipt_droppedTo :: u32
  ipt_droppedFrom :: u32

record 'cb isr_world = "'cb pool_heap" +
  iw_queue :: "nat \<Rightarrow> int GenQ_t"
  iw_ipt :: "nat \<Rightarrow> IsrProcessTarget_t"
  isrReqQ_dropped_objects :: u32
  isrReqQ_errors :: u32

abbreviation isrRetQ :: nat where "isrRetQ \<equiv> 0"
abbreviation RET_Q_LEN :: nat where "RET_Q_LEN \<equiv> 20"

type_synonym ('cb, 'z) callbacks =
  "'cb \<Rightarrow> Context_t \<Rightarrow> ('cb, 'z) isr_world_scheme \<Rightarrow> Status_t \<times> ('cb, 'z) isr_world_scheme"

text \<open>Putting a pointer on a queue of the world, and getting one.\<close>

definition q_put :: "nat \<Rightarrow> int \<Rightarrow> ('cb, 'z) isr_world_scheme \<Rightarrow> Status_t \<times> ('cb, 'z) isr_world_scheme" where
  "q_put k obj w = (case GenQ_Put (Some (iw_queue w k)) [obj] of
     (st, Some q) \<Rightarrow> (st, w\<lparr>iw_queue := (iw_queue w)(k := q)\<rparr>)
   | (st, None) \<Rightarrow> (st, w))"

definition q_get :: "nat \<Rightarrow> ('cb, 'z) isr_world_scheme \<Rightarrow> Status_t \<times> int option \<times> ('cb, 'z) isr_world_scheme" where
  "q_get k w = (case GenQ_Get (Some (iw_queue w k)) of
     (st, Some [obj], Some q) \<Rightarrow> (st, Some obj, w\<lparr>iw_queue := (iw_queue w)(k := q)\<rparr>)
   | (st, _, _) \<Rightarrow> (st, None, w))"

definition q_reset :: "nat \<Rightarrow> ('cb, 'z) isr_world_scheme \<Rightarrow> ('cb, 'z) isr_world_scheme" where
  "q_reset k w = w\<lparr>iw_queue := (iw_queue w)(k := GenQ_Reset (iw_queue w k))\<rparr>"

section \<open>Operations in the interrupt layer\<close>

definition ReturnPoolObject ::
    "('cb, 'z) callbacks \<Rightarrow> int \<Rightarrow> ('cb, 'z) isr_world_scheme \<Rightarrow> ('cb, 'z) isr_world_scheme" where
  "ReturnPoolObject run_cb obj w =
     (case q_put isrRetQ obj w of (status, w1) \<Rightarrow>
        if status \<noteq> Status_OK then
          let w2 = w1\<lparr>isrReqQ_dropped_objects := isrReqQ_dropped_objects w1 + 1\<rparr>;
              w3 = snd (GenPool_extract_callback obj w2)
          in snd (GenPool_return run_cb obj w3)
        else w1)"

definition returnPoolObjectToProcess ::
    "('cb, 'z) callbacks \<Rightarrow> nat \<Rightarrow> nat \<Rightarrow> int \<Rightarrow> ('cb, 'z) isr_world_scheme \<Rightarrow> ('cb, 'z) isr_world_scheme" where
  "returnPoolObjectToProcess run_cb ipt fromQ obj w =
     (case q_put fromQ obj w of (status, w1) \<Rightarrow>
        if status \<noteq> Status_OK then
          let w2 = w1\<lparr>iw_ipt := (iw_ipt w1)(ipt := (iw_ipt w1 ipt)
                       \<lparr>ipt_droppedFrom := ipt_droppedFrom (iw_ipt w1 ipt) + 1\<rparr>)\<rparr>
          in ReturnPoolObject run_cb obj w2
        else w1)"

definition Ipt_ReturnToUserProcess ::
    "('cb, 'z) callbacks \<Rightarrow> nat \<Rightarrow> int \<Rightarrow> ('cb, 'z) isr_world_scheme \<Rightarrow> ('cb, 'z) isr_world_scheme" where
  "Ipt_ReturnToUserProcess run_cb ipt obj w =
     (case ipt_fromIsrQ (iw_ipt w ipt) of
        Some q \<Rightarrow> returnPoolObjectToProcess run_cb ipt q obj w
      | None \<Rightarrow> ReturnPoolObject run_cb obj w)"

definition Ipt_DequeueInIsr ::
    "nat \<Rightarrow> ('cb, 'z) isr_world_scheme \<Rightarrow> Status_t \<times> int option \<times> ('cb, 'z) isr_world_scheme" where
  "Ipt_DequeueInIsr ipt w = (case ipt_toIsrQ (iw_ipt w ipt) of
     Some q \<Rightarrow> q_get q w
   | None \<Rightarrow> (Status_BadState, None, w))"

section \<open>Operations in the user layer\<close>

partial_function (option) ProcessReturnPoolObjects ::
    "('cb, 'z) callbacks \<Rightarrow> ('cb, 'z) isr_world_scheme \<Rightarrow> ('cb, 'z) isr_world_scheme option" where
  "ProcessReturnPoolObjects run_cb w =
     (case q_get isrRetQ w of
        (st, Some obj, w1) \<Rightarrow>
          if st = Status_OK then
            (case GenPool_return run_cb obj w1 of (rs, w2) \<Rightarrow>
               ProcessReturnPoolObjects run_cb
                 (if rs \<noteq> Status_OK then w2\<lparr>isrReqQ_errors := isrReqQ_errors w2 + 1\<rparr> else w2))
          else Some w1
      | (st, None, w1) \<Rightarrow> Some w1)"

declare ProcessReturnPoolObjects.simps [code]

definition Ipt_Reset ::
    "('cb, 'z) callbacks \<Rightarrow> nat \<Rightarrow> ('cb, 'z) isr_world_scheme \<Rightarrow> ('cb, 'z) isr_world_scheme option" where
  "Ipt_Reset run_cb ipt w =
     (let t = iw_ipt w ipt;
          w1 = (case ipt_toIsrQ t of Some q \<Rightarrow> q_reset q w | None \<Rightarrow> w);
          w2 = (case ipt_fromIsrQ t of Some q \<Rightarrow> q_reset q w1 | None \<Rightarrow> w1)
      in case GenPool_reset (ipt_iptPool t) w2 of
           None \<Rightarrow> None
         | Some w3 \<Rightarrow> (if ipt_fromIsrQ t = None then ProcessReturnPoolObjects run_cb w3 else Some w3))"

definition sendPoolObjectToIsr ::
    "nat \<Rightarrow> int \<Rightarrow> ('cb, 'z) isr_world_scheme \<Rightarrow> Status_t \<times> ('cb, 'z) isr_world_scheme" where
  "sendPoolObjectToIsr toQ obj w = q_put toQ obj w"

definition Ipt_SendToIsr ::
    "nat \<Rightarrow> int \<Rightarrow> ('cb, 'z) isr_world_scheme \<Rightarrow> Status_t \<times> ('cb, 'z) isr_world_scheme" where
  "Ipt_SendToIsr ipt obj w = (case ipt_toIsrQ (iw_ipt w ipt) of
     Some q \<Rightarrow> sendPoolObjectToIsr q obj w
   | None \<Rightarrow> (Status_BadState, w))"

definition Ipt_ReceiveFromIsr ::
    "nat \<Rightarrow> ('cb, 'z) isr_world_scheme \<Rightarrow> Status_t \<times> int option \<times> ('cb, 'z) isr_world_scheme" where
  "Ipt_ReceiveFromIsr ipt w = (case ipt_fromIsrQ (iw_ipt w ipt) of
     Some q \<Rightarrow> q_get q w
   | None \<Rightarrow> (Status_BadState, None, w))"

section \<open>Generated targets (isr_comm_generators.h)\<close>

text \<open>
  \<open>ipt\<close> is the handle of the target, \<open>toQ\<close> and \<open>fromQ\<close> those of its queues (of single pointers),
  \<open>pool\<close> the address of its pool of \<open>depth\<close> objects of \<open>sz\<close> bytes.
\<close>

definition DefineSingleIsrObjectQueue ::
    "nat \<Rightarrow> nat \<Rightarrow> int \<Rightarrow> nat \<Rightarrow> nat \<Rightarrow> 'cb option \<Rightarrow> ('cb, 'z) isr_world_scheme \<Rightarrow> ('cb, 'z) isr_world_scheme" where
  "DefineSingleIsrObjectQueue ipt toQ pool sz depth complete w =
     (DefineGenPool pool sz depth complete w)
       \<lparr>iw_queue := (iw_queue w)(toQ := DefineStaticGenQ 0 1 depth),
        iw_ipt := (iw_ipt w)(ipt := \<lparr>ipt_iptPool = pool, ipt_toIsrQ = Some toQ,
          ipt_fromIsrQ = None, ipt_droppedTo = 0, ipt_droppedFrom = 0\<rparr>)\<rparr>"

definition DefineDoubleIsrObjectQueue ::
    "nat \<Rightarrow> nat \<Rightarrow> nat \<Rightarrow> int \<Rightarrow> nat \<Rightarrow> nat \<Rightarrow> 'cb option \<Rightarrow> ('cb, 'z) isr_world_scheme \<Rightarrow>
     ('cb, 'z) isr_world_scheme" where
  "DefineDoubleIsrObjectQueue ipt toQ fromQ pool sz depth complete w =
     (DefineGenPool pool sz depth complete w)
       \<lparr>iw_queue := (iw_queue w)(toQ := DefineStaticGenQ 0 1 depth, fromQ := DefineStaticGenQ 0 1 depth),
        iw_ipt := (iw_ipt w)(ipt := \<lparr>ipt_iptPool = pool, ipt_toIsrQ = Some toQ,
          ipt_fromIsrQ = Some fromQ, ipt_droppedTo = 0, ipt_droppedFrom = 0\<rparr>)\<rparr>"

definition Allocate_Object ::
    "nat \<Rightarrow> ('cb, 'z) isr_world_scheme \<Rightarrow> (int option \<times> ('cb, 'z) isr_world_scheme) option" where
  "Allocate_Object ipt w = GenPool_allocate (ipt_iptPool (iw_ipt w ipt)) w"

section \<open>The queues of the world\<close>

definition ptrs :: "int GenQ_t \<Rightarrow> int list" where
  "ptrs q = map hd (genq_items q)"

definition ptr_queue :: "int GenQ_t \<Rightarrow> bool" where
  "ptr_queue q \<longleftrightarrow> genq_inv q \<and> gq_objectSize q = 1"

lemma genq_items_size: "x \<in> set (genq_items q) \<Longrightarrow> length x = gq_objectSize q"
  by (auto simp: genq_items_def slot_read_def Let_def)

lemma ptr_items:
  assumes "ptr_queue q"
  shows "genq_items q = map (\<lambda>p. [p]) (ptrs q)"
proof -
  have "[hd x] = x" if "x \<in> set (genq_items q)" for x
    using genq_items_size [OF that] assms by (cases x) (auto simp: ptr_queue_def)
  then show ?thesis
    unfolding ptrs_def map_map by (intro map_idI [symmetric]) simp
qed

lemma q_put_cases:
  assumes "ptr_queue (iw_queue w k)"
  shows "length (ptrs (iw_queue w k)) < gq_slots (iw_queue w k) - 1 \<Longrightarrow>
      \<exists>q. q_put k obj w = (Status_OK, w\<lparr>iw_queue := (iw_queue w)(k := q)\<rparr>) \<and> ptr_queue q \<and>
        ptrs q = ptrs (iw_queue w k) @ [obj] \<and> gq_slots q = gq_slots (iw_queue w k)"
    "\<not> length (ptrs (iw_queue w k)) < gq_slots (iw_queue w k) - 1 \<Longrightarrow> q_put k obj w = (Status_FULL, w)"
proof -
  have len: "length [obj] = gq_objectSize (iw_queue w k)"
    using assms by (simp add: ptr_queue_def)
  note c = GenQ_Put_cases [of "iw_queue w k" "[obj]", OF _ len]
  show "length (ptrs (iw_queue w k)) < gq_slots (iw_queue w k) - 1 \<Longrightarrow>
      \<exists>q. q_put k obj w = (Status_OK, w\<lparr>iw_queue := (iw_queue w)(k := q)\<rparr>) \<and> ptr_queue q \<and>
        ptrs q = ptrs (iw_queue w k) @ [obj] \<and> gq_slots q = gq_slots (iw_queue w k)"
    using c(1) assms by (fastforce simp: q_put_def ptr_queue_def ptrs_def)
  show "\<not> length (ptrs (iw_queue w k)) < gq_slots (iw_queue w k) - 1 \<Longrightarrow> q_put k obj w = (Status_FULL, w)"
    using c(2) assms by (simp add: q_put_def ptr_queue_def ptrs_def)
qed

lemma q_get_cases:
  assumes "ptr_queue (iw_queue w k)"
  shows "ptrs (iw_queue w k) = [] \<Longrightarrow> fst (snd (q_get k w)) = None \<and> fst (q_get k w) = Status_EMPTY \<and>
      snd (snd (q_get k w)) = w"
    "ptrs (iw_queue w k) = p # ps \<Longrightarrow>
      \<exists>q. q_get k w = (Status_OK, Some p, w\<lparr>iw_queue := (iw_queue w)(k := q)\<rparr>) \<and> ptr_queue q \<and>
        ptrs q = ps \<and> gq_slots q = gq_slots (iw_queue w k)"
proof -
  have inv: "genq_inv (iw_queue w k)"
    using assms by (simp add: ptr_queue_def)
  note c = GenQ_Get_cases [OF inv]
  show "ptrs (iw_queue w k) = [] \<Longrightarrow> fst (snd (q_get k w)) = None \<and> fst (q_get k w) = Status_EMPTY \<and>
      snd (snd (q_get k w)) = w"
    using c(1) by (simp add: q_get_def ptrs_def)
  assume ps: "ptrs (iw_queue w k) = p # ps"
  then have items: "genq_items (iw_queue w k) = [p] # map (\<lambda>p. [p]) ps"
    using ptr_items [OF assms] by simp
  from c(2) [OF items] obtain q where q: "GenQ_Get (Some (iw_queue w k)) = (Status_OK, Some [p], Some q)"
    "genq_inv q" "genq_items q = map (\<lambda>p. [p]) ps" "gq_slots q = gq_slots (iw_queue w k)"
    "gq_objectSize q = gq_objectSize (iw_queue w k)"
    by blast
  then have "ptr_queue q" "ptrs q = ps"
    using assms by (simp_all add: ptr_queue_def ptrs_def comp_def)
  with q show "\<exists>q. q_get k w = (Status_OK, Some p, w\<lparr>iw_queue := (iw_queue w)(k := q)\<rparr>) \<and>
      ptr_queue q \<and> ptrs q = ps \<and> gq_slots q = gq_slots (iw_queue w k)"
    by (intro exI [of _ q]) (simp add: q_get_def)
qed

text \<open>The pool operations do not see the queues.\<close>

lemma pool_frame [pool_simps]:
  fixes w :: "('cb, 'z) isr_world_scheme"
  shows "pool_inv (w\<lparr>iw_queue := f\<rparr>) s n = pool_inv w s n"
    "allocated (w\<lparr>iw_queue := f\<rparr>) s n = allocated w s n"
    "free_cell (w\<lparr>iw_queue := f\<rparr>) s i = free_cell w s i"
    "obj_of (w\<lparr>iw_queue := f\<rparr>) s i = obj_of w s i"
    "cell (w\<lparr>iw_queue := f\<rparr>) s = cell w s"
    "pool_inv (w\<lparr>iw_ipt := g\<rparr>) s n = pool_inv w s n"
  by (simp_all add: pool_inv_def pool_hdr_def cell_ok_def allocated_def free_cell_def obj_of_def
      cell_def fun_eq_iff)

lemma queue_frame [pool_simps]:
  fixes w :: "('cb, 'z) isr_world_scheme"
  shows "iw_queue (upd_pre a f w) = iw_queue w" "iw_queue (set_next s p w) = iw_queue w"
    "isrReqQ_errors (upd_pre a f w) = isrReqQ_errors w" "isrReqQ_errors (set_next s p w) = isrReqQ_errors w"
  by (simp_all add: upd_pre_def set_next_def)

lemma getPoolId_upd_onRelease:
  "getPoolId (upd_pre a (\<lambda>p. p\<lparr>pb_onRelease := f p\<rparr>) w) obj = getPoolId w obj"
proof -
  let ?w = "upd_pre a (\<lambda>p. p\<lparr>pb_onRelease := f p\<rparr>) w"
  have "pb_theboss (ph_pre ?w x) = pb_theboss (ph_pre w x)" "pb_guard (ph_pre ?w x) = pb_guard (ph_pre w x)"
    "ph_pool ?w = ph_pool w" for x
    by (simp_all add: upd_pre_def)
  then show ?thesis
    by (simp only: getPoolId_def Let_def)
qed

text \<open>After its callback is extracted an object is released without any callback.\<close>

lemma return_after_extract:
  "GenPool_return f obj (snd (GenPool_extract_callback obj w)) =
   GenPool_return g obj (snd (GenPool_extract_callback obj w))"
proof (cases "id_pool (getPoolId w obj) = 0")
  case True
  then show ?thesis
    by (simp add: GenPool_return_def GenPool_extract_callback_def)
next
  case False
  then show ?thesis
    by (simp add: GenPool_return_def GenPool_extract_callback_def getPoolId_upd_onRelease Let_def pool_simps)
qed

lemma ReturnPoolObject_run_cb: "ReturnPoolObject f obj w = ReturnPoolObject g obj w"
  using return_after_extract [of f obj _ g]
  by (simp add: ReturnPoolObject_def Let_def split: prod.splits)

lemma GenPool_return_queue:
  fixes w :: "('cb, 'z) isr_world_scheme"
  assumes "\<And>cb ctx w. iw_queue (snd (run_cb cb ctx w)) k = iw_queue w k"
  shows "iw_queue (snd (GenPool_return run_cb obj w)) k = iw_queue w k"
proof (cases "cbi_callback (pb_onRelease (ph_pre w (id_pre (getPoolId w obj))))")
  case (Some cb)
  then show ?thesis
    using assms [of cb "cbi_context (pb_onRelease (ph_pre w (id_pre (getPoolId w obj))))" w]
    by (auto simp: GenPool_return_def Let_def pool_simps split: prod.splits)
qed (simp add: GenPool_return_def Let_def pool_simps)

lemma Process_drains:
  fixes w :: "('cb, 'z) isr_world_scheme"
  assumes quiet: "\<And>cb ctx w. iw_queue (snd (run_cb cb ctx w)) isrRetQ = iw_queue w isrRetQ"
  shows "ptr_queue (iw_queue w isrRetQ) \<Longrightarrow> \<exists>w'. ProcessReturnPoolObjects run_cb w = Some w' \<and>
    ptr_queue (iw_queue w' isrRetQ) \<and> ptrs (iw_queue w' isrRetQ) = []"
proof (induction "ptrs (iw_queue w isrRetQ)" arbitrary: w)
  case Nil
  then show ?case
    using q_get_cases(1) [OF Nil.prems] by (subst ProcessReturnPoolObjects.simps) (auto split: prod.splits)
next
  case (Cons p ps)
  obtain q where q: "q_get isrRetQ w = (Status_OK, Some p, w\<lparr>iw_queue := (iw_queue w)(isrRetQ := q)\<rparr>)"
    "ptr_queue q" "ptrs q = ps"
    using q_get_cases(2) [OF Cons.prems Cons.hyps(2) [symmetric]] by blast
  obtain rs w2 where r: "GenPool_return run_cb p (w\<lparr>iw_queue := (iw_queue w)(isrRetQ := q)\<rparr>) = (rs, w2)"
    by fastforce
  have w2: "iw_queue w2 isrRetQ = q"
    using GenPool_return_queue [where run_cb = run_cb and obj = p
        and w = "w\<lparr>iw_queue := (iw_queue w)(isrRetQ := q)\<rparr>", OF quiet] r by simp
  let ?w3 = "if rs \<noteq> Status_OK then w2\<lparr>isrReqQ_errors := isrReqQ_errors w2 + 1\<rparr> else w2"
  have "iw_queue ?w3 isrRetQ = q"
    using w2 by simp
  moreover have "ProcessReturnPoolObjects run_cb w = ProcessReturnPoolObjects run_cb ?w3"
    by (subst ProcessReturnPoolObjects.simps) (simp add: q r)
  ultimately show ?case
    using Cons.hyps(1) [of ?w3] q by simp
qed

section \<open>Properties\<close>

text \<open> C8. Handing an object back from the interrupt layer never runs its release callback there,
  on any path: through the target's own queue, through the general queue when there is none or the
  own one is full, and when both are full, where the object is released with its callback
  disabled. The result is the same whatever the callbacks would do. \<close>

theorem isr_return_runs_no_callback:
  "Ipt_ReturnToUserProcess run_cb ipt obj w = Ipt_ReturnToUserProcess (\<lambda>_ _ w. (Status_OK, w)) ipt obj w"
  using ReturnPoolObject_run_cb [of run_cb obj _ "\<lambda>_ _ w. (Status_OK, w)"]
  by (simp add: Ipt_ReturnToUserProcess_def returnPoolObjectToProcess_def Let_def
      split: option.splits prod.splits)

text \<open> C9. \<open>ProcessReturnPoolObjects\<close> returns, with the general return queue drained, whatever the
  release callbacks do as long as they do not themselves queue onto it. \<close>

theorem ProcessReturnPoolObjects_drains:
  fixes w :: "('cb, 'z) isr_world_scheme"
  assumes "ptr_queue (iw_queue w isrRetQ)"
    and "\<And>cb ctx w. iw_queue (snd (run_cb cb ctx w)) isrRetQ = iw_queue w isrRetQ"
  shows "\<exists>w'. ProcessReturnPoolObjects run_cb w = Some w' \<and> ptrs (iw_queue w' isrRetQ) = []"
  using Process_drains [where run_cb = run_cb, OF assms(2,1)] by blast

definition demo_world :: "nat isr_world" where
  "demo_world = DefineSingleIsrObjectQueue 0 1 1000 4 2 None
     \<lparr>ph_pre = (\<lambda>_. \<lparr>pb_theboss = 0, pb_guard = 0, pb_onRelease = \<lparr>cbi_callback = None, cbi_context = 0\<rparr>\<rparr>),
      ph_pool = (\<lambda>_. \<lparr>gp_next = 0, gp_end = 0, gp_onRelease = None, gp_objectSize = 0, gp_cellSize = 0\<rparr>),
      iw_queue = (\<lambda>_. DefineStaticGenQ 0 1 RET_Q_LEN),
      iw_ipt = (\<lambda>_. \<lparr>ipt_iptPool = 0, ipt_toIsrQ = None, ipt_fromIsrQ = None, ipt_droppedTo = 0,
        ipt_droppedFrom = 0\<rparr>),
      isrReqQ_dropped_objects = 0, isrReqQ_errors = 0\<rparr>"

lemma DefineStaticGenQ_ptr:
  assumes "0 < len"
  shows "ptr_queue (DefineStaticGenQ a 1 len)" "ptrs (DefineStaticGenQ a 1 len) = []"
    "gq_slots (DefineStaticGenQ a 1 len :: int GenQ_t) = Suc len"
  using genq_fresh [of "DefineStaticGenQ a 1 len :: int GenQ_t" "Suc len"] assms
  by (simp_all add: ptr_queue_def ptrs_def DefineStaticGenQ_def)

lemma demo_world_ok:
  "pool_inv demo_world 1000 2" "ptr_queue (iw_queue demo_world 0)" "ptr_queue (iw_queue demo_world 1)"
  "ptrs (iw_queue demo_world 0) = []" "ptrs (iw_queue demo_world 1) = []"
proof -
  show "pool_inv demo_world 1000 2"
    unfolding demo_world_def DefineSingleIsrObjectQueue_def pool_simps
    by (rule DefineGenPool_inv) (simp add: pool_fits_def)
qed (use DefineStaticGenQ_ptr [of RET_Q_LEN] DefineStaticGenQ_ptr [of 2] in
  \<open>simp_all add: demo_world_def DefineSingleIsrObjectQueue_def DefineGenPool_def Let_def\<close>)

theorem ProcessReturnPoolObjects_drains_witness:
  "\<exists>w'. ProcessReturnPoolObjects (\<lambda>_ _ w. (Status_Failed, w)) demo_world = Some w' \<and>
     ptrs (iw_queue w' isrRetQ) = []"
  by (rule ProcessReturnPoolObjects_drains) (simp_all add: demo_world_ok)

text \<open>One stage of a passage through a queue.\<close>

lemma ptr_queue_slots: "ptr_queue q \<Longrightarrow> 2 \<le> gq_slots q"
  unfolding ptr_queue_def genq_inv_def genq_at_def by blast

lemma q_put_empty:
  assumes "ptr_queue (iw_queue w k)" "ptrs (iw_queue w k) = []"
  obtains q where "q_put k obj w = (Status_OK, w\<lparr>iw_queue := (iw_queue w)(k := q)\<rparr>)" "ptr_queue q"
    "ptrs q = [obj]"
proof -
  have "length (ptrs (iw_queue w k)) < gq_slots (iw_queue w k) - 1"
    using ptr_queue_slots [OF assms(1)] assms(2) by simp
  from q_put_cases(1) [OF assms(1) this, of obj] obtain q where
    "q_put k obj w = (Status_OK, w\<lparr>iw_queue := (iw_queue w)(k := q)\<rparr>)" "ptr_queue q"
    "ptrs q = ptrs (iw_queue w k) @ [obj]"
    by blast
  with assms(2) show thesis
    by (intro that [of q]) simp_all
qed

lemma Process_single:
  fixes w :: "('cb, 'z) isr_world_scheme"
  assumes inv: "pool_inv w s n" and i: "i < n" "\<not> free_cell w s i"
    and cb: "cbi_callback (pb_onRelease (ph_pre w (cell w s (int i)))) = None"
    and q: "ptr_queue (iw_queue w isrRetQ)" "ptrs (iw_queue w isrRetQ) = [obj_of w s i]"
  shows "\<exists>w'. ProcessReturnPoolObjects run_cb w = Some w' \<and> pool_inv w' s n \<and>
    allocated w' s n = allocated w s n - {i} \<and> isrReqQ_errors w' = isrReqQ_errors w"
proof -
  obtain q' where q': "q_get isrRetQ w = (Status_OK, Some (obj_of w s i), w\<lparr>iw_queue := (iw_queue w)(isrRetQ := q')\<rparr>)"
    "ptr_queue q'" "ptrs q' = []"
    using q_get_cases(2) [OF q(1,2)] by blast
  define w1 where "w1 = w\<lparr>iw_queue := (iw_queue w)(isrRetQ := q')\<rparr>"
  define w2 where "w2 = upd_pre (cell w1 s (int i)) (\<lambda>p. p\<lparr>pb_theboss := 0\<rparr>) (set_next s (cell w1 s (int i)) w1)"
  have inv1: "pool_inv w1 s n" "\<not> free_cell w1 s i"
    using inv i by (simp_all add: w1_def pool_simps)
  have obj: "obj_of w s i = obj_of w1 s i" and cb1: "cbi_callback (pb_onRelease (ph_pre w1 (cell w1 s (int i)))) = None"
    using cb by (simp_all add: w1_def pool_simps)
  have id: "getPoolId w1 (obj_of w1 s i) = \<lparr>id_pool = s, id_pre = cell w1 s (int i), id_index = int i\<rparr>" "s \<noteq> 0"
    using getPoolId_cell [OF inv1(1) i(1)] inv1(2) by simp_all
  have ret: "GenPool_return run_cb (obj_of w s i) w1 = (Status_OK, w2)"
    unfolding obj using cb1 by (simp add: GenPool_return_def id Let_def w2_def)
  have "ptr_queue (iw_queue w2 isrRetQ)" "ptrs (iw_queue w2 isrRetQ) = []"
    using q' by (simp_all add: w2_def w1_def pool_simps)
  from q_get_cases(1) [OF this] have "ProcessReturnPoolObjects run_cb w2 = Some w2"
    by (subst ProcessReturnPoolObjects.simps) (auto split: prod.splits)
  then have "ProcessReturnPoolObjects run_cb w = Some w2"
    by (subst ProcessReturnPoolObjects.simps) (simp add: q'(1) w1_def [symmetric] ret)
  moreover have "pool_inv w2 s n" "allocated w2 s n = allocated w s n - {i}"
    using release_effect [OF inv1(1) i(1) inv1(2)] by (simp_all add: w2_def) (simp add: w1_def pool_simps)
  moreover have "isrReqQ_errors w2 = isrReqQ_errors w"
    by (simp add: w2_def w1_def pool_simps)
  ultimately show ?thesis
    by blast
qed


definition demo_world1 :: "nat isr_world" where
  "demo_world1 = snd (alloc_res (GenPool_allocate_with_callback 1000 None 0 demo_world) demo_world)"

lemma allocate_queues:
  fixes w :: "('cb, 'z) isr_world_scheme"
  shows "iw_queue (snd (alloc_res (GenPool_allocate_with_callback s cb ctx w) w)) = iw_queue w"
    "iw_ipt (snd (alloc_res (GenPool_allocate_with_callback s cb ctx w) w)) = iw_ipt w"
  by (auto simp: alloc_res_def GenPool_allocate_with_callback_def Let_def upd_pre_def set_next_def
      split: option.splits)

lemma demo_world1_ok:
  "pool_inv demo_world1 1000 2" "\<not> free_cell demo_world1 1000 0"
  "cbi_callback (pb_onRelease (ph_pre demo_world1 (cell demo_world1 1000 (int 0)))) = None"
  "iw_ipt demo_world1 0 = \<lparr>ipt_iptPool = 1000, ipt_toIsrQ = Some 1, ipt_fromIsrQ = None, ipt_droppedTo = 0, ipt_droppedFrom = 0\<rparr>"
  "iw_queue demo_world1 = iw_queue demo_world"
proof -
  show "pool_inv demo_world1 1000 2"
    unfolding demo_world1_def by (rule allocate_with_callback_sim) (rule demo_world_ok)
  show "\<not> free_cell demo_world1 1000 0"
    "cbi_callback (pb_onRelease (ph_pre demo_world1 (cell demo_world1 1000 (int 0)))) = None"
    by code_simp+
  show "iw_queue demo_world1 = iw_queue demo_world"
    "iw_ipt demo_world1 0 = \<lparr>ipt_iptPool = 1000, ipt_toIsrQ = Some 1, ipt_fromIsrQ = None, ipt_droppedTo = 0, ipt_droppedFrom = 0\<rparr>"
    unfolding demo_world1_def allocate_queues by (simp_all add: demo_world_def DefineSingleIsrObjectQueue_def)
qed


end
