(* ===== verification/SetRunIsr.thy ===== *)
theory SetRunIsr
  imports IsrComm LinkNode
begin

text \<open>
  \<^verbatim>\<open>src/src/set_run_isr.c\<close> and \<^verbatim>\<open>set_run_isr.h\<close>: the user loop, its two alternating
  task queues and its timers. Tasks and timers are pool objects whose release callbacks
  (\<open>requeue_task\<close>, \<open>retrigger_timer\<close>) decide whether the object really goes back. The world
  extends that of \<open>IsrComm\<close> by the contents of the pool objects and the statics of the file. A user
  function is a value of type \<open>'f\<close>; what calling it does is the argument \<open>run_user\<close>. \<open>None\<close> means
  that the function does not return: an endless loop, or an \<open>assert\<close> that fails.
\<close>

section \<open>State\<close>

datatype 'f gen_cb = User_cb 'f | Requeue_task_cb | Retrigger_timer_cb

record 'f TimedCall_t =
  tc_time :: u32
  tc_cb :: "'f CbInstance_t"
  tc_future :: i32

text \<open>\<open>sr_links\<close> holds the \<open>node\<close> member of the timers, \<open>sr_timed\<close> the rest, \<open>sr_task\<close> the task holders.\<close>

record 'f sr_world = "'f gen_cb isr_world" +
  system_run :: bool
  time_tick :: u32
  timer_internal_error :: u32
  task_internal_error :: u32
  timeQ :: "int option"
  addedTimeQ :: "int option"
  sr_links :: links
  sr_timed :: "int \<Rightarrow> 'f TimedCall_t"
  sr_task :: "int \<Rightarrow> 'f CbInstance_t"
  taskQ :: nat
  last_time :: u32

type_synonym 'f user_fun = "'f \<Rightarrow> Context_t \<Rightarrow> 'f sr_world \<Rightarrow> Status_t \<times> 'f sr_world"

text \<open>The statics: the two pools (by address) and the two queues (by handle; 0 is \<open>isrRetQ\<close>).\<close>

abbreviation TASK_RUNNERS :: nat where "TASK_RUNNERS \<equiv> 20"
abbreviation FUTURE_RUNNERS :: nat where "FUTURE_RUNNERS \<equiv> 20"
abbreviation taskHolders :: int where "taskHolders \<equiv> 4096"
abbreviation futureHolders :: int where "futureHolders \<equiv> 8192"

definition taskQs :: "nat \<Rightarrow> nat" where
  "taskQs i = i + 1"

definition User_Setup :: "'f sr_world \<Rightarrow> 'f sr_world" where
  "User_Setup w = w\<lparr>timeQ := None, time_tick := 0\<rparr>"

section \<open>The release callbacks\<close>

definition requeue_task :: "Context_t \<Rightarrow> 'f sr_world \<Rightarrow> Status_t \<times> 'f sr_world" where
  "requeue_task context w =
     (if context \<noteq> 0 then
        (case q_put (taskQs (taskQ w)) context w of (st, w1) \<Rightarrow>
           if st = Status_OK then (Status_Interrupt, w1)
           else (Status_OK, w1\<lparr>task_internal_error := task_internal_error w1 + 1\<rparr>))
      else (Status_OK, w))"

definition push_added :: "int \<Rightarrow> 'f sr_world \<Rightarrow> 'f sr_world" where
  "push_added node w = (case StackPush (sr_links w) (addedTimeQ w) node of
     (h, m) \<Rightarrow> w\<lparr>addedTimeQ := h, sr_links := m\<rparr>)"

definition retrigger_timer :: "Context_t \<Rightarrow> 'f sr_world \<Rightarrow> Status_t \<times> 'f sr_world" where
  "retrigger_timer node w =
     (let t = sr_timed w node in
      if tc_future t \<noteq> 0 then
        let t' = (if 0 <s tc_future t then t\<lparr>tc_time := tc_future t + time_tick w\<rparr>
                  else t\<lparr>tc_time := tc_time t + (- tc_future t)\<rparr>)
        in (Status_Interrupt, push_added node (w\<lparr>sr_timed := (sr_timed w)(node := t')\<rparr>))
      else (Status_OK, w))"

fun run_gen_cb :: "'f user_fun \<Rightarrow> 'f gen_cb \<Rightarrow> Context_t \<Rightarrow> 'f sr_world \<Rightarrow> Status_t \<times> 'f sr_world" where
  "run_gen_cb run_user (User_cb f) ctx w = run_user f ctx w"
| "run_gen_cb run_user Requeue_task_cb ctx w = requeue_task ctx w"
| "run_gen_cb run_user Retrigger_timer_cb ctx w = retrigger_timer ctx w"

section \<open>Tasks\<close>

definition put_task :: "'f CbInstance_t \<Rightarrow> int option \<times> 'f sr_world \<Rightarrow> (Status_t \<times> 'f sr_world) option" where
  "put_task cb hw = (case hw of
     (Some holder, w) \<Rightarrow>
       (case q_put (taskQs (taskQ w mod 2)) holder (w\<lparr>sr_task := (sr_task w)(holder := cb)\<rparr>) of
          (st, w1) \<Rightarrow> if st = Status_OK then Some (Status_OK, w1) else None)
   | (None, w) \<Rightarrow> Some (Status_FULL, w))"

definition Run_Task :: "'f CbInstance_t \<Rightarrow> 'f sr_world \<Rightarrow> (Status_t \<times> 'f sr_world) option" where
  "Run_Task cb w =
     (if cbi_callback cb \<noteq> None then
        (case GenPool_allocate taskHolders w of None \<Rightarrow> None | Some hw \<Rightarrow> put_task cb hw)
      else Some (Status_Param, w))"

definition Run_Task_Once :: "'f CbInstance_t \<Rightarrow> 'f sr_world \<Rightarrow> (Status_t \<times> 'f sr_world) option" where
  "Run_Task_Once cb w =
     (if cbi_callback cb \<noteq> None then
        (case GenPool_allocate_with_callback taskHolders None 0 w of None \<Rightarrow> None | Some hw \<Rightarrow> put_task cb hw)
      else Some (Status_Param, w))"

text \<open>One turn of the loop of \<open>Run_Tasks\<close> on the task at \<open>task\<close>.\<close>

definition run_one_task :: "'f user_fun \<Rightarrow> int \<Rightarrow> 'f sr_world \<Rightarrow> 'f sr_world" where
  "run_one_task run_user task w =
     (let w1 = (case cbi_callback (sr_task w task) of
            Some f \<Rightarrow>
              (case run_user f (cbi_context (sr_task w task)) w of (st, w') \<Rightarrow>
                 if st \<noteq> Status_OK then snd (GenPool_extract_callback task w') else w')
          | None \<Rightarrow> w)
      in case GenPool_return (run_gen_cb run_user) task w1 of (rs, w2) \<Rightarrow>
           if rs \<noteq> Status_OK then w2\<lparr>task_internal_error := task_internal_error w2 + 1\<rparr> else w2)"

partial_function (option) run_tasks_loop ::
    "'f user_fun \<Rightarrow> nat \<Rightarrow> 'f sr_world \<Rightarrow> 'f sr_world option" where
  "run_tasks_loop run_user from_q w =
     (case q_get (taskQs from_q) w of
        (st, Some task, w1) \<Rightarrow>
          if st = Status_OK then run_tasks_loop run_user from_q (run_one_task run_user task w1) else Some w1
      | (st, None, w1) \<Rightarrow> Some w1)"

declare run_tasks_loop.simps [code]

definition Run_Tasks :: "'f user_fun \<Rightarrow> 'f sr_world \<Rightarrow> 'f sr_world option" where
  "Run_Tasks run_user w =
     (let from_q = taskQ w in run_tasks_loop run_user from_q (w\<lparr>taskQ := (taskQ w + 1) mod 2\<rparr>))"

section \<open>Timers\<close>

definition set_future_cb ::
    "'f CbInstance_t \<Rightarrow> u32 \<Rightarrow> i32 \<Rightarrow> 'f sr_world \<Rightarrow> (Status_t \<times> 'f sr_world) option" where
  "set_future_cb cb first retrigger w = (case GenPool_allocate futureHolders w of
     None \<Rightarrow> None
   | Some (Some holder, w1) \<Rightarrow>
       Some (Status_OK, push_added holder (w1\<lparr>sr_timed := (sr_timed w1)(holder :=
         \<lparr>tc_time = first + time_tick w1, tc_cb = cb, tc_future = retrigger\<rparr>)\<rparr>))
   | Some (None, w1) \<Rightarrow> Some (Status_FULL, w1))"

definition Run_Later :: "'f CbInstance_t \<Rightarrow> u32 \<Rightarrow> 'f sr_world \<Rightarrow> (Status_t \<times> 'f sr_world) option" where
  "Run_Later cb future w = set_future_cb cb future 0 w"

definition Run_Periodically :: "'f CbInstance_t \<Rightarrow> i32 \<Rightarrow> 'f sr_world \<Rightarrow> (Status_t \<times> 'f sr_world) option" where
  "Run_Periodically cb interval w =
     set_future_cb cb (if interval <s 0 then - interval else interval) interval w"

text \<open>The test \<open>(node->time - time_tick) & 0x80000000\<close>.\<close>

definition timer_passed :: "u32 \<Rightarrow> u32 \<Rightarrow> bool" where
  "timer_passed t now = bit (t - now) 31"

text \<open>The first loop of \<open>Do_Later\<close>: move the added timers to the time queue.\<close>

partial_function (option) move_added ::
    "int option \<Rightarrow> 'f sr_world \<Rightarrow> 'f sr_world option" where
  "move_added newQ w = (case StackPop (sr_links w) newQ of
     (Some node, newQ') \<Rightarrow>
       (case StackPush (sr_links w) (timeQ w) node of (h, m) \<Rightarrow>
          move_added newQ' (w\<lparr>timeQ := h, sr_links := m\<rparr>))
   | (None, _) \<Rightarrow> Some w)"

declare move_added.simps [code]

definition fire_timer :: "'f user_fun \<Rightarrow> int \<Rightarrow> 'f sr_world \<Rightarrow> 'f sr_world" where
  "fire_timer run_user node w =
     (let w1 = (case cbi_callback (tc_cb (sr_timed w node)) of
            Some f \<Rightarrow>
              (case run_user f (cbi_context (tc_cb (sr_timed w node))) w of (st, w') \<Rightarrow>
                 if st = Status_Interrupt then snd (GenPool_extract_callback node w') else w')
          | None \<Rightarrow> w)
      in case GenPool_return (run_gen_cb run_user) node w1 of (rs, w2) \<Rightarrow>
           if rs \<noteq> Status_OK then w2\<lparr>timer_internal_error := timer_internal_error w2 + 1\<rparr> else w2)"

text \<open>The second loop: fire what is due, keep the rest on \<open>newQ\<close>.\<close>

partial_function (option) fire_loop ::
    "'f user_fun \<Rightarrow> int option \<Rightarrow> 'f sr_world \<Rightarrow> 'f sr_world option" where
  "fire_loop run_user newQ w = (case StackPop (sr_links w) (timeQ w) of
     (Some node, rest) \<Rightarrow>
       (let w1 = w\<lparr>timeQ := rest\<rparr> in
        if timer_passed (tc_time (sr_timed w1 node)) (time_tick w1)
        then fire_loop run_user newQ (fire_timer run_user node w1)
        else (case StackPush (sr_links w1) newQ node of (h, m) \<Rightarrow>
                fire_loop run_user h (w1\<lparr>sr_links := m\<rparr>)))
   | (None, _) \<Rightarrow> Some (w\<lparr>timeQ := newQ\<rparr>))"

declare fire_loop.simps [code]

definition Do_Later :: "'f user_fun \<Rightarrow> 'f sr_world \<Rightarrow> 'f sr_world option" where
  "Do_Later run_user w =
     (if time_tick w \<noteq> last_time w then
        let newQ = addedTimeQ w in
        case move_added newQ (w\<lparr>last_time := time_tick w, addedTimeQ := None\<rparr>) of
          None \<Rightarrow> None
        | Some w1 \<Rightarrow> fire_loop run_user None w1
      else Some w)"

section \<open>The user loop\<close>

definition User_Loop_turn :: "('f sr_world \<Rightarrow> 'f sr_world) \<Rightarrow> 'f user_fun \<Rightarrow> 'f sr_world \<Rightarrow> 'f sr_world option" where
  "User_Loop_turn ProcessUser run_user w =
     (case ProcessReturnPoolObjects (run_gen_cb run_user) (ProcessUser w) of
        None \<Rightarrow> None
      | Some w1 \<Rightarrow> (case Do_Later run_user w1 of
          None \<Rightarrow> None
        | Some w2 \<Rightarrow> (case Run_Tasks run_user w2 of
            None \<Rightarrow> None
          | Some w3 \<Rightarrow> Some (w3\<lparr>time_tick := time_tick w3 + 1\<rparr>))))"

partial_function (option) User_Loop ::
    "('f sr_world \<Rightarrow> 'f sr_world) \<Rightarrow> 'f user_fun \<Rightarrow> 'f sr_world \<Rightarrow> 'f sr_world option" where
  "User_Loop ProcessUser run_user w =
     (if system_run w then
        (case User_Loop_turn ProcessUser run_user w of
           None \<Rightarrow> None
         | Some w' \<Rightarrow> User_Loop ProcessUser run_user w')
      else Some w)"

section \<open>One task\<close>

text \<open>The world as the task loop sees it: the pool, the queues, the holders' contents.\<close>

abbreviation task_cells :: "nat \<Rightarrow> 'f sr_world \<Rightarrow> nat \<Rightarrow> 'f gen_cb CbInstance_t option" where
  "task_cells n w \<equiv> ps_cells (pool_abs taskHolders n w)"

abbreviation task_obj :: "'f sr_world \<Rightarrow> nat \<Rightarrow> int" where
  "task_obj w i \<equiv> obj_of w taskHolders i"

lemma sr_frame [pool_simps]:
  fixes w :: "'f sr_world"
  shows "sr_task (upd_pre a f w) = sr_task w" "sr_task (set_next s p w) = sr_task w"
    "taskQ (upd_pre a f w) = taskQ w" "taskQ (set_next s p w) = taskQ w"
    "task_internal_error (upd_pre a f w) = task_internal_error w"
    "task_internal_error (set_next s p w) = task_internal_error w"
  by (simp_all add: upd_pre_def set_next_def)

lemma pool_abs_queue [pool_simps]:
  fixes w :: "('cb, 'z) isr_world_scheme"
  shows "pool_abs s n (w\<lparr>iw_queue := f\<rparr>) = pool_abs s n w"
  by (simp add: pool_abs_def pool_frame next_ix_def obj_of_def free_cell_def cell_def fun_eq_iff)

definition same_rest :: "'f sr_world \<Rightarrow> 'f sr_world \<Rightarrow> bool" where
  "same_rest w w' \<longleftrightarrow> iw_queue w' = iw_queue w \<and> sr_task w' = sr_task w \<and> taskQ w' = taskQ w \<and>
     task_internal_error w' = task_internal_error w"

lemma GenPool_return_no_cb:
  assumes "cbi_callback (pb_onRelease (ph_pre h (id_pre (getPoolId h obj)))) = None"
  shows "GenPool_return f obj h = GenPool_return g obj h"
  using assms by (simp add: GenPool_return_def Let_def)

lemma same_rest_return:
  assumes "cbi_callback (pb_onRelease (ph_pre w (id_pre (getPoolId w obj)))) = None"
  shows "same_rest w (snd (GenPool_return f obj w))"
  using assms by (simp add: GenPool_return_def Let_def same_rest_def pool_simps)

lemma same_rest_extract: "same_rest w (snd (GenPool_extract_callback obj w))"
  by (simp add: GenPool_extract_callback_def Let_def same_rest_def pool_simps)

lemma claimed_cell:
  fixes w :: "'f sr_world"
  assumes inv: "pool_inv w taskHolders n" and c: "task_cells n w i = Some inst"
  shows "i < n" "\<not> free_cell w taskHolders i"
    "getPoolId w (task_obj w i) = \<lparr>id_pool = taskHolders, id_pre = cell w taskHolders (int i), id_index = int i\<rparr>"
    "pb_onRelease (ph_pre w (cell w taskHolders (int i))) = inst"
proof -
  show i: "i < n" "\<not> free_cell w taskHolders i"
    "pb_onRelease (ph_pre w (cell w taskHolders (int i))) = inst"
    using c by (auto simp: pool_abs_def split: if_splits)
  show "getPoolId w (task_obj w i) = \<lparr>id_pool = taskHolders, id_pre = cell w taskHolders (int i), id_index = int i\<rparr>"
    using getPoolId_cell(1) [OF inv i(1)] i(2) by simp
qed

text \<open>A claimed holder whose callback is off goes back to the pool.\<close>

lemma return_off:
  fixes w :: "'f sr_world"
  assumes inv: "pool_inv w taskHolders n" and c: "task_cells n w i = Some inst" "cbi_callback inst = None"
  shows "\<exists>w'. GenPool_return f (task_obj w i) w = (Status_OK, w') \<and> same_rest w w' \<and>
    pool_inv w' taskHolders n \<and> pool_abs taskHolders n w' = ps_free i (pool_abs taskHolders n w)"
proof -
  note cc = claimed_cell [OF inv c(1)]
  have cb: "cbi_callback (pb_onRelease (ph_pre w (id_pre (getPoolId w (task_obj w i))))) = None"
    using cc c(2) by simp
  let ?r = "GenPool_return (\<lambda>cb ctx h. (Status_OK, h)) (task_obj w i) w"
  have eq: "GenPool_return f (task_obj w i) w = ?r"
    by (rule GenPool_return_no_cb [OF cb])
  have "fst ?r = Status_OK" "pool_inv (snd ?r) taskHolders n"
    "pool_abs taskHolders n (snd ?r) = ps_free i (pool_abs taskHolders n w)"
    using return_sim [OF inv cc(1), of "\<lambda>_ _. Status_OK"] c by (auto split: prod.splits)
  then show ?thesis
    using same_rest_return [OF cb, of "\<lambda>cb ctx h. (Status_OK, h)"] unfolding eq
    by (intro exI [of _ "snd ?r"]) (simp add: prod_eq_iff)
qed

lemma extract_then_return:
  fixes w :: "'f sr_world"
  assumes inv: "pool_inv w taskHolders n" and c: "task_cells n w i = Some inst"
  shows "\<exists>w'. GenPool_return f (task_obj w i) (snd (GenPool_extract_callback (task_obj w i) w)) = (Status_OK, w') \<and>
    same_rest w w' \<and> pool_inv w' taskHolders n \<and>
    task_cells n w' = (task_cells n w)(i := None) \<and> ps_addr (pool_abs taskHolders n w') = ps_addr (pool_abs taskHolders n w)"
proof -
  let ?w1 = "snd (GenPool_extract_callback (task_obj w i) w)"
  note cc = claimed_cell [OF inv c]
  have inv1: "pool_inv ?w1 taskHolders n" and abs1: "pool_abs taskHolders n ?w1 = (pool_abs taskHolders n w)
      \<lparr>ps_cells := (task_cells n w)(i \<mapsto> inst\<lparr>cbi_callback := None\<rparr>)\<rparr>"
    using callback_ops_sim [OF inv cc(1), of "PExtract i"] c by (auto split: prod.splits)
  have cells1: "task_cells n ?w1 i = Some (inst\<lparr>cbi_callback := None\<rparr>)"
    by (simp add: abs1)
  have "ps_addr (pool_abs taskHolders n ?w1) = ps_addr (pool_abs taskHolders n w)"
    by (simp add: abs1)
  then have addr: "task_obj ?w1 = task_obj w"
    by (simp add: pool_abs_def)
  obtain w' where "GenPool_return f (task_obj ?w1 i) ?w1 = (Status_OK, w')" "same_rest ?w1 w'"
    "pool_inv w' taskHolders n" "pool_abs taskHolders n w' = ps_free i (pool_abs taskHolders n ?w1)"
    using return_off [OF inv1 cells1, of f] by auto
  then show ?thesis
    using same_rest_extract [of w "task_obj w i"]
    by (intro exI [of _ w']) (simp add: addr ps_free_def abs1 same_rest_def)
qed

section \<open>The task loop\<close>

definition periodic :: "nat \<Rightarrow> 'f sr_world \<Rightarrow> nat \<Rightarrow> bool" where
  "periodic n w i \<longleftrightarrow> task_cells n w i = Some \<lparr>cbi_callback = Some Requeue_task_cb, cbi_context = task_obj w i\<rparr>"

definition one_shot :: "nat \<Rightarrow> 'f sr_world \<Rightarrow> nat \<Rightarrow> bool" where
  "one_shot n w i \<longleftrightarrow> (case task_cells n w i of None \<Rightarrow> False | Some inst \<Rightarrow> cbi_callback inst = None)"

text \<open>\<open>ans\<close> is what the user functions answer; they leave the world alone.\<close>

definition answers_ok :: "('f \<Rightarrow> Context_t \<Rightarrow> Status_t) \<Rightarrow> 'f sr_world \<Rightarrow> nat \<Rightarrow> bool" where
  "answers_ok ans w i \<longleftrightarrow> (case cbi_callback (sr_task w (task_obj w i)) of
     None \<Rightarrow> True | Some f \<Rightarrow> ans f (cbi_context (sr_task w (task_obj w i))) = Status_OK)"

definition task_kept :: "('f \<Rightarrow> Context_t \<Rightarrow> Status_t) \<Rightarrow> nat \<Rightarrow> 'f sr_world \<Rightarrow> nat \<Rightarrow> bool" where
  "task_kept ans n w i \<longleftrightarrow> periodic n w i \<and> answers_ok ans w i"

lemma run_one_kept:
  fixes w :: "'f sr_world"
  assumes inv: "pool_inv w taskHolders n" and k: "task_kept ans n w i"
    and q: "ptr_queue (iw_queue w (taskQs (taskQ w)))"
      "length (ptrs (iw_queue w (taskQs (taskQ w)))) < gq_slots (iw_queue w (taskQs (taskQ w))) - 1"
  shows "\<exists>q'. run_one_task (\<lambda>f ctx w. (ans f ctx, w)) (task_obj w i) w =
      w\<lparr>iw_queue := (iw_queue w)(taskQs (taskQ w) := q')\<rparr> \<and> ptr_queue q' \<and>
      ptrs q' = ptrs (iw_queue w (taskQs (taskQ w))) @ [task_obj w i] \<and>
      gq_slots q' = gq_slots (iw_queue w (taskQs (taskQ w)))"
proof -
  let ?run = "\<lambda>f ctx w. (ans f ctx, w)"
  have c: "task_cells n w i = Some \<lparr>cbi_callback = Some Requeue_task_cb, cbi_context = task_obj w i\<rparr>"
    and ok: "answers_ok ans w i"
    using k by (simp_all add: task_kept_def periodic_def)
  note cc = claimed_cell [OF inv c]
  obtain q' where q': "q_put (taskQs (taskQ w)) (task_obj w i) w = (Status_OK, w\<lparr>iw_queue := (iw_queue w)(taskQs (taskQ w) := q')\<rparr>)"
    "ptr_queue q'" "ptrs q' = ptrs (iw_queue w (taskQs (taskQ w))) @ [task_obj w i]"
    "gq_slots q' = gq_slots (iw_queue w (taskQs (taskQ w)))"
    using q_put_cases(1) [OF q] by blast
  have "0 \<le> gp_cellSize (ph_pool w taskHolders) * int i"
    using inv by (simp add: pool_inv_def pool_hdr_def)
  then have "task_obj w i \<noteq> 0"
    by (simp add: obj_of_def cell_def)
  then have "requeue_task (task_obj w i) w = (Status_Interrupt, w\<lparr>iw_queue := (iw_queue w)(taskQs (taskQ w) := q')\<rparr>)"
    by (simp add: requeue_task_def q'(1))
  then have "GenPool_return (run_gen_cb ?run) (task_obj w i) w =
      (Status_OK, w\<lparr>iw_queue := (iw_queue w)(taskQs (taskQ w) := q')\<rparr>)"
    by (simp add: GenPool_return_def cc(3,4) Let_def)
  then show ?thesis
    using ok q' by (auto simp: run_one_task_def answers_ok_def split: option.splits)
qed

lemma run_one_dropped:
  fixes w :: "'f sr_world"
  assumes inv: "pool_inv w taskHolders n" and k: "periodic n w i \<or> one_shot n w i" "\<not> task_kept ans n w i"
  shows "\<exists>w'. run_one_task (\<lambda>f ctx w. (ans f ctx, w)) (task_obj w i) w = w' \<and> same_rest w w' \<and>
    pool_inv w' taskHolders n \<and> task_cells n w' = (task_cells n w)(i := None) \<and>
    ps_addr (pool_abs taskHolders n w') = ps_addr (pool_abs taskHolders n w)"
proof -
  let ?run = "run_gen_cb (\<lambda>f ctx w. (ans f ctx, w))"
  obtain inst where c: "task_cells n w i = Some inst"
    using k(1) by (auto simp: periodic_def one_shot_def split: option.splits)
  show ?thesis
  proof (cases "answers_ok ans w i")
    case True
    then have off: "cbi_callback inst = None"
      using k c by (auto simp: task_kept_def one_shot_def)
    obtain w' where r: "GenPool_return ?run (task_obj w i) w = (Status_OK, w')" "same_rest w w'"
      "pool_inv w' taskHolders n" "pool_abs taskHolders n w' = ps_free i (pool_abs taskHolders n w)"
      using return_off [OF inv c off] by blast
    have "run_one_task (\<lambda>f ctx w. (ans f ctx, w)) (task_obj w i) w = w'"
      using True r(1) by (auto simp: run_one_task_def answers_ok_def split: option.splits)
    then show ?thesis
      using r(2-4) by (simp add: ps_free_def)
  next
    case False
    obtain w' where r: "GenPool_return ?run (task_obj w i) (snd (GenPool_extract_callback (task_obj w i) w)) = (Status_OK, w')"
      "same_rest w w'" "pool_inv w' taskHolders n" "task_cells n w' = (task_cells n w)(i := None)"
      "ps_addr (pool_abs taskHolders n w') = ps_addr (pool_abs taskHolders n w)"
      using extract_then_return [OF inv c] by blast
    have "run_one_task (\<lambda>f ctx w. (ans f ctx, w)) (task_obj w i) w = w'"
      using False r(1) by (auto simp: run_one_task_def answers_ok_def split: option.splits)
    then show ?thesis
      using r(2-5) by simp
  qed
qed

lemma task_view:
  assumes "task_cells n w' j = task_cells n w j" "task_obj w' j = task_obj w j" "sr_task w' = sr_task w"
  shows "periodic n w' j = periodic n w j" "one_shot n w' j = one_shot n w j"
    "task_kept ans n w' j = task_kept ans n w j"
  by (simp_all only: periodic_def one_shot_def task_kept_def answers_ok_def assms)

text \<open>What one turn does to the worlds the loop lemma needs, in either case.\<close>

lemma run_one_task_effect:
  fixes w :: "'f sr_world"
  assumes inv: "pool_inv w taskHolders n" and k: "periodic n w i \<or> one_shot n w i"
    and q: "ptr_queue (iw_queue w (taskQs (taskQ w)))"
      "length (ptrs (iw_queue w (taskQs (taskQ w)))) < gq_slots (iw_queue w (taskQs (taskQ w))) - 1"
  shows "\<exists>w'. run_one_task (\<lambda>f ctx w. (ans f ctx, w)) (task_obj w i) w = w' \<and> pool_inv w' taskHolders n \<and>
    (\<forall>k. k \<noteq> taskQs (taskQ w) \<longrightarrow> iw_queue w' k = iw_queue w k) \<and>
    ptr_queue (iw_queue w' (taskQs (taskQ w))) \<and>
    ptrs (iw_queue w' (taskQs (taskQ w))) = ptrs (iw_queue w (taskQs (taskQ w))) @
      (if task_kept ans n w i then [task_obj w i] else []) \<and>
    gq_slots (iw_queue w' (taskQs (taskQ w))) = gq_slots (iw_queue w (taskQs (taskQ w))) \<and>
    task_cells n w' = (if task_kept ans n w i then task_cells n w else (task_cells n w)(i := None)) \<and>
    task_obj w' = task_obj w \<and> sr_task w' = sr_task w \<and> taskQ w' = taskQ w \<and>
    task_internal_error w' = task_internal_error w"
proof (cases "task_kept ans n w i")
  case True
  obtain q' where "run_one_task (\<lambda>f ctx w. (ans f ctx, w)) (task_obj w i) w =
      w\<lparr>iw_queue := (iw_queue w)(taskQs (taskQ w) := q')\<rparr>" "ptr_queue q'"
    "ptrs q' = ptrs (iw_queue w (taskQs (taskQ w))) @ [task_obj w i]"
    "gq_slots q' = gq_slots (iw_queue w (taskQs (taskQ w)))"
    using run_one_kept [OF inv True q] by blast
  then show ?thesis
    using inv True by (simp add: pool_simps fun_eq_iff)
next
  case False
  obtain w' where w': "run_one_task (\<lambda>f ctx w. (ans f ctx, w)) (task_obj w i) w = w'" "same_rest w w'"
    "pool_inv w' taskHolders n" "task_cells n w' = (task_cells n w)(i := None)"
    "ps_addr (pool_abs taskHolders n w') = ps_addr (pool_abs taskHolders n w)"
    using run_one_dropped [OF inv k False] by blast
  then have "task_obj w' = task_obj w"
    by (simp add: pool_abs_def)
  with w' show ?thesis
    using q by (intro exI [of _ w']) (simp add: same_rest_def False)
qed

lemma run_tasks_loop_effect:
  fixes w :: "'f sr_world"
  assumes ne: "taskQs frm \<noteq> taskQs to"
  shows "taskQ w = to \<Longrightarrow> pool_inv w taskHolders n \<Longrightarrow> ptr_queue (iw_queue w (taskQs frm)) \<Longrightarrow>
    ptrs (iw_queue w (taskQs frm)) = map (task_obj w) is \<Longrightarrow> distinct is \<Longrightarrow>
    (\<And>i. i \<in> set is \<Longrightarrow> periodic n w i \<or> one_shot n w i) \<Longrightarrow> ptr_queue (iw_queue w (taskQs to)) \<Longrightarrow>
    length (ptrs (iw_queue w (taskQs to))) + length is \<le> gq_slots (iw_queue w (taskQs to)) - 1 \<Longrightarrow>
    \<exists>w'. run_tasks_loop (\<lambda>f ctx w. (ans f ctx, w)) frm w = Some w' \<and> pool_inv w' taskHolders n \<and>
      ptrs (iw_queue w' (taskQs frm)) = [] \<and>
      ptrs (iw_queue w' (taskQs to)) = ptrs (iw_queue w (taskQs to)) @ map (task_obj w) (filter (task_kept ans n w) is) \<and>
      task_cells n w' = (\<lambda>i. if i \<in> set is \<and> \<not> task_kept ans n w i then None else task_cells n w i) \<and>
      task_internal_error w' = task_internal_error w"
proof (induction "is" arbitrary: w)
  case Nil
  then have "ptrs (iw_queue w (taskQs frm)) = []" by simp
  from q_get_cases(1) [OF Nil.prems(3) this] Nil.prems show ?case
    by (subst run_tasks_loop.simps) (auto split: prod.splits)
next
  case (Cons i "is")
  let ?run = "\<lambda>f ctx w. (ans f ctx, w) :: Status_t \<times> 'f sr_world"
  obtain q where q: "q_get (taskQs frm) w = (Status_OK, Some (task_obj w i), w\<lparr>iw_queue := (iw_queue w)(taskQs frm := q)\<rparr>)"
    "ptr_queue q" "ptrs q = map (task_obj w) is"
    using q_get_cases(2) [OF Cons.prems(3), of "task_obj w i"] Cons.prems(4) by auto
  define w1 where "w1 = w\<lparr>iw_queue := (iw_queue w)(taskQs frm := q)\<rparr>"
  have w1: "pool_inv w1 taskHolders n" "task_cells n w1 = task_cells n w" "task_obj w1 = task_obj w"
    "sr_task w1 = sr_task w" "taskQ w1 = to" "task_internal_error w1 = task_internal_error w"
    "iw_queue w1 (taskQs to) = iw_queue w (taskQs to)" "iw_queue w1 (taskQs frm) = q"
    using Cons.prems(1,2) ne by (auto simp: w1_def pool_simps)
  have view1: "periodic n w1 j = periodic n w j" "one_shot n w1 j = one_shot n w j"
    "task_kept ans n w1 j = task_kept ans n w j" for j
    using w1 by (simp_all add: task_view [of n w1 j w])
  obtain w2 where w2: "run_one_task ?run (task_obj w i) w1 = w2" "pool_inv w2 taskHolders n"
    "iw_queue w2 (taskQs frm) = q" "ptr_queue (iw_queue w2 (taskQs to))"
    "ptrs (iw_queue w2 (taskQs to)) = ptrs (iw_queue w (taskQs to)) @ (if task_kept ans n w i then [task_obj w i] else [])"
    "gq_slots (iw_queue w2 (taskQs to)) = gq_slots (iw_queue w (taskQs to))"
    "task_cells n w2 = (if task_kept ans n w i then task_cells n w else (task_cells n w)(i := None))"
    "task_obj w2 = task_obj w" "sr_task w2 = sr_task w" "taskQ w2 = to"
    "task_internal_error w2 = task_internal_error w"
    using run_one_task_effect [of w1 n i ans] w1 ne Cons.prems(6) [of i] Cons.prems(7,8) view1 by auto
  have view2: "periodic n w2 j = periodic n w j" "one_shot n w2 j = one_shot n w j"
    "task_kept ans n w2 j = task_kept ans n w j" if "j \<noteq> i" for j
    using w2(7,8,9) that by (intro task_view; simp)+
  have "\<exists>w'. run_tasks_loop ?run frm w2 = Some w' \<and> pool_inv w' taskHolders n \<and>
      ptrs (iw_queue w' (taskQs frm)) = [] \<and>
      ptrs (iw_queue w' (taskQs to)) = ptrs (iw_queue w2 (taskQs to)) @ map (task_obj w2) (filter (task_kept ans n w2) is) \<and>
      task_cells n w' = (\<lambda>i. if i \<in> set is \<and> \<not> task_kept ans n w2 i then None else task_cells n w2 i) \<and>
      task_internal_error w' = task_internal_error w2"
  proof (rule Cons.IH)
    fix j assume "j \<in> set is"
    moreover from this have "j \<noteq> i"
      using Cons.prems(5) by auto
    ultimately show "periodic n w2 j \<or> one_shot n w2 j"
      using Cons.prems(6) [of j] view2 by simp
  qed (use w2 q Cons.prems(5,8) in auto)
  moreover have kept: "task_kept ans n w2 j = task_kept ans n w j" if "j \<in> set is" for j
    using view2(3) [of j] that Cons.prems(5) by auto
  then have "filter (task_kept ans n w2) is = filter (task_kept ans n w) is"
    by (intro filter_cong) simp_all
  moreover have "run_tasks_loop ?run frm w = run_tasks_loop ?run frm w2"
    by (subst run_tasks_loop.simps) (simp add: q(1) w1_def [symmetric] w2(1))
  moreover have "(\<lambda>j. if j \<in> set is \<and> \<not> task_kept ans n w2 j then None else task_cells n w2 j) =
      (\<lambda>j. if j \<in> set (i # is) \<and> \<not> task_kept ans n w j then None else task_cells n w j)"
    using Cons.prems(5) kept w2(7) by (auto simp: fun_eq_iff)
  ultimately show ?case
    using w2 by auto
qed

section \<open>Scheduling a task\<close>

lemma sr_alloc_frame:
  fixes w :: "'f sr_world"
  shows "sr_task (snd (alloc_res (GenPool_allocate_with_callback s cb ctx w) w)) = sr_task w"
    "taskQ (snd (alloc_res (GenPool_allocate_with_callback s cb ctx w) w)) = taskQ w"
  by (auto simp: alloc_res_def GenPool_allocate_with_callback_def Let_def upd_pre_def set_next_def
      split: option.splits)

lemma pool_abs_task [pool_simps]:
  fixes w :: "'f sr_world"
  shows "pool_abs s n (w\<lparr>sr_task := f\<rparr>) = pool_abs s n w" "pool_inv (w\<lparr>sr_task := f\<rparr>) s n = pool_inv w s n"
    "pool_abs s n (w\<lparr>taskQ := k\<rparr>) = pool_abs s n w" "pool_inv (w\<lparr>taskQ := k\<rparr>) s n = pool_inv w s n"
    "obj_of (w\<lparr>taskQ := k\<rparr>) s = obj_of w s"
  by (simp_all add: pool_abs_def pool_inv_def pool_hdr_def cell_ok_def next_ix_def obj_of_def
      free_cell_def cell_def fun_eq_iff)

lemma Run_Task_effect:
  fixes w :: "'f sr_world"
  assumes inv: "pool_inv w taskHolders n" and onr: "gp_onRelease (ph_pool w taskHolders) = Some Requeue_task_cb"
    and j: "ps_search (pool_abs taskHolders n w) = Some j" and cb: "cbi_callback cb \<noteq> None"
    and q: "taskQ w < 2" "ptr_queue (iw_queue w (taskQs (taskQ w)))"
      "length (ptrs (iw_queue w (taskQs (taskQ w)))) < gq_slots (iw_queue w (taskQs (taskQ w))) - 1"
  shows "\<exists>w'. Run_Task cb w = Some (Status_OK, w') \<and> pool_inv w' taskHolders n \<and>
    task_cells n w' = (task_cells n w)(j \<mapsto> \<lparr>cbi_callback = Some Requeue_task_cb, cbi_context = task_obj w j\<rparr>) \<and>
    task_obj w' = task_obj w \<and> sr_task w' = (sr_task w)(task_obj w j := cb) \<and> taskQ w' = taskQ w \<and>
    (\<forall>k. k \<noteq> taskQs (taskQ w) \<longrightarrow> iw_queue w' k = iw_queue w k) \<and>
    ptr_queue (iw_queue w' (taskQs (taskQ w))) \<and>
    ptrs (iw_queue w' (taskQs (taskQ w))) = ptrs (iw_queue w (taskQs (taskQ w))) @ [task_obj w j]"
proof -
  let ?r = "GenPool_allocate_with_callback taskHolders (Some Requeue_task_cb) (-1) w"
  note sim = allocate_with_callback_sim [OF inv, of "Some Requeue_task_cb" "-1"]
  have addr: "ps_addr (pool_abs taskHolders n w) = task_obj w"
    by (simp add: pool_abs_def)
  obtain w1 where r: "?r = Some (Some (task_obj w j), w1)"
    using sim(2) by (auto simp: ps_alloc_def j alloc_res_def addr split: option.splits)
  have w1: "pool_inv w1 taskHolders n" "sr_task w1 = sr_task w" "taskQ w1 = taskQ w" "iw_queue w1 = iw_queue w"
    using sim(1) sr_alloc_frame [of taskHolders "Some Requeue_task_cb" "-1" w]
      allocate_queues(1) [of taskHolders "Some Requeue_task_cb" "-1" w]
    by (simp_all add: alloc_res_def r)
  have abs1: "pool_abs taskHolders n w1 = (pool_abs taskHolders n w)\<lparr>ps_next := j, ps_cells := (task_cells n w)
      (j \<mapsto> \<lparr>cbi_callback = Some Requeue_task_cb, cbi_context = task_obj w j\<rparr>)\<rparr>"
    using sim(2) by (simp add: ps_alloc_def j alloc_res_def r addr)
  have "ps_addr (pool_abs taskHolders n w1) = ps_addr (pool_abs taskHolders n w)"
    by (simp add: abs1)
  then have obj1: "task_obj w1 = task_obj w"
    by (simp add: pool_abs_def)
  define w2 where "w2 = w1\<lparr>sr_task := (sr_task w1)(task_obj w j := cb)\<rparr>"
  have "ptr_queue (iw_queue w2 (taskQs (taskQ w)))"
    "length (ptrs (iw_queue w2 (taskQs (taskQ w)))) < gq_slots (iw_queue w2 (taskQs (taskQ w))) - 1"
    using q w1 by (simp_all add: w2_def)
  from q_put_cases(1) [OF this, of "task_obj w j"] obtain q' where
    q': "q_put (taskQs (taskQ w)) (task_obj w j) w2 = (Status_OK, w2\<lparr>iw_queue := (iw_queue w2)(taskQs (taskQ w) := q')\<rparr>)"
    "ptr_queue q'" "ptrs q' = ptrs (iw_queue w2 (taskQs (taskQ w))) @ [task_obj w j]" by blast
  have "Run_Task cb w = Some (Status_OK, w2\<lparr>iw_queue := (iw_queue w2)(taskQs (taskQ w) := q')\<rparr>)"
    using cb q(1) q'(1) w1 by (simp add: Run_Task_def GenPool_allocate_def onr r put_task_def w2_def)
  moreover have "task_obj w2 = task_obj w"
    using obj1 by (simp add: w2_def obj_of_def cell_def fun_eq_iff)
  ultimately show ?thesis
    using w1 abs1 q' by (simp add: pool_simps fun_eq_iff) (simp add: w2_def pool_simps abs1 w1)
qed

section \<open>Properties\<close>


definition demo_sr :: "nat sr_world" where
  "demo_sr = DefineGenPool taskHolders 12 TASK_RUNNERS (Some Requeue_task_cb)
     \<lparr>ph_pre = (\<lambda>_. \<lparr>pb_theboss = 0, pb_guard = 0, pb_onRelease = \<lparr>cbi_callback = None, cbi_context = 0\<rparr>\<rparr>),
      ph_pool = (\<lambda>_. \<lparr>gp_next = 0, gp_end = 0, gp_onRelease = None, gp_objectSize = 0, gp_cellSize = 0\<rparr>),
      iw_queue = (\<lambda>_. DefineStaticGenQ 0 1 TASK_RUNNERS),
      iw_ipt = (\<lambda>_. \<lparr>ipt_iptPool = 0, ipt_toIsrQ = None, ipt_fromIsrQ = None, ipt_droppedTo = 0,
        ipt_droppedFrom = 0\<rparr>),
      isrReqQ_dropped_objects = 0, isrReqQ_errors = 0, system_run = True, time_tick = 0,
      timer_internal_error = 0, task_internal_error = 0, timeQ = None, addedTimeQ = None,
      sr_links = (\<lambda>_. \<lparr>lb_next = None\<rparr>),
      sr_timed = (\<lambda>_. \<lparr>tc_time = 0, tc_cb = \<lparr>cbi_callback = None, cbi_context = 0\<rparr>, tc_future = 0\<rparr>),
      sr_task = (\<lambda>_. \<lparr>cbi_callback = None, cbi_context = 0\<rparr>), taskQ = 0, last_time = 0xffff\<rparr>"

lemma demo_sr_ok:
  "pool_inv demo_sr taskHolders 20" "ptr_queue (iw_queue demo_sr k)" "ptrs (iw_queue demo_sr k) = []"
  "gq_slots (iw_queue demo_sr k) = 21" "taskQ demo_sr = 0"
  "gp_onRelease (ph_pool demo_sr taskHolders) = Some Requeue_task_cb"
  "ps_search (pool_abs taskHolders 20 demo_sr) = Some 0"
proof -
  show "pool_inv demo_sr taskHolders 20"
    unfolding demo_sr_def by (rule DefineGenPool_inv) (simp add: pool_fits_def)
  show "ps_search (pool_abs taskHolders 20 demo_sr) = Some 0"
    by code_simp
qed (use DefineStaticGenQ_ptr [of TASK_RUNNERS 0] in \<open>simp_all add: demo_sr_def DefineGenPool_def Let_def\<close>)




end
