(* ===== verification/StateMachine.thy ===== *)
theory StateMachine
  imports Prelude
begin

text \<open>
  The table-free state machine of \<^verbatim>\<open>src/src/state.c\<close> and \<^verbatim>\<open>state.h\<close>. States are
  functions (values of type \<open>'f\<close>, \<open>None\<close> for NULL, the off state), triggers and time-outs call
  back (values of type \<open>'c\<close>). What those functions do, and what the user's time base returns, is
  the environment \<open>sm_env\<close> of the definitions; they receive the machine and may change it. The
  result \<open>None\<close> is undefined behaviour of the C code: a call through NULL or a read past the state
  list. The order in which a machine calls its state functions is checked against an automaton.
\<close>

section \<open>Types (state.h)\<close>

datatype stRet_t = SM_OK | SM_ERR | SM_OFF | SM_AT_TARGET | SM_BAD_PARAMETER

datatype smPhase_t = SMP_RUN | SMP_INIT | SMP_EXIT | SMP_TIMEOUT | SMP_LIMIT

record ('f, 'c) smTrigger_t =
  trigState :: "'f option"
  trig_callback :: "'c option"

record ('f, 'c) sm_t =
  sm_stateList :: "'f option list option"
  sm_current :: "'f option"
  sm_next :: "'f option"
  sm_prev :: "'f option"
  sm_target :: "('f, 'c) smTrigger_t option"
  sm_onErr :: "('f, 'c) smTrigger_t option"
  sm_timeoutCb :: "'c option"
  sm_context :: nat
  sm_states :: u32
  currentStateEntries :: u32
  stateStartTime :: u32
  currentTimeout :: u32
  prevStateDuration :: u32
  prevStateEntries :: u32
  sm_errors :: u32
  doBefore :: u8
  timedOut :: u8

record ('f, 'c, 's) sm_env =
  env_run :: "'f \<Rightarrow> smPhase_t \<Rightarrow> 's \<Rightarrow> stRet_t \<times> 's"
  env_cb :: "'c \<Rightarrow> 's \<Rightarrow> 's"
  env_time :: "'s \<Rightarrow> u32"

type_synonym ('f, 'c, 'z) senv = "('f, 'c, ('f, 'c, 'z) sm_t_scheme) sm_env"

section \<open>The machine (state.c)\<close>

definition doSwitchBookKeeping :: "('f, 'c, 'z) senv \<Rightarrow> ('f, 'c, 'z) sm_t_scheme \<Rightarrow> ('f, 'c, 'z) sm_t_scheme" where
  "doSwitchBookKeeping env st =
     (let time = env_time env st in
      st\<lparr>sm_prev := sm_current st, prevStateDuration := time - stateStartTime st,
         stateStartTime := time, prevStateEntries := currentStateEntries st,
         currentStateEntries := 0, currentTimeout := 0, sm_timeoutCb := None, timedOut := 0\<rparr>)"

definition initProcess ::
    "('f, 'c, 'z) senv \<Rightarrow> 'f option \<Rightarrow> ('f, 'c, 'z) sm_t_scheme \<Rightarrow> stRet_t \<times> ('f, 'c, 'z) sm_t_scheme" where
  "initProcess env stateFunc st =
     (let st1 = (doSwitchBookKeeping env st)\<lparr>sm_current := stateFunc, sm_next := stateFunc\<rparr> in
      case stateFunc of Some f \<Rightarrow> env_run env f SMP_INIT st1 | None \<Rightarrow> (SM_OFF, st1))"

definition call_trigger ::
    "('f, 'c, 'z) senv \<Rightarrow> 'c option \<Rightarrow> ('f, 'c, 'z) sm_t_scheme \<Rightarrow> ('f, 'c, 'z) sm_t_scheme" where
  "call_trigger env cb st = (case cb of Some c \<Rightarrow> env_cb env c st | None \<Rightarrow> st)"

definition processError ::
    "('f, 'c, 'z) senv \<Rightarrow> ('f, 'c, 'z) sm_t_scheme \<Rightarrow> (stRet_t \<times> ('f, 'c, 'z) sm_t_scheme) option" where
  "processError env st =
     (let st1 = st\<lparr>sm_errors := sm_errors st + 1\<rparr> in
      case sm_onErr st1 of
        Some tr \<Rightarrow>
          (let st2 = call_trigger env (trig_callback tr) st1 in
           case sm_onErr st2 of
             Some tr' \<Rightarrow> Some (initProcess env (trigState tr') st2)
           | None \<Rightarrow> None)
      | None \<Rightarrow>
          (case sm_stateList st1 of
             Some (f # _) \<Rightarrow> Some (initProcess env f st1)
           | Some [] \<Rightarrow> None
           | None \<Rightarrow> Some (SM_ERR, snd (initProcess env None st1))))"

definition processSwitch ::
    "('f, 'c, 'z) senv \<Rightarrow> ('f, 'c, 'z) sm_t_scheme \<Rightarrow> stRet_t \<times> ('f, 'c, 'z) sm_t_scheme" where
  "processSwitch env st =
     (let st1 = (case sm_current st of
            Some f \<Rightarrow> snd (env_run env f SMP_EXIT st)
          | None \<Rightarrow> st);
          st2 = doSwitchBookKeeping env st1;
          st3 = st2\<lparr>sm_current := sm_next st2\<rparr>;
          (rt, st4) = (case sm_current st3 of
            Some f \<Rightarrow> env_run env f SMP_INIT st3
          | None \<Rightarrow> (SM_OFF, st3))
      in case sm_target st4 of
           Some tr \<Rightarrow>
             if trigState tr = sm_current st4 then (SM_AT_TARGET, call_trigger env (trig_callback tr) st4)
             else (rt, st4)
         | None \<Rightarrow> (rt, st4))"

definition call_current ::
    "('f, 'c, 'z) senv \<Rightarrow> smPhase_t \<Rightarrow> ('f, 'c, 'z) sm_t_scheme \<Rightarrow> (stRet_t \<times> ('f, 'c, 'z) sm_t_scheme) option" where
  "call_current env phase st =
     (case sm_current st of Some f \<Rightarrow> Some (env_run env f phase st) | None \<Rightarrow> None)"

definition smProcessRun ::
    "('f, 'c, 'z) senv \<Rightarrow> ('f, 'c, 'z) sm_t_scheme \<Rightarrow> (stRet_t \<times> ('f, 'c, 'z) sm_t_scheme) option" where
  "smProcessRun env st =
     (let st1 = st\<lparr>currentStateEntries := currentStateEntries st + 1\<rparr> in
      if currentTimeout st1 \<noteq> 0 \<and> env_time env st1 - stateStartTime st1 \<ge> currentTimeout st1
      then call_current env SMP_TIMEOUT
             (call_trigger env (sm_timeoutCb st1) (st1\<lparr>timedOut := 1, currentTimeout := 0\<rparr>))
      else call_current env SMP_RUN st1)"

text \<open>\<open>or_error rt st\<close>: the nested error tests of \<open>smProcessBefore\<close>; \<open>Inl\<close> is its early return.\<close>

definition or_error ::
    "('f, 'c, 'z) senv \<Rightarrow> stRet_t \<Rightarrow> ('f, 'c, 'z) sm_t_scheme \<Rightarrow>
     (('f, 'c, 'z) sm_t_scheme + ('f, 'c, 'z) sm_t_scheme) option" where
  "or_error env rt st =
     (if rt = SM_ERR then
        (case processError env st of
           None \<Rightarrow> None
         | Some (rt', st') \<Rightarrow> Some (if rt' = SM_ERR then Inl st' else Inr st'))
      else Some (Inr st))"

definition smProcessBefore ::
    "('f, 'c, 'z) senv \<Rightarrow> ('f, 'c, 'z) sm_t_scheme \<Rightarrow> (stRet_t \<times> ('f, 'c, 'z) sm_t_scheme) option" where
  "smProcessBefore env st =
     (let (rt, st1) = (if sm_current st \<noteq> sm_next st then processSwitch env st else (SM_OK, st)) in
      case or_error env rt st1 of
        None \<Rightarrow> None
      | Some (Inl st2) \<Rightarrow> Some (SM_ERR, st2)
      | Some (Inr st2) \<Rightarrow>
          (let cont = (if sm_current st2 \<noteq> None then
                (case smProcessRun env st2 of None \<Rightarrow> None | Some (rt2, st3) \<Rightarrow> or_error env rt2 st3)
              else Some (Inr st2))
           in case cont of
                None \<Rightarrow> None
              | Some (Inl st4) \<Rightarrow> Some (SM_ERR, st4)
              | Some (Inr st4) \<Rightarrow>
                  Some (if rt = SM_AT_TARGET then rt
                        else if sm_current st4 = None \<and> rt = SM_OK then SM_OFF else rt, st4)))"

definition smProcessAfter ::
    "('f, 'c, 'z) senv \<Rightarrow> ('f, 'c, 'z) sm_t_scheme \<Rightarrow> (stRet_t \<times> ('f, 'c, 'z) sm_t_scheme) option" where
  "smProcessAfter env st =
     (case (if sm_current st \<noteq> None then smProcessRun env st else Some (SM_OFF, st)) of
        None \<Rightarrow> None
      | Some (rt, st1) \<Rightarrow>
          (let (rt2, st2) = (if rt \<noteq> SM_ERR \<and> sm_current st1 \<noteq> sm_next st1
                             then processSwitch env st1 else (rt, st1)) in
           case (if rt2 = SM_ERR then processError env st2 else Some (rt2, st2)) of
             None \<Rightarrow> None
           | Some (rt3, st3) \<Rightarrow>
               Some (if sm_current st3 = None \<and> rt3 = SM_OK then SM_OFF else rt3, st3)))"

definition SmProcess ::
    "('f, 'c, 'z) senv \<Rightarrow> ('f, 'c, 'z) sm_t_scheme \<Rightarrow> (stRet_t \<times> ('f, 'c, 'z) sm_t_scheme) option" where
  "SmProcess env st = (if doBefore st \<noteq> 0 then smProcessBefore env st else smProcessAfter env st)"

text \<open>
  \<open>SmInit\<close> clears the object it is given; \<open>st\<close> supplies what is not part of \<open>sm_t\<close>. The pointer
  \<open>None\<close> is a NULL machine.
\<close>

definition sm_cleared ::
    "('f, 'c, 'z) senv \<Rightarrow> 'f option list option \<Rightarrow> u32 \<Rightarrow> nat \<Rightarrow>
     ('f, 'c) smTrigger_t option \<Rightarrow> ('f, 'c) smTrigger_t option \<Rightarrow>
     ('f, 'c, 'z) sm_t_scheme \<Rightarrow> ('f, 'c, 'z) sm_t_scheme" where
  "sm_cleared env stateList states context onErr target st =
     (let st1 = st\<lparr>sm_stateList := stateList, sm_current := None, sm_next := None, sm_prev := None,
            sm_target := target, sm_onErr := onErr, sm_timeoutCb := None, sm_context := context,
            sm_states := states, currentStateEntries := 0, stateStartTime := 0,
            currentTimeout := 0, prevStateDuration := 0, prevStateEntries := 0, sm_errors := 0,
            doBefore := 0, timedOut := 0\<rparr>
      in st1\<lparr>stateStartTime := env_time env st1\<rparr>)"

definition SmInit ::
    "('f, 'c, 'z) senv \<Rightarrow> ('f, 'c, 'z) sm_t_scheme option \<Rightarrow> 'f option list option \<Rightarrow> u32 \<Rightarrow> nat \<Rightarrow>
     ('f, 'c) smTrigger_t option \<Rightarrow> ('f, 'c) smTrigger_t option \<Rightarrow>
     (stRet_t \<times> ('f, 'c, 'z) sm_t_scheme option) option" where
  "SmInit env stp stateList states context onErr target =
     (case stp of
        None \<Rightarrow> Some (SM_BAD_PARAMETER, None)
      | Some st \<Rightarrow>
          if stateList = None \<and> states \<noteq> 0 then Some (SM_BAD_PARAMETER, Some st)
          else
            let st2 = sm_cleared env stateList states context onErr target st
            in case sm_stateList st2 of
                 Some (f # _) \<Rightarrow> Some (map_prod id Some (initProcess env f st2))
               | Some [] \<Rightarrow> None
               | None \<Rightarrow> Some (map_prod id Some (initProcess env None st2)))"

definition SmSetNext :: "u32 \<Rightarrow> ('f, 'c, 'z) sm_t_scheme \<Rightarrow> (stRet_t \<times> ('f, 'c, 'z) sm_t_scheme) option" where
  "SmSetNext state st =
     (if state < sm_states st then
        (case sm_stateList st of
           Some xs \<Rightarrow> if unat state < length xs then Some (SM_OK, st\<lparr>sm_next := xs ! unat state\<rparr>) else None
         | None \<Rightarrow> None)
      else if state \<noteq> 0 then Some (SM_BAD_PARAMETER, st)
      else Some (SM_OK, st\<lparr>sm_next := None\<rparr>))"

definition SmSetTimeout ::
    "u32 \<Rightarrow> 'c option \<Rightarrow> ('f, 'c, 'z) sm_t_scheme \<Rightarrow> stRet_t \<times> ('f, 'c, 'z) sm_t_scheme" where
  "SmSetTimeout ticks cb st = (SM_OK, st\<lparr>currentTimeout := ticks, sm_timeoutCb := cb\<rparr>)"

section \<open>The discipline of state function calls\<close>

text \<open>
  A log of the calls with what they returned, and the automaton that accepts the orders promised:
  a state is entered by \<open>SMP_INIT\<close>, is then run, and left by \<open>SMP_EXIT\<close>; only after a call that
  returned \<open>SM_ERR\<close> may a state be entered without leaving the one before. The automaton's state is
  the entered state function and whether the last call failed.
\<close>

type_synonym 'f call = "'f \<times> smPhase_t \<times> stRet_t"

fun disc_step :: "'f option \<times> bool \<Rightarrow> 'f call \<Rightarrow> ('f option \<times> bool) option" where
  "disc_step (cur, err) (f, ph, r) =
     (case ph of
        SMP_INIT \<Rightarrow> if cur = None \<or> err then Some (Some f, r = SM_ERR) else None
      | SMP_EXIT \<Rightarrow> if cur = Some f then Some (None, False) else None
      | SMP_LIMIT \<Rightarrow> None
      | _ \<Rightarrow> if cur = Some f then Some (Some f, r = SM_ERR) else None)"

fun disc_run :: "'f option \<times> bool \<Rightarrow> 'f call list \<Rightarrow> ('f option \<times> bool) option" where
  "disc_run q [] = Some q"
| "disc_run q (c # cs) = (case disc_step q c of None \<Rightarrow> None | Some q' \<Rightarrow> disc_run q' cs)"

lemma disc_run_append:
  "disc_run q (xs @ ys) = (case disc_run q xs of None \<Rightarrow> None | Some q' \<Rightarrow> disc_run q' ys)"
  by (induction q xs rule: disc_run.induct) (auto split: option.splits)

record ('f, 'c) sm_logged = "('f, 'c) sm_t" +
  sm_log :: "'f call list"
  sm_clock :: u32

text \<open>
  The environment of user functions that do anything to the machine except write its \<open>current\<close>
  state, with every call logged.
\<close>

definition confined_env ::
    "('f \<Rightarrow> smPhase_t \<Rightarrow> ('f, 'c) sm_logged \<Rightarrow> stRet_t \<times> ('f, 'c) sm_logged) \<Rightarrow>
     ('c \<Rightarrow> ('f, 'c) sm_logged \<Rightarrow> ('f, 'c) sm_logged) \<Rightarrow>
     ('f, 'c, ('f, 'c) sm_logged) sm_env" where
  "confined_env beh cbs =
     \<lparr>env_run = (\<lambda>f ph st. case beh f ph st of
          (r, st') \<Rightarrow> (r, st'\<lparr>sm_current := sm_current st, sm_log := sm_log st @ [(f, ph, r)]\<rparr>)),
      env_cb = (\<lambda>c st. (cbs c st)\<lparr>sm_current := sm_current st, sm_log := sm_log st\<rparr>),
      env_time = sm_clock\<rparr>"

text \<open>Log and machine agree: the entered state is the current one, or the machine is off after a failure.\<close>

definition disc :: "'f call list \<Rightarrow> 'f option \<times> bool \<Rightarrow> bool" where
  "disc log q \<longleftrightarrow> disc_run (None, False) log = Some q"

definition failed :: "'f call list \<Rightarrow> bool" where
  "failed log \<longleftrightarrow> (\<exists>c. disc log (c, True))"

definition in_sync :: "'f option \<Rightarrow> 'f call list \<Rightarrow> bool" where
  "in_sync cur log \<longleftrightarrow> (\<exists>e. disc log (cur, e)) \<or> (cur = None \<and> failed log)"

definition enterable :: "'f call list \<Rightarrow> bool" where
  "enterable log \<longleftrightarrow> (\<exists>e. disc log (None, e)) \<or> failed log"

lemma enterable_off: "in_sync None log \<Longrightarrow> enterable log"
  by (auto simp: in_sync_def enterable_def)

lemma sync_off: "enterable log \<Longrightarrow> in_sync None log"
  by (auto simp: in_sync_def enterable_def)

lemma failed_enterable: "failed log \<Longrightarrow> enterable log"
  by (simp add: enterable_def)

lemma log_init:
  "enterable log \<Longrightarrow> in_sync (Some f) (log @ [(f, SMP_INIT, r)]) \<and>
     (r = SM_ERR \<longrightarrow> failed (log @ [(f, SMP_INIT, r)]))"
  by (auto simp: enterable_def failed_def disc_def in_sync_def disc_run_append)

lemma log_run:
  "in_sync (Some f) log \<Longrightarrow> ph = SMP_RUN \<or> ph = SMP_TIMEOUT \<Longrightarrow>
     in_sync (Some f) (log @ [(f, ph, r)]) \<and> (r = SM_ERR \<longrightarrow> failed (log @ [(f, ph, r)]))"
  by (auto simp: failed_def disc_def in_sync_def disc_run_append)

lemma log_exit: "in_sync (Some f) log \<Longrightarrow> enterable (log @ [(f, SMP_EXIT, r)])"
  by (auto simp: enterable_def disc_def in_sync_def disc_run_append)

abbreviation st_sync :: "('f, 'c) sm_logged \<Rightarrow> bool" where
  "st_sync st \<equiv> in_sync (sm_current st) (sm_log st)"

text \<open>
  What the discipline needs of an environment: calls are logged and leave \<open>current\<close> alone.
\<close>

locale logged_env =
  fixes env :: "('f, 'c, ('f, 'c) sm_logged) sm_env"
  assumes run: "env_run env f ph st = (r, st') \<Longrightarrow>
      sm_log st' = sm_log st @ [(f, ph, r)] \<and> sm_current st' = sm_current st"
    and cb: "sm_log (env_cb env c st) = sm_log st \<and> sm_current (env_cb env c st) = sm_current st"
begin

lemma trigger_keeps:
  "sm_log (call_trigger env c st) = sm_log st" "sm_current (call_trigger env c st) = sm_current st"
  using cb by (auto simp: call_trigger_def split: option.splits)

lemma booking_keeps:
  "sm_log (doSwitchBookKeeping env st) = sm_log st" "sm_current (doSwitchBookKeeping env st) = sm_current st"
  by (simp_all add: doSwitchBookKeeping_def Let_def)

lemma initProcess_sync:
  assumes "initProcess env f st = (r, st')" "enterable (sm_log st)"
  shows "st_sync st'"
proof (cases f)
  case None
  then have "sm_current st' = None" "sm_log st' = sm_log st"
    using assms(1) booking_keeps [of st] by (auto simp: initProcess_def Let_def)
  with assms(2) show ?thesis
    by (simp add: sync_off)
next
  case (Some g)
  let ?st1 = "(doSwitchBookKeeping env st)\<lparr>sm_current := f, sm_next := f\<rparr>"
  have "env_run env g SMP_INIT ?st1 = (r, st')"
    using assms(1) Some by (simp add: initProcess_def Let_def)
  from run [OF this] log_init [OF assms(2)] show ?thesis
    by (simp add: booking_keeps Some)
qed

lemma processError_sync:
  assumes "processError env st = Some (r, st')" "failed (sm_log st)"
  shows "st_sync st'"
proof -
  have "\<exists>f x r'. initProcess env f x = (r', st') \<and> sm_log x = sm_log st"
  proof (cases "sm_onErr st")
    case None
    then show ?thesis
      using assms(1) by (fastforce simp: processError_def Let_def prod_eq_iff split: option.splits list.splits)
  next
    case (Some tr)
    then show ?thesis
      using assms(1) trigger_keeps by (fastforce simp: processError_def Let_def split: option.splits)
  qed
  then show ?thesis
    using initProcess_sync failed_enterable [OF assms(2)] by metis
qed

lemma call_current_sync:
  assumes "call_current env ph st = Some (r, st')" "st_sync st" "ph = SMP_RUN \<or> ph = SMP_TIMEOUT"
  shows "st_sync st'" "r = SM_ERR \<Longrightarrow> failed (sm_log st')"
proof -
  obtain f where f: "sm_current st = Some f" "env_run env f ph st = (r, st')"
    using assms(1) by (auto simp: call_current_def split: option.splits)
  show "st_sync st'" "r = SM_ERR \<Longrightarrow> failed (sm_log st')"
    using run [OF f(2)] f(1) assms(2) log_run [OF _ assms(3), of f "sm_log st" r] by simp_all
qed

lemma smProcessRun_sync:
  assumes "smProcessRun env st = Some (r, st')" "st_sync st"
  shows "st_sync st'" "r = SM_ERR \<Longrightarrow> failed (sm_log st')"
proof -
  have "\<exists>ph st1. call_current env ph st1 = Some (r, st') \<and> (ph = SMP_RUN \<or> ph = SMP_TIMEOUT) \<and>
    sm_log st1 = sm_log st \<and> sm_current st1 = sm_current st"
  proof (cases "currentTimeout st \<noteq> 0 \<and>
      env_time env (st\<lparr>currentStateEntries := currentStateEntries st + 1\<rparr>) - stateStartTime st \<ge> currentTimeout st")
    case True
    show ?thesis
      by (rule exI [of _ SMP_TIMEOUT], rule exI [of _ "call_trigger env (sm_timeoutCb st)
        (st\<lparr>currentStateEntries := currentStateEntries st + 1, timedOut := 1, currentTimeout := 0\<rparr>)"])
        (use assms(1) True in \<open>simp add: smProcessRun_def Let_def trigger_keeps\<close>)
  next
    case False
    show ?thesis
      by (rule exI [of _ SMP_RUN], rule exI [of _ "st\<lparr>currentStateEntries := currentStateEntries st + 1\<rparr>"])
        (use assms(1) False in \<open>simp add: smProcessRun_def Let_def split: if_splits\<close>)
  qed
  then show "st_sync st'" "r = SM_ERR \<Longrightarrow> failed (sm_log st')"
    using call_current_sync assms(2) by metis+
qed

lemma processSwitch_sync:
  assumes "processSwitch env st = (r, st')" "st_sync st"
  shows "st_sync st'" "r = SM_ERR \<Longrightarrow> failed (sm_log st')"
proof -
  define st1 where "st1 = (case sm_current st of Some f \<Rightarrow> snd (env_run env f SMP_EXIT st) | None \<Rightarrow> st)"
  define st3 where "st3 = (doSwitchBookKeeping env st1)\<lparr>sm_current := sm_next (doSwitchBookKeeping env st1)\<rparr>"
  define p4 where "p4 = (case sm_current st3 of Some f \<Rightarrow> env_run env f SMP_INIT st3 | None \<Rightarrow> (SM_OFF, st3))"
  have "enterable (sm_log st1)"
  proof (cases "sm_current st")
    case (Some f)
    obtain r1 where "env_run env f SMP_EXIT st = (r1, st1)"
      using Some by (simp add: st1_def prod_eq_iff)
    from run [OF this] Some assms(2) show ?thesis
      by (simp add: log_exit)
  qed (use assms(2) enterable_off in \<open>simp add: st1_def\<close>)
  then have en: "enterable (sm_log st3)"
    by (simp add: st3_def booking_keeps)
  have p4: "st_sync (snd p4) \<and> (fst p4 = SM_ERR \<longrightarrow> failed (sm_log (snd p4)))"
  proof (cases "sm_current st3")
    case None
    then show ?thesis
      using en by (simp add: p4_def sync_off)
  next
    case (Some f)
    then have "env_run env f SMP_INIT st3 = (fst p4, snd p4)"
      by (simp add: p4_def)
    from run [OF this] log_init [OF en] Some show ?thesis
      by simp
  qed
  have res: "(r, st') = (case sm_target (snd p4) of
      Some tr \<Rightarrow> if trigState tr = sm_current (snd p4)
        then (SM_AT_TARGET, call_trigger env (trig_callback tr) (snd p4)) else p4
    | None \<Rightarrow> p4)"
    using assms(1) unfolding processSwitch_def Let_def st1_def [symmetric] st3_def [symmetric] p4_def [symmetric]
    by (cases p4) (auto split: option.splits)
  have "st' = snd p4 \<and> r = fst p4 \<or> r = SM_AT_TARGET \<and> sm_log st' = sm_log (snd p4) \<and> sm_current st' = sm_current (snd p4)"
    using res trigger_keeps by (auto simp: prod_eq_iff split: option.splits if_splits)
  with p4 show "st_sync st'" "r = SM_ERR \<Longrightarrow> failed (sm_log st')"
    by auto
qed

lemma or_error_sync:
  assumes "or_error env r st = Some x" "st_sync st" "r = SM_ERR \<Longrightarrow> failed (sm_log st)"
  shows "case x of Inl st' \<Rightarrow> st_sync st' | Inr st' \<Rightarrow> st_sync st'"
  using assms processError_sync by (auto simp: or_error_def split: if_splits option.splits)

lemma smProcessBefore_sync:
  assumes "smProcessBefore env st = Some (r, st')" "st_sync st"
  shows "st_sync st'"
proof -
  obtain rt st1 where p: "(if sm_current st \<noteq> sm_next st then processSwitch env st else (SM_OK, st)) = (rt, st1)"
    by fastforce
  then have s1: "st_sync st1" "rt = SM_ERR \<Longrightarrow> failed (sm_log st1)"
    using processSwitch_sync assms(2) by (auto split: if_splits)
  obtain x where x: "or_error env rt st1 = Some x"
    using assms(1) p by (auto simp: smProcessBefore_def split: option.splits)
  note sx = or_error_sync [OF x s1]
  show ?thesis
  proof (cases x)
    case (Inl st2)
    then show ?thesis
      using assms(1) p x sx by (simp add: smProcessBefore_def)
  next
    case (Inr st2)
    then have s2: "st_sync st2"
      using sx by simp
    show ?thesis
    proof (cases "sm_current st2 = None")
      case True
      then show ?thesis
        using assms(1) p x s2 Inr by (simp add: smProcessBefore_def)
    next
      case False
      obtain rt2 st3 where r: "smProcessRun env st2 = Some (rt2, st3)"
        using assms(1) p x Inr False by (auto simp: smProcessBefore_def split: option.splits)
      note s3 = smProcessRun_sync [OF r s2]
      obtain y where y: "or_error env rt2 st3 = Some y"
        using assms(1) p x Inr False r by (auto simp: smProcessBefore_def split: option.splits)
      show ?thesis
        using or_error_sync [OF y s3] assms(1) p x Inr False r y
        by (cases y) (simp_all add: smProcessBefore_def)
    qed
  qed
qed

lemma smProcessAfter_sync:
  assumes "smProcessAfter env st = Some (r, st')" "st_sync st"
  shows "st_sync st'"
proof -
  obtain rt st1 where p: "(if sm_current st \<noteq> None then smProcessRun env st else Some (SM_OFF, st)) = Some (rt, st1)"
    using assms(1) by (auto simp: smProcessAfter_def split: option.splits)
  then have s1: "st_sync st1" "rt = SM_ERR \<Longrightarrow> failed (sm_log st1)"
    using smProcessRun_sync assms(2) by (auto split: if_splits)
  obtain rt2 st2 where q: "(if rt \<noteq> SM_ERR \<and> sm_current st1 \<noteq> sm_next st1 then processSwitch env st1 else (rt, st1)) = (rt2, st2)"
    by fastforce
  then have s2: "st_sync st2" "rt2 = SM_ERR \<Longrightarrow> failed (sm_log st2)"
    using processSwitch_sync s1 by (auto split: if_splits)
  obtain rt3 where e: "(if rt2 = SM_ERR then processError env st2 else Some (rt2, st2)) = Some (rt3, st')"
    using assms(1) p q by (auto simp: smProcessAfter_def split: option.splits)
  show ?thesis
    using e s2 processError_sync by (auto split: if_splits)
qed

lemma SmProcess_sync: "SmProcess env st = Some (r, st') \<Longrightarrow> st_sync st \<Longrightarrow> st_sync st'"
  using smProcessBefore_sync smProcessAfter_sync by (auto simp: SmProcess_def split: if_splits)

end

interpretation confined: logged_env "confined_env beh cbs"
  for beh :: "'f \<Rightarrow> smPhase_t \<Rightarrow> ('f, 'c) sm_logged \<Rightarrow> stRet_t \<times> ('f, 'c) sm_logged" and cbs
  by unfold_locales (auto simp: confined_env_def split: prod.splits)

section \<open>Use of a machine\<close>

datatype 'c sm_action = A_Process | A_SetNext u32 | A_SetTimeout u32 "'c option" | A_DoBefore u8 | A_Clock u32

fun sm_act ::
    "('f, 'c, ('f, 'c) sm_logged) sm_env \<Rightarrow> 'c sm_action \<Rightarrow> ('f, 'c) sm_logged \<Rightarrow> ('f, 'c) sm_logged option" where
  "sm_act env A_Process st = map_option snd (SmProcess env st)"
| "sm_act env (A_SetNext n) st = map_option snd (SmSetNext n st)"
| "sm_act env (A_SetTimeout t c) st = Some (snd (SmSetTimeout t c st))"
| "sm_act env (A_DoBefore b) st = Some (st\<lparr>doBefore := b\<rparr>)"
| "sm_act env (A_Clock t) st = Some (st\<lparr>sm_clock := t\<rparr>)"

fun sm_acts ::
    "('f, 'c, ('f, 'c) sm_logged) sm_env \<Rightarrow> 'c sm_action list \<Rightarrow> ('f, 'c) sm_logged \<Rightarrow> ('f, 'c) sm_logged option" where
  "sm_acts env [] st = Some st"
| "sm_acts env (a # as) st = (case sm_act env a st of None \<Rightarrow> None | Some st' \<Rightarrow> sm_acts env as st')"

lemma sm_act_sync:
  "sm_act (confined_env beh cbs) a st = Some st' \<Longrightarrow> st_sync st \<Longrightarrow> st_sync st'"
  using confined.SmProcess_sync
  by (cases a) (auto simp: SmSetTimeout_def SmSetNext_def split: if_splits option.splits)

lemma sm_acts_sync:
  "sm_acts (confined_env beh cbs) as st = Some st' \<Longrightarrow> st_sync st \<Longrightarrow> st_sync st'"
proof (induction as arbitrary: st)
  case (Cons a as)
  then show ?case
    using sm_act_sync by (fastforce split: option.splits)
qed simp

lemma sm_cleared_log: "sm_log (sm_cleared env xs n ctx oe tg st) = sm_log st"
  by (simp add: sm_cleared_def Let_def)

lemma map_prod_Some [simp]: "map_prod id Some p = (r, Some x) \<longleftrightarrow> p = (r, x)"
  by (cases p) simp

lemma SmInit_sync:
  assumes "SmInit (confined_env beh cbs) (Some st0) xs n ctx oe tg = Some (r, Some st)" "sm_log st0 = []"
    "\<not> (xs = None \<and> n \<noteq> 0)"
  shows "st_sync st"
proof -
  let ?x = "sm_cleared (confined_env beh cbs) xs n ctx oe tg st0"
  have "\<exists>f. initProcess (confined_env beh cbs) f ?x = (r, st)"
    using assms(1,3) by (auto simp: SmInit_def Let_def split: if_splits option.splits list.splits)
  moreover have "enterable (sm_log ?x)"
    by (auto simp: enterable_def disc_def sm_cleared_log assms(2))
  ultimately show ?thesis
    using confined.initProcess_sync by blast
qed

section \<open>Properties\<close>

text \<open> C13. Whatever the state functions and callbacks do to the machine (short of writing its
  \<open>current\<close> member), and whatever sequence of processing, next-state, time-out and mode changes
  follows \<open>SmInit\<close>, state functions are called in the documented order: a state is initialised
  before it is run, torn down before the next one is initialised, and never run after its tear
  down; the tear down is skipped only after a call that returned \<open>SM_ERR\<close>. \<close>

theorem SmProcess_call_order:
  assumes "SmInit (confined_env beh cbs) (Some st0) xs n ctx oe tg = Some (r, Some st)"
    and "sm_log st0 = []" "\<not> (xs = None \<and> n \<noteq> 0)"
    and "sm_acts (confined_env beh cbs) as st = Some st'"
  shows "disc_run (None, False) (sm_log st') \<noteq> None"
  using sm_acts_sync [OF assms(4) SmInit_sync [OF assms(1-3)]]
  by (auto simp: in_sync_def failed_def disc_def)

definition demo_beh :: "nat \<Rightarrow> smPhase_t \<Rightarrow> (nat, nat) sm_logged \<Rightarrow> stRet_t \<times> (nat, nat) sm_logged" where
  "demo_beh f ph st = (if ph = SMP_RUN then (if f = 2 then SM_ERR else SM_OK, st\<lparr>sm_next := Some (f + 1)\<rparr>)
     else (SM_OK, st))"

definition demo_sm :: "(nat, nat) sm_logged" where
  "demo_sm = \<lparr>sm_stateList = None, sm_current = None, sm_next = None, sm_prev = None, sm_target = None,
     sm_onErr = None, sm_timeoutCb = None, sm_context = 0, sm_states = 0, currentStateEntries = 0,
     stateStartTime = 0, currentTimeout = 0, prevStateDuration = 0, prevStateEntries = 0, sm_errors = 0,
     doBefore = 0, timedOut = 0, sm_log = [], sm_clock = 0\<rparr>"

theorem SmProcess_call_order_witness:
  "\<exists>st st'. SmInit (confined_env demo_beh (\<lambda>_ s. s)) (Some demo_sm) (Some [Some 1, Some 2]) 2 0 None None =
       Some (SM_OK, Some st) \<and>
     sm_acts (confined_env demo_beh (\<lambda>_ s. s)) [A_Process, A_Process, A_DoBefore 1, A_Process] st = Some st' \<and>
     sm_log st' = [(1, SMP_INIT, SM_OK), (1, SMP_RUN, SM_OK), (1, SMP_EXIT, SM_OK), (2, SMP_INIT, SM_OK),
       (2, SMP_RUN, SM_ERR), (1, SMP_INIT, SM_OK), (1, SMP_RUN, SM_OK)] \<and>
     disc_run (None, False) (sm_log st') \<noteq> None"
proof -
  let ?e = "confined_env demo_beh (\<lambda>_ s. s)"
  define st where "st = the (snd (the (SmInit ?e (Some demo_sm) (Some [Some 1, Some 2]) 2 0 None None)))"
  define st' where "st' = the (sm_acts ?e [A_Process, A_Process, A_DoBefore 1, A_Process] st)"
  have i: "SmInit ?e (Some demo_sm) (Some [Some 1, Some 2]) 2 0 None None = Some (SM_OK, Some st)"
    unfolding st_def by code_simp
  have a: "sm_acts ?e [A_Process, A_Process, A_DoBefore 1, A_Process] st = Some st'"
    unfolding st'_def st_def by code_simp
  have l: "sm_log st' = [(1, SMP_INIT, SM_OK), (1, SMP_RUN, SM_OK), (1, SMP_EXIT, SM_OK), (2, SMP_INIT, SM_OK),
       (2, SMP_RUN, SM_ERR), (1, SMP_INIT, SM_OK), (1, SMP_RUN, SM_OK)]"
    unfolding st'_def st_def by code_simp
  show ?thesis
    using SmProcess_call_order [OF i _ _ a] i a l by (auto simp: demo_sm_def)
qed

definition idle_env :: "(nat, nat, (nat, nat) sm_logged) sm_env" where
  "idle_env = confined_env (\<lambda>f ph st. (SM_OK, st)) (\<lambda>c st. st)"

fun sm_ticks :: "u32 list \<Rightarrow> (nat, nat) sm_logged \<Rightarrow> (nat, nat) sm_logged option" where
  "sm_ticks [] st = Some st"
| "sm_ticks (c # cs) st = (case SmProcess idle_env (st\<lparr>sm_clock := c\<rparr>) of
     None \<Rightarrow> None | Some (r, st') \<Rightarrow> sm_ticks cs st')"

fun timeout_phases :: "u32 \<Rightarrow> u32 \<Rightarrow> u32 list \<Rightarrow> smPhase_t list" where
  "timeout_phases start t [] = []"
| "timeout_phases start t (c # cs) =
     (if t \<le> c - start then SMP_TIMEOUT # map (\<lambda>_. SMP_RUN) cs else SMP_RUN # timeout_phases start t cs)"

lemma idle_run:
  assumes "sm_current st = Some f"
  defines "late \<equiv> currentTimeout st \<noteq> 0 \<and> currentTimeout st \<le> sm_clock st - stateStartTime st"
  shows "smProcessRun idle_env st = Some (SM_OK, (if late then st\<lparr>timedOut := 1, currentTimeout := 0\<rparr> else st)
    \<lparr>currentStateEntries := currentStateEntries st + 1,
     sm_log := sm_log st @ [(f, if late then SMP_TIMEOUT else SMP_RUN, SM_OK)]\<rparr>)"
proof -
  have env: "env_run idle_env g ph x = (SM_OK, x\<lparr>sm_log := sm_log x @ [(g, ph, SM_OK)]\<rparr>)"
    "call_trigger idle_env c x = x" "env_time idle_env x = sm_clock x" for g ph c x
    by (simp_all add: idle_env_def confined_env_def call_trigger_def split: option.split)
  let ?st1 = "st\<lparr>currentStateEntries := currentStateEntries st + 1\<rparr>"
  have c: "(currentTimeout ?st1 \<noteq> 0 \<and> currentTimeout ?st1 \<le> env_time idle_env ?st1 - stateStartTime ?st1) = late"
    by (simp add: env late_def)
  show ?thesis
    unfolding smProcessRun_def Let_def c using assms(1)
    by (cases late) (simp_all only: if_True if_False, simp_all add: call_current_def env)
qed

lemma idle_process:
  assumes cur: "sm_current st = Some f" "sm_next st = Some f"
  defines "late \<equiv> currentTimeout st \<noteq> 0 \<and> currentTimeout st \<le> sm_clock st - stateStartTime st"
  shows "SmProcess idle_env st = Some (SM_OK, (if late then st\<lparr>timedOut := 1, currentTimeout := 0\<rparr> else st)
    \<lparr>currentStateEntries := currentStateEntries st + 1,
     sm_log := sm_log st @ [(f, if late then SMP_TIMEOUT else SMP_RUN, SM_OK)]\<rparr>)"
proof -
  define x where "x = (if late then st\<lparr>timedOut := 1, currentTimeout := 0\<rparr> else st)
    \<lparr>currentStateEntries := currentStateEntries st + 1,
     sm_log := sm_log st @ [(f, if late then SMP_TIMEOUT else SMP_RUN, SM_OK)]\<rparr>"
  have r: "smProcessRun idle_env st = Some (SM_OK, x)"
    using idle_run [OF cur(1)] by (simp add: x_def late_def)
  have "sm_current x = Some f" "sm_next x = Some f"
    using cur by (simp_all add: x_def)
  then have "SmProcess idle_env st = Some (SM_OK, x)"
    using cur r by (cases "doBefore st = 0")
      (simp_all add: SmProcess_def smProcessBefore_def smProcessAfter_def or_error_def)
  then show ?thesis
    by (simp add: x_def)
qed

lemma sm_ticks_idle:
  "sm_current st = Some f \<Longrightarrow> sm_next st = Some f \<Longrightarrow>
   \<exists>st'. sm_ticks cs st = Some st' \<and> sm_log st' = sm_log st @ map (\<lambda>ph. (f, ph, SM_OK))
     (if currentTimeout st = 0 then map (\<lambda>_. SMP_RUN) cs
      else timeout_phases (stateStartTime st) (currentTimeout st) cs)"
proof (induction cs arbitrary: st)
  case (Cons c cs)
  let ?st = "st\<lparr>sm_clock := c\<rparr>"
  let ?late = "currentTimeout st \<noteq> 0 \<and> currentTimeout st \<le> c - stateStartTime st"
  let ?st1 = "(if ?late then ?st\<lparr>timedOut := 1, currentTimeout := 0\<rparr> else ?st)
    \<lparr>currentStateEntries := currentStateEntries st + 1,
     sm_log := sm_log st @ [(f, if ?late then SMP_TIMEOUT else SMP_RUN, SM_OK)]\<rparr>"
  have "sm_ticks (c # cs) st = sm_ticks cs ?st1"
    using idle_process [of ?st f] Cons.prems by simp
  with Cons.IH [of ?st1] Cons.prems show ?case
    by (cases ?late) auto
qed simp



end
