(* ===== verification/Tasker.thy ===== *)
theory Tasker
  imports Prelude
begin

text \<open>
  The event-driven task tables of \<^verbatim>\<open>src/src/tasker.c\<close> and \<^verbatim>\<open>tasker.h\<close>. A tasker
  has a jump table, 32 pending event bits and the number of the next task to look at. A task is a
  value of type \<open>'f\<close>; what calling it with its event number does to the tasker (and to whatever the
  record is extended with) is the argument \<open>run\<close>. \<open>tk_table\<close> is what memory holds at each index of
  the table, \<open>None\<close> for a null function.
\<close>

unbundle bit_operations_syntax

section \<open>State and event setting\<close>

record 'f tasker_t =
  tk_table :: "nat \<Rightarrow> 'f option"
  tk_tableLen :: nat
  tk_event :: u32
  tk_next :: nat

type_synonym ('f, 'z) task_runner = "'f \<Rightarrow> nat \<Rightarrow> ('f, 'z) tasker_t_scheme \<Rightarrow> ('f, 'z) tasker_t_scheme"

text \<open>The mask \<open>1 << n\<close>.\<close>

definition event_mask :: "nat \<Rightarrow> u32" where
  "event_mask n = push_bit n 1"

lemma event_mask_simps [simp]:
  "event_mask 0 = 1" "push_bit (Suc 0) (event_mask n) = event_mask (Suc n)"
  "event_mask n * 2 = event_mask (Suc n)"
  by (simp_all add: event_mask_def)

lemma unat_drop_bit_less: "e \<noteq> 0 \<Longrightarrow> unat (drop_bit (Suc 0) e) < unat e" for e :: u32
  unfolding unat_drop_bit_eq by (simp add: drop_bit_eq_div unat_gt_0)

definition TaskerInit :: "('f, 'z) tasker_t_scheme \<Rightarrow> (nat \<Rightarrow> 'f option) \<Rightarrow> nat \<Rightarrow> ('f, 'z) tasker_t_scheme" where
  "TaskerInit tk table len = tk\<lparr>tk_table := table, tk_tableLen := len, tk_event := 0, tk_next := 0\<rparr>"

definition TaskerSetEvent :: "('f, 'z) tasker_t_scheme \<Rightarrow> nat \<Rightarrow> ('f, 'z) tasker_t_scheme" where
  "TaskerSetEvent tk eventNo =
     (if eventNo < tk_tableLen tk then tk\<lparr>tk_event := tk_event tk OR event_mask eventNo\<rparr> else tk)"

definition TaskerSetEvents :: "('f, 'z) tasker_t_scheme \<Rightarrow> u32 \<Rightarrow> ('f, 'z) tasker_t_scheme" where
  "TaskerSetEvents tk m = tk\<lparr>tk_event := tk_event tk OR m\<rparr>"

section \<open>Round robin\<close>

text \<open>The inner \<open>for\<close> loop of \<open>TaskerRoundRobin\<close>; \<open>Some\<close> is its \<open>return\<close>.\<close>

function rr_inner ::
    "('f, 'z) task_runner \<Rightarrow> nat \<Rightarrow> u32 \<Rightarrow> ('f, 'z) tasker_t_scheme \<Rightarrow> int option \<times> ('f, 'z) tasker_t_scheme" where
  "rr_inner run stop msk tk =
     (if tk_event tk \<noteq> 0 \<and> tk_next tk < stop then
        if tk_event tk AND msk \<noteq> 0 then
          let tk1 = tk\<lparr>tk_event := tk_event tk AND NOT msk\<rparr> in
          case tk_table tk1 (tk_next tk1) of
            Some f \<Rightarrow>
              (let tk2 = run f (tk_next tk1) tk1;
                   lst = tk_next tk2;
                   tk3 = tk2\<lparr>tk_next := lst + 1\<rparr>;
                   tk4 = (if tk_next tk3 \<ge> tk_tableLen tk3 then tk3\<lparr>tk_next := 0\<rparr> else tk3)
               in (Some (int lst), tk4))
          | None \<Rightarrow> rr_inner run stop (push_bit 1 msk) (tk1\<lparr>tk_next := tk_next tk1 + 1\<rparr>)
        else rr_inner run stop (push_bit 1 msk) (tk\<lparr>tk_next := tk_next tk + 1\<rparr>)
      else (None, tk))"
  by pat_completeness auto
termination
  by (relation "measure (\<lambda>(run, stop, msk, tk). stop - tk_next tk)") auto

declare rr_inner.simps [simp del]

text \<open>The enclosing \<open>do ... while (stop)\<close>.\<close>

function rr_outer ::
    "('f, 'z) task_runner \<Rightarrow> nat \<Rightarrow> nat \<Rightarrow> ('f, 'z) tasker_t_scheme \<Rightarrow> int \<times> ('f, 'z) tasker_t_scheme" where
  "rr_outer run stop start tk =
     (case rr_inner run stop (event_mask (tk_next tk)) tk of
        (Some lst, tk1) \<Rightarrow> (lst, tk1)
      | (None, tk1) \<Rightarrow> if start \<noteq> 0 then rr_outer run start 0 tk1 else (-1, tk1))"
  by pat_completeness auto
termination
  by (relation "measure (\<lambda>(run, stop, start, tk). start)") auto

declare rr_outer.simps [simp del]

definition TaskerRoundRobin ::
    "('f, 'z) task_runner \<Rightarrow> ('f, 'z) tasker_t_scheme \<Rightarrow> int \<times> ('f, 'z) tasker_t_scheme" where
  "TaskerRoundRobin run tk =
     (if tk_event tk = 0 then (-1, tk) else rr_outer run (tk_tableLen tk) (tk_next tk) tk)"

section \<open>Priority order and one pass\<close>

function prio_loop ::
    "('f, 'z) task_runner \<Rightarrow> nat \<Rightarrow> u32 \<Rightarrow> ('f, 'z) tasker_t_scheme \<Rightarrow> int \<times> ('f, 'z) tasker_t_scheme" where
  "prio_loop run nxt msk tk =
     (if tk_event tk \<noteq> 0 \<and> nxt < tk_tableLen tk then
        if tk_event tk AND msk \<noteq> 0 then
          let tk1 = tk\<lparr>tk_event := tk_event tk AND NOT msk\<rparr> in
          case tk_table tk1 nxt of
            Some f \<Rightarrow>
              (let tk2 = run f nxt tk1;
                   tk3 = tk2\<lparr>tk_next := nxt + 1\<rparr>;
                   tk4 = (if tk_next tk3 \<ge> tk_tableLen tk3 then tk3\<lparr>tk_next := 0\<rparr> else tk3)
               in (int nxt, tk4))
          | None \<Rightarrow> prio_loop run (nxt + 1) (push_bit 1 msk) tk1
        else prio_loop run (nxt + 1) (push_bit 1 msk) tk
      else (-1, tk))"
  by pat_completeness auto
termination
  by (relation "measure (\<lambda>(run, nxt, msk, tk). tk_tableLen tk - nxt)") auto

declare prio_loop.simps [simp del]

definition TaskerPrioritized ::
    "('f, 'z) task_runner \<Rightarrow> ('f, 'z) tasker_t_scheme \<Rightarrow> int \<times> ('f, 'z) tasker_t_scheme" where
  "TaskerPrioritized run tk = prio_loop run 0 1 tk"

function one_pass ::
    "('f, 'z) task_runner \<Rightarrow> nat \<Rightarrow> u32 \<Rightarrow> int \<Rightarrow> ('f, 'z) tasker_t_scheme \<Rightarrow> int \<times> ('f, 'z) tasker_t_scheme" where
  "one_pass run nxt events cnt tk =
     (if events \<noteq> 0 then
        if events AND 1 \<noteq> 0 then
          let tk1 = tk\<lparr>tk_event := tk_event tk AND NOT (event_mask nxt)\<rparr>;
              tk2 = (case tk_table tk1 nxt of Some f \<Rightarrow> run f nxt tk1 | None \<Rightarrow> tk1)
          in one_pass run (nxt + 1) (drop_bit 1 events) (cnt + 1) tk2
        else one_pass run (nxt + 1) (drop_bit 1 events) cnt tk
      else (cnt, tk))"
  by pat_completeness auto
termination
  by (relation "measure (\<lambda>(run, nxt, events, cnt, tk). unat events)") (auto simp: unat_drop_bit_less)

declare one_pass.simps [simp del]

definition TaskerOnePass ::
    "('f, 'z) task_runner \<Rightarrow> ('f, 'z) tasker_t_scheme \<Rightarrow> int \<times> ('f, 'z) tasker_t_scheme" where
  "TaskerOnePass run tk =
     (case one_pass run 0 (tk_event tk) 0 tk of (cnt, tk') \<Rightarrow> (if cnt = 0 then -1 else cnt, tk'))"

partial_function (option) TaskerRoundRobinTillNone ::
    "('f, 'z) task_runner \<Rightarrow> ('f, 'z) tasker_t_scheme \<Rightarrow> ('f, 'z) tasker_t_scheme option" where
  "TaskerRoundRobinTillNone run tk =
     (case TaskerRoundRobin run tk of (r, tk') \<Rightarrow>
        if r \<noteq> -1 then TaskerRoundRobinTillNone run tk' else Some tk')"

partial_function (option) TaskerPrioritizedTillNone ::
    "('f, 'z) task_runner \<Rightarrow> ('f, 'z) tasker_t_scheme \<Rightarrow> ('f, 'z) tasker_t_scheme option" where
  "TaskerPrioritizedTillNone run tk =
     (case TaskerPrioritized run tk of (r, tk') \<Rightarrow>
        if r \<noteq> -1 then TaskerPrioritizedTillNone run tk' else Some tk')"

declare TaskerRoundRobinTillNone.simps [code] TaskerPrioritizedTillNone.simps [code]

section \<open>Event masks\<close>

definition event_set :: "('f, 'z) tasker_t_scheme \<Rightarrow> nat \<Rightarrow> bool" where
  "event_set tk n \<longleftrightarrow> bit (tk_event tk) n"

lemma bit_event_mask: "bit (event_mask n) m \<longleftrightarrow> m = n \<and> n < 32"
  by (auto simp: event_mask_def bit_simps)

lemma mask_test: "w AND event_mask n \<noteq> 0 \<longleftrightarrow> bit w n" if "n < 32" for w :: u32
proof -
  have "w AND event_mask n = (if bit w n then event_mask n else 0)"
    by (rule bit_word_eqI) (auto simp: bit_simps bit_event_mask)
  moreover have "event_mask n \<noteq> 0"
    using bit_event_mask [of n n] that by auto
  ultimately show ?thesis
    by simp
qed

lemma event_clear:
  "n < 32 \<Longrightarrow> bit (w AND NOT (event_mask n)) m \<longleftrightarrow> bit w m \<and> m \<noteq> n" for w :: u32
  by (auto simp: bit_simps bit_event_mask dest: bit_imp_le_length)

text \<open>Clearing the events in \<open>[a, b)\<close>.\<close>

definition clear_range :: "nat \<Rightarrow> nat \<Rightarrow> u32 \<Rightarrow> u32" where
  "clear_range a b w = w AND NOT (push_bit a (mask (b - a)))"

lemma bit_clear_range: "bit (clear_range a b w) m \<longleftrightarrow> bit w m \<and> \<not> (a \<le> m \<and> m < b)"
  by (auto simp: clear_range_def bit_simps dest: bit_imp_le_length)

lemma clear_range_empty [simp]: "b \<le> a \<Longrightarrow> clear_range a b w = w"
  by (rule bit_word_eqI) (simp add: bit_clear_range)

lemma clear_range_step:
  "a < b \<Longrightarrow> b \<le> 32 \<Longrightarrow> clear_range (Suc a) b (w AND NOT (event_mask a)) = clear_range a b w"
  by (rule bit_word_eqI) (auto simp: bit_clear_range event_clear)

lemma clear_range_skip: "\<not> bit w a \<Longrightarrow> clear_range (Suc a) b w = clear_range a b w"
  by (rule bit_word_eqI) (auto simp: bit_clear_range Suc_le_eq order_le_less)

section \<open>Priority order\<close>

text \<open>The next task by number: its event is set and it has a function.\<close>

definition runnable :: "('f, 'z) tasker_t_scheme \<Rightarrow> nat \<Rightarrow> bool" where
  "runnable tk n \<longleftrightarrow> bit (tk_event tk) n \<and> tk_table tk n \<noteq> None"

definition after_run :: "('f, 'z) task_runner \<Rightarrow> nat \<Rightarrow> ('f, 'z) tasker_t_scheme \<Rightarrow> ('f, 'z) tasker_t_scheme" where
  "after_run run n tk =
     (let tk2 = run (the (tk_table tk n)) n tk
      in tk2\<lparr>tk_next := if tk_tableLen tk2 \<le> n + 1 then 0 else n + 1\<rparr>)"

lemma prio_loop_find:
  "tk_tableLen tk \<le> 32 \<Longrightarrow> prio_loop run k (event_mask k) tk =
    (case find (runnable tk) [k..<tk_tableLen tk] of
       None \<Rightarrow> (-1, tk\<lparr>tk_event := clear_range k (tk_tableLen tk) (tk_event tk)\<rparr>)
     | Some n \<Rightarrow> (int n, after_run run n (tk\<lparr>tk_event := clear_range k (Suc n) (tk_event tk)\<rparr>)))"
proof (induction "tk_tableLen tk - k" arbitrary: k tk)
  case 0
  then show ?case
    by (subst prio_loop.simps) simp
next
  case (Suc d)
  then have k: "k < tk_tableLen tk" "k < 32" by simp_all
  have list: "[k..<tk_tableLen tk] = k # [Suc k..<tk_tableLen tk]"
    using k by (simp add: upt_conv_Cons)
  have d: "d = tk_tableLen tk - Suc k"
    using Suc.hyps(2) by simp
  show ?case
  proof (cases "tk_event tk = 0")
    case True
    then have "find (runnable tk) [k..<tk_tableLen tk] = None"
      by (simp add: find_None_iff runnable_def)
    then show ?thesis
      using True by (subst prio_loop.simps) (simp add: clear_range_def)
  next
    case ne: False
    show ?thesis
    proof (cases "bit (tk_event tk) k")
      case False
      then have "prio_loop run k (event_mask k) tk = prio_loop run (Suc k) (event_mask (Suc k)) tk"
        using ne k mask_test [OF k(2), of "tk_event tk"] by (subst prio_loop.simps) simp
      then show ?thesis
        using Suc.hyps(1) [OF d Suc.prems] False
        by (auto simp: list runnable_def clear_range_skip split: option.splits)
    next
      case True
      let ?tk1 = "tk\<lparr>tk_event := tk_event tk AND NOT (event_mask k)\<rparr>"
      show ?thesis
      proof (cases "tk_table tk k")
        case (Some f)
        have "clear_range k (Suc k) (tk_event tk) = tk_event tk AND NOT (event_mask k)"
          using k(2) by (intro bit_word_eqI) (auto simp: bit_clear_range event_clear)
        then show ?thesis
          using ne k True mask_test [OF k(2), of "tk_event tk"] Some
          by (subst prio_loop.simps) (simp add: list runnable_def after_run_def Let_def)
      next
        case None
        have step: "prio_loop run k (event_mask k) tk = prio_loop run (Suc k) (event_mask (Suc k)) ?tk1"
          using ne k True mask_test [OF k(2), of "tk_event tk"] None by (subst prio_loop.simps) simp
        have fnd: "find (runnable ?tk1) [Suc k..<tk_tableLen tk] = find (runnable tk) [Suc k..<tk_tableLen tk]"
          using k by (intro find_cong) (auto simp: runnable_def event_clear)
        note ih = Suc.hyps(1) [of ?tk1 "Suc k", simplified, unfolded fnd]
        show ?thesis
        proof (cases "find (runnable tk) [Suc k..<tk_tableLen tk]")
          case N: None
          then show ?thesis
            using step ih d Suc.prems k None by (simp add: list runnable_def clear_range_step)
        next
          case (Some n)
          then have "Suc k \<le> n" "n < tk_tableLen tk"
            by (auto simp: find_Some_iff)
          then show ?thesis
            using Some step ih d Suc.prems k None by (simp add: list runnable_def clear_range_step)
        qed
      qed
    qed
  qed
qed

section \<open>Tasks that leave the tasker alone\<close>

text \<open>Such tasks are observed through a log of the event numbers they are called with.\<close>

record 'f tasker_log = "'f tasker_t" +
  tk_log :: "nat list"

definition log_task :: "'f \<Rightarrow> nat \<Rightarrow> 'f tasker_log \<Rightarrow> 'f tasker_log" where
  "log_task f n tk = tk\<lparr>tk_log := tk_log tk @ [n]\<rparr>"

lemma runnable_clear:
  "runnable (tk\<lparr>tk_event := clear_range a b (tk_event tk)\<rparr>) n \<longleftrightarrow> runnable tk n \<and> \<not> (a \<le> n \<and> n < b)"
  by (auto simp: runnable_def bit_clear_range)

lemma prioritized_till_none:
  fixes tk :: "'f tasker_log"
  shows "tk_tableLen tk \<le> 32 \<Longrightarrow>
   \<exists>tk'. TaskerPrioritizedTillNone log_task tk = Some tk' \<and>
     tk_log tk' = tk_log tk @ filter (runnable tk) [0..<tk_tableLen tk] \<and>
     tk_event tk' = clear_range 0 (tk_tableLen tk) (tk_event tk)"
proof (induction "length (filter (runnable tk) [0..<tk_tableLen tk])" arbitrary: tk rule: less_induct)
  case less
  note find = prio_loop_find [OF less.prems, of log_task 0, simplified]
  show ?case
  proof (cases "find (runnable tk) [0..<tk_tableLen tk]")
    case None
    then have "filter (runnable tk) [0..<tk_tableLen tk] = []"
      by (auto simp: find_None_iff filter_empty_conv)
    then show ?thesis
      using None find by (subst TaskerPrioritizedTillNone.simps) (simp add: TaskerPrioritized_def)
  next
    case (Some n)
    let ?tk = "after_run log_task n (tk\<lparr>tk_event := clear_range 0 (Suc n) (tk_event tk)\<rparr>)"
    have fields: "tk_tableLen ?tk = tk_tableLen tk" "tk_event ?tk = clear_range 0 (Suc n) (tk_event tk)"
      "tk_log ?tk = tk_log tk @ [n]" "tk_table ?tk = tk_table tk"
      by (simp_all add: after_run_def log_task_def Let_def)
    have n: "n < tk_tableLen tk"
      using Some by (auto simp: find_Some_iff)
    have run: "runnable ?tk m \<longleftrightarrow> runnable tk m \<and> n < m" for m
      by (auto simp: runnable_def fields bit_clear_range)
    have "filter (runnable ?tk) [0..<tk_tableLen tk] = filter (runnable tk) [Suc n..<tk_tableLen tk]"
    proof -
      have "[0..<tk_tableLen tk] = [0..<Suc n] @ [Suc n..<tk_tableLen tk]"
        using n by (intro upt_split) simp_all
      moreover have "filter (runnable ?tk) [0..<Suc n] = []"
        by (auto simp: filter_empty_conv run)
      moreover have "filter (runnable ?tk) [Suc n..<tk_tableLen tk] = filter (runnable tk) [Suc n..<tk_tableLen tk]"
        by (intro filter_cong) (auto simp: run)
      ultimately show ?thesis
        by (simp add: run)
    qed
    moreover have split: "filter (runnable tk) [0..<tk_tableLen tk] = n # filter (runnable tk) [Suc n..<tk_tableLen tk]"
      by (rule filter_upt_find [OF Some])
    ultimately have ih: "\<exists>tk'. TaskerPrioritizedTillNone log_task ?tk = Some tk' \<and>
      tk_log tk' = tk_log ?tk @ filter (runnable tk) [Suc n..<tk_tableLen tk] \<and>
      tk_event tk' = clear_range 0 (tk_tableLen tk) (tk_event ?tk)"
      using less.hyps [of ?tk] less.prems by (simp add: fields)
    have "clear_range 0 (tk_tableLen tk) (clear_range 0 (Suc n) (tk_event tk)) = clear_range 0 (tk_tableLen tk) (tk_event tk)"
      using n by (intro bit_word_eqI) (auto simp: bit_clear_range)
    moreover have "TaskerPrioritizedTillNone log_task tk = TaskerPrioritizedTillNone log_task ?tk"
      using Some find by (subst TaskerPrioritizedTillNone.simps) (simp add: TaskerPrioritized_def)
    ultimately show ?thesis
      using ih split by (simp add: fields)
  qed
qed

section \<open>Properties\<close>

text \<open> \<open>TaskerPrioritized\<close> runs the lowest-numbered task that has both its event set and a
  function, with its event and those of lower tasks without function cleared before the call, and
  returns its number; with no such task it returns -1 and no event in the table's range is left. \<close>

lemma TaskerPrioritized_lowest:
  assumes "tk_tableLen tk \<le> 32"
  shows "TaskerPrioritized run tk = (case find (runnable tk) [0..<tk_tableLen tk] of
      None \<Rightarrow> (-1, tk\<lparr>tk_event := clear_range 0 (tk_tableLen tk) (tk_event tk)\<rparr>)
    | Some n \<Rightarrow> (int n, after_run run n (tk\<lparr>tk_event := clear_range 0 (Suc n) (tk_event tk)\<rparr>)))"
  using prio_loop_find [OF assms, of run 0] by (simp add: TaskerPrioritized_def)

definition demo_tasker :: "nat tasker_log" where
  "demo_tasker = \<lparr>tk_table = (\<lambda>i. if i = 1 then None else Some i), tk_tableLen = 4, tk_event = 14,
     tk_next = 0, tk_log = []\<rparr>"

theorem TaskerPrioritized_lowest_witness:
  "fst (TaskerPrioritized log_task demo_tasker) = 2 \<and>
   tk_event (snd (TaskerPrioritized log_task demo_tasker)) = 8"
proof -
  have "find (runnable demo_tasker) [0..<tk_tableLen demo_tasker] = Some 2"
    by code_simp
  moreover have "clear_range 0 3 (14 :: u32) = 8"
    by code_simp
  ultimately show ?thesis
    using TaskerPrioritized_lowest [of demo_tasker log_task]
    by (simp add: after_run_def log_task_def Let_def) (simp add: demo_tasker_def eval_nat_numeral)
qed

text \<open> C16. If no task sets events, \<open>TaskerPrioritizedTillNone\<close> returns, having called every task
  with a set event and a function exactly once, in order of priority, and cleared the events. \<close>

theorem TaskerPrioritizedTillNone_all:
  fixes tk :: "'f tasker_log"
  assumes "tk_tableLen tk \<le> 32"
  shows "\<exists>tk'. TaskerPrioritizedTillNone log_task tk = Some tk' \<and>
     tk_log tk' = tk_log tk @ filter (runnable tk) [0..<tk_tableLen tk] \<and>
     (\<forall>n<tk_tableLen tk. \<not> event_set tk' n)"
  using prioritized_till_none [OF assms] by (auto simp: event_set_def bit_clear_range)

theorem TaskerPrioritizedTillNone_all_witness:
  "\<exists>tk'. TaskerPrioritizedTillNone log_task demo_tasker = Some tk' \<and> tk_log tk' = [2, 3]"
proof -
  have "filter (runnable demo_tasker) [0..<tk_tableLen demo_tasker] = [2, 3]"
    by code_simp
  then show ?thesis
    using TaskerPrioritizedTillNone_all [of demo_tasker] by (auto simp: demo_tasker_def)
qed

text \<open> C17. A round robin tasker can stop for ever. When every pending event belongs to a task
  before \<open>next\<close>, the documented traversal of the list should find it; the code's second pass does
  not restart at 0, so the call returns -1 with the event still pending and \<open>next\<close> past the table,
  and from then on every call returns -1, whatever events are set. \<close>

theorem TaskerRoundRobin_stuck:
  assumes "tk_event tk \<noteq> 0" "tk_next tk \<le> tk_tableLen tk" "tk_tableLen tk \<le> 32"
    and "\<forall>n. tk_next tk \<le> n \<and> n < tk_tableLen tk \<longrightarrow> \<not> event_set tk n"
  shows "TaskerRoundRobin run tk = (-1, tk\<lparr>tk_next := tk_tableLen tk\<rparr>) \<and>
    TaskerRoundRobin run (tk\<lparr>tk_next := tk_tableLen tk, tk_event := ev\<rparr>) =
      (-1, tk\<lparr>tk_next := tk_tableLen tk, tk_event := ev\<rparr>)"
proof -
  have dead: "rr_inner run stop m tk' = (None, tk')" if "stop \<le> tk_next tk'" for stop m tk'
    using that by (subst rr_inner.simps) simp
  have skip: "rr_inner run (tk_tableLen tk) (event_mask k) (tk\<lparr>tk_next := k\<rparr>) = (None, tk\<lparr>tk_next := tk_tableLen tk\<rparr>)"
    if "tk_next tk \<le> k" "k \<le> tk_tableLen tk" for k
    using that
  proof (induction "tk_tableLen tk - k" arbitrary: k)
    case 0
    then show ?case using dead by simp
  next
    case (Suc d)
    then have "\<not> bit (tk_event tk) k" "k < 32" "k < tk_tableLen tk"
      using assms by (auto simp: event_set_def)
    with mask_test [of k "tk_event tk"] Suc.hyps(1) [of "Suc k"] Suc.hyps(2) Suc.prems assms(1) show ?case
      by (subst rr_inner.simps) simp
  qed
  have one: "rr_outer run (tk_tableLen tk) (tk_next tk) tk = (-1, tk\<lparr>tk_next := tk_tableLen tk\<rparr>)"
  proof -
    have "rr_inner run (tk_tableLen tk) (event_mask (tk_next tk)) tk = (None, tk\<lparr>tk_next := tk_tableLen tk\<rparr>)"
      using skip [of "tk_next tk"] assms(2) by simp
    then show ?thesis
      using dead [of _ "tk\<lparr>tk_next := tk_tableLen tk\<rparr>"] assms(2)
      by (subst rr_outer.simps) (simp, subst rr_outer.simps, simp)
  qed
  let ?tk = "tk\<lparr>tk_next := tk_tableLen tk, tk_event := ev\<rparr>"
  have "rr_outer run (tk_tableLen tk) (tk_tableLen tk) ?tk = (-1, ?tk)"
    using dead [of _ ?tk] by (subst rr_outer.simps) (simp, subst rr_outer.simps, simp)
  with one show ?thesis
    using assms(1) by (simp add: TaskerRoundRobin_def)
qed

theorem TaskerRoundRobin_stuck_witness:
  "TaskerRoundRobin log_task (demo_tasker\<lparr>tk_next := 3, tk_event := 1\<rparr>) =
     (-1, demo_tasker\<lparr>tk_next := 4, tk_event := 1\<rparr>)"
  using TaskerRoundRobin_stuck [of "demo_tasker\<lparr>tk_next := 3, tk_event := 1\<rparr>" log_task 0]
  by (simp add: demo_tasker_def event_set_def bit_1_iff)

end
