(* ===== verification/SwTimer.thy ===== *)
theory SwTimer
  imports Tasker
begin

text \<open>
  Rollover timers on a free running counter: \<^verbatim>\<open>src/src/swtimer.h\<close>, the callback timers of
  \<^verbatim>\<open>timercb.c\<close> and \<^verbatim>\<open>timercb.h\<close>, and the tasker ticks of \<^verbatim>\<open>taskertick.h\<close>. Where the
  code calls a time source, the definition takes the value it returns as the argument \<open>now\<close>; where
  an expression is promoted to a wider type in C, the conversion is written out.
\<close>

section \<open>Timers and macros (swtimer.h)\<close>

record swTime32_t =
  start32 :: u32
  duration32 :: u32

record swTime16_t =
  start16 :: i16
  duration16 :: i16

definition SW_TIMER_PASSED :: "swTime32_t \<Rightarrow> u32 \<Rightarrow> bool" where
  "SW_TIMER_PASSED t timeNow \<longleftrightarrow> duration32 t \<le> timeNow - start32 t"

definition SW_TIMER_SET :: "swTime32_t \<Rightarrow> u32 \<Rightarrow> u32 \<Rightarrow> swTime32_t" where
  "SW_TIMER_SET t theDuration timeNow = t\<lparr>start32 := timeNow, duration32 := theDuration\<rparr>"

definition SW_TIMER_CYCLE :: "swTime32_t \<Rightarrow> swTime32_t" where
  "SW_TIMER_CYCLE t = t\<lparr>start32 := start32 t + duration32 t\<rparr>"

definition SW_TIMER_RESTART :: "swTime32_t \<Rightarrow> u32 \<Rightarrow> swTime32_t" where
  "SW_TIMER_RESTART t timeNow = t\<lparr>start32 := timeNow\<rparr>"

definition swTime32Set :: "swTime32_t \<Rightarrow> u32 \<Rightarrow> u32 \<Rightarrow> swTime32_t" where
  "swTime32Set t duration time = t\<lparr>start32 := time, duration32 := duration\<rparr>"

definition swTime16Set :: "swTime16_t \<Rightarrow> u16 \<Rightarrow> u16 \<Rightarrow> swTime16_t" where
  "swTime16Set t duration time = t\<lparr>start16 := time, duration16 := duration\<rparr>"

definition swTimer32Passed :: "swTime32_t \<Rightarrow> u32 \<Rightarrow> bool" where
  "swTimer32Passed t time \<longleftrightarrow> duration32 t \<le> time - start32 t"

text \<open>All three operands of the 16 bit test are promoted to \<open>int\<close>; the members are signed.\<close>

definition swTimer16Passed :: "swTime16_t \<Rightarrow> u16 \<Rightarrow> bool" where
  "swTimer16Passed t time \<longleftrightarrow> sint (duration16 t) \<le> uint time - sint (start16 t)"

text \<open>Timers with their time source, of type \<open>'t\<close>. Both keep their times in 32 bits.\<close>

record 't timerObj_t =
  to_timer :: 't
  to_timeObj :: swTime32_t

definition SW_Timer32Init :: "'t timerObj_t \<Rightarrow> 't \<Rightarrow> 't timerObj_t" where
  "SW_Timer32Init t timeBase = t\<lparr>to_timer := timeBase, to_timeObj := \<lparr>start32 = 0, duration32 = 0\<rparr>\<rparr>"

definition SW_Timer16Init :: "'t timerObj_t \<Rightarrow> 't \<Rightarrow> 't timerObj_t" where
  "SW_Timer16Init t timeBase = t\<lparr>to_timer := timeBase, to_timeObj := \<lparr>start32 = 0, duration32 = 0\<rparr>\<rparr>"

definition SW_SetTimer16 :: "'t timerObj_t \<Rightarrow> u16 \<Rightarrow> u16 \<Rightarrow> 't timerObj_t" where
  "SW_SetTimer16 t duration now =
     t\<lparr>to_timeObj := \<lparr>start32 = ucast now, duration32 = scast duration\<rparr>\<rparr>"

definition SW_SetTimer32 :: "'t timerObj_t \<Rightarrow> u32 \<Rightarrow> u32 \<Rightarrow> 't timerObj_t" where
  "SW_SetTimer32 t duration now = t\<lparr>to_timeObj := \<lparr>start32 = now, duration32 = duration\<rparr>\<rparr>"

definition SW_Timer32Passed :: "'t timerObj_t \<Rightarrow> u32 \<Rightarrow> bool" where
  "SW_Timer32Passed t now \<longleftrightarrow> duration32 (to_timeObj t) \<noteq> 0 \<and> SW_TIMER_PASSED (to_timeObj t) now"

definition SW_Timer16Passed :: "'t timerObj_t \<Rightarrow> u16 \<Rightarrow> bool" where
  "SW_Timer16Passed t now \<longleftrightarrow> duration32 (to_timeObj t) \<noteq> 0 \<and> SW_TIMER_PASSED (to_timeObj t) (ucast now)"

definition SW_ResetTimer16 :: "'t timerObj_t \<Rightarrow> u16 \<Rightarrow> 't timerObj_t" where
  "SW_ResetTimer16 t now =
     t\<lparr>to_timeObj := \<lparr>start32 = ucast now - start32 (to_timeObj t), duration32 = 0\<rparr>\<rparr>"

definition SW_ResetTimer32 :: "'t timerObj_t \<Rightarrow> u32 \<Rightarrow> 't timerObj_t" where
  "SW_ResetTimer32 t now =
     t\<lparr>to_timeObj := \<lparr>start32 = now - start32 (to_timeObj t), duration32 = 0\<rparr>\<rparr>"

text \<open>Timers on a counter in memory; \<open>now\<close> is what \<open>*source\<close> holds.\<close>

record simpleTimer_t =
  sp_timer :: swTime32_t
  sp_source :: nat

definition simpleTimerSetup :: "nat \<Rightarrow> simpleTimer_t" where
  "simpleTimerSetup counter = \<lparr>sp_timer = \<lparr>start32 = 0, duration32 = 0\<rparr>, sp_source = counter\<rparr>"

definition simpleTimerStart :: "simpleTimer_t \<Rightarrow> u32 \<Rightarrow> u32 \<Rightarrow> simpleTimer_t" where
  "simpleTimerStart t counts now = t\<lparr>sp_timer := SW_TIMER_SET (sp_timer t) counts now\<rparr>"

definition simpleTimerPassed :: "simpleTimer_t \<Rightarrow> u32 \<Rightarrow> int \<times> simpleTimer_t" where
  "simpleTimerPassed t now =
     (if duration32 (sp_timer t) \<noteq> 0 \<and> SW_TIMER_PASSED (sp_timer t) now
      then (1, t\<lparr>sp_timer := (sp_timer t)\<lparr>duration32 := 0\<rparr>\<rparr>) else (0, t))"

section \<open>Callback timers (timercb.c)\<close>

text \<open>The callback, of type \<open>'cb\<close>, is run on the user's state \<open>'s\<close> by the argument \<open>run\<close>.\<close>

record ('t, 'cb) timerCb_t =
  tcb_callback :: "'cb option"
  tcb_context :: nat
  tcb_timer :: "'t timerObj_t"

definition TC_Timer32Init :: "('t, 'cb) timerCb_t \<Rightarrow> 't \<Rightarrow> ('t, 'cb) timerCb_t" where
  "TC_Timer32Init t timeBase = t\<lparr>tcb_timer := SW_Timer32Init (tcb_timer t) timeBase, tcb_callback := None\<rparr>"

definition TC_Timer32Set :: "('t, 'cb) timerCb_t \<Rightarrow> 'cb option \<Rightarrow> nat \<Rightarrow> ('t, 'cb) timerCb_t" where
  "TC_Timer32Set t cb context = t\<lparr>tcb_callback := cb, tcb_context := context\<rparr>"

definition TC_Timer32Start :: "('t, 'cb) timerCb_t \<Rightarrow> u32 \<Rightarrow> u32 \<Rightarrow> ('t, 'cb) timerCb_t" where
  "TC_Timer32Start t duration now = t\<lparr>tcb_timer := SW_SetTimer32 (tcb_timer t) duration now\<rparr>"

definition TC_Timer32Stop :: "('t, 'cb) timerCb_t \<Rightarrow> u32 \<Rightarrow> ('t, 'cb) timerCb_t" where
  "TC_Timer32Stop t now = t\<lparr>tcb_timer := SW_ResetTimer32 (tcb_timer t) now\<rparr>"

text \<open>
  A test reads the time source twice, once for the comparison (\<open>now\<close>) and once in the reset
  (\<open>later\<close>). The callback may change the timer that calls it, for instance start it again. A passed
  timer without callback calls through NULL: \<open>None\<close>.
\<close>

type_synonym ('t, 'cb, 's) timer_runner = "'cb \<Rightarrow> nat \<Rightarrow> ('t, 'cb) timerCb_t \<times> 's \<Rightarrow> ('t, 'cb) timerCb_t \<times> 's"

definition TC_Timer32Test ::
    "('t, 'cb, 's) timer_runner \<Rightarrow> ('t, 'cb) timerCb_t \<Rightarrow> u32 \<Rightarrow> u32 \<Rightarrow> 's \<Rightarrow> (bool \<times> ('t, 'cb) timerCb_t \<times> 's) option" where
  "TC_Timer32Test run t now later s =
     (if SW_Timer32Passed (tcb_timer t) now then
        let t1 = t\<lparr>tcb_timer := SW_ResetTimer32 (tcb_timer t) later\<rparr> in
        (case tcb_callback t1 of
           Some cb \<Rightarrow> Some (True, run cb (tcb_context t1) (t1, s))
         | None \<Rightarrow> None)
      else Some (False, t, s))"

definition TC_Timer16Init :: "('t, 'cb) timerCb_t \<Rightarrow> 't \<Rightarrow> ('t, 'cb) timerCb_t" where
  "TC_Timer16Init t timeBase = t\<lparr>tcb_timer := SW_Timer16Init (tcb_timer t) timeBase, tcb_callback := None\<rparr>"

definition TC_Timer16Set :: "('t, 'cb) timerCb_t \<Rightarrow> 'cb option \<Rightarrow> nat \<Rightarrow> ('t, 'cb) timerCb_t" where
  "TC_Timer16Set t cb context = t\<lparr>tcb_callback := cb, tcb_context := context\<rparr>"

definition TC_Timer16Start :: "('t, 'cb) timerCb_t \<Rightarrow> u16 \<Rightarrow> u16 \<Rightarrow> ('t, 'cb) timerCb_t" where
  "TC_Timer16Start t duration now = t\<lparr>tcb_timer := SW_SetTimer16 (tcb_timer t) duration now\<rparr>"

definition TC_Timer16Stop :: "('t, 'cb) timerCb_t \<Rightarrow> u16 \<Rightarrow> ('t, 'cb) timerCb_t" where
  "TC_Timer16Stop t now = t\<lparr>tcb_timer := SW_ResetTimer16 (tcb_timer t) now\<rparr>"

definition TC_Timer16Test ::
    "('t, 'cb, 's) timer_runner \<Rightarrow> ('t, 'cb) timerCb_t \<Rightarrow> u16 \<Rightarrow> u16 \<Rightarrow> 's \<Rightarrow> (bool \<times> ('t, 'cb) timerCb_t \<times> 's) option" where
  "TC_Timer16Test run t now later s =
     (if SW_Timer16Passed (tcb_timer t) now then
        let t1 = t\<lparr>tcb_timer := SW_ResetTimer16 (tcb_timer t) later\<rparr> in
        (case tcb_callback t1 of
           Some cb \<Rightarrow> Some (True, run cb (tcb_context t1) (t1, s))
         | None \<Rightarrow> None)
      else Some (False, t, s))"

section \<open>Tasker ticks (taskertick.h)\<close>

record 'f taskerTick_t =
  tt_tasker :: "'f tasker_t"
  tt_timer :: swTime32_t
  tt_mask :: u32

definition TT_ProcessTick :: "'f taskerTick_t \<Rightarrow> u32 \<Rightarrow> 'f taskerTick_t" where
  "TT_ProcessTick tt time =
     (if SW_TIMER_PASSED (tt_timer tt) time then
        tt\<lparr>tt_timer := (tt_timer tt)\<lparr>start32 := time\<rparr>,
           tt_tasker := TaskerSetEvents (tt_tasker tt) (tt_mask tt)\<rparr>
      else tt)"

definition TT_Init :: "'f tasker_t \<Rightarrow> u32 \<Rightarrow> u32 \<Rightarrow> 'f taskerTick_t" where
  "TT_Init tk m duration = \<lparr>tt_tasker = tk, tt_timer = \<lparr>start32 = 0, duration32 = duration\<rparr>, tt_mask = m\<rparr>"

section \<open>Elapsed time\<close>

lemma passed_after: "SW_TIMER_PASSED (SW_TIMER_SET t d s) (s + k) \<longleftrightarrow> d \<le> k"
  by (simp add: SW_TIMER_PASSED_def SW_TIMER_SET_def)

lemma passed_late_cycle:
  "SW_TIMER_PASSED (SW_TIMER_CYCLE (SW_TIMER_SET t d s)) (s + d + k) \<longleftrightarrow> d \<le> k"
  by (simp add: SW_TIMER_PASSED_def SW_TIMER_SET_def SW_TIMER_CYCLE_def)

text \<open>Testing a callback timer again and again, each test with its two readings, and which tests fired.\<close>

fun tc_tests ::
    "('t, 'cb, 's) timer_runner \<Rightarrow> (u32 \<times> u32) list \<Rightarrow> ('t, 'cb) timerCb_t \<Rightarrow> 's \<Rightarrow> (bool list \<times> 's) option" where
  "tc_tests run [] t s = Some ([], s)"
| "tc_tests run ((c, l) # cs) t s = (case TC_Timer32Test run t c l s of
     None \<Rightarrow> None
   | Some (b, t', s') \<Rightarrow> (case tc_tests run cs t' s' of None \<Rightarrow> None | Some (bs, s'') \<Rightarrow> Some (b # bs, s'')))"

fun first_true :: "bool list \<Rightarrow> bool list" where
  "first_true [] = []"
| "first_true (b # bs) = (if b then True # map (\<lambda>_. False) bs else False # first_true bs)"

text \<open>A callback that leaves the timer alone.\<close>

definition state_only :: "('cb \<Rightarrow> nat \<Rightarrow> 's \<Rightarrow> 's) \<Rightarrow> ('t, 'cb, 's) timer_runner" where
  "state_only r cb ctx ts = (fst ts, r cb ctx (snd ts))"

lemma tc_tests_off:
  "duration32 (to_timeObj (tcb_timer t)) = 0 \<Longrightarrow> tc_tests run cs t s = Some (map (\<lambda>_. False) cs, s)"
  by (induction cs) (auto simp: TC_Timer32Test_def SW_Timer32Passed_def)

lemma tc_tests_once:
  assumes "tcb_callback t = Some cb" "to_timeObj (tcb_timer t) = \<lparr>start32 = s0, duration32 = d\<rparr>" "d \<noteq> 0"
  shows "tc_tests (state_only r) cs t s =
    Some (first_true (map (\<lambda>c. d \<le> fst c - s0) cs), if \<exists>c\<in>set cs. d \<le> fst c - s0 then r cb (tcb_context t) s else s)"
proof (induction cs)
  case (Cons cl cs)
  obtain c l where cl: "cl = (c, l)"
    by (cases cl)
  show ?case
  proof (cases "d \<le> c - s0")
    case True
    let ?t1 = "t\<lparr>tcb_timer := SW_ResetTimer32 (tcb_timer t) l\<rparr>"
    have "TC_Timer32Test (state_only r) t c l s = Some (True, ?t1, r cb (tcb_context t) s)"
      using assms True by (simp add: TC_Timer32Test_def SW_Timer32Passed_def SW_TIMER_PASSED_def Let_def state_only_def)
    moreover have "tc_tests (state_only r) cs ?t1 (r cb (tcb_context t) s) = Some (map (\<lambda>_. False) cs, r cb (tcb_context t) s)"
      by (rule tc_tests_off) (simp add: SW_ResetTimer32_def)
    ultimately show ?thesis
      using True cl by (simp add: comp_def)
  next
    case False
    have "TC_Timer32Test (state_only r) t c l s = Some (False, t, s)"
      using assms False by (simp add: TC_Timer32Test_def SW_Timer32Passed_def SW_TIMER_PASSED_def)
    with Cons.IH False cl show ?thesis
      by simp
  qed
qed simp

text \<open>A callback that starts its timer again makes it periodic: the start is what remains.\<close>

lemma TC_Timer32Test_restarts:
  assumes "tcb_callback t = Some cb" "d \<noteq> 0" "d \<le> k"
  shows "TC_Timer32Test (\<lambda>_ _ (t, s). (TC_Timer32Start t d' again, s)) (TC_Timer32Start t d now) (now + k) later s =
    Some (True, TC_Timer32Start t d' again, s)"
  using assms
  by (simp add: TC_Timer32Test_def TC_Timer32Start_def SW_SetTimer32_def SW_Timer32Passed_def SW_TIMER_PASSED_def
      SW_ResetTimer32_def)

section \<open>Properties\<close>



text \<open>The 16 bit timer does not survive the rollover of its counter: its test subtracts in 32
  bits, so whatever positive duration was set, a poll after the counter wrapped below the start value
  reports the timer passed at once; before the wrap it is right for durations below half the range. \<close>

lemma SW_Timer16_rollover:
  assumes "0 < d" "d < 2 ^ 15"
  shows "SW_Timer16Passed (SW_SetTimer16 t d s) now \<longleftrightarrow> (now < s \<or> d \<le> now - s)"
proof -
  have d15: "unat d < 2 ^ 15" "unat d \<noteq> 0"
    using assms by (simp_all add: word_less_nat_alt)
  have "\<not> bit d 15"
  proof -
    have "bit d 15 \<longleftrightarrow> bit (unat d) 15"
      by (simp add: bit_unsigned_iff)
    also have "\<dots> \<longleftrightarrow> odd (unat d div 2 ^ 15)"
      by (rule bit_iff_odd)
    finally show ?thesis
      using d15 by simp
  qed
  moreover have "bit d n \<Longrightarrow> 15 \<le> n \<Longrightarrow> n = 15" for n
    using bit_imp_le_length [of d n] by simp
  ultimately have lt: "bit d n \<Longrightarrow> n < 15" for n
    by (metis not_le)
  then have "\<not> bit d 15"
    by blast
  then have "(scast d :: u32) = ucast d"
    by (intro bit_word_eqI) (auto simp: bit_signed_iff bit_unsigned_iff min_def dest: lt)
  then have ud: "unat (scast d :: u32) = unat d"
    using d15(1) by (simp add: unsigned_ucast_eq take_bit_nat_eq_self)
  have b: "unat now < 2 ^ 16" "unat s < 2 ^ 16"
    using unsigned_less [where w = now and ?'a = nat] unsigned_less [where w = s and ?'a = nat] by simp_all
  have ue: "unat (ucast now - ucast s :: u32) = (if s \<le> now then unat now - unat s else unat now + 2 ^ 32 - unat s)"
    using b by (auto simp: unat_sub_if' word_le_nat_alt unsigned_ucast_eq take_bit_nat_eq_self)
  have "duration32 (to_timeObj (SW_SetTimer16 t d s)) \<noteq> 0"
    using ud d15 by (auto simp: SW_SetTimer16_def)
  moreover have "SW_TIMER_PASSED (to_timeObj (SW_SetTimer16 t d s)) (ucast now) \<longleftrightarrow>
      unat d \<le> unat (ucast now - ucast s :: u32)"
    by (simp add: SW_TIMER_PASSED_def SW_SetTimer16_def word_le_nat_alt ud)
  moreover have "s \<le> now \<Longrightarrow> unat (now - s) = unat now - unat s"
    by (simp add: unat_sub word_le_nat_alt)
  ultimately show ?thesis
    using b d15 by (auto simp: SW_Timer16Passed_def ue word_le_nat_alt word_less_nat_alt)
qed

lemma SW_Timer16_rollover_witness:
  "SW_Timer16Passed (SW_SetTimer16 \<lparr>to_timer = (), to_timeObj = \<lparr>start32 = 0, duration32 = 0\<rparr>\<rparr> 1000 0xFFFF) 0"
  using SW_Timer16_rollover [of 1000 "\<lparr>to_timer = (), to_timeObj = \<lparr>start32 = 0, duration32 = 0\<rparr>\<rparr>" "0xFFFF" 0]
  by simp

end
