(* ===== verification/SwBgTimers.thy ===== *)
theory SwBgTimers
  imports SwTimer
begin

text \<open>
  The background timers of \<^verbatim>\<open>src/src/swbgtimers.c\<close> and \<^verbatim>\<open>swbgtimers.h\<close>: timer objects
  (addresses, their members in a store) on a singly linked list walked by \<open>SWT_Background\<close> through
  a pointer to the previous link. Callbacks and the task caller are values of type \<open>'cb\<close>; the
  argument \<open>run\<close> says what calling one does to the whole state. \<open>sysCounter\<close> is the value of the
  counter behind \<open>GetBackgroundTimer\<close> (the build without \<open>TEST\<close>); \<open>None\<close> is an endless walk.
\<close>

section \<open>State\<close>

record 'cb swtBg_t =
  bt_next :: "nat option"
  bt_timer :: swTime32_t
  bt_cb :: "'cb option"
  bt_taskContext :: int
  bt_runCount :: u16
  bt_queued :: bool
  bt_paused :: "2 word"
  bt_check :: "nat option"

record 'cb bg_state =
  timerList :: "nat option"
  bg_tm :: "nat \<Rightarrow> 'cb swtBg_t"
  lastBgTime :: u32
  maxBgUpdate :: u32
  taskFunc :: "'cb option"
  sysCounter :: u32

type_synonym ('cb, 'z) bg_runner = "'cb \<Rightarrow> int \<Rightarrow> ('cb, 'z) bg_state_scheme \<Rightarrow> ('cb, 'z) bg_state_scheme"

text \<open>The address \<open>&timerList\<close> the \<open>check\<close> member holds while a timer is listed.\<close>

abbreviation timerList_addr :: "nat option" where "timerList_addr \<equiv> Some 1"

definition upd_tm :: "nat \<Rightarrow> ('cb swtBg_t \<Rightarrow> 'cb swtBg_t) \<Rightarrow> ('cb, 'z) bg_state_scheme \<Rightarrow> ('cb, 'z) bg_state_scheme" where
  "upd_tm i f s = s\<lparr>bg_tm := (bg_tm s)(i := f (bg_tm s i))\<rparr>"

definition GetBackgroundTimer :: "('cb, 'z) bg_state_scheme \<Rightarrow> u32" where
  "GetBackgroundTimer s = sysCounter s"

definition SWBG_SetTaskCaller :: "'cb option \<Rightarrow> ('cb, 'z) bg_state_scheme \<Rightarrow> ('cb, 'z) bg_state_scheme" where
  "SWBG_SetTaskCaller userTaskFunc s = s\<lparr>taskFunc := userTaskFunc\<rparr>"

section \<open>The walk\<close>

text \<open>\<open>prev\<close>: the link that leads to the pending timer, the head or a timer's \<open>next\<close> member.\<close>

datatype link = Link_head | Link_next nat

fun read_link :: "link \<Rightarrow> ('cb, 'z) bg_state_scheme \<Rightarrow> nat option" where
  "read_link Link_head s = timerList s"
| "read_link (Link_next i) s = bt_next (bg_tm s i)"

fun write_link :: "link \<Rightarrow> nat option \<Rightarrow> ('cb, 'z) bg_state_scheme \<Rightarrow> ('cb, 'z) bg_state_scheme" where
  "write_link Link_head p s = s\<lparr>timerList := p\<rparr>"
| "write_link (Link_next i) p s = upd_tm i (\<lambda>t. t\<lparr>bt_next := p\<rparr>) s"

text \<open>The body of the loop on timer \<open>pend\<close>: whether it was removed, and the state after it.\<close>

definition bg_body ::
    "('cb, 'z) bg_runner \<Rightarrow> u32 \<Rightarrow> link \<Rightarrow> nat \<Rightarrow> nat option \<Rightarrow> ('cb, 'z) bg_state_scheme \<Rightarrow>
     bool \<times> ('cb, 'z) bg_state_scheme" where
  "bg_body run time prev pend nxt s =
     (if SW_TIMER_PASSED (bt_timer (bg_tm s pend)) time then
        let (removed, s1) =
              (if bt_runCount (bg_tm s pend) \<noteq> 0 then
                 let s0 = upd_tm pend (\<lambda>t. t\<lparr>bt_runCount := bt_runCount t - 1\<rparr>) s in
                 if bt_runCount (bg_tm s0 pend) = 0 then
                   (True, upd_tm pend (\<lambda>t. t\<lparr>bt_queued := False, bt_check := None\<rparr>)
                            (write_link prev nxt (upd_tm pend (\<lambda>t. t\<lparr>bt_paused := 2\<rparr>) s0)))
                 else (False, upd_tm pend (\<lambda>t. t\<lparr>bt_timer := SW_TIMER_CYCLE (bt_timer t)\<rparr>) s0)
               else (False, upd_tm pend (\<lambda>t. t\<lparr>bt_timer := SW_TIMER_CYCLE (bt_timer t)\<rparr>) s));
            s2 = (case bt_cb (bg_tm s1 pend) of
                Some f \<Rightarrow> run f (bt_taskContext (bg_tm s1 pend)) s1
              | None \<Rightarrow> (case taskFunc s1 of
                    Some f \<Rightarrow> run f (bt_taskContext (bg_tm s1 pend)) s1
                  | None \<Rightarrow> s1))
        in (removed, s2)
      else (False, s))"

partial_function (option) bg_loop ::
    "('cb, 'z) bg_runner \<Rightarrow> u32 \<Rightarrow> link \<Rightarrow> nat option \<Rightarrow> ('cb, 'z) bg_state_scheme \<Rightarrow>
     ('cb, 'z) bg_state_scheme option" where
  "bg_loop run time prev pend s = (case pend of
     None \<Rightarrow> Some s
   | Some p \<Rightarrow>
       (let nxt = bt_next (bg_tm s p); (removed, s1) = bg_body run time prev p nxt s
        in bg_loop run time (if removed then prev else Link_next p) nxt s1))"

declare bg_loop.simps [code]

definition SWT_Background :: "('cb, 'z) bg_runner \<Rightarrow> ('cb, 'z) bg_state_scheme \<Rightarrow> ('cb, 'z) bg_state_scheme option" where
  "SWT_Background run s =
     (let time = GetBackgroundTimer s; delta = time - lastBgTime s in
      if delta = 0 then Some s
      else
        let s1 = s\<lparr>lastBgTime := time, maxBgUpdate := (if delta > maxBgUpdate s then delta else maxBgUpdate s)\<rparr>
        in bg_loop run time Link_head (read_link Link_head s1) s1)"

section \<open>Starting, stopping and testing timers\<close>

definition enqueue_bg :: "nat \<Rightarrow> ('cb, 'z) bg_state_scheme \<Rightarrow> ('cb, 'z) bg_state_scheme" where
  "enqueue_bg swt s =
     (if \<not> bt_queued (bg_tm s swt) \<or> bt_check (bg_tm s swt) \<noteq> timerList_addr then
        upd_tm swt (\<lambda>t. t\<lparr>bt_check := timerList_addr\<rparr>)
          ((upd_tm swt (\<lambda>t. t\<lparr>bt_next := timerList s\<rparr>) s)\<lparr>timerList := Some swt\<rparr>)
      else s)"

definition SWT_BackgroundTimerTask ::
    "nat \<Rightarrow> int \<Rightarrow> u32 \<Rightarrow> u16 \<Rightarrow> ('cb, 'z) bg_state_scheme \<Rightarrow> ('cb, 'z) bg_state_scheme" where
  "SWT_BackgroundTimerTask swt task timeInMs runCount s =
     enqueue_bg swt (upd_tm swt (\<lambda>t. t\<lparr>bt_taskContext := task, bt_cb := None, bt_runCount := runCount,
       bt_timer := SW_TIMER_SET (bt_timer t) (timeInMs * 1) (GetBackgroundTimer s),
       bt_queued := True, bt_paused := 0\<rparr>) s)"

definition SWT_BackgroundTimerCallback ::
    "nat \<Rightarrow> 'cb option \<Rightarrow> u32 \<Rightarrow> u16 \<Rightarrow> int \<Rightarrow> ('cb, 'z) bg_state_scheme \<Rightarrow> ('cb, 'z) bg_state_scheme" where
  "SWT_BackgroundTimerCallback swt cb timeInMs runCount context s =
     enqueue_bg swt (upd_tm swt (\<lambda>t. t\<lparr>bt_taskContext := context, bt_cb := cb, bt_runCount := runCount,
       bt_timer := SW_TIMER_SET (bt_timer t) (timeInMs * 1) (GetBackgroundTimer s),
       bt_queued := True, bt_paused := 0\<rparr>) s)"

partial_function (option) bg_reset_loop ::
    "nat option \<Rightarrow> ('cb, 'z) bg_state_scheme \<Rightarrow> ('cb, 'z) bg_state_scheme option" where
  "bg_reset_loop nxt s = (case nxt of
     None \<Rightarrow> Some s
   | Some i \<Rightarrow>
       if bt_check (bg_tm s i) = timerList_addr
       then bg_reset_loop (bt_next (bg_tm s i)) (upd_tm i (\<lambda>t. t\<lparr>bt_next := None\<rparr>) s)
       else Some s)"

declare bg_reset_loop.simps [code]

definition SWT_BackgroundTimersReset :: "('cb, 'z) bg_state_scheme \<Rightarrow> ('cb, 'z) bg_state_scheme option" where
  "SWT_BackgroundTimersReset s = bg_reset_loop (timerList s) (s\<lparr>timerList := None\<rparr>)"

definition SWT_IsTimerActive :: "'cb swtBg_t \<Rightarrow> bool" where
  "SWT_IsTimerActive t = bt_queued t"

definition SWT_IsTimerPaused :: "'cb swtBg_t \<Rightarrow> bool" where
  "SWT_IsTimerPaused t \<longleftrightarrow> bt_paused t = 1"

definition SWT_IsTimerStopped :: "'cb swtBg_t \<Rightarrow> bool" where
  "SWT_IsTimerStopped t \<longleftrightarrow> bt_paused t = 2"

definition SWT_IsTimerRunning :: "'cb swtBg_t \<Rightarrow> bool" where
  "SWT_IsTimerRunning t \<longleftrightarrow> bt_paused t = 0 \<and> bt_queued t"

definition SWT_PauseTimer :: "nat \<Rightarrow> ('cb, 'z) bg_state_scheme \<Rightarrow> ('cb, 'z) bg_state_scheme" where
  "SWT_PauseTimer swt s = upd_tm swt (\<lambda>t. t\<lparr>bt_paused := 1,
     bt_timer := (bt_timer t)\<lparr>start32 := GetBackgroundTimer s - start32 (bt_timer t)\<rparr>\<rparr>) s"

definition SWT_StopTimer :: "nat \<Rightarrow> ('cb, 'z) bg_state_scheme \<Rightarrow> ('cb, 'z) bg_state_scheme" where
  "SWT_StopTimer swt s = upd_tm swt (\<lambda>t. t\<lparr>bt_paused := 2\<rparr>) s"

definition SWT_RestartTimer :: "nat \<Rightarrow> ('cb, 'z) bg_state_scheme \<Rightarrow> ('cb, 'z) bg_state_scheme" where
  "SWT_RestartTimer swt s = upd_tm swt (\<lambda>t. t\<lparr>bt_paused := 0,
     bt_timer := (bt_timer t)\<lparr>start32 := (if bt_paused t = 1
       then GetBackgroundTimer s - start32 (bt_timer t) else GetBackgroundTimer s)\<rparr>\<rparr>) s"

section \<open>Lists of timers\<close>

fun bg_chain :: "(nat \<Rightarrow> 'cb swtBg_t) \<Rightarrow> nat option \<Rightarrow> nat list \<Rightarrow> bool" where
  "bg_chain m p [] \<longleftrightarrow> p = None"
| "bg_chain m p (a # as) \<longleftrightarrow> p = Some a \<and> bg_chain m (bt_next (m a)) as"

lemma bg_chain_cong:
  "(\<And>i. i \<in> set xs \<Longrightarrow> bt_next (m i) = bt_next (m' i)) \<Longrightarrow> bg_chain m p xs = bg_chain m' p xs"
  by (induction xs arbitrary: p) auto

lemma bg_chain_upd [simp]: "i \<notin> set xs \<Longrightarrow> bg_chain (m(i := v)) p xs = bg_chain m p xs"
  by (intro bg_chain_cong) auto

definition bg_listed :: "('cb, 'z) bg_state_scheme \<Rightarrow> nat list \<Rightarrow> bool" where
  "bg_listed s xs \<longleftrightarrow> bg_chain (bg_tm s) (timerList s) xs \<and> distinct xs \<and>
     (\<forall>i. i \<in> set xs \<longleftrightarrow> bt_check (bg_tm s i) = timerList_addr) \<and> (\<forall>i\<in>set xs. bt_queued (bg_tm s i))"

lemma enqueue_listed:
  assumes "bg_listed s xs"
  shows "bg_listed (SWT_BackgroundTimerCallback i cb t n c s) (if i \<in> set xs then xs else i # xs)"
proof -
  define s1 where "s1 = upd_tm i (\<lambda>t'. t'\<lparr>bt_taskContext := c, bt_cb := cb, bt_runCount := n,
       bt_timer := SW_TIMER_SET (bt_timer t') (t * 1) (GetBackgroundTimer s),
       bt_queued := True, bt_paused := 0\<rparr>) s"
  have next1: "bt_next (bg_tm s1 j) = bt_next (bg_tm s j)" "bt_check (bg_tm s1 j) = bt_check (bg_tm s j)"
    "timerList s1 = timerList s" "bt_queued (bg_tm s1 j) \<longleftrightarrow> j = i \<or> bt_queued (bg_tm s j)" for j
    by (auto simp: s1_def upd_tm_def)
  have chain1: "bg_chain (bg_tm s1) (timerList s) xs"
    using assms bg_chain_cong [of xs "bg_tm s1" "bg_tm s"] next1 by (simp add: bg_listed_def)
  have def: "SWT_BackgroundTimerCallback i cb t n c s = enqueue_bg i s1"
    by (simp add: SWT_BackgroundTimerCallback_def s1_def)
  show ?thesis
  proof (cases "i \<in> set xs")
    case True
    then have "enqueue_bg i s1 = s1"
      using assms next1 by (simp add: enqueue_bg_def bg_listed_def)
    then show ?thesis
      using True assms chain1 next1 by (auto simp: def bg_listed_def)
  next
    case False
    have s2: "timerList (enqueue_bg i s1) = Some i" "bg_tm (enqueue_bg i s1) =
        (bg_tm s1)(i := (bg_tm s1 i)\<lparr>bt_next := timerList s1, bt_check := timerList_addr\<rparr>)"
      using False assms next1 by (auto simp: enqueue_bg_def upd_tm_def bg_listed_def fun_eq_iff)
    show ?thesis
      using False assms chain1 next1 by (auto simp: def bg_listed_def s2)
  qed
qed

section \<open>What a walk does\<close>

text \<open>
  The contract of one walk at a time, for callbacks that leave the timers alone: a timer that has not
  passed is left as it is; a passed one calls its function, once; unless its run count reaches zero
  it moves its start by its duration, otherwise it stops and leaves the list.
\<close>

definition bg_passed :: "u32 \<Rightarrow> 'cb swtBg_t \<Rightarrow> bool" where
  "bg_passed time t \<longleftrightarrow> SW_TIMER_PASSED (bt_timer t) time"

definition bg_removed :: "u32 \<Rightarrow> 'cb swtBg_t \<Rightarrow> bool" where
  "bg_removed time t \<longleftrightarrow> bg_passed time t \<and> bt_runCount t = 1"

definition bg_tick :: "u32 \<Rightarrow> 'cb swtBg_t \<Rightarrow> 'cb swtBg_t" where
  "bg_tick time t =
     (if \<not> bg_passed time t then t
      else if bt_runCount t = 0 then t\<lparr>bt_timer := SW_TIMER_CYCLE (bt_timer t)\<rparr>
      else if bt_runCount t = 1 then
        t\<lparr>bt_runCount := 0, bt_paused := 2, bt_queued := False, bt_check := None\<rparr>
      else t\<lparr>bt_runCount := bt_runCount t - 1, bt_timer := SW_TIMER_CYCLE (bt_timer t)\<rparr>)"

text \<open>What is called: the callback with its context, or the task caller.\<close>

definition bg_call :: "'cb option \<Rightarrow> 'cb swtBg_t \<Rightarrow> ('cb \<times> int) list" where
  "bg_call task t = (case bt_cb t of Some f \<Rightarrow> [(f, bt_taskContext t)]
     | None \<Rightarrow> (case task of Some f \<Rightarrow> [(f, bt_taskContext t)] | None \<Rightarrow> []))"

record 'cb bg_logged = "'cb bg_state" +
  bg_log :: "('cb \<times> int) list"

definition bg_logrun :: "'cb \<Rightarrow> int \<Rightarrow> 'cb bg_logged \<Rightarrow> 'cb bg_logged" where
  "bg_logrun f c s = s\<lparr>bg_log := bg_log s @ [(f, c)]\<rparr>"

definition same_but_next :: "'cb swtBg_t \<Rightarrow> 'cb swtBg_t \<Rightarrow> bool" where
  "same_but_next t t' \<longleftrightarrow> t' = t\<lparr>bt_next := bt_next t'\<rparr>"

lemma same_but_next_refl [simp]: "same_but_next t t"
  by (simp add: same_but_next_def)

lemma same_but_next_upd [simp]: "same_but_next t (t\<lparr>bt_next := x\<rparr>)"
  by (simp add: same_but_next_def)

lemma same_but_next_trans: "same_but_next a b \<Longrightarrow> same_but_next b c \<Longrightarrow> same_but_next a c"
  unfolding same_but_next_def by (cases a; cases b; cases c; simp)

lemma same_but_next_fields:
  assumes "same_but_next t t'"
  shows "bt_check t' = bt_check t" "bt_queued t' = bt_queued t"
  using assms unfolding same_but_next_def by (cases t; cases t'; simp)+

lemma dec_zero: "n \<noteq> 0 \<Longrightarrow> n - 1 = 0 \<longleftrightarrow> n = 1" for n :: u16
  by auto

text \<open>One turn of the loop.\<close>

lemma bg_body_effect:
  fixes s :: "'cb bg_logged"
  assumes prev: "prev \<noteq> Link_next p" and r: "bg_body bg_logrun time prev p nxt s = (removed, s')"
  shows "removed = bg_removed time (bg_tm s p) \<and>
    bg_log s' = bg_log s @ (if bg_passed time (bg_tm s p) then bg_call (taskFunc s) (bg_tm s p) else []) \<and>
    bg_tm s' p = bg_tick time (bg_tm s p) \<and>
    read_link prev s' = (if removed then nxt else read_link prev s) \<and>
    (\<forall>i. i \<noteq> p \<longrightarrow> same_but_next (bg_tm s i) (bg_tm s' i)) \<and>
    (\<forall>i. i \<noteq> p \<longrightarrow> prev \<noteq> Link_next i \<or> \<not> removed \<longrightarrow> bg_tm s' i = bg_tm s i) \<and>
    (prev \<noteq> Link_head \<longrightarrow> timerList s' = timerList s) \<and> taskFunc s' = taskFunc s"
proof (cases "bg_passed time (bg_tm s p)")
  case False
  then show ?thesis
    using r by (auto simp: bg_body_def bg_passed_def bg_removed_def bg_tick_def)
next
  case passed: True
  then have P: "SW_TIMER_PASSED (bt_timer (bg_tm s p)) time"
    by (simp add: bg_passed_def)
  consider "bt_runCount (bg_tm s p) = 0" | "bt_runCount (bg_tm s p) = 1"
    | "bt_runCount (bg_tm s p) \<noteq> 0" "bt_runCount (bg_tm s p) \<noteq> 1"
    by blast
  then show ?thesis
  proof cases
    case 1
    then show ?thesis
      using r passed P by (auto simp: bg_body_def bg_removed_def bg_tick_def bg_call_def upd_tm_def bg_logrun_def
          split: option.splits; cases prev; auto)
  next
    case 2
    then show ?thesis
      using r passed P prev by (cases prev; auto simp: bg_body_def bg_removed_def bg_tick_def bg_call_def upd_tm_def bg_logrun_def
          split: option.splits)
  next
    case 3
    then show ?thesis
      using r passed P dec_zero by (auto simp: bg_body_def bg_removed_def bg_tick_def bg_call_def upd_tm_def bg_logrun_def
          split: option.splits; cases prev; auto)
  qed
qed

lemma bg_tick_next [simp]: "bt_next (bg_tick time t) = bt_next t"
  by (simp add: bg_tick_def)

lemma bg_tick_same: "same_but_next t t' \<Longrightarrow> same_but_next (bg_tick time t) (bg_tick time t')"
  unfolding same_but_next_def by (cases t; cases t') (auto simp: bg_tick_def bg_passed_def)

definition bg_calls :: "u32 \<Rightarrow> 'cb option \<Rightarrow> 'cb swtBg_t \<Rightarrow> ('cb \<times> int) list" where
  "bg_calls time task t = (if bg_passed time t then bg_call task t else [])"

definition walked :: "u32 \<Rightarrow> link \<Rightarrow> nat list \<Rightarrow> 'cb bg_logged \<Rightarrow> 'cb bg_logged \<Rightarrow> bool" where
  "walked time prev xs s s' \<longleftrightarrow>
     bg_chain (bg_tm s') (read_link prev s') (filter (\<lambda>i. \<not> bg_removed time (bg_tm s i)) xs) \<and>
     bg_log s' = bg_log s @ concat (map (\<lambda>i. bg_calls time (taskFunc s) (bg_tm s i)) xs) \<and>
     (\<forall>i\<in>set xs. same_but_next (bg_tick time (bg_tm s i)) (bg_tm s' i)) \<and>
     (\<forall>i. i \<notin> set xs \<longrightarrow> same_but_next (bg_tm s i) (bg_tm s' i)) \<and>
     (\<forall>i. i \<notin> set xs \<longrightarrow> prev \<noteq> Link_next i \<longrightarrow> bg_tm s' i = bg_tm s i) \<and>
     (prev \<noteq> Link_head \<longrightarrow> timerList s' = timerList s) \<and> taskFunc s' = taskFunc s"

lemma bg_loop_walked:
  "bg_chain (bg_tm s) pend xs \<Longrightarrow> distinct xs \<Longrightarrow> read_link prev s = pend \<Longrightarrow>
   \<forall>p\<in>set xs. prev \<noteq> Link_next p \<Longrightarrow>
   \<exists>s'. bg_loop bg_logrun time prev pend s = Some s' \<and> walked time prev xs s s'"
proof (induction xs arbitrary: prev pend s)
  case Nil
  then show ?case
    by (subst bg_loop.simps) (simp add: walked_def)
next
  case (Cons p ps)
  have pend: "pend = Some p" and ch: "bg_chain (bg_tm s) (bt_next (bg_tm s p)) ps" and p: "p \<notin> set ps" "distinct ps"
    using Cons.prems by auto
  obtain removed s1 where b: "bg_body bg_logrun time prev p (bt_next (bg_tm s p)) s = (removed, s1)"
    by fastforce
  have "prev \<noteq> Link_next p"
    using Cons.prems(4) by simp
  note e = bg_body_effect [OF this b]
  have tm1: "bg_tm s1 i = bg_tm s i" if "i \<in> set ps" for i
    using e that Cons.prems(4) p by (metis list.set_intros(2))
  have ch1: "bg_chain (bg_tm s1) (bt_next (bg_tm s p)) ps"
    using ch bg_chain_cong [of ps "bg_tm s1" "bg_tm s"] tm1 by metis
  let ?prev = "if removed then prev else Link_next p"
  have read1: "read_link ?prev s1 = bt_next (bg_tm s p)"
    using e by simp
  have "\<forall>q\<in>set ps. ?prev \<noteq> Link_next q"
    using Cons.prems(4) p by auto
  from Cons.IH [OF ch1 p(2) read1 this] obtain s' where
    s': "bg_loop bg_logrun time ?prev (bt_next (bg_tm s p)) s1 = Some s'" "walked time ?prev ps s1 s'"
    by blast
  have loop: "bg_loop bg_logrun time prev pend s = Some s'"
    using s'(1) pend b by (subst bg_loop.simps) simp
  have filt: "filter (\<lambda>i. \<not> bg_removed time (bg_tm s1 i)) ps = filter (\<lambda>i. \<not> bg_removed time (bg_tm s i)) ps"
    by (intro filter_cong) (simp_all add: tm1)
  have logs: "map (\<lambda>i. bg_calls time (taskFunc s1) (bg_tm s1 i)) ps = map (\<lambda>i. bg_calls time (taskFunc s) (bg_tm s i)) ps"
    using e by (simp add: tm1)
  note w = s'(2) [unfolded walked_def filt logs]
  have "walked time prev (p # ps) s s'"
    unfolding walked_def
  proof (intro conjI ballI allI impI)
    show "bg_chain (bg_tm s') (read_link prev s') (filter (\<lambda>i. \<not> bg_removed time (bg_tm s i)) (p # ps))"
    proof (cases removed)
      case True
      then show ?thesis using w e by simp
    next
      case False
      have "read_link prev s' = Some p"
        using w e False Cons.prems(3,4) pend by (cases prev) auto
      then show ?thesis
        using w e False by simp
    qed
    show "bg_log s' = bg_log s @ concat (map (\<lambda>i. bg_calls time (taskFunc s) (bg_tm s i)) (p # ps))"
      using w e by (simp add: bg_calls_def)
    show "same_but_next (bg_tick time (bg_tm s i)) (bg_tm s' i)" if "i \<in> set (p # ps)" for i
      using that w e p tm1 by (cases "i = p") auto
    show "same_but_next (bg_tm s i) (bg_tm s' i)" if "i \<notin> set (p # ps)" for i
      using that w e same_but_next_trans by (metis list.set_intros)
    show "bg_tm s' i = bg_tm s i" if "i \<notin> set (p # ps)" "prev \<noteq> Link_next i" for i
      using that w e by (cases removed) auto
    show "timerList s' = timerList s" if "prev \<noteq> Link_head"
      using that w e by (cases removed) auto
    show "taskFunc s' = taskFunc s"
      using w e by simp
  qed
  with loop show ?case
    by blast
qed

section \<open>Properties\<close>


definition demo_bg :: "nat bg_logged" where
  "demo_bg = \<lparr>timerList = None, bg_tm = (\<lambda>_. \<lparr>bt_next = None, bt_timer = \<lparr>start32 = 0, duration32 = 0\<rparr>,
     bt_cb = None, bt_taskContext = 0, bt_runCount = 0, bt_queued = False, bt_paused = 0, bt_check = None\<rparr>),
     lastBgTime = 0, maxBgUpdate = 0, taskFunc = Some 9, sysCounter = 0xFFFFFFF0, bg_log = []\<rparr>"

definition demo_bg2 :: "nat bg_logged" where
  "demo_bg2 = (SWT_BackgroundTimerCallback 5 (Some 7) 20 1 77
     (SWT_BackgroundTimerCallback 6 None 100 0 66 demo_bg))\<lparr>sysCounter := 8\<rparr>"

lemma demo_bg2_listed: "bg_listed demo_bg2 [5, 6]"
proof -
  have "bg_listed demo_bg []"
    by (simp add: demo_bg_def bg_listed_def)
  from enqueue_listed [OF this, of 6 None 100 0 66]
  have "bg_listed (SWT_BackgroundTimerCallback 6 None 100 0 66 demo_bg) [6]"
    by simp
  from enqueue_listed [OF this, of 5 "Some 7" 20 1 77] show ?thesis
    by (simp add: demo_bg2_def bg_listed_def)
qed


text \<open> A timer that was listed when \<open>SWT_BackgroundTimersReset\<close> emptied the list cannot be started
  again: the reset leaves its \<open>check\<close> member set, so starting it marks it active but does not put it
  on the list, and no later walk reaches it. \<close>

lemma SWT_reset_loses_timers:
  fixes s :: "('cb, 'z) bg_state_scheme"
  assumes "bg_listed s xs" and "i \<in> set xs"
  shows "\<exists>s'. SWT_BackgroundTimersReset s = Some s' \<and> timerList s' = None \<and>
    timerList (SWT_BackgroundTimerCallback i cb t n c s') = None \<and>
    SWT_IsTimerRunning (bg_tm (SWT_BackgroundTimerCallback i cb t n c s') i)"
proof -
  have loop: "\<exists>s'. bg_reset_loop p s1 = Some s' \<and> timerList s' = timerList s1 \<and>
      (\<forall>i. bt_check (bg_tm s' i) = bt_check (bg_tm s1 i))"
    if "bg_chain (bg_tm s1) p ys" "distinct ys" "\<forall>i\<in>set ys. bt_check (bg_tm s1 i) = timerList_addr"
    for s1 :: "('cb, 'z) bg_state_scheme" and p ys
    using that
  proof (induction ys arbitrary: p s1)
    case Nil
    then show ?case by (subst bg_reset_loop.simps) simp
  next
    case (Cons y ys)
    let ?s2 = "upd_tm y (\<lambda>t. t\<lparr>bt_next := None\<rparr>) s1"
    have "bg_chain (bg_tm ?s2) (bt_next (bg_tm s1 y)) ys" "\<forall>i\<in>set ys. bt_check (bg_tm ?s2 i) = timerList_addr"
      using Cons.prems by (simp_all add: upd_tm_def)
    from Cons.IH [OF this(1) _ this(2)] obtain s' where
      "bg_reset_loop (bt_next (bg_tm s1 y)) ?s2 = Some s'" "timerList s' = timerList ?s2"
      "\<forall>i. bt_check (bg_tm s' i) = bt_check (bg_tm ?s2 i)"
      using Cons.prems(2) by auto
    then show ?case
      using Cons.prems by (subst bg_reset_loop.simps) (auto simp: upd_tm_def)
  qed
  obtain s' where s': "SWT_BackgroundTimersReset s = Some s'" "timerList s' = None"
    "\<forall>i. bt_check (bg_tm s' i) = bt_check (bg_tm s i)"
    using loop [of "s\<lparr>timerList := None\<rparr>" "timerList s" xs] assms(1)
    by (auto simp: SWT_BackgroundTimersReset_def bg_listed_def)
  moreover have "bt_check (bg_tm s' i) = timerList_addr"
    using s'(3) assms by (simp add: bg_listed_def)
  ultimately show ?thesis
    by (auto simp: SWT_BackgroundTimerCallback_def enqueue_bg_def upd_tm_def SWT_IsTimerRunning_def)
qed

lemma SWT_reset_loses_timers_witness:
  "\<exists>s'. SWT_BackgroundTimersReset demo_bg2 = Some s' \<and>
    timerList (SWT_BackgroundTimerCallback 5 (Some 7) 20 1 77 s') = None"
  using SWT_reset_loses_timers [OF demo_bg2_listed, of 5 "Some 7" 20 1 77] by auto

end
