(* ===== verification/GeneralQueue.thy ===== *)
theory GeneralQueue
  imports GenQ
begin

text \<open>
  The older queue and pool of \<^verbatim>\<open>src/src/generalQueue.c\<close> and \<^verbatim>\<open>generalQueue.h\<close>. Its
  queue answers with integers (0, -1 full, -2 empty) and dereferences the queue before testing it
  for NULL in two places, where the definitions return \<open>None\<close> (undefined behaviour). The queue is
  shown to be the one of \<open>GenQ\<close> up to the codes, which makes it a second provider of
  \<open>bounded_queue\<close>. The suffix \<open>_v1\<close> keeps its names apart from those of \<^verbatim>\<open>genQ.c\<close>.
\<close>

section \<open>The queue\<close>

record 'b genQ_t =
  v1_end :: nat
  v1_objectSize :: nat
  v1_next :: nat
  v1_last :: nat
  v1_base :: nat
  v1_mem :: "nat \<Rightarrow> 'b"

definition BUMP :: "'b genQ_t \<Rightarrow> nat \<Rightarrow> nat" where
  "BUMP q val = (if val \<ge> v1_end q then v1_base q else val + v1_objectSize q)"

definition GENERAL_QUEUE :: "nat \<Rightarrow> nat \<Rightarrow> nat \<Rightarrow> 'b::zero genQ_t" where
  "GENERAL_QUEUE space sz number =
     \<lparr>v1_end = space + sz * (number - 1), v1_objectSize = sz, v1_next = space, v1_last = space,
      v1_base = space, v1_mem = (\<lambda>_. 0)\<rparr>"

definition GenQ_Init_v1 :: "'b genQ_t option \<Rightarrow> nat \<Rightarrow> u16 \<Rightarrow> u16 \<Rightarrow> int \<times> 'b genQ_t option" where
  "GenQ_Init_v1 qp buffer objectSize totalObjects =
     (case qp of
        None \<Rightarrow> (-1, None)
      | Some q \<Rightarrow>
          if unat totalObjects < 2 then (-1, Some q)
          else (0, Some (q\<lparr>v1_base := buffer, v1_next := buffer, v1_last := buffer,
                  v1_end := buffer + unat objectSize * (unat totalObjects - 1),
                  v1_objectSize := unat objectSize\<rparr>)))"

definition GenQ_Put_v1 :: "'b genQ_t option \<Rightarrow> 'b list \<Rightarrow> (int \<times> 'b genQ_t) option" where
  "GenQ_Put_v1 qp obj =
     (case qp of
        None \<Rightarrow> None
      | Some q \<Rightarrow>
          (let nxt = BUMP q (v1_next q) in
           Some (if nxt = v1_last q then (-1, q)
                 else (0, q\<lparr>v1_mem := mem_write (v1_mem q) (v1_next q) (take (v1_objectSize q) obj),
                            v1_next := nxt\<rparr>))))"

definition GenQ_Get_v1 :: "'b genQ_t option \<Rightarrow> int \<times> 'b list option \<times> 'b genQ_t option" where
  "GenQ_Get_v1 qp =
     (case qp of
        None \<Rightarrow> (-2, None, None)
      | Some q \<Rightarrow>
          if v1_next q = v1_last q then (-2, None, Some q)
          else (0, Some (mem_read (v1_mem q) (v1_last q) (v1_objectSize q)),
                Some (q\<lparr>v1_last := BUMP q (v1_last q)\<rparr>)))"

definition GenQ_IsData_v1 :: "'b genQ_t option \<Rightarrow> bool" where
  "GenQ_IsData_v1 qp = (case qp of None \<Rightarrow> False | Some q \<Rightarrow> v1_next q \<noteq> v1_last q)"

definition GenQ_IsSpace_v1 :: "'b genQ_t option \<Rightarrow> bool option" where
  "GenQ_IsSpace_v1 qp = (case qp of None \<Rightarrow> None | Some q \<Rightarrow> Some (BUMP q (v1_next q) \<noteq> v1_last q))"

definition GenQ_ObjectSize_v1 :: "'b genQ_t \<Rightarrow> u16" where
  "GenQ_ObjectSize_v1 q = of_nat (v1_objectSize q)"

section \<open>The same queue as genQ.c\<close>

definition as_new :: "'b genQ_t \<Rightarrow> 'b GenQ_t" where
  "as_new q = \<lparr>gq_end = v1_end q, gq_objectSize = v1_objectSize q, gq_next = v1_next q,
     gq_last = v1_last q, gq_base_add = v1_base q, gq_mem = v1_mem q\<rparr>"

definition v1_code :: "Status_t \<Rightarrow> int" where
  "v1_code st = (case st of Status_OK \<Rightarrow> 0 | Status_EMPTY \<Rightarrow> -2 | _ \<Rightarrow> -1)"

lemma put_as_new:
  "GenQ_Put_v1 (Some q) x = Some (c, q') \<Longrightarrow>
   \<exists>st. GenQ_Put (Some (as_new q)) x = (st, Some (as_new q')) \<and> c = v1_code st \<and> (st = Status_OK \<longleftrightarrow> c = 0)"
  by (auto simp: GenQ_Put_v1_def GenQ_Put_def as_new_def BUMP_def NEXTINQ_def v1_code_def Let_def split: if_splits)

lemma get_as_new:
  "GenQ_Get (Some (as_new q)) = (st, r, Some n) \<longleftrightarrow>
   (\<exists>q'. GenQ_Get_v1 (Some q) = (v1_code st, r, Some q') \<and> n = as_new q' \<and> st = (if r = None then Status_EMPTY else Status_OK))"
  by (auto simp: GenQ_Get_v1_def GenQ_Get_def as_new_def BUMP_def NEXTINQ_def v1_code_def split: if_splits)

fun genq_step_v1 :: "'b qop \<Rightarrow> 'b genQ_t \<Rightarrow> 'b qres \<times> 'b genQ_t" where
  "genq_step_v1 (QPut x) q =
     (case GenQ_Put_v1 (Some q) x of
        Some (c, q') \<Rightarrow> (RStatus (if c = 0 then Status_OK else Status_FULL), q')
      | None \<Rightarrow> (RNone, q))"
| "genq_step_v1 QGet q =
     (case GenQ_Get_v1 (Some q) of
        (c, r, q') \<Rightarrow> (RGot (if c = 0 then Status_OK else Status_EMPTY) r, case q' of None \<Rightarrow> q | Some q' \<Rightarrow> q'))"
| "genq_step_v1 QReset q = (RNone, q\<lparr>v1_last := v1_next q\<rparr>)"
| "genq_step_v1 QHasData q = (RBool (GenQ_IsData_v1 (Some q)), q)"
| "genq_step_v1 QHasSpace q = (RBool (GenQ_IsSpace_v1 (Some q) = Some True), q)"
| "genq_step_v1 QObjectSize q = (RSize (v1_objectSize q), q)"

lemma genq_step_as_new: "genq_step x (as_new q) = (fst (genq_step_v1 x q), as_new (snd (genq_step_v1 x q)))"
  by (cases x) (auto simp: GenQ_Put_v1_def GenQ_Put_def GenQ_Get_v1_def GenQ_Get_def GenQ_Reset_def
      GenQ_HasData_def GenQ_IsData_v1_def GenQ_HasSpace_def GenQ_IsSpace_v1_def GenQ_ObjectSize_def
      as_new_def BUMP_def NEXTINQ_def Let_def)

interpretation v1_sim: forward_sim genq_step_v1 fifo_step "\<lambda>q. genq_abs (as_new q)" "\<lambda>q. genq_inv (as_new q)"
  "\<lambda>q. qop_fits (v1_objectSize q)"
proof
  fix q :: "'b genQ_t" and x y :: "'b qop"
  assume inv: "genq_inv (as_new q)" and fits: "qop_fits (v1_objectSize q) x"
  have sz: "gq_objectSize (as_new p) = v1_objectSize p" for p :: "'b genQ_t"
    by (simp add: as_new_def)
  note s = genq_step_sim [OF inv, of x, unfolded sz genq_step_as_new fst_conv snd_conv, OF fits]
  show "genq_inv (as_new (snd (genq_step_v1 x q)))"
    "qop_fits (v1_objectSize (snd (genq_step_v1 x q))) y = qop_fits (v1_objectSize q) y"
    "fifo_step x (genq_abs (as_new q)) =
      (fst (genq_step_v1 x q), genq_abs (as_new (snd (genq_step_v1 x q))))"
    using s by (simp_all add: sz)
qed

section \<open>The queue interface\<close>

definition v1_enq :: "'b list \<Rightarrow> 'b genQ_t \<Rightarrow> 'b genQ_t option" where
  "v1_enq x q = (case GenQ_Put_v1 (Some q) x of Some (c, q') \<Rightarrow> if c = 0 then Some q' else None | None \<Rightarrow> None)"

definition v1_deq :: "'b genQ_t \<Rightarrow> ('b list \<times> 'b genQ_t) option" where
  "v1_deq q = (case GenQ_Get_v1 (Some q) of (c, Some x, Some q') \<Rightarrow> Some (x, q') | _ \<Rightarrow> None)"

lemma v1_enq_as_new: "map_option as_new (v1_enq x q) = genq_enq x (as_new q)"
  by (simp add: v1_enq_def genq_enq_def GenQ_Put_v1_def GenQ_Put_def as_new_def BUMP_def NEXTINQ_def Let_def)

lemma v1_deq_as_new: "map_option (map_prod id as_new) (v1_deq q) = genq_deq (as_new q)"
  by (simp add: v1_deq_def genq_deq_def GenQ_Get_v1_def GenQ_Get_def as_new_def BUMP_def NEXTINQ_def)

interpretation v1: bounded_queue v1_enq v1_deq "\<lambda>q. genq_items (as_new q)" "\<lambda>q. gq_slots (as_new q) - 1"
  "\<lambda>q x. length x = v1_objectSize q" "\<lambda>q. genq_inv (as_new q)"
proof -
  have sz: "v1_objectSize p = gq_objectSize (as_new p)" for p :: "'b genQ_t"
    by (simp add: as_new_def)
  show "bounded_queue v1_enq v1_deq (\<lambda>q :: 'b genQ_t. genq_items (as_new q)) (\<lambda>q. gq_slots (as_new q) - 1)
    (\<lambda>q x. length x = v1_objectSize q) (\<lambda>q. genq_inv (as_new q))"
  proof (unfold_locales, goal_cases)
    case (1 q)
    then show ?case by (rule gq.items_bound)
  next
    case (2 q x)
    then show ?case
      using gq.enq_full [of "as_new q" x] v1_enq_as_new [of x q, symmetric] by (cases "v1_enq x q") (simp_all add: sz)
  next
    case (3 q x q')
    then show ?case
      using gq.enq_step [of "as_new q" x "as_new q'"] v1_enq_as_new [of x q, symmetric] by (auto simp: sz fun_eq_iff)
  next
    case (4 q)
    then show ?case
      using gq.deq_empty [of "as_new q"] v1_deq_as_new [of q, symmetric] by (cases "v1_deq q") simp_all
  next
    case (5 q x q')
    then show ?case
      using gq.deq_step [of "as_new q" x "as_new q'"] v1_deq_as_new [of q, symmetric] by (auto simp: sz fun_eq_iff)
  qed
qed

lemma GENERAL_QUEUE_fresh:
  assumes "0 < sz" "2 \<le> n"
  shows "genq_inv (as_new (GENERAL_QUEUE sp sz n :: 'b::zero genQ_t))"
    "genq_abs (as_new (GENERAL_QUEUE sp sz n :: 'b genQ_t)) = \<lparr>ff_cap = n - 1, ff_size = sz, ff_items = []\<rparr>"
  using genq_fresh [of "as_new (GENERAL_QUEUE sp sz n :: 'b genQ_t)" n] assms
  by (simp_all add: GENERAL_QUEUE_def as_new_def genq_abs_def)

section \<open>The pool\<close>

text \<open>
  Cells of a 4 byte header and the object, at integer addresses; the 20 byte pool header precedes
  them. Pointer differences count headers, so \<open>guard\<close> is the distance in words plus one, cut to 16
  bits.
\<close>

record genBuf_t =
  gb_size :: u16
  gb_guard :: u16

record 'f genPool_t =
  pl_next :: int
  pl_end :: int
  pl_onRelease :: "'f option"
  pl_objectSize :: u32
  pl_cellSize :: int

record 'f v1_heap =
  vh_buf :: "int \<Rightarrow> genBuf_t"
  vh_pool :: "int \<Rightarrow> 'f genPool_t"

definition pl_base :: "int \<Rightarrow> int" where
  "pl_base p = p + 20"

definition SizeUp4 :: "nat \<Rightarrow> nat" where
  "SizeUp4 val = (val + 3) div 4 * 4"

definition GenPool_InitWithCallback ::
    "int \<Rightarrow> nat \<Rightarrow> u16 \<Rightarrow> 'f option \<Rightarrow> ('f, 'z) v1_heap_scheme \<Rightarrow> int option \<times> ('f, 'z) v1_heap_scheme" where
  "GenPool_InitWithCallback space spaceSize objectSize releaseCb h =
     (let cell = SizeUp4 (unat objectSize) + 4; objects = (spaceSize - 20) div cell in
      if objects = 0 \<or> space = 0 \<or> spaceSize < 20 + 4 then (None, h)
      else (Some space, h\<lparr>
        vh_buf := (\<lambda>a. if space \<le> a \<and> a < space + int spaceSize then \<lparr>gb_size = 0, gb_guard = 0\<rparr> else vh_buf h a),
        vh_pool := (vh_pool h)(space := \<lparr>pl_next = pl_base space,
          pl_end = pl_base space + int ((objects - 1) * cell), pl_onRelease = releaseCb,
          pl_objectSize = ucast objectSize, pl_cellSize = int cell\<rparr>)\<rparr>))"

definition GenPool_Init ::
    "int \<Rightarrow> nat \<Rightarrow> u16 \<Rightarrow> ('f, 'z) v1_heap_scheme \<Rightarrow> int option \<times> ('f, 'z) v1_heap_scheme" where
  "GenPool_Init space spaceSize objectSize h = GenPool_InitWithCallback space spaceSize objectSize None h"

definition upd_buf :: "int \<Rightarrow> (genBuf_t \<Rightarrow> genBuf_t) \<Rightarrow> ('f, 'z) v1_heap_scheme \<Rightarrow> ('f, 'z) v1_heap_scheme" where
  "upd_buf a f h = h\<lparr>vh_buf := (vh_buf h)(a := f (vh_buf h a))\<rparr>"

definition v1_guard :: "int \<Rightarrow> int \<Rightarrow> u16" where
  "v1_guard p check = word_of_int ((check - pl_base p) div 4 + 1)"

text \<open>One attempt on the cell \<open>check\<close>: \<open>Some\<close> when it could be claimed.\<close>

definition v1_claim :: "int \<Rightarrow> int \<Rightarrow> ('f, 'z) v1_heap_scheme \<Rightarrow> int option \<times> ('f, 'z) v1_heap_scheme" where
  "v1_claim p check h =
     (if gb_size (vh_buf h check) = 0 then
        let h1 = upd_buf check (\<lambda>b. b\<lparr>gb_size := ucast (pl_objectSize (vh_pool h p))\<rparr>) h in
        if gb_guard (vh_buf h1 check) = 0
        then (Some check, upd_buf check (\<lambda>b. b\<lparr>gb_guard := v1_guard p check\<rparr>) h1)
        else (None, h1)
      else (None, h))"

partial_function (option) v1_scan ::
    "int \<Rightarrow> int \<Rightarrow> int \<Rightarrow> ('f, 'z) v1_heap_scheme \<Rightarrow> (int option \<times> ('f, 'z) v1_heap_scheme) option" where
  "v1_scan p last_cell check h =
     (let nxt0 = check + pl_cellSize (vh_pool h p);
          nxt = (if nxt0 > pl_end (vh_pool h p) then pl_base p else nxt0)
      in case v1_claim p check h of
           (Some c, h1) \<Rightarrow> Some (Some c, h1\<lparr>vh_pool := (vh_pool h1)(p := (vh_pool h1 p)\<lparr>pl_next := nxt\<rparr>)\<rparr>)
         | (None, h1) \<Rightarrow> if nxt \<noteq> last_cell then v1_scan p last_cell nxt h1 else Some (None, h1))"

declare v1_scan.simps [code]

definition GenPool_GetGenBuf ::
    "int \<Rightarrow> ('f, 'z) v1_heap_scheme \<Rightarrow> (int option \<times> ('f, 'z) v1_heap_scheme) option" where
  "GenPool_GetGenBuf p h =
     (if p = 0 then Some (None, h)
      else case v1_scan p (pl_next (vh_pool h p)) (pl_next (vh_pool h p)) h of
             None \<Rightarrow> None
           | Some (Some c, h1) \<Rightarrow> Some (Some c, h1)
           | Some (None, h1) \<Rightarrow> Some (v1_claim p (pl_next (vh_pool h1 p)) h1))"

definition GenPool_Get_v1 ::
    "int \<Rightarrow> ('f, 'z) v1_heap_scheme \<Rightarrow> (int option \<times> ('f, 'z) v1_heap_scheme) option" where
  "GenPool_Get_v1 p h = map_option (map_prod (map_option (\<lambda>b. b + 4)) id) (GenPool_GetGenBuf p h)"

definition genBufLooksGood :: "('f, 'z) v1_heap_scheme \<Rightarrow> int \<Rightarrow> int option" where
  "genBufLooksGood h gbuf =
     (let base = gbuf - (uint (gb_guard (vh_buf h gbuf)) - 1) * 4; pool = base - 20 in
      if pl_objectSize (vh_pool h pool) \<noteq> ucast (gb_size (vh_buf h gbuf)) then None else Some pool)"

definition ReleaseGenBuf :: "int \<Rightarrow> ('f, 'z) v1_heap_scheme \<Rightarrow> ('f, 'z) v1_heap_scheme" where
  "ReleaseGenBuf gbuf h = upd_buf gbuf (\<lambda>b. b\<lparr>gb_size := 0\<rparr>) (upd_buf gbuf (\<lambda>b. b\<lparr>gb_guard := 0\<rparr>) h)"

definition GenPool_ReturnGenBuf ::
    "('f \<Rightarrow> int \<Rightarrow> ('f, 'z) v1_heap_scheme \<Rightarrow> ('f, 'z) v1_heap_scheme) \<Rightarrow> int \<Rightarrow>
     ('f, 'z) v1_heap_scheme \<Rightarrow> int \<times> ('f, 'z) v1_heap_scheme" where
  "GenPool_ReturnGenBuf run gbuf h =
     (case genBufLooksGood h gbuf of
        None \<Rightarrow> (-1, h)
      | Some pool \<Rightarrow>
          (let h1 = (case pl_onRelease (vh_pool h pool) of Some f \<Rightarrow> run f (gbuf + 4) h | None \<Rightarrow> h);
               h2 = ReleaseGenBuf gbuf h1
           in (0, h2\<lparr>vh_pool := (vh_pool h2)(pool := (vh_pool h2 pool)\<lparr>pl_next := gbuf\<rparr>)\<rparr>)))"

definition GenPool_Return_v1 ::
    "('f \<Rightarrow> int \<Rightarrow> ('f, 'z) v1_heap_scheme \<Rightarrow> ('f, 'z) v1_heap_scheme) \<Rightarrow> int \<Rightarrow>
     ('f, 'z) v1_heap_scheme \<Rightarrow> int \<times> ('f, 'z) v1_heap_scheme" where
  "GenPool_Return_v1 run buf h = GenPool_ReturnGenBuf run (buf - 4) h"

definition GenPool_GetSize :: "int \<Rightarrow> ('f, 'z) v1_heap_scheme \<Rightarrow> u16" where
  "GenPool_GetSize buf h = (if genBufLooksGood h (buf - 4) \<noteq> None then gb_size (vh_buf h (buf - 4)) else 0)"

definition GenPool_ReturnNoCheck :: "int \<Rightarrow> ('f, 'z) v1_heap_scheme \<Rightarrow> ('f, 'z) v1_heap_scheme" where
  "GenPool_ReturnNoCheck buf h = ReleaseGenBuf (buf - 4) h"

text \<open>
  The six iterators apply \<open>func\<close> from \<open>base\<close> up to \<open>end\<close> in steps of the cell size, to the header
  (\<open>off = 0\<close>) or to the object (\<open>off = 4\<close>) of every cell that satisfies the test.
\<close>

partial_function (option) v1_each ::
    "(genBuf_t \<Rightarrow> bool) \<Rightarrow> int \<Rightarrow> (int \<Rightarrow> ('f, 'z) v1_heap_scheme \<Rightarrow> ('f, 'z) v1_heap_scheme) \<Rightarrow> int \<Rightarrow> int \<Rightarrow>
     ('f, 'z) v1_heap_scheme \<Rightarrow> ('f, 'z) v1_heap_scheme option" where
  "v1_each test off func pool nxt h =
     (if nxt \<le> pl_end (vh_pool h pool) then
        let h1 = (if test (vh_buf h nxt) then func (nxt + off) h else h)
        in v1_each test off func pool (nxt + pl_cellSize (vh_pool h1 pool)) h1
      else Some h)"

declare v1_each.simps [code]

definition GenPool_OnEach ::
    "int \<Rightarrow> (int \<Rightarrow> ('f, 'z) v1_heap_scheme \<Rightarrow> ('f, 'z) v1_heap_scheme) \<Rightarrow> ('f, 'z) v1_heap_scheme \<Rightarrow>
     ('f, 'z) v1_heap_scheme option" where
  "GenPool_OnEach pool func h = v1_each (\<lambda>b. True) 0 func pool (pl_base pool) h"

definition GenPool_OnEachActive ::
    "int \<Rightarrow> (int \<Rightarrow> ('f, 'z) v1_heap_scheme \<Rightarrow> ('f, 'z) v1_heap_scheme) \<Rightarrow> ('f, 'z) v1_heap_scheme \<Rightarrow>
     ('f, 'z) v1_heap_scheme option" where
  "GenPool_OnEachActive pool func h = v1_each (\<lambda>b. gb_size b \<noteq> 0) 0 func pool (pl_base pool) h"

definition GenPool_OnEachInactive ::
    "int \<Rightarrow> (int \<Rightarrow> ('f, 'z) v1_heap_scheme \<Rightarrow> ('f, 'z) v1_heap_scheme) \<Rightarrow> ('f, 'z) v1_heap_scheme \<Rightarrow>
     ('f, 'z) v1_heap_scheme option" where
  "GenPool_OnEachInactive pool func h = v1_each (\<lambda>b. gb_size b = 0) 0 func pool (pl_base pool) h"

definition Pool_OnEach ::
    "int \<Rightarrow> (int \<Rightarrow> ('f, 'z) v1_heap_scheme \<Rightarrow> ('f, 'z) v1_heap_scheme) \<Rightarrow> ('f, 'z) v1_heap_scheme \<Rightarrow>
     ('f, 'z) v1_heap_scheme option" where
  "Pool_OnEach pool func h = v1_each (\<lambda>b. True) 4 func pool (pl_base pool) h"

definition Pool_OnEachActive ::
    "int \<Rightarrow> (int \<Rightarrow> ('f, 'z) v1_heap_scheme \<Rightarrow> ('f, 'z) v1_heap_scheme) \<Rightarrow> ('f, 'z) v1_heap_scheme \<Rightarrow>
     ('f, 'z) v1_heap_scheme option" where
  "Pool_OnEachActive pool func h = v1_each (\<lambda>b. gb_size b \<noteq> 0) 4 func pool (pl_base pool) h"

definition Pool_OnEachInactive ::
    "int \<Rightarrow> (int \<Rightarrow> ('f, 'z) v1_heap_scheme \<Rightarrow> ('f, 'z) v1_heap_scheme) \<Rightarrow> ('f, 'z) v1_heap_scheme \<Rightarrow>
     ('f, 'z) v1_heap_scheme option" where
  "Pool_OnEachInactive pool func h = v1_each (\<lambda>b. gb_size b = 0) 4 func pool (pl_base pool) h"

section \<open>Properties\<close>

text \<open> The older queue keeps the same promise: every sequence of operations on an initialised
  queue returns what the bounded first-in first-out queue returns (0 for success, -1 for full, -2
  for empty), and it ends holding what that queue holds. \<close>

lemma GenQ_v1_run_refines_fifo:
  fixes q :: "'b genQ_t"
  assumes "genq_inv (as_new q)" "list_all (qop_fits (v1_objectSize q)) ops"
  shows "fst (run_ops genq_step_v1 ops q) = fst (run_ops fifo_step ops (genq_abs (as_new q))) \<and>
    genq_abs (as_new (snd (run_ops genq_step_v1 ops q))) = snd (run_ops fifo_step ops (genq_abs (as_new q)))"
  using v1_sim.run_results [OF assms] v1_sim.run_abs [OF assms] by simp

theorem GenQ_v1_run_refines_fifo_witness:
  "fst (run_ops genq_step_v1 [QPut [1], QPut [2], QPut [3], QGet, QGet, QGet] (GENERAL_QUEUE 50 1 3 :: u8 genQ_t)) =
   [RStatus Status_OK, RStatus Status_OK, RStatus Status_FULL,
    RGot Status_OK (Some [1]), RGot Status_OK (Some [2]), RGot Status_EMPTY None]"
proof -
  let ?q = "GENERAL_QUEUE 50 1 3 :: u8 genQ_t"
  have inv: "genq_inv (as_new ?q)" and abs: "genq_abs (as_new ?q) = \<lparr>ff_cap = 2, ff_size = 1, ff_items = []\<rparr>"
    using GENERAL_QUEUE_fresh [of 1 3 50] by simp_all
  have "list_all (qop_fits (v1_objectSize ?q)) [QPut [1], QPut [2], QPut [3], QGet, QGet, QGet]"
    by (simp add: GENERAL_QUEUE_def)
  from GenQ_v1_run_refines_fifo [OF inv this, THEN conjunct1, unfolded abs] show ?thesis
    by (rule trans) simp
qed

end
