(* ===== verification/SwTimers.thy ===== *)
theory SwTimers
  imports GeneralQueue
begin

text \<open>
  The software timers of \<^verbatim>\<open>src/src/swtimers.c\<close>, with the hardware side of
  \<^verbatim>\<open>src/src/micros/swtimer_st.c\<close>: system timers, counted down in cells of the older pool
  (\<open>GeneralQueue\<close>) by the system tick, and fast timers, one per channel of a hardware timer, whose
  interrupts queue callbacks for the pend service. Timers and counters live at integer addresses,
  fast timers at their index. The build option \<^verbatim>\<open>HIGHSPEED\<close> is off and \<^verbatim>\<open>BEST_EFFORTS_REPEAT\<close> on, as in
  the headers. A call or a write through a NULL pointer sets \<open>sw_fault\<close>, after which the state means
  nothing; \<open>None\<close> is a loop that never ends. \<open>scaler\<close> is \<^verbatim>\<open>T3SCALER\<close>, whose input the project sets
  (263 in \<^verbatim>\<open>swtimer_test.h\<close>).
\<close>

unbundle bit_operations_syntax

section \<open>State\<close>

record 'f objCallbackWrapper_t =
  cw_cb :: "'f option"
  cw_obj :: int

record 'f swt_t =
  swt_cbObj :: "'f objCallbackWrapper_t"
  swt_downCount :: u32
  swt_runCount :: u32
  swt_reloadVal :: u32
  swt_direction :: i32

record 'f fast_future_t =
  ff_cbObj :: "'f objCallbackWrapper_t"
  ff_runCount :: u32
  ff_duration :: i16
  ff_target :: i16
  ff_compRegMask :: u32
  ff_timRegMask :: u32
  ff_debugCnt0 :: i16
  ff_debugCnt1 :: i16
  ff_hwTarget :: "nat option"

datatype release_fn = SWT_onRelease

record 'f swt_world = "release_fn v1_heap" +
  sw_swt :: "int \<Rightarrow> 'f swt_t"
  sw_count :: "int \<Rightarrow> i32"
  sw_taskFunc :: "'f option"
  sw_run :: "'f objCallbackWrapper_t"
  swtTimerPool :: int
  pendsvQueue :: "'f objCallbackWrapper_t genQ_t"
  sw_fast :: "nat \<Rightarrow> 'f fast_future_t"
  rependSvCnt :: u32
  resetCallbackCnt :: u32
  clock3rollover :: u64
  sw_pendsv :: bool
  sw_primask :: u32
  tim_CNT :: "nat \<Rightarrow> u32"
  tim_reads :: nat
  tim_CCR :: "nat \<Rightarrow> u32"
  tim_DIER :: u32
  tim_CCER :: u32
  tim_CR1 :: u32
  tim_SR :: u32
  sw_fault :: bool

type_synonym ('f, 'z) swt_state = "(release_fn, ('f, 'z) swt_world_ext) v1_heap_scheme"
type_synonym ('f, 'z) swt_callbacks = "'f \<Rightarrow> int \<Rightarrow> ('f, 'z) swt_state \<Rightarrow> ('f, 'z) swt_state"

definition upd_swt :: "int \<Rightarrow> ('f swt_t \<Rightarrow> 'f swt_t) \<Rightarrow> ('f, 'z) swt_state \<Rightarrow> ('f, 'z) swt_state" where
  "upd_swt a f w = w\<lparr>sw_swt := (sw_swt w)(a := f (sw_swt w a))\<rparr>"

definition upd_fast :: "nat \<Rightarrow> ('f fast_future_t \<Rightarrow> 'f fast_future_t) \<Rightarrow> ('f, 'z) swt_state \<Rightarrow> ('f, 'z) swt_state" where
  "upd_fast i f w = w\<lparr>sw_fast := (sw_fast w)(i := f (sw_fast w i))\<rparr>"

section \<open>System timers (swtimers.c)\<close>

definition SWT_SetTaskCaller :: "'f option \<Rightarrow> ('f, 'z) swt_state \<Rightarrow> ('f, 'z) swt_state" where
  "SWT_SetTaskCaller userTaskFunc w = w\<lparr>sw_taskFunc := userTaskFunc\<rparr>"

definition onRelease :: "('f, 'z) swt_callbacks \<Rightarrow> int \<Rightarrow> ('f, 'z) swt_state \<Rightarrow> ('f, 'z) swt_state" where
  "onRelease run_cb obj w =
     (case cw_cb (swt_cbObj (sw_swt w obj)) of
        Some f \<Rightarrow> run_cb f (cw_obj (swt_cbObj (sw_swt w obj))) w
      | None \<Rightarrow> w\<lparr>sw_fault := True\<rparr>)"

definition doTimerTerm :: "('f, 'z) swt_callbacks \<Rightarrow> int \<Rightarrow> ('f, 'z) swt_state \<Rightarrow> bool \<times> ('f, 'z) swt_state" where
  "doTimerTerm run_cb timer w =
     (if swt_runCount (sw_swt w timer) \<noteq> 1 then
        (True, upd_swt timer (\<lambda>t. t\<lparr>swt_runCount := (if swt_runCount t \<noteq> 0 then swt_runCount t - 1 else swt_runCount t),
           swt_downCount := swt_reloadVal t\<rparr>) w)
      else (False, snd (GenPool_Return_v1 (\<lambda>_. onRelease run_cb) timer w)))"

text \<open>The pool takes 20 bytes and 16 cells of 28; \<open>space\<close> is its static area, cleared by the pool.\<close>

definition SWT_InitSysTimers :: "int \<Rightarrow> ('f, 'z) swt_state \<Rightarrow> int \<times> ('f, 'z) swt_state" where
  "SWT_InitSysTimers space w =
     (case GenPool_InitWithCallback space 468 24 (Some SWT_onRelease) w of
        (None, w1) \<Rightarrow> (16, w1\<lparr>swtTimerPool := 0\<rparr>)
      | (Some p, w1) \<Rightarrow>
          (16, w1\<lparr>swtTimerPool := p,
             sw_swt := (\<lambda>a. if space \<le> a \<and> a < space + 468
                            then \<lparr>swt_cbObj = \<lparr>cw_cb = None, cw_obj = 0\<rparr>, swt_downCount = 0, swt_runCount = 0,
                                  swt_reloadVal = 0, swt_direction = 0\<rparr>
                            else sw_swt w1 a)\<rparr>))"

definition SWT_SysTimerCallback ::
    "'f option \<Rightarrow> u32 \<Rightarrow> u32 \<Rightarrow> int \<Rightarrow> ('f, 'z) swt_state \<Rightarrow> (int option \<times> ('f, 'z) swt_state) option" where
  "SWT_SysTimerCallback cb timeInMilliseconds runCount context w =
     map_option (\<lambda>(r, w1). (r, case r of None \<Rightarrow> w1 | Some a \<Rightarrow>
        upd_swt a (\<lambda>t. t\<lparr>swt_reloadVal := timeInMilliseconds, swt_runCount := runCount,
          swt_cbObj := \<lparr>cw_cb = cb, cw_obj = context\<rparr>, swt_downCount := timeInMilliseconds\<rparr>) w1))
     (GenPool_Get_v1 (swtTimerPool w) w)"

definition SWT_SysTimerTask ::
    "int \<Rightarrow> u32 \<Rightarrow> u32 \<Rightarrow> ('f, 'z) swt_state \<Rightarrow> (int option \<times> ('f, 'z) swt_state) option" where
  "SWT_SysTimerTask task timeInMilliseconds runCount w =
     (if sw_taskFunc w = None then Some (None, w)
      else SWT_SysTimerCallback (sw_taskFunc w) timeInMilliseconds runCount task w)"

definition SWT_SysTimerCount ::
    "int \<Rightarrow> i32 \<Rightarrow> u32 \<Rightarrow> ('f, 'z) swt_state \<Rightarrow> (int option \<times> ('f, 'z) swt_state) option" where
  "SWT_SysTimerCount myCount timeInMilliseconds countLimit w =
     map_option (\<lambda>(r, w1). (r, case r of None \<Rightarrow> w1 | Some a \<Rightarrow>
        upd_swt a (\<lambda>t. t\<lparr>swt_cbObj := \<lparr>cw_cb = None, cw_obj = myCount\<rparr>, swt_reloadVal := timeInMilliseconds,
          swt_runCount := countLimit,
          swt_direction := (if timeInMilliseconds <s 0 then -1 else 1),
          swt_downCount := (if timeInMilliseconds <s 0 then - timeInMilliseconds else timeInMilliseconds)\<rparr>) w1))
     (GenPool_Get_v1 (swtTimerPool w) w)"

definition SWT_GetCount :: "int \<Rightarrow> ('f, 'z) swt_state \<Rightarrow> u32" where
  "SWT_GetCount timer w = swt_downCount (sw_swt w timer)"

definition countDown :: "('f, 'z) swt_callbacks \<Rightarrow> int \<Rightarrow> ('f, 'z) swt_state \<Rightarrow> ('f, 'z) swt_state" where
  "countDown run_cb timer w =
     (if swt_downCount (sw_swt w timer) \<noteq> 0 then
        let w1 = upd_swt timer (\<lambda>t. t\<lparr>swt_downCount := swt_downCount t - 1\<rparr>) w; cbo = swt_cbObj (sw_swt w1 timer) in
        if swt_downCount (sw_swt w timer) = 1 then
          if cw_cb cbo \<noteq> None then
            if GenQ_IsSpace_v1 (Some (pendsvQueue w1)) = Some True then
              (case doTimerTerm run_cb timer w1 of
                 (True, w2) \<Rightarrow>
                   (case cw_cb (swt_cbObj (sw_swt w2 timer)) of
                      Some f \<Rightarrow> run_cb f (cw_obj (swt_cbObj (sw_swt w2 timer))) w2
                    | None \<Rightarrow> w2\<lparr>sw_fault := True\<rparr>)
               | (False, w2) \<Rightarrow> w2)
            else upd_swt timer (\<lambda>t. t\<lparr>swt_downCount := 1\<rparr>) w1
          else if cw_obj cbo \<noteq> 0 then
            snd (doTimerTerm run_cb timer
              (w1\<lparr>sw_count := (sw_count w1)(cw_obj cbo := sw_count w1 (cw_obj cbo) + swt_direction (sw_swt w1 timer))\<rparr>))
          else w1
        else w1
      else w)"

definition runTimers :: "('f, 'z) swt_callbacks \<Rightarrow> int \<Rightarrow> ('f, 'z) swt_state \<Rightarrow> ('f, 'z) swt_state option" where
  "runTimers run_cb obj w = Pool_OnEachActive obj (countDown run_cb) w"

definition SWT_OnSysTick :: "('f, 'z) swt_callbacks \<Rightarrow> ('f, 'z) swt_state \<Rightarrow> ('f, 'z) swt_state option" where
  "SWT_OnSysTick run_cb w = runTimers run_cb (swtTimerPool w) w"

section \<open>The hardware timer (swtimer_st.c)\<close>

text \<open>
  A status flag is cleared by writing 0 to it and left alone by writing 1. A counter register
  reads the next of a sequence. The tables hold the channel's bits in the enable and the interrupt
  registers.
\<close>

definition read_CNT :: "('f, 'z) swt_state \<Rightarrow> u32 \<times> ('f, 'z) swt_state" where
  "read_CNT w = (tim_CNT w (tim_reads w), w\<lparr>tim_reads := tim_reads w + 1\<rparr>)"

definition getFastCounter :: "('f, 'z) swt_state \<Rightarrow> i16 \<times> ('f, 'z) swt_state" where
  "getFastCounter w = (let (c, w1) = read_CNT w in (ucast c, w1))"

definition write_SR :: "u32 \<Rightarrow> ('f, 'z) swt_state \<Rightarrow> ('f, 'z) swt_state" where
  "write_SR v w = w\<lparr>tim_SR := tim_SR w AND v\<rparr>"

definition write_target :: "nat \<Rightarrow> u32 \<Rightarrow> ('f, 'z) swt_state \<Rightarrow> ('f, 'z) swt_state" where
  "write_target fut v w =
     (case ff_hwTarget (sw_fast w fut) of
        Some r \<Rightarrow> w\<lparr>tim_CCR := (tim_CCR w)(r := v)\<rparr>
      | None \<Rightarrow> w\<lparr>sw_fault := True\<rparr>)"

definition read_target :: "nat \<Rightarrow> ('f, 'z) swt_state \<Rightarrow> u32" where
  "read_target fut w = (case ff_hwTarget (sw_fast w fut) of Some r \<Rightarrow> tim_CCR w r | None \<Rightarrow> 0)"

definition ChanToken :: "u32 list" where
  "ChanToken = [0x0001, 0x0010, 0x0100, 0x1000]"

definition CompInterrupt :: "u32 list" where
  "CompInterrupt = [0x0001, 0x0002, 0x0004, 0x0008, 0x0010]"

definition SWT_MicroSetup :: "('f, 'z) swt_state \<Rightarrow> ('f, 'z) swt_state" where
  "SWT_MicroSetup w = w\<lparr>
     sw_fast := (\<lambda>i. if i < 4 then (sw_fast w i)\<lparr>ff_hwTarget := Some (i + 1), ff_compRegMask := ChanToken ! i,
                      ff_timRegMask := CompInterrupt ! (i + 1)\<rparr> else sw_fast w i),
     tim_DIER := tim_DIER w OR CompInterrupt ! 0, tim_CR1 := tim_CR1 w OR 1\<rparr>"

definition SWT_start :: "nat \<Rightarrow> ('f, 'z) swt_state \<Rightarrow> ('f, 'z) swt_state" where
  "SWT_start fut w =
     (let (c0, w1) = read_CNT w;
          w2 = upd_fast fut (\<lambda>f. f\<lparr>ff_debugCnt1 := ucast c0\<rparr>) w1;
          (c1, w3) = read_CNT w2;
          w4 = write_target fut (c1 + scast (ff_duration (sw_fast w3 fut))) w3;
          w5 = w4\<lparr>tim_DIER := tim_DIER w4 OR ff_timRegMask (sw_fast w4 fut)\<rparr>;
          w6 = w5\<lparr>tim_CCER := tim_CCER w5 AND NOT (ff_compRegMask (sw_fast w5 fut))\<rparr>;
          w7 = w6\<lparr>tim_CCER := tim_CCER w6 OR ff_compRegMask (sw_fast w6 fut), tim_CR1 := tim_CR1 w6 OR 1\<rparr>;
          w8 = upd_fast fut (\<lambda>f. f\<lparr>ff_target := ucast (read_target fut w7)\<rparr>) w7;
          (c2, w9) = read_CNT w8
      in upd_fast fut (\<lambda>f. f\<lparr>ff_debugCnt1 := ucast c2\<rparr>) w9)"

definition SWT_stop :: "nat \<Rightarrow> ('f, 'z) swt_state \<Rightarrow> ('f, 'z) swt_state" where
  "SWT_stop fut w =
     (let w1 = w\<lparr>tim_DIER := tim_DIER w AND NOT (ff_timRegMask (sw_fast w fut)),
                 tim_CCER := tim_CCER w AND NOT (ff_compRegMask (sw_fast w fut))\<rparr>
      in write_SR (NOT (ff_timRegMask (sw_fast w fut))) w1)"

definition SWT_recycle :: "nat \<Rightarrow> ('f, 'z) swt_state \<Rightarrow> ('f, 'z) swt_state" where
  "SWT_recycle fut w =
     (let (now, w1) = getFastCounter w;
          (c1, w2) = read_CNT w1;
          w3 = write_target fut (c1 + scast (ff_duration (sw_fast w2 fut))) w2;
          w4 = w3\<lparr>tim_DIER := tim_DIER w3 OR ff_timRegMask (sw_fast w3 fut),
                  tim_CCER := (tim_CCER w3 AND NOT (ff_compRegMask (sw_fast w3 fut))) OR ff_compRegMask (sw_fast w3 fut)\<rparr>;
          w5 = upd_fast fut (\<lambda>f. f\<lparr>ff_target := ucast (read_target fut w4), ff_debugCnt0 := now\<rparr>) w4;
          (c2, w6) = getFastCounter w5
      in upd_fast fut (\<lambda>f. f\<lparr>ff_debugCnt1 := c2\<rparr>) w6)"

definition SWT_delay :: "nat \<Rightarrow> i16 \<Rightarrow> ('f, 'z) swt_state \<Rightarrow> bool \<times> ('f, 'z) swt_state" where
  "SWT_delay fut newTime w =
     (let f = sw_fast w fut in
      if tim_SR w AND ff_timRegMask f \<noteq> 0 then (False, w)
      else
        let w1 = w\<lparr>tim_CCER := tim_CCER w AND NOT (ff_compRegMask f)\<rparr>;
            w2 = write_target fut (scast newTime) w1;
            w3 = write_SR (NOT (ff_timRegMask f)) (w2\<lparr>tim_CCER := tim_CCER w2 OR ff_compRegMask f\<rparr>)
        in (True, upd_fast fut (\<lambda>f. f\<lparr>ff_target := ucast (read_target fut w3)\<rparr>) w3))"

section \<open>Fast timers (swtimers.c)\<close>

definition NS_TO_FAST_CLOCKS :: "u32 \<Rightarrow> u32 \<Rightarrow> u32" where
  "NS_TO_FAST_CLOCKS scaler ns = drop_bit 16 (ns * scaler)"

partial_function (option) SWT_PendService :: "('f, 'z) swt_callbacks \<Rightarrow> ('f, 'z) swt_state \<Rightarrow> ('f, 'z) swt_state option" where
  "SWT_PendService run_cb w =
     (case GenQ_Get_v1 (Some (pendsvQueue w)) of
        (c, Some (entry # _), Some q) \<Rightarrow>
          if c = 0 then
            let w1 = w\<lparr>pendsvQueue := q\<rparr>;
                w2 = (if sw_pendsv w1 then w1\<lparr>sw_pendsv := False, rependSvCnt := rependSvCnt w1 + 1\<rparr> else w1);
                w3 = (case cw_cb entry of
                        Some f \<Rightarrow> run_cb f (cw_obj entry) w2
                      | None \<Rightarrow> w2\<lparr>resetCallbackCnt := resetCallbackCnt w2 + 1\<rparr>)
            in SWT_PendService run_cb w3
          else Some w
      | _ \<Rightarrow> Some w)"

declare SWT_PendService.simps [code]

text \<open>The queue holds 31 of the 32 entries of \<open>cbBuf\<close>, each one unit of its memory.\<close>

definition SWT_FastInit :: "nat \<Rightarrow> ('f, 'z) swt_state \<Rightarrow> ('f, 'z) swt_state" where
  "SWT_FastInit cbBuf w =
     (let q = (case GenQ_Init_v1 (Some (pendsvQueue w)) cbBuf 1 32 of (_, Some q) \<Rightarrow> q | _ \<Rightarrow> pendsvQueue w) in
      SWT_MicroSetup (w\<lparr>pendsvQueue := q,
        sw_fast := (\<lambda>i. if i < 4 then \<lparr>ff_cbObj = \<lparr>cw_cb = None, cw_obj = 0\<rparr>, ff_runCount = 0, ff_duration = 0, ff_target = 0,
           ff_compRegMask = 0, ff_timRegMask = 0, ff_debugCnt0 = 0, ff_debugCnt1 = 0, ff_hwTarget = None\<rparr> else sw_fast w i)\<rparr>))"

fun fast_alloc ::
    "nat \<Rightarrow> nat \<Rightarrow> u32 \<Rightarrow> 'f option \<Rightarrow> u32 \<Rightarrow> u32 \<Rightarrow> int \<Rightarrow> ('f, 'z) swt_state \<Rightarrow> nat option \<times> ('f, 'z) swt_state" where
  "fast_alloc 0 i scaler cb timeInNs runCount context w = (None, w)"
| "fast_alloc (Suc k) i scaler cb timeInNs runCount context w =
     (let pri = sw_primask w; w1 = w\<lparr>sw_primask := 1\<rparr> in
      if cw_cb (ff_cbObj (sw_fast w1 i)) = None then
        let w2 = (upd_fast i (\<lambda>f. f\<lparr>ff_cbObj := (ff_cbObj f)\<lparr>cw_cb := cb\<rparr>\<rparr>) w1)\<lparr>sw_primask := pri\<rparr>;
            w3 = upd_fast i (\<lambda>f. f\<lparr>ff_duration := ucast (NS_TO_FAST_CLOCKS scaler timeInNs), ff_runCount := runCount,
                   ff_cbObj := (ff_cbObj f)\<lparr>cw_obj := context\<rparr>\<rparr>) w2
        in (Some i, (SWT_start i (w3\<lparr>sw_primask := 1\<rparr>))\<lparr>sw_primask := pri\<rparr>)
      else fast_alloc k (i + 1) scaler cb timeInNs runCount context (w1\<lparr>sw_primask := pri\<rparr>))"

definition SWT_FastTimerCallback ::
    "u32 \<Rightarrow> 'f option \<Rightarrow> u32 \<Rightarrow> u32 \<Rightarrow> int \<Rightarrow> ('f, 'z) swt_state \<Rightarrow> nat option \<times> ('f, 'z) swt_state" where
  "SWT_FastTimerCallback scaler cb timeInNs runCount context w = fast_alloc 4 0 scaler cb timeInNs runCount context w"

definition SWT_FastTimerCount :: "int \<Rightarrow> u32 \<Rightarrow> u32 \<Rightarrow> int \<Rightarrow> ('f, 'z) swt_state \<Rightarrow> nat option \<times> ('f, 'z) swt_state" where
  "SWT_FastTimerCount counter timeInNs runCount task w = (None, w)"

definition pend_put :: "'f objCallbackWrapper_t \<Rightarrow> ('f, 'z) swt_state \<Rightarrow> ('f, 'z) swt_state" where
  "pend_put x w =
     (case GenQ_Put_v1 (Some (pendsvQueue w)) [x] of Some (_, q) \<Rightarrow> w\<lparr>pendsvQueue := q\<rparr> | None \<Rightarrow> w)"

definition SWT_ChanIsr :: "nat \<Rightarrow> ('f, 'z) swt_state \<Rightarrow> ('f, 'z) swt_state" where
  "SWT_ChanIsr fup w =
     (let w4 =
        (if ff_runCount (sw_fast w fup) \<noteq> 1 then
           let w1 = SWT_recycle fup w;
               w2 = (if ff_runCount (sw_fast w1 fup) \<noteq> 0
                     then upd_fast fup (\<lambda>f. f\<lparr>ff_runCount := ff_runCount f - 1\<rparr>) w1 else w1)
           in pend_put (ff_cbObj (sw_fast w2 fup)) w2
         else
           let w1 = pend_put (ff_cbObj (sw_fast w fup)) w
           in upd_fast fup (\<lambda>f. f\<lparr>ff_cbObj := (ff_cbObj f)\<lparr>cw_cb := None\<rparr>\<rparr>) (SWT_stop fup w1))
      in w4\<lparr>sw_pendsv := True\<rparr>)"

definition SWT_FutureReset :: "u32 \<Rightarrow> nat \<Rightarrow> u32 \<Rightarrow> ('f, 'z) swt_state \<Rightarrow> bool \<times> ('f, 'z) swt_state" where
  "SWT_FutureReset scaler fut delay w =
     (let pri = sw_primask w; w1 = w\<lparr>sw_primask := 1\<rparr> in
      if cw_cb (ff_cbObj (sw_fast w1 fut)) \<noteq> None then
        let (c, w2) = getFastCounter w1;
            (val, w3) = SWT_delay fut (ucast (scast c + NS_TO_FAST_CLOCKS scaler delay)) w2
        in (val, w3\<lparr>sw_primask := pri\<rparr>)
      else (False, w1\<lparr>sw_primask := pri\<rparr>))"

definition SWT_FutureKill :: "nat \<Rightarrow> ('f, 'z) swt_state \<Rightarrow> bool \<times> ('f, 'z) swt_state" where
  "SWT_FutureKill fut w =
     (let pri = sw_primask w; w1 = w\<lparr>sw_primask := 1\<rparr> in
      if cw_cb (ff_cbObj (sw_fast w1 fut)) \<noteq> None
      then (True, (SWT_stop fut (upd_fast fut (\<lambda>f. f\<lparr>ff_cbObj := (ff_cbObj f)\<lparr>cw_cb := None\<rparr>\<rparr>) w1))\<lparr>sw_primask := pri\<rparr>)
      else (False, w1\<lparr>sw_primask := pri\<rparr>))"

section \<open>The timer interrupt and the clock (swtimer_st.c)\<close>

definition chan_service :: "nat \<Rightarrow> ('f, 'z) swt_state \<Rightarrow> ('f, 'z) swt_state" where
  "chan_service i w =
     (let m = CompInterrupt ! (i + 1) in
      if tim_SR w AND m \<noteq> 0 then
        if tim_DIER w AND m \<noteq> 0 then SWT_ChanIsr i (write_SR (NOT m) w) else w
      else w)"

definition SWT_Tim3IRQHandler :: "('f, 'z) swt_state \<Rightarrow> ('f, 'z) swt_state" where
  "SWT_Tim3IRQHandler w =
     (let w4 = chan_service 3 (chan_service 2 (chan_service 1 (chan_service 0 w))); m = CompInterrupt ! 0 in
      if tim_SR w4 AND m \<noteq> 0 then
        if tim_DIER w4 AND m \<noteq> 0
        then let w5 = write_SR (NOT m) w4 in w5\<lparr>clock3rollover := clock3rollover w5 + 1\<rparr>
        else w4
      else w4)"

definition SWT_GetTimeUsecLL :: "('f, 'z) swt_state \<Rightarrow> u64 \<times> ('f, 'z) swt_state" where
  "SWT_GetTimeUsecLL w =
     (let pri = sw_primask w;
          (tempf, w1) = getFastCounter (w\<lparr>sw_primask := 1\<rparr>);
          temp = clock3rollover w1
      in (if push_bit 14 temp \<noteq> 0 \<or> drop_bit 2 tempf \<noteq> 0 then 1 else 0, w1\<lparr>sw_primask := pri\<rparr>))"

definition SWT_GetTimeUsec :: "('f, 'z) swt_state \<Rightarrow> u32 \<times> ('f, 'z) swt_state" where
  "SWT_GetTimeUsec w =
     (let pri = sw_primask w;
          (tempf, w1) = getFastCounter (w\<lparr>sw_primask := 1\<rparr>);
          temp = (ucast (clock3rollover w1) :: u32)
      in (if push_bit 14 temp \<noteq> 0 \<or> drop_bit 2 tempf \<noteq> 0 then 1 else 0, w1\<lparr>sw_primask := pri\<rparr>))"

section \<open>The pool of system timers\<close>

definition swt_cell :: "int \<Rightarrow> nat \<Rightarrow> int" where
  "swt_cell p j = p + 20 + 28 * int j"

definition swt_active :: "('f, 'z) swt_state \<Rightarrow> nat \<Rightarrow> bool" where
  "swt_active w j \<longleftrightarrow> gb_size (vh_buf w (swt_cell (swtTimerPool w) j)) \<noteq> 0"

definition swt_timer :: "('f, 'z) swt_state \<Rightarrow> nat \<Rightarrow> 'f swt_t" where
  "swt_timer w j = sw_swt w (swt_cell (swtTimerPool w) j + 4)"

text \<open>The pool is set up, its headers are in order and every active timer has a callback; \<open>swt_ok\<close>: also
  the queue tells of space.\<close>

definition swt_pool_ok :: "('f, 'z) swt_state \<Rightarrow> bool" where
  "swt_pool_ok w \<longleftrightarrow> (let p = swtTimerPool w in
     p \<noteq> 0 \<and> (\<exists>j < 16. pl_next (vh_pool w p) = swt_cell p j) \<and> pl_end (vh_pool w p) = swt_cell p 15 \<and> pl_cellSize (vh_pool w p) = 28 \<and>
     pl_objectSize (vh_pool w p) = 24 \<and> pl_onRelease (vh_pool w p) = Some SWT_onRelease \<and>
     (\<forall>j < 16. vh_buf w (swt_cell p j) = \<lparr>gb_size = 0, gb_guard = 0\<rparr> \<or>
        vh_buf w (swt_cell p j) = \<lparr>gb_size = 24, gb_guard = of_nat (7 * j + 1)\<rparr> \<and> cw_cb (swt_cbObj (sw_swt w (swt_cell p j + 4))) \<noteq> None))"

definition swt_ok :: "('f, 'z) swt_state \<Rightarrow> bool" where
  "swt_ok w \<longleftrightarrow> swt_pool_ok w \<and> GenQ_IsSpace_v1 (Some (pendsvQueue w)) = Some True"

definition swt_due :: "('f, 'z) swt_state \<Rightarrow> nat \<Rightarrow> bool" where
  "swt_due w j \<longleftrightarrow> swt_active w j \<and> swt_downCount (swt_timer w j) = 1"

definition swt_call :: "('f, 'z) swt_state \<Rightarrow> nat \<Rightarrow> 'f \<times> int" where
  "swt_call w j = (the (cw_cb (swt_cbObj (swt_timer w j))), cw_obj (swt_cbObj (swt_timer w j)))"

text \<open>One tick of a timer, and whether it gives the timer back.\<close>

definition swt_tick :: "'f swt_t \<Rightarrow> 'f swt_t" where
  "swt_tick t =
     (if swt_downCount t = 0 then t
      else if swt_downCount t = 1 \<and> swt_runCount t \<noteq> 1
      then t\<lparr>swt_runCount := (if swt_runCount t \<noteq> 0 then swt_runCount t - 1 else 0), swt_downCount := swt_reloadVal t\<rparr>
      else t\<lparr>swt_downCount := swt_downCount t - 1\<rparr>)"

lemma swt_tick_kept [simp]:
  "swt_cbObj (swt_tick t) = swt_cbObj t" "swt_reloadVal (swt_tick t) = swt_reloadVal t"
  by (simp_all add: swt_tick_def)

definition swt_last :: "'f swt_t \<Rightarrow> bool" where
  "swt_last t \<longleftrightarrow> swt_downCount t = 1 \<and> swt_runCount t = 1"

definition swt_log :: "('f, ('f \<times> int) list) swt_callbacks" where
  "swt_log f obj w = swt_world.more_update (\<lambda>l. l @ [(f, obj)]) w"

lemma swt_log_simps [simp]:
  "sw_swt (swt_log f obj w) = sw_swt w" "vh_buf (swt_log f obj w) = vh_buf w"
  "vh_pool (swt_log f obj w) = vh_pool w" "swtTimerPool (swt_log f obj w) = swtTimerPool w"
  "pendsvQueue (swt_log f obj w) = pendsvQueue w" "sw_fault (swt_log f obj w) = sw_fault w"
  "swt_world.more (swt_log f obj w) = swt_world.more w @ [(f, obj)]"
  by (simp_all add: swt_log_def)

lemma swt_looks_good:
  assumes "swt_pool_ok w" "j < 16" "swt_active w j"
  shows "genBufLooksGood w (swt_cell (swtTimerPool w) j) = Some (swtTimerPool w)"
proof -
  let ?c = "swt_cell (swtTimerPool w) j"
  have b: "vh_buf w ?c = \<lparr>gb_size = 24, gb_guard = of_nat (7 * j + 1)\<rparr>"
    and p: "pl_objectSize (vh_pool w (swtTimerPool w)) = 24"
    using assms unfolding swt_pool_ok_def swt_active_def Let_def by force+
  have "unat (of_nat (7 * j + 1) :: u16) = 7 * j + 1"
    using assms(2) by (simp add: unat_of_nat del: of_nat_add of_nat_Suc)
  then have "uint (gb_guard (vh_buf w ?c)) = 7 * int j + 1"
    unfolding b uint_nat by simp
  then have "?c - (uint (gb_guard (vh_buf w ?c)) - 1) * 4 - 20 = swtTimerPool w"
    by (simp add: swt_cell_def)
  then show ?thesis
    unfolding genBufLooksGood_def Let_def by (simp add: b p del: of_nat_add of_nat_Suc)
qed

lemma countDown_callback:
  assumes "cw_cb (swt_cbObj (sw_swt w a)) = Some f" "GenQ_IsSpace_v1 (Some (pendsvQueue w)) = Some True"
  shows "countDown run_cb a w =
    (let t = sw_swt w a in
     if swt_downCount t = 0 then w
     else if swt_downCount t = 1 \<and> swt_runCount t \<noteq> 1 then run_cb f (cw_obj (swt_cbObj t)) (upd_swt a swt_tick w)
     else if swt_downCount t = 1 then snd (GenPool_Return_v1 (\<lambda>_. onRelease run_cb) a (upd_swt a swt_tick w))
     else upd_swt a swt_tick w)"
  using assms by (simp add: countDown_def doTimerTerm_def upd_swt_def swt_tick_def Let_def)

lemma GenPool_Return_onRelease:
  assumes "genBufLooksGood w (a - 4) = Some p" "pl_onRelease (vh_pool w p) = Some SWT_onRelease"
    "cw_cb (swt_cbObj (sw_swt w a)) = Some f"
  shows "snd (GenPool_Return_v1 (\<lambda>_. onRelease run_cb) a w) =
    (let w1 = ReleaseGenBuf (a - 4) (run_cb f (cw_obj (swt_cbObj (sw_swt w a))) w)
     in w1\<lparr>vh_pool := (vh_pool w1)(p := (vh_pool w1 p)\<lparr>pl_next := a - 4\<rparr>)\<rparr>)"
  using assms by (simp add: GenPool_Return_v1_def GenPool_ReturnGenBuf_def onRelease_def Let_def)

lemma upd_swt_simps [simp]:
  "sw_swt (upd_swt a f w) = (sw_swt w)(a := f (sw_swt w a))" "vh_buf (upd_swt a f w) = vh_buf w"
  "vh_pool (upd_swt a f w) = vh_pool w" "swtTimerPool (upd_swt a f w) = swtTimerPool w"
  "pendsvQueue (upd_swt a f w) = pendsvQueue w" "sw_fault (upd_swt a f w) = sw_fault w"
  "swt_world.more (upd_swt a f w) = swt_world.more w" "sw_run (upd_swt a f w) = sw_run w"
  by (simp_all add: upd_swt_def)

lemma ReleaseGenBuf_simps [simp]:
  fixes w :: "('f, 'z) swt_state"
  shows "sw_swt (ReleaseGenBuf g w) = sw_swt w"
    "vh_buf (ReleaseGenBuf g w) = (vh_buf w)(g := (vh_buf w g)\<lparr>gb_guard := 0, gb_size := 0\<rparr>)"
    "vh_pool (ReleaseGenBuf g w) = vh_pool w" "swtTimerPool (ReleaseGenBuf g w) = swtTimerPool w"
    "pendsvQueue (ReleaseGenBuf g w) = pendsvQueue w" "sw_fault (ReleaseGenBuf g w) = sw_fault w"
    "swt_world.more (ReleaseGenBuf g w) = swt_world.more w"
  by (simp_all add: ReleaseGenBuf_def upd_buf_def)

text \<open>One cell's share of a tick.\<close>

definition swt_turn :: "('f, 'z) swt_callbacks \<Rightarrow> nat \<Rightarrow> ('f, 'z) swt_state \<Rightarrow> ('f, 'z) swt_state" where
  "swt_turn run_cb j w = (if swt_active w j then countDown run_cb (swt_cell (swtTimerPool w) j + 4) w else w)"

lemma swt_cell_eq [simp]: "swt_cell p i = swt_cell p j \<longleftrightarrow> i = j"
  by (simp add: swt_cell_def)

text \<open>
  What a tick does does not depend on how a callback is called, as long as calling leaves the timers
  alone: the callbacks are called at once in one build and queued in the other. \<open>calls\<close> is what has been
  called so far, \<open>room n\<close> says that \<open>n\<close> more calls will be accepted.
\<close>

locale call_sink =
  fixes run_cb :: "('f, 'z) swt_callbacks"
    and calls :: "('f, 'z) swt_state \<Rightarrow> ('f \<times> int) list"
    and room :: "nat \<Rightarrow> ('f, 'z) swt_state \<Rightarrow> bool"
  assumes run_keeps: "sw_swt (run_cb f x w) = sw_swt w" "vh_buf (run_cb f x w) = vh_buf w"
      "vh_pool (run_cb f x w) = vh_pool w" "swtTimerPool (run_cb f x w) = swtTimerPool w"
      "sw_fault (run_cb f x w) = sw_fault w"
    and run_calls: "room (Suc n) w \<Longrightarrow> calls (run_cb f x w) = calls w @ [(f, x)]"
    and run_room: "room (Suc n) w \<Longrightarrow> room n (run_cb f x w)"
    and room_Suc: "room (Suc n) w \<Longrightarrow> room n w"
    and room_space: "room (Suc n) w \<Longrightarrow> GenQ_IsSpace_v1 (Some (pendsvQueue w)) = Some True"
    and sink_cong: "pendsvQueue v = pendsvQueue w \<Longrightarrow> swt_world.more v = swt_world.more w \<Longrightarrow>
      calls v = calls w \<and> (room n v \<longleftrightarrow> room n w)"
begin

lemma sink_countDown:
  assumes "swt_pool_ok w" "room (Suc n) w" "j < 16" "swt_active w j"
  defines "c \<equiv> swt_cell (swtTimerPool w) j"
  defines "w1 \<equiv> countDown run_cb (c + 4) w"
  shows "sw_swt w1 = (sw_swt w)(c + 4 := swt_tick (swt_timer w j))"
    "vh_buf w1 = (if swt_last (swt_timer w j) then (vh_buf w)(c := \<lparr>gb_size = 0, gb_guard = 0\<rparr>) else vh_buf w)"
    "calls w1 = calls w @ (if swt_due w j then [swt_call w j] else [])"
    "swtTimerPool w1 = swtTimerPool w" "room n w1"
    "\<exists>i. (i = c \<or> i = pl_next (vh_pool w (swtTimerPool w))) \<and>
       vh_pool w1 = (vh_pool w)(swtTimerPool w := (vh_pool w (swtTimerPool w))\<lparr>pl_next := i\<rparr>)"
    "sw_fault w1 = sw_fault w"
proof -
  obtain f where f: "cw_cb (swt_cbObj (sw_swt w (c + 4))) = Some f"
    and rel: "pl_onRelease (vh_pool w (swtTimerPool w)) = Some SWT_onRelease"
    using assms(1,3,4) by (auto simp: swt_pool_ok_def swt_active_def Let_def c_def)
  let ?v = "upd_swt (c + 4) swt_tick w"
  let ?u = "run_cb f (cw_obj (swt_cbObj (sw_swt w (c + 4)))) ?v"
  have v: "calls ?v = calls w" "room (Suc n) ?v" "room n ?v" "room n w"
    using sink_cong [of ?v w] assms(2) room_Suc by simp_all
  have u: "calls ?u = calls w @ [(f, cw_obj (swt_cbObj (sw_swt w (c + 4))))]" "room n ?u"
    using run_calls [OF v(2)] run_room [OF v(2)] v(1) by simp_all
  let ?r = "ReleaseGenBuf c ?u"
  let ?q = "?r\<lparr>vh_pool := (vh_pool ?r)(swtTimerPool w := (vh_pool ?r (swtTimerPool w))\<lparr>pl_next := c\<rparr>)\<rparr>"
  have q: "calls ?q = calls ?u" "room n ?q"
    using sink_cong [of ?q ?u] u(2) by simp_all
  have good: "genBufLooksGood ?v (c + 4 - 4) = Some (swtTimerPool w)"
    using swt_looks_good [OF assms(1,3,4)] by (simp add: genBufLooksGood_def c_def)
  have ret: "w1 = (let t = sw_swt w (c + 4) in
     if swt_downCount t = 0 then w else if swt_downCount t = 1 \<and> swt_runCount t \<noteq> 1 then ?u
     else if swt_downCount t = 1 then ?q else ?v)"
    unfolding w1_def countDown_callback [OF f room_space [OF assms(2)]]
    using GenPool_Return_onRelease [OF good, where run_cb = run_cb and f = f] rel f by (simp add: Let_def)
  have act: "gb_size (vh_buf w c) \<noteq> 0"
    using assms(4) by (simp add: c_def swt_active_def)
  have timer: "swt_timer w j = sw_swt w (c + 4)"
    by (simp add: c_def swt_timer_def)
  note d = ret Let_def swt_last_def swt_due_def swt_call_def timer assms(4) act f run_keeps
  show "sw_swt w1 = (sw_swt w)(c + 4 := swt_tick (swt_timer w j))"
    "vh_buf w1 = (if swt_last (swt_timer w j) then (vh_buf w)(c := \<lparr>gb_size = 0, gb_guard = 0\<rparr>) else vh_buf w)"
    "swtTimerPool w1 = swtTimerPool w" "sw_fault w1 = sw_fault w"
    by (auto simp: d swt_tick_def)
  show "calls w1 = calls w @ (if swt_due w j then [swt_call w j] else [])" "room n w1"
    using u v q by (auto simp: d)
  show "\<exists>i. (i = c \<or> i = pl_next (vh_pool w (swtTimerPool w))) \<and>
      vh_pool w1 = (vh_pool w)(swtTimerPool w := (vh_pool w (swtTimerPool w))\<lparr>pl_next := i\<rparr>)"
    by (auto simp: d intro: exI [of _ "pl_next (vh_pool w (swtTimerPool w))"])
qed

lemma sink_turn_step:
  assumes "swt_pool_ok w" "room (Suc n) w" "j < 16"
  shows "swtTimerPool (swt_turn run_cb j w) = swtTimerPool w" "sw_fault (swt_turn run_cb j w) = sw_fault w"
    "swt_timer (swt_turn run_cb j w) i = (if i = j \<and> swt_active w j then swt_tick (swt_timer w j) else swt_timer w i)"
    "swt_active (swt_turn run_cb j w) i \<longleftrightarrow> swt_active w i \<and> \<not> (i = j \<and> swt_last (swt_timer w j))"
    "calls (swt_turn run_cb j w) = calls w @ (if swt_due w j then [swt_call w j] else [])"
    "room n (swt_turn run_cb j w)"
  using sink_countDown [OF assms] room_Suc [OF assms(2)]
  by (auto simp: swt_turn_def swt_due_def swt_active_def swt_timer_def)

lemma sink_turn_ok:
  assumes "swt_pool_ok w" "room (Suc n) w" "j < 16"
  shows "swt_pool_ok (swt_turn run_cb j w)"
proof (cases "swt_active w j")
  case True
  note c = sink_countDown [OF assms True]
  obtain m i where "vh_pool (swt_turn run_cb j w) = (vh_pool w)(swtTimerPool w := (vh_pool w (swtTimerPool w))\<lparr>pl_next := m\<rparr>)"
    "m = swt_cell (swtTimerPool w) i" "i < 16"
    using c(6) True assms by (auto simp: swt_turn_def swt_pool_ok_def Let_def)
  then show ?thesis
    using assms(1) True c(1,2,4) by (auto simp: swt_pool_ok_def swt_turn_def swt_timer_def Let_def)
qed (use assms in \<open>simp add: swt_turn_def\<close>)

lemma sink_turns:
  assumes "swt_pool_ok w" "room (k + m) w" "k \<le> 16"
  defines "w1 \<equiv> fold (swt_turn run_cb) [0..<k] w"
  shows "swt_pool_ok w1 \<and> swtTimerPool w1 = swtTimerPool w \<and> sw_fault w1 = sw_fault w \<and>
    (\<forall>i. swt_timer w1 i = (if i < k \<and> swt_active w i then swt_tick (swt_timer w i) else swt_timer w i)) \<and>
    (\<forall>i. swt_active w1 i \<longleftrightarrow> swt_active w i \<and> \<not> (i < k \<and> swt_last (swt_timer w i))) \<and>
    calls w1 = calls w @ map (swt_call w) (filter (swt_due w) [0..<k]) \<and> room m w1"
  using assms(2,3) unfolding w1_def
proof (induction k arbitrary: m)
  case 0
  then show ?case
    using assms(1) by simp
next
  case (Suc k)
  let ?w = "fold (swt_turn run_cb) [0..<k] w"
  have IH: "swt_pool_ok ?w" "swtTimerPool ?w = swtTimerPool w" "sw_fault ?w = sw_fault w"
    "\<And>i. swt_timer ?w i = (if i < k \<and> swt_active w i then swt_tick (swt_timer w i) else swt_timer w i)"
    "\<And>i. swt_active ?w i \<longleftrightarrow> swt_active w i \<and> \<not> (i < k \<and> swt_last (swt_timer w i))"
    "calls ?w = calls w @ map (swt_call w) (filter (swt_due w) [0..<k])" "room (Suc m) ?w"
    using Suc.IH [of "Suc m"] Suc.prems by simp_all
  have k: "k < 16"
    using Suc.prems by simp
  have due: "swt_due ?w k = swt_due w k" "swt_call ?w k = swt_call w k"
    unfolding swt_due_def swt_call_def IH(4,5) by simp_all
  note step = sink_turn_step [OF IH(1,7) k]
  have "fold (swt_turn run_cb) [0..<Suc k] w = swt_turn run_cb k ?w"
    by simp
  then show ?case
    using sink_turn_ok [OF IH(1,7) k] step(1,2,5,6) IH(2,3,6)
    by (auto simp: step(3,4) IH(4,5) due less_Suc_eq)
qed

lemma sink_each:
  "swt_pool_ok w \<Longrightarrow> swtTimerPool w = p \<Longrightarrow> k + m = 16 \<Longrightarrow> room m w \<Longrightarrow>
   v1_each (\<lambda>b. gb_size b \<noteq> 0) 4 (countDown run_cb) p (swt_cell p k) w = Some (fold (swt_turn run_cb) [k..<16] w)"
proof (induction m arbitrary: k w)
  case 0
  then have "\<not> swt_cell p k \<le> pl_end (vh_pool w p)"
    by (auto simp: swt_pool_ok_def Let_def swt_cell_def)
  with 0 show ?case
    by (subst v1_each.simps) simp
next
  case (Suc m)
  have k: "k < 16"
    using Suc.prems by simp
  note turn = sink_turn_ok [OF Suc.prems(1,4) k] sink_turn_step(1,6) [OF Suc.prems(1,4) k]
  have "swt_cell p k \<le> pl_end (vh_pool w p)"
    using Suc.prems k by (auto simp: swt_pool_ok_def Let_def swt_cell_def)
  moreover have "(if gb_size (vh_buf w (swt_cell p k)) \<noteq> 0 then countDown run_cb (swt_cell p k + 4) w else w) = swt_turn run_cb k w"
    using Suc.prems(2) by (simp add: swt_turn_def swt_active_def)
  moreover have "swt_cell p k + pl_cellSize (vh_pool (swt_turn run_cb k w) p) = swt_cell p (Suc k)"
    using turn(1,2) Suc.prems(2) by (simp add: swt_pool_ok_def Let_def swt_cell_def)
  ultimately have "v1_each (\<lambda>b. gb_size b \<noteq> 0) 4 (countDown run_cb) p (swt_cell p k) w =
      v1_each (\<lambda>b. gb_size b \<noteq> 0) 4 (countDown run_cb) p (swt_cell p (Suc k)) (swt_turn run_cb k w)"
    by (subst v1_each.simps) (simp add: Let_def)
  also have "\<dots> = Some (fold (swt_turn run_cb) [Suc k..<16] (swt_turn run_cb k w))"
    using Suc.IH [OF turn(1)] turn(2,3) Suc.prems(2,3) by simp
  finally show ?case
    using k by (simp add: upt_conv_Cons)
qed

lemma sink_tick:
  assumes "swt_pool_ok w" "room 16 w"
  shows "SWT_OnSysTick run_cb w = Some (fold (swt_turn run_cb) [0..<16] w)"
  using sink_each [OF assms(1) refl, of 0 16] assms(2)
  by (simp add: SWT_OnSysTick_def runTimers_def Pool_OnEachActive_def pl_base_def swt_cell_def)

end

text \<open>The default build calls at once; the calls are logged.\<close>

interpretation direct: call_sink swt_log swt_world.more
  "\<lambda>n w. GenQ_IsSpace_v1 (Some (pendsvQueue w)) = Some True"
  by unfold_locales simp_all

lemma swt_turns:
  assumes "swt_ok w" "k \<le> 16"
  defines "w1 \<equiv> fold (swt_turn swt_log) [0..<k] w"
  shows "swt_ok w1 \<and> swtTimerPool w1 = swtTimerPool w \<and> sw_fault w1 = sw_fault w \<and>
    (\<forall>i. swt_timer w1 i = (if i < k \<and> swt_active w i then swt_tick (swt_timer w i) else swt_timer w i)) \<and>
    (\<forall>i. swt_active w1 i \<longleftrightarrow> swt_active w i \<and> \<not> (i < k \<and> swt_last (swt_timer w i))) \<and>
    swt_world.more w1 = swt_world.more w @ map (swt_call w) (filter (swt_due w) [0..<k])"
  using direct.sink_turns [of w k] assms by (simp add: swt_ok_def)

lemma SWT_OnSysTick_turns:
  assumes "swt_ok w"
  shows "SWT_OnSysTick swt_log w = Some (fold (swt_turn swt_log) [0..<16] w)"
  using direct.sink_tick [of w] assms by (simp add: swt_ok_def)

text \<open>A run of ticks.\<close>

primrec swt_ticks :: "nat \<Rightarrow> ('f, ('f \<times> int) list) swt_state \<Rightarrow> ('f, ('f \<times> int) list) swt_state" where
  "swt_ticks 0 w = w"
| "swt_ticks (Suc k) w = (case SWT_OnSysTick swt_log (swt_ticks k w) of Some w1 \<Rightarrow> w1 | None \<Rightarrow> swt_ticks k w)"

lemma swt_ticks_ok: "swt_ok w \<Longrightarrow> swt_ok (swt_ticks k w)"
  by (induction k) (simp_all add: SWT_OnSysTick_turns swt_turns)

text \<open>A timer of \<open>n\<close> ticks and \<open>r\<close> runs (0 for ever) after \<open>k\<close> ticks.\<close>

definition swt_at :: "nat \<Rightarrow> nat \<Rightarrow> nat \<Rightarrow> bool \<Rightarrow> 'f swt_t \<Rightarrow> bool" where
  "swt_at n r k active t \<longleftrightarrow> unat (swt_reloadVal t) = n \<and>
     (if r = 0 \<or> k < r * n
      then active \<and> unat (swt_downCount t) = n - k mod n \<and> unat (swt_runCount t) = (if r = 0 then 0 else r - k div n)
      else \<not> active)"

lemma swt_at_due:
  assumes "swt_at n r k active t" "0 < n"
  shows "active \<and> swt_downCount t = 1 \<longleftrightarrow> Suc k mod n = 0 \<and> (r = 0 \<or> Suc k div n \<le> r)"
proof -
  have lt: "k mod n < n"
    using assms(2) by simp
  have "swt_downCount t = 1 \<longleftrightarrow> unat (swt_downCount t) = 1"
    by (metis unat_1 word_unat_eq_iff)
  moreover have "Suc k div n \<le> r \<longleftrightarrow> k < r * n" if "Suc k mod n = 0"
    using that assms(2) by (metis Suc_le_eq div_mult_mod_eq add_0_right mult_le_cancel2)
  ultimately show ?thesis
    using assms lt by (auto simp: swt_at_def mod_Suc split: if_splits)
qed

lemma swt_at_tick:
  assumes "swt_at n r k active t" "0 < n"
  shows "swt_at n r (Suc k) (active \<and> \<not> swt_last t) (if active then swt_tick t else t)"
proof (cases "r = 0 \<or> k < r * n")
  case False
  then show ?thesis
    using assms(1) by (simp add: swt_at_def)
next
  case run: True
  have one: "x = 1 \<longleftrightarrow> unat x = 1" "x = 0 \<longleftrightarrow> unat x = 0" for x :: u32
    by (metis unat_1 word_unat_eq_iff, simp add: unat_eq_0)
  have t: "active" "unat (swt_reloadVal t) = n" "unat (swt_downCount t) = n - k mod n"
      "unat (swt_runCount t) = (if r = 0 then 0 else r - k div n)"
    using assms(1) run by (simp_all add: swt_at_def)
  have lt: "k mod n < n"
    using assms(2) by simp
  have rn: "Suc k < r * n \<longleftrightarrow> Suc k div n < r" "k < r * n \<longleftrightarrow> k div n < r"
    using assms(2) by (simp_all add: div_less_iff_less_mult)
  show ?thesis
  proof (cases "Suc (k mod n) = n")
    case False
    then have "unat (swt_downCount t) \<noteq> 1" "unat (swt_downCount t) \<noteq> 0"
      using t(3) lt by linarith+
    then have "swt_tick t = t\<lparr>swt_downCount := swt_downCount t - 1\<rparr>" "\<not> swt_last t"
        "unat (swt_downCount t - 1) = n - Suc (k mod n)"
      using t(3) by (simp_all add: swt_tick_def swt_last_def one unat_dec)
    then show ?thesis
      using t(1,2,4) run False by (simp add: swt_at_def rn mod_Suc div_Suc)
  next
    case True
    then have d: "swt_downCount t = 1" "Suc k mod n = 0" "Suc k div n = Suc (k div n)"
      using t(3) by (simp_all add: one mod_Suc div_Suc)
    show ?thesis
    proof (cases "swt_runCount t = 1")
      case True
      then show ?thesis
        using d t run by (auto simp: swt_at_def swt_last_def rn one split: if_splits)
    next
      case False
      then have "swt_tick t = t\<lparr>swt_runCount := (if swt_runCount t \<noteq> 0 then swt_runCount t - 1 else 0),
          swt_downCount := swt_reloadVal t\<rparr>" "\<not> swt_last t"
        using d by (simp_all add: swt_tick_def swt_last_def)
      moreover have "r = 0 \<or> Suc (k div n) < r"
        using False t(4) run by (auto simp: rn one)
      moreover have "unat (if swt_runCount t \<noteq> 0 then swt_runCount t - 1 else 0) = (if r = 0 then 0 else r - Suc (k div n))"
        using t(4) by (auto simp: one unat_dec)
      ultimately show ?thesis
        using t(1,2) d by (simp add: swt_at_def rn)
    qed
  qed
qed

section \<open>Claiming a timer\<close>

definition swt_claimed :: "nat \<Rightarrow> ('f, 'z) swt_state \<Rightarrow> ('f, 'z) swt_state" where
  "swt_claimed j w = upd_buf (swt_cell (swtTimerPool w) j) (\<lambda>_. \<lparr>gb_size = 24, gb_guard = of_nat (7 * j + 1)\<rparr>) w"

lemma swt_claim:
  assumes "swt_ok w" "j < 16"
  shows "v1_claim (swtTimerPool w) (swt_cell (swtTimerPool w) j) w =
    (if swt_active w j then (None, w) else (Some (swt_cell (swtTimerPool w) j), swt_claimed j w))"
proof (cases "swt_active w j")
  case False
  let ?c = "swt_cell (swtTimerPool w) j"
  have "vh_buf w ?c = \<lparr>gb_size = 0, gb_guard = 0\<rparr>" "pl_objectSize (vh_pool w (swtTimerPool w)) = 24"
    using assms False unfolding swt_ok_def swt_pool_ok_def swt_active_def Let_def by force+
  moreover have "v1_guard (swtTimerPool w) ?c = of_nat (7 * j + 1)"
    by (simp add: v1_guard_def pl_base_def swt_cell_def)
  ultimately show ?thesis
    using False by (simp add: v1_claim_def swt_claimed_def upd_buf_def Let_def del: of_nat_add of_nat_Suc)
qed (simp add: v1_claim_def swt_active_def)

lemma swt_scan:
  assumes "swt_ok w" "s < 16" "d < 16"
  shows "\<exists>r w1. v1_scan (swtTimerPool w) (swt_cell (swtTimerPool w) s) (swt_cell (swtTimerPool w) ((s + d) mod 16)) w = Some (r, w1) \<and>
    (case r of
       None \<Rightarrow> w1 = w \<and> (\<forall>e < 16. d \<le> e \<longrightarrow> swt_active w ((s + e) mod 16))
     | Some c \<Rightarrow> \<exists>j i. j < 16 \<and> i < 16 \<and> c = swt_cell (swtTimerPool w) j \<and> \<not> swt_active w j \<and>
         w1 = (swt_claimed j w)\<lparr>vh_pool := (vh_pool w)(swtTimerPool w := (vh_pool w (swtTimerPool w))\<lparr>pl_next := swt_cell (swtTimerPool w) i\<rparr>)\<rparr>)"
  using assms(3)
proof (induction "16 - d" arbitrary: d)
  case (Suc m)
  let ?p = "swtTimerPool w" and ?j = "(s + d) mod 16"
  have j: "?j < 16" "(?j + 1) mod 16 = (s + Suc d) mod 16"
    by (simp_all add: mod_Suc_eq)
  have pool: "pl_end (vh_pool w ?p) = swt_cell ?p 15" "pl_cellSize (vh_pool w ?p) = 28"
    using assms(1) by (auto simp: swt_ok_def swt_pool_ok_def Let_def)
  have nxt: "(if swt_cell ?p ?j + pl_cellSize (vh_pool w ?p) > pl_end (vh_pool w ?p) then pl_base ?p
      else swt_cell ?p ?j + pl_cellSize (vh_pool w ?p)) = swt_cell ?p ((s + Suc d) mod 16)"
    using j(1) unfolding pool j(2) [symmetric] by (auto simp: swt_cell_def pl_base_def mod_Suc)
  show ?case
  proof (cases "swt_active w ?j")
    case False
    then have "v1_scan ?p (swt_cell ?p s) (swt_cell ?p ?j) w = Some (Some (swt_cell ?p ?j),
        (swt_claimed ?j w)\<lparr>vh_pool := (vh_pool w)(?p := (vh_pool w ?p)\<lparr>pl_next := swt_cell ?p ((s + Suc d) mod 16)\<rparr>)\<rparr>)"
      by (subst v1_scan.simps) (simp only: nxt Let_def swt_claim [OF assms(1) j(1)], simp add: swt_claimed_def upd_buf_def)
    then show ?thesis
      using False j(1) by simp (intro exI [of _ ?j] conjI exI [of _ "Suc (s + d) mod 16"], simp_all)
  next
    case True
    then have scan: "v1_scan ?p (swt_cell ?p s) (swt_cell ?p ?j) w =
        (if swt_cell ?p ((s + Suc d) mod 16) \<noteq> swt_cell ?p s then v1_scan ?p (swt_cell ?p s) (swt_cell ?p ((s + Suc d) mod 16)) w
         else Some (None, w))"
      by (subst v1_scan.simps) (simp only: nxt Let_def swt_claim [OF assms(1) j(1)], simp)
    show ?thesis
    proof (cases "Suc d < 16")
      case True
      then have "(s + Suc d) mod 16 \<noteq> s"
        unfolding ring_add [OF assms(2) True] using assms(2) by (auto split: if_splits)
      then have eq: "v1_scan ?p (swt_cell ?p s) (swt_cell ?p ?j) w =
          v1_scan ?p (swt_cell ?p s) (swt_cell ?p ((s + Suc d) mod 16)) w"
        unfolding scan by simp
      have split: "d \<le> e \<longleftrightarrow> e = d \<or> Suc d \<le> e" for e
        by linarith
      have m: "m = 16 - Suc d"
        using Suc.hyps(2) by simp
      obtain r w1 where
        "v1_scan ?p (swt_cell ?p s) (swt_cell ?p ((s + Suc d) mod 16)) w = Some (r, w1)"
        "case r of
           None \<Rightarrow> w1 = w \<and> (\<forall>e < 16. Suc d \<le> e \<longrightarrow> swt_active w ((s + e) mod 16))
         | Some c \<Rightarrow> \<exists>j i. j < 16 \<and> i < 16 \<and> c = swt_cell ?p j \<and> \<not> swt_active w j \<and>
             w1 = (swt_claimed j w)\<lparr>vh_pool := (vh_pool w)(?p := (vh_pool w ?p)\<lparr>pl_next := swt_cell ?p i\<rparr>)\<rparr>"
        using Suc.hyps(1) [OF m True] by blast
      then show ?thesis
        using \<open>swt_active w ?j\<close> unfolding eq split
        by (intro exI [of _ r] exI [of _ w1]) (cases r, auto)
    next
      case False
      then have "d = 15"
        using Suc.prems by simp
      then have "swt_active w ((s + e) mod 16)" if "e < 16" "d \<le> e" for e
        using that True by (cases "e = 15") auto
      then show ?thesis
        using assms(2) \<open>d = 15\<close> unfolding scan by simp
    qed
  qed
qed simp

lemma swt_claimed_simps [simp]:
  "sw_swt (swt_claimed j w) = sw_swt w" "vh_pool (swt_claimed j w) = vh_pool w"
  "vh_buf (swt_claimed j w) = (vh_buf w)(swt_cell (swtTimerPool w) j := \<lparr>gb_size = 24, gb_guard = of_nat (7 * j + 1)\<rparr>)"
  "swtTimerPool (swt_claimed j w) = swtTimerPool w" "pendsvQueue (swt_claimed j w) = pendsvQueue w"
  "sw_fault (swt_claimed j w) = sw_fault w" "swt_world.more (swt_claimed j w) = swt_world.more w"
  "sw_run (swt_claimed j w) = sw_run w"
  by (simp_all add: swt_claimed_def upd_buf_def)

text \<open>The allocation returns. With a cell free, some free cell becomes the armed timer and all else
  stays; with none free the answer is NULL and nothing has changed.\<close>

lemma SWT_SysTimerCallback_arms:
  assumes "swt_ok w"
  shows "case SWT_SysTimerCallback (Some f) n r ctx w of
      None \<Rightarrow> False
    | Some (None, w1) \<Rightarrow> w1 = w \<and> (\<forall>j < 16. swt_active w j)
    | Some (Some a, w1) \<Rightarrow> \<exists>j < 16. a = swt_cell (swtTimerPool w) j + 4 \<and> \<not> swt_active w j \<and> swt_ok w1 \<and>
        swtTimerPool w1 = swtTimerPool w \<and> sw_fault w1 = sw_fault w \<and> swt_world.more w1 = swt_world.more w \<and>
        pendsvQueue w1 = pendsvQueue w \<and> sw_run w1 = sw_run w \<and>
        (\<forall>i. swt_active w1 i \<longleftrightarrow> swt_active w i \<or> i = j) \<and>
        (\<forall>i. swt_timer w1 i = (if i = j then (swt_timer w j)\<lparr>swt_cbObj := \<lparr>cw_cb = Some f, cw_obj = ctx\<rparr>,
           swt_downCount := n, swt_runCount := r, swt_reloadVal := n\<rparr> else swt_timer w i))"
proof -
  let ?p = "swtTimerPool w"
  obtain s where s: "?p \<noteq> 0" "s < 16" "pl_next (vh_pool w ?p) = swt_cell ?p s"
    using assms by (auto simp: swt_ok_def swt_pool_ok_def Let_def)
  obtain res w1 where scan: "v1_scan ?p (swt_cell ?p s) (swt_cell ?p s) w = Some (res, w1)"
    and res: "case res of
       None \<Rightarrow> w1 = w \<and> (\<forall>e < 16. swt_active w ((s + e) mod 16))
     | Some c \<Rightarrow> \<exists>j i. j < 16 \<and> i < 16 \<and> c = swt_cell ?p j \<and> \<not> swt_active w j \<and>
         w1 = (swt_claimed j w)\<lparr>vh_pool := (vh_pool w)(?p := (vh_pool w ?p)\<lparr>pl_next := swt_cell ?p i\<rparr>)\<rparr>"
    using swt_scan [OF assms s(2), of 0] s(2) by (simp only: add_0_right mod_less le0 simp_thms) auto
  show ?thesis
  proof (cases res)
    case None
    have all: "swt_active w j" if "j < 16" for j
    proof -
      let ?e = "if s \<le> j then j - s else j + 16 - s"
      have e: "?e < 16"
        using that s(2) by auto
      have "(s + ?e) mod 16 = j"
        unfolding ring_add [OF s(2) e] using that s(2) by auto
      then show ?thesis
        using res None e by fastforce
    qed
    then have "v1_claim ?p (swt_cell ?p s) w = (None, w)"
      using swt_claim [OF assms s(2)] s(2) by simp
    then show ?thesis
      using s scan res None all
      by (simp add: SWT_SysTimerCallback_def GenPool_Get_v1_def GenPool_GetGenBuf_def)
  next
    case (Some c)
    then obtain j i where j: "j < 16" "i < 16" "c = swt_cell ?p j" "\<not> swt_active w j"
      and w1: "w1 = (swt_claimed j w)\<lparr>vh_pool := (vh_pool w)(?p := (vh_pool w ?p)\<lparr>pl_next := swt_cell ?p i\<rparr>)\<rparr>"
      using res by auto
    let ?t = "\<lambda>t. t\<lparr>swt_reloadVal := n, swt_runCount := r, swt_cbObj := \<lparr>cw_cb = Some f, cw_obj = ctx\<rparr>, swt_downCount := n\<rparr>"
    have "SWT_SysTimerCallback (Some f) n r ctx w = Some (Some (swt_cell ?p j + 4), upd_swt (swt_cell ?p j + 4) ?t w1)"
      using s scan Some j(3) by (simp add: SWT_SysTimerCallback_def GenPool_Get_v1_def GenPool_GetGenBuf_def)
    moreover have "swt_ok (upd_swt (swt_cell ?p j + 4) ?t w1)"
      using assms j(2) by (auto simp: swt_ok_def swt_pool_ok_def Let_def w1)
    ultimately show ?thesis
      using j by (auto simp: w1 swt_active_def swt_timer_def)
  qed
qed

section \<open>The clock and the counting timers\<close>

text \<open>The clock combines rollovers and counter with a logical or: it is 0 or 1, never a time.\<close>

lemma SWT_GetTimeUsec_is_bool:
  "fst (SWT_GetTimeUsec w) \<in> {0, 1}" "fst (SWT_GetTimeUsecLL w) \<in> {0, 1}"
  "sw_primask (snd (SWT_GetTimeUsec w)) = sw_primask w"
  "4 \<le> unat (ucast (tim_CNT w (tim_reads w)) :: u16) \<Longrightarrow> fst (SWT_GetTimeUsecLL w) = 1"
proof -
  show "fst (SWT_GetTimeUsec w) \<in> {0, 1}" "fst (SWT_GetTimeUsecLL w) \<in> {0, 1}"
    "sw_primask (snd (SWT_GetTimeUsec w)) = sw_primask w"
    by (simp_all add: SWT_GetTimeUsec_def SWT_GetTimeUsecLL_def Let_def getFastCounter_def read_CNT_def)
  assume "4 \<le> unat (ucast (tim_CNT w (tim_reads w)) :: u16)"
  then have "drop_bit 2 (ucast (tim_CNT w (tim_reads w)) :: u16) \<noteq> 0"
    by (simp add: word_unat_eq_iff unat_drop_bit_eq drop_bit_eq_div div_eq_0_iff unat_div)
  then show "fst (SWT_GetTimeUsecLL w) = 1"
    by (simp add: SWT_GetTimeUsecLL_def Let_def getFastCounter_def read_CNT_def)
qed

text \<open>A counting timer given a negative time counts down the first time only after its magnitude;
  then it is reloaded with the negative value, as an unsigned number.\<close>

lemma countDown_negative_count:
  assumes "cw_cb (swt_cbObj (sw_swt w a)) = None" "cw_obj (swt_cbObj (sw_swt w a)) = c" "c \<noteq> 0"
    and "swt_downCount (sw_swt w a) = 1" "swt_runCount (sw_swt w a) \<noteq> 1" "swt_direction (sw_swt w a) = -1"
  shows "sw_count (countDown run_cb a w) c = sw_count w c - 1"
    "swt_downCount (sw_swt (countDown run_cb a w) a) = swt_reloadVal (sw_swt w a)"
  using assms by (simp_all add: countDown_def doTimerTerm_def upd_swt_def Let_def)

text \<open>When a counting timer is given back, the release function calls its callback, which is NULL.\<close>

lemma countDown_count_release:
  assumes "cw_cb (swt_cbObj (sw_swt w a)) = None" "cw_obj (swt_cbObj (sw_swt w a)) = c" "c \<noteq> 0"
    and "swt_downCount (sw_swt w a) = 1" "swt_runCount (sw_swt w a) = 1"
    and "genBufLooksGood w (a - 4) = Some p" "pl_onRelease (vh_pool w p) = Some SWT_onRelease"
  shows "sw_fault (countDown run_cb a w)"
proof -
  let ?w = "(upd_swt a (\<lambda>t. t\<lparr>swt_downCount := swt_downCount t - 1\<rparr>) w)
    \<lparr>sw_count := (sw_count w)(c := sw_count w c + swt_direction (sw_swt w a))\<rparr>"
  have "genBufLooksGood ?w (a - 4) = Some p"
    using assms(6) by (simp add: genBufLooksGood_def)
  then have "sw_fault (snd (GenPool_Return_v1 (\<lambda>_. onRelease run_cb) a ?w))"
    using assms(1,7) by (simp add: GenPool_Return_v1_def GenPool_ReturnGenBuf_def onRelease_def Let_def)
  moreover have "countDown run_cb a w = snd (GenPool_Return_v1 (\<lambda>_. onRelease run_cb) a ?w)"
    using assms(1-5) by (simp add: countDown_def doTimerTerm_def Let_def upd_swt_def)
  ultimately show ?thesis
    by simp
qed

section \<open>Fast timers\<close>

text \<open>The callbacks that wait in the pend queue, oldest first.\<close>

definition pend_items :: "('f, 'z) swt_state \<Rightarrow> 'f objCallbackWrapper_t list" where
  "pend_items w = map hd (genq_items (as_new (pendsvQueue w)))"

definition pend_ok :: "('f, 'z) swt_state \<Rightarrow> bool" where
  "pend_ok w \<longleftrightarrow> genq_inv (as_new (pendsvQueue w)) \<and> v1_objectSize (pendsvQueue w) = 1"

lemma pend_get:
  assumes "pend_ok w"
  shows "pend_items w = [] \<Longrightarrow> GenQ_Get_v1 (Some (pendsvQueue w)) = (-2, None, Some (pendsvQueue w))"
    "pend_items w = x # xs \<Longrightarrow> \<exists>q. GenQ_Get_v1 (Some (pendsvQueue w)) = (0, Some [x], Some q) \<and>
       pend_ok (w\<lparr>pendsvQueue := q\<rparr>) \<and> pend_items (w\<lparr>pendsvQueue := q\<rparr>) = xs \<and>
       gq_slots (as_new q) = gq_slots (as_new (pendsvQueue w))"
proof -
  let ?q = "pendsvQueue w"
  have inv: "genq_inv (as_new ?q)" and sz: "v1_objectSize ?q = 1"
    using assms by (simp_all add: pend_ok_def)
  show "GenQ_Get_v1 (Some ?q) = (-2, None, Some ?q)" if "pend_items w = []"
    using v1.deq_empty [OF inv] that by (auto simp: pend_items_def v1_deq_def GenQ_Get_v1_def split: if_splits)
  show "\<exists>q. GenQ_Get_v1 (Some ?q) = (0, Some [x], Some q) \<and>
      pend_ok (w\<lparr>pendsvQueue := q\<rparr>) \<and> pend_items (w\<lparr>pendsvQueue := q\<rparr>) = xs \<and>
      gq_slots (as_new q) = gq_slots (as_new (pendsvQueue w))" if "pend_items w = x # xs"
  proof -
    have "genq_items (as_new ?q) \<noteq> []"
      using that by (auto simp: pend_items_def)
    then obtain q where q: "v1_deq ?q = Some (hd (genq_items (as_new ?q)), q)" "genq_inv (as_new q)"
      "genq_items (as_new q) = tl (genq_items (as_new ?q))"
      by (rule v1.deq_hd [OF inv])
    have slots: "gq_slots (as_new q) = gq_slots (as_new ?q)"
      using q(1) by (auto simp: v1_deq_def GenQ_Get_v1_def as_new_def gq_slots_def split: if_splits)
    have x: "hd (hd (genq_items (as_new ?q))) = x"
      using that by (auto simp: pend_items_def)
    have get: "GenQ_Get_v1 (Some ?q) = (0, Some (hd (genq_items (as_new ?q))), Some q)" "v1_objectSize q = 1"
      "hd (genq_items (as_new ?q)) = mem_read (v1_mem ?q) (v1_last ?q) 1"
      using q(1) sz by (auto simp: v1_deq_def GenQ_Get_v1_def split: if_splits)
    have "length (hd (genq_items (as_new ?q))) = 1"
      unfolding get(3) by (rule length_mem_read)
    then show ?thesis
      using get(1,2) q slots that x by (cases "hd (genq_items (as_new ?q))") (auto simp: pend_ok_def pend_items_def map_tl)
  qed
qed

text \<open>What the pend service calls, and how many entries it finds without a callback.\<close>

definition pend_calls :: "'f objCallbackWrapper_t list \<Rightarrow> ('f \<times> int) list" where
  "pend_calls xs = map (\<lambda>x. (the (cw_cb x), cw_obj x)) (filter (\<lambda>x. cw_cb x \<noteq> None) xs)"

lemma SWT_PendService_drains_like:
  "pend_ok w \<Longrightarrow> pend_items w = xs \<Longrightarrow>
   \<forall>x \<in> set xs. \<forall>f. cw_cb x = Some f \<longrightarrow> run_cb f (cw_obj x) = swt_log f (cw_obj x) \<Longrightarrow>
   \<exists>w1. SWT_PendService run_cb w = Some w1 \<and> pend_ok w1 \<and> pend_items w1 = [] \<and>
     swt_world.more w1 = swt_world.more w @ pend_calls xs \<and>
     resetCallbackCnt w1 = resetCallbackCnt w + of_nat (length (filter (\<lambda>x. cw_cb x = None) xs)) \<and>
     sw_swt w1 = sw_swt w \<and> vh_buf w1 = vh_buf w \<and> vh_pool w1 = vh_pool w \<and> swtTimerPool w1 = swtTimerPool w \<and>
     sw_run w1 = sw_run w \<and> sw_fault w1 = sw_fault w \<and> gq_slots (as_new (pendsvQueue w1)) = gq_slots (as_new (pendsvQueue w))"
proof (induction xs arbitrary: w)
  case Nil
  have "SWT_PendService run_cb w = Some w"
    using pend_get(1) [OF Nil.prems(1,2)] by (subst SWT_PendService.simps) simp
  then show ?case
    using Nil.prems by (simp add: pend_calls_def)
next
  case (Cons x xs)
  obtain q where q: "GenQ_Get_v1 (Some (pendsvQueue w)) = (0, Some [x], Some q)" "pend_ok (w\<lparr>pendsvQueue := q\<rparr>)"
    "pend_items (w\<lparr>pendsvQueue := q\<rparr>) = xs" "gq_slots (as_new q) = gq_slots (as_new (pendsvQueue w))"
    using pend_get(2) [OF Cons.prems(1,2)] by blast
  let ?w1 = "w\<lparr>pendsvQueue := q\<rparr>"
  let ?w2 = "if sw_pendsv ?w1 then ?w1\<lparr>sw_pendsv := False, rependSvCnt := rependSvCnt ?w1 + 1\<rparr> else ?w1"
  let ?w3 = "case cw_cb x of Some f \<Rightarrow> run_cb f (cw_obj x) ?w2 | None \<Rightarrow> ?w2\<lparr>resetCallbackCnt := resetCallbackCnt ?w2 + 1\<rparr>"
  have run: "run_cb f (cw_obj x) = swt_log f (cw_obj x)" if "cw_cb x = Some f" for f
    using Cons.prems(3) that by simp
  have w3: "pend_ok ?w3" "pend_items ?w3 = xs" "swt_world.more ?w3 = swt_world.more w @ pend_calls [x]"
    "resetCallbackCnt ?w3 = resetCallbackCnt w + of_nat (length (filter (\<lambda>x. cw_cb x = None) [x]))"
    using q(2,3) by (auto simp: run pend_ok_def pend_items_def pend_calls_def swt_log_def split: option.split)
  have keep: "sw_swt ?w3 = sw_swt w" "vh_buf ?w3 = vh_buf w" "vh_pool ?w3 = vh_pool w" "swtTimerPool ?w3 = swtTimerPool w"
    "sw_run ?w3 = sw_run w" "sw_fault ?w3 = sw_fault w" "pendsvQueue ?w3 = q"
    by (auto simp: run swt_log_def split: option.split)
  have "SWT_PendService run_cb w = SWT_PendService run_cb ?w3"
    using q(1) by (subst SWT_PendService.simps) (simp add: Let_def)
  then show ?case
    using Cons.IH [OF w3(1,2)] Cons.prems(3) w3(3,4) q(4) unfolding keep by (auto simp: pend_calls_def)
qed

lemma SWT_PendService_drains:
  assumes "pend_ok w"
  shows "\<exists>w1. SWT_PendService swt_log w = Some w1 \<and> pend_items w1 = [] \<and>
     swt_world.more w1 = swt_world.more w @ pend_calls (pend_items w) \<and>
     resetCallbackCnt w1 = resetCallbackCnt w + of_nat (length (filter (\<lambda>x. cw_cb x = None) (pend_items w)))"
  using SWT_PendService_drains_like [OF assms refl, where run_cb = swt_log] by auto

text \<open>A channel interrupt of a timer on its last run queues its callback once and frees the channel;
  its interrupt is disabled and its status cleared.\<close>

lemma SWT_ChanIsr_last:
  assumes "ff_runCount (sw_fast w i) = 1"
  defines "w1 \<equiv> SWT_ChanIsr i w"
  shows "cw_cb (ff_cbObj (sw_fast w1 i)) = None" "sw_pendsv w1"
    "pendsvQueue w1 = pendsvQueue (pend_put (ff_cbObj (sw_fast w i)) w)"
    "tim_DIER w1 AND ff_timRegMask (sw_fast w i) = 0" "tim_SR w1 AND ff_timRegMask (sw_fast w i) = 0"
proof -
  have zero: "(a AND NOT b) AND b = 0" for a b :: u32
    by (rule bit_word_eqI) (auto simp: bit_simps)
  have put: "sw_fast (pend_put x w) = sw_fast w" for x
    by (simp add: pend_put_def split: option.split prod.split)
  show "cw_cb (ff_cbObj (sw_fast w1 i)) = None" "sw_pendsv w1"
    "pendsvQueue w1 = pendsvQueue (pend_put (ff_cbObj (sw_fast w i)) w)"
    "tim_DIER w1 AND ff_timRegMask (sw_fast w i) = 0" "tim_SR w1 AND ff_timRegMask (sw_fast w i) = 0"
    using assms(1) by (simp_all add: w1_def SWT_ChanIsr_def SWT_stop_def write_SR_def upd_fast_def put zero Let_def)
qed

text \<open>A flag without its enable bit is left alone by the interrupt handler.\<close>

lemma chan_service_idle:
  "tim_SR w AND CompInterrupt ! (i + 1) = 0 \<or> tim_DIER w AND CompInterrupt ! (i + 1) = 0 \<Longrightarrow> chan_service i w = w"
  by (auto simp: chan_service_def Let_def)

text \<open>A killed fast timer is not called by a later interrupt of its channel: the pend service counts
  an empty callback instead.\<close>

lemma SWT_FutureKill_frees:
  "cw_cb (ff_cbObj (sw_fast (snd (SWT_FutureKill i w)) i)) = None"
  "fst (SWT_FutureKill i w) \<longleftrightarrow> cw_cb (ff_cbObj (sw_fast w i)) \<noteq> None"
  "sw_primask (snd (SWT_FutureKill i w)) = sw_primask w"
  by (auto simp: SWT_FutureKill_def SWT_stop_def write_SR_def upd_fast_def Let_def)

section \<open>Properties\<close>

lemma GenQ_IsSpace_fresh: "GenQ_IsSpace_v1 (Some (q\<lparr>v1_base := b, v1_next := b, v1_last := b, v1_end := b + 31, v1_objectSize := 1\<rparr>)) = Some True"
  by (simp add: GenQ_IsSpace_v1_def BUMP_def)

text \<open>The two initialisations leave the timers in order, all cells free.\<close>

lemma SWT_Init_ok:
  fixes w :: "('f, 'z) swt_state"
  assumes "space \<noteq> 0"
  defines "w1 \<equiv> snd (SWT_InitSysTimers space (SWT_FastInit 0 w))"
  shows "swt_ok w1" "swtTimerPool w1 = space" "\<not> swt_active w1 j \<or> 16 \<le> j" "sw_fault w1 = sw_fault w"
    "swt_world.more w1 = swt_world.more w"
proof -
  have cell: "space \<le> swt_cell space j \<and> swt_cell space j < space + 468" if "j < 16" for j
    using that by (simp add: swt_cell_def)
  note d = w1_def SWT_InitSysTimers_def SWT_FastInit_def SWT_MicroSetup_def GenPool_InitWithCallback_def SizeUp4_def
    GenQ_Init_v1_def Let_def
  show "swtTimerPool w1 = space" "sw_fault w1 = sw_fault w" "swt_world.more w1 = swt_world.more w"
    using assms(1) by (simp_all add: d)
  then show "\<not> swt_active w1 j \<or> 16 \<le> j"
    using assms(1) cell [of j] by (cases "j < 16") (simp_all add: swt_active_def d)
  show "swt_ok w1"
    using assms(1) cell GenQ_IsSpace_fresh [where q = "pendsvQueue w" and b = 0]
    by (auto simp: swt_ok_def swt_pool_ok_def d swt_cell_def pl_base_def intro: exI [of _ 0])
qed

text \<open> C40. A system timer keeps its schedule: armed by \<open>SWT_SysTimerCallback\<close> for \<open>n\<close> ticks and \<open>r\<close> runs on
  a pool in order, its callback is called with its context at exactly the ticks that are multiples of \<open>n\<close>, \<open>r\<close> times (for ever if
  \<open>r = 0\<close>), whatever the other timers of the pool do; it holds its cell until the last call and not
  longer. Every tick returns, and calls exactly the due timers, in the order of their cells. \<close>

theorem SWT_SysTimer_schedule:
  assumes "swt_ok w0" "SWT_SysTimerCallback (Some f) n r ctx w0 = Some (Some a, w)" "n \<noteq> 0"
  shows "\<exists>j < 16. a = swt_cell (swtTimerPool w0) j + 4 \<and> \<not> swt_active w0 j \<and>
    (\<forall>k. let wk = swt_ticks k w in
       SWT_OnSysTick swt_log wk = Some (swt_ticks (Suc k) w) \<and>
       swt_world.more (swt_ticks (Suc k) w) = swt_world.more wk @ map (swt_call wk) (filter (swt_due wk) [0..<16]) \<and>
       (swt_due wk j \<longleftrightarrow> Suc k mod unat n = 0 \<and> (r = 0 \<or> Suc k div unat n \<le> unat r)) \<and>
       (swt_due wk j \<longrightarrow> swt_call wk j = (f, ctx)) \<and>
       (swt_active wk j \<longleftrightarrow> r = 0 \<or> k < unat r * unat n) \<and> sw_fault wk = sw_fault w0)"
proof -
  obtain j where j: "j < 16" "a = swt_cell (swtTimerPool w0) j + 4" "\<not> swt_active w0 j" "swt_ok w"
      "swt_active w j" "sw_fault w = sw_fault w0"
    and t: "swt_timer w j = (swt_timer w0 j)\<lparr>swt_cbObj := \<lparr>cw_cb = Some f, cw_obj = ctx\<rparr>,
       swt_downCount := n, swt_runCount := r, swt_reloadVal := n\<rparr>"
    using SWT_SysTimerCallback_arms [OF assms(1), where f = f and n = n and r = r and ctx = ctx] assms(2) by auto
  have n: "0 < unat n" and r: "unat r = 0 \<longleftrightarrow> r = 0"
    using assms(3) by (simp_all add: unat_eq_0 unat_gt_0)
  have inv: "swt_at (unat n) (unat r) k (swt_active (swt_ticks k w) j) (swt_timer (swt_ticks k w) j) \<and>
      swt_cbObj (swt_timer (swt_ticks k w) j) = \<lparr>cw_cb = Some f, cw_obj = ctx\<rparr> \<and> sw_fault (swt_ticks k w) = sw_fault w0" for k
  proof (induction k)
    case 0
    show ?case
      using j(5,6) n by (auto simp: t swt_at_def)
  next
    case (Suc k)
    note step = swt_turns [OF swt_ticks_ok [OF j(4)], of 16 k]
    have tick: "swt_ticks (Suc k) w = fold (swt_turn swt_log) [0..<16] (swt_ticks k w)"
      using SWT_OnSysTick_turns [OF swt_ticks_ok [OF j(4)]] by simp
    have "swt_active (swt_ticks (Suc k) w) j \<longleftrightarrow> swt_active (swt_ticks k w) j \<and> \<not> swt_last (swt_timer (swt_ticks k w) j)"
      "swt_timer (swt_ticks (Suc k) w) j =
        (if swt_active (swt_ticks k w) j then swt_tick (swt_timer (swt_ticks k w) j) else swt_timer (swt_ticks k w) j)"
      "sw_fault (swt_ticks (Suc k) w) = sw_fault (swt_ticks k w)"
      unfolding tick using step j(1) by simp_all
    then show ?case
      using swt_at_tick [OF conjunct1 [OF Suc.IH] n] Suc.IH by simp
  qed
  show ?thesis
  proof (intro exI [of _ j] conjI allI j(1-3))
    fix k
    let ?w = "swt_ticks k w"
    note a = conjunct1 [OF inv [of k]]
    have "SWT_OnSysTick swt_log ?w = Some (swt_ticks (Suc k) w)"
      "swt_world.more (swt_ticks (Suc k) w) = swt_world.more ?w @ map (swt_call ?w) (filter (swt_due ?w) [0..<16])"
      using SWT_OnSysTick_turns [OF swt_ticks_ok [OF j(4)], of k] swt_turns [OF swt_ticks_ok [OF j(4)], of 16 k] by simp_all
    moreover have "swt_due ?w j \<longleftrightarrow> Suc k mod unat n = 0 \<and> (r = 0 \<or> Suc k div unat n \<le> unat r)"
      using swt_at_due [OF a n] by (simp add: swt_due_def r)
    moreover have "swt_active ?w j \<longleftrightarrow> r = 0 \<or> k < unat r * unat n"
      using a by (auto simp: swt_at_def r split: if_splits)
    ultimately show "let wk = ?w in
       SWT_OnSysTick swt_log wk = Some (swt_ticks (Suc k) w) \<and>
       swt_world.more (swt_ticks (Suc k) w) = swt_world.more wk @ map (swt_call wk) (filter (swt_due wk) [0..<16]) \<and>
       (swt_due wk j \<longleftrightarrow> Suc k mod unat n = 0 \<and> (r = 0 \<or> Suc k div unat n \<le> unat r)) \<and>
       (swt_due wk j \<longrightarrow> swt_call wk j = (f, ctx)) \<and>
       (swt_active wk j \<longleftrightarrow> r = 0 \<or> k < unat r * unat n) \<and> sw_fault wk = sw_fault w0"
      using inv [of k] by (simp add: Let_def swt_call_def)
  qed
qed

theorem SWT_SysTimer_schedule_witness:
  "\<forall>w :: (nat, (nat \<times> int) list) swt_state. \<exists>a w1.
     SWT_SysTimerCallback (Some 7) 3 2 70 (snd (SWT_InitSysTimers 1000 (SWT_FastInit 0 w))) = Some (Some a, w1) \<and>
     SWT_OnSysTick swt_log (swt_ticks 5 w1) = Some (swt_ticks 6 w1) \<and>
     (7, 70) \<in> set (swt_world.more (swt_ticks 6 w1))"
proof
  fix w :: "(nat, (nat \<times> int) list) swt_state"
  let ?w = "snd (SWT_InitSysTimers 1000 (SWT_FastInit 0 w))"
  note ok = SWT_Init_ok [of 1000 w, simplified]
  have "\<not> swt_active ?w 0"
    using ok(3) [of 0] by simp
  then obtain a w1 where 1: "SWT_SysTimerCallback (Some 7) 3 2 70 ?w = Some (Some a, w1)"
    using SWT_SysTimerCallback_arms [OF ok(1), where f = 7 and n = 3 and r = 2 and ctx = 70]
    by (fastforce split: option.splits prod.splits)
  from SWT_SysTimer_schedule [OF ok(1) this] obtain j where j: "j < 16" and
    k: "\<And>k. let wk = swt_ticks k w1 in
       SWT_OnSysTick swt_log wk = Some (swt_ticks (Suc k) w1) \<and>
       swt_world.more (swt_ticks (Suc k) w1) = swt_world.more wk @ map (swt_call wk) (filter (swt_due wk) [0..<16]) \<and>
       (swt_due wk j \<longleftrightarrow> Suc k mod unat (3 :: u32) = 0 \<and> ((2 :: u32) = 0 \<or> Suc k div unat (3 :: u32) \<le> unat (2 :: u32))) \<and>
       (swt_due wk j \<longrightarrow> swt_call wk j = (7, 70)) \<and>
       (swt_active wk j \<longleftrightarrow> (2 :: u32) = 0 \<or> k < unat (2 :: u32) * unat (3 :: u32)) \<and> sw_fault wk = sw_fault ?w"
    by auto
  have "swt_due (swt_ticks 5 w1) j" "swt_call (swt_ticks 5 w1) j = (7, 70)"
    using k [of 5] by (simp_all add: Let_def)
  then have "(7, 70) \<in> set (map (swt_call (swt_ticks 5 w1)) (filter (swt_due (swt_ticks 5 w1)) [0..<16]))"
    using j by (auto intro!: image_eqI [of _ _ j])
  moreover have "SWT_OnSysTick swt_log (swt_ticks 5 w1) = Some (swt_ticks 6 w1)"
    "swt_world.more (swt_ticks 6 w1) = swt_world.more (swt_ticks 5 w1) @
       map (swt_call (swt_ticks 5 w1)) (filter (swt_due (swt_ticks 5 w1)) [0..<16])"
    using k [of 5] by (simp_all add: Let_def del: swt_ticks.simps)
  ultimately show "\<exists>a w1. SWT_SysTimerCallback (Some 7) 3 2 70 ?w = Some (Some a, w1) \<and>
     SWT_OnSysTick swt_log (swt_ticks 5 w1) = Some (swt_ticks 6 w1) \<and>
     (7, 70) \<in> set (swt_world.more (swt_ticks 6 w1))"
    using 1 by auto
qed

end
