(* ===== verification/SwTimersHs.thy ===== *)
theory SwTimersHs
  imports SwTimers
begin

text \<open>
  \<^verbatim>\<open>src/src/swtimers.c\<close> as built with \<open>HIGHSPEED\<close>, for a tick that comes from an interrupt of high
  priority: the tick only queues a run of the timers, that run queues the callbacks, and all are
  called by the pend service; and \<^verbatim>\<open>micros/swtimer_st.c\<close> as built without \<open>BEST_EFFORTS_REPEAT\<close>. The function
  \<open>runTimers\<close> itself travels through the queue, as the value \<open>rt\<close> among the callbacks. The theory shows that this build
  makes the same calls as the other.
\<close>

section \<open>Operations\<close>

definition onRelease_hs :: "int \<Rightarrow> ('f, 'z) swt_state \<Rightarrow> ('f, 'z) swt_state" where
  "onRelease_hs obj w = pend_put (swt_cbObj (sw_swt w obj)) w"

definition doTimerTerm_hs :: "int \<Rightarrow> ('f, 'z) swt_state \<Rightarrow> bool \<times> ('f, 'z) swt_state" where
  "doTimerTerm_hs timer w =
     (if swt_runCount (sw_swt w timer) \<noteq> 1 then
        (True, upd_swt timer (\<lambda>t. t\<lparr>swt_runCount := (if swt_runCount t \<noteq> 0 then swt_runCount t - 1 else swt_runCount t),
           swt_downCount := swt_reloadVal t\<rparr>) w)
      else (False, snd (GenPool_Return_v1 (\<lambda>_. onRelease_hs) timer w)))"

definition countDown_hs :: "int \<Rightarrow> ('f, 'z) swt_state \<Rightarrow> ('f, 'z) swt_state" where
  "countDown_hs timer w =
     (if swt_downCount (sw_swt w timer) \<noteq> 0 then
        let w1 = upd_swt timer (\<lambda>t. t\<lparr>swt_downCount := swt_downCount t - 1\<rparr>) w; cbo = swt_cbObj (sw_swt w1 timer) in
        if swt_downCount (sw_swt w timer) = 1 then
          if cw_cb cbo \<noteq> None then
            if GenQ_IsSpace_v1 (Some (pendsvQueue w1)) = Some True then
              (case doTimerTerm_hs timer w1 of
                 (True, w2) \<Rightarrow> pend_put (swt_cbObj (sw_swt w2 timer)) w2
               | (False, w2) \<Rightarrow> w2)
            else upd_swt timer (\<lambda>t. t\<lparr>swt_downCount := 1\<rparr>) w1
          else if cw_obj cbo \<noteq> 0 then
            snd (doTimerTerm_hs timer
              (w1\<lparr>sw_count := (sw_count w1)(cw_obj cbo := sw_count w1 (cw_obj cbo) + swt_direction (sw_swt w1 timer))\<rparr>))
          else w1
        else w1
      else w)"

definition runTimers_hs :: "int \<Rightarrow> ('f, 'z) swt_state \<Rightarrow> ('f, 'z) swt_state option" where
  "runTimers_hs obj w = Pool_OnEachActive obj countDown_hs w"

text \<open>The static wrapper \<open>run\<close> is filled in by the first tick.\<close>

definition SWT_OnSysTick_hs :: "'f \<Rightarrow> ('f, 'z) swt_state \<Rightarrow> ('f, 'z) swt_state" where
  "SWT_OnSysTick_hs rt w =
     (let w1 = (if cw_cb (sw_run w) = None then w\<lparr>sw_run := \<lparr>cw_cb = Some rt, cw_obj = swtTimerPool w\<rparr>\<rparr> else w)
      in pend_put (sw_run w1) w1)"

text \<open>What the pend service calls: \<open>runTimers\<close> or a callback, which here is logged. A run of the timers that
  did not return would be recorded as a fault.\<close>

definition hs_run :: "'f \<Rightarrow> ('f, ('f \<times> int) list) swt_callbacks" where
  "hs_run rt f obj w =
     (if f = rt then (case runTimers_hs obj w of Some w1 \<Rightarrow> w1 | None \<Rightarrow> w\<lparr>sw_fault := True\<rparr>)
      else swt_log f obj w)"

text \<open>Without \<open>BEST_EFFORTS_REPEAT\<close> the next target follows from the last one, not from the counter.\<close>

definition SWT_recycle_exact :: "nat \<Rightarrow> ('f, 'z) swt_state \<Rightarrow> ('f, 'z) swt_state" where
  "SWT_recycle_exact fut w =
     (let (now, w1) = getFastCounter w;
          w2 = write_target fut (scast (ff_target (sw_fast w1 fut)) + scast (ff_duration (sw_fast w1 fut))) w1;
          w3 = w2\<lparr>tim_CCER := tim_CCER w2 AND NOT (ff_compRegMask (sw_fast w2 fut))\<rparr>;
          w4 = w3\<lparr>tim_CCER := tim_CCER w3 OR ff_compRegMask (sw_fast w3 fut), tim_CR1 := tim_CR1 w3 OR 1\<rparr>;
          w5 = upd_fast fut (\<lambda>f. f\<lparr>ff_target := ucast (read_target fut w4), ff_debugCnt0 := now\<rparr>) w4;
          (c, w6) = getFastCounter w5
      in upd_fast fut (\<lambda>f. f\<lparr>ff_debugCnt1 := c\<rparr>) w6)"

section \<open>Queued calls\<close>

text \<open>Room for \<open>n\<close> more calls in a queue of 32 slots.\<close>

definition pend_room :: "nat \<Rightarrow> ('f, 'z) swt_state \<Rightarrow> bool" where
  "pend_room n w \<longleftrightarrow> pend_ok w \<and> gq_slots (as_new (pendsvQueue w)) = 32 \<and> length (pend_items w) + n \<le> 31"

lemma pend_put_room:
  assumes "pend_room (Suc n) w"
  shows "pend_items (pend_put x w) = pend_items w @ [x]" "pend_room n (pend_put x w)"
    "GenQ_IsSpace_v1 (Some (pendsvQueue w)) = Some True"
proof -
  let ?q = "pendsvQueue w"
  have inv: "genq_inv (as_new ?q)" and sz: "v1_objectSize ?q = 1" and len: "length (genq_items (as_new ?q)) < gq_slots (as_new ?q) - 1"
    using assms by (simp_all add: pend_room_def pend_ok_def pend_items_def)
  obtain q where q: "v1_enq [x] ?q = Some q" "genq_inv (as_new q)" "genq_items (as_new q) = genq_items (as_new ?q) @ [[x]]"
    "gq_slots (as_new q) - 1 = gq_slots (as_new ?q) - 1"
    using v1.enq_room [OF inv, of "[x]"] sz len by auto
  have put: "GenQ_Put_v1 (Some ?q) [x] = Some (0, q)" and sz1: "v1_objectSize q = 1"
    using q(1) sz by (auto simp: v1_enq_def GenQ_Put_v1_def Let_def split: if_splits)
  then have w: "pend_put x w = w\<lparr>pendsvQueue := q\<rparr>"
    by (simp add: pend_put_def)
  have slots: "gq_slots (as_new q) = gq_slots (as_new ?q)"
    using q(4) assms by (simp add: pend_room_def gq_slots_def)
  show "pend_items (pend_put x w) = pend_items w @ [x]"
    using q(3) by (simp add: w pend_items_def)
  then show "pend_room n (pend_put x w)"
    using assms q(2) sz1 slots by (simp add: pend_room_def pend_ok_def w)
  show "GenQ_IsSpace_v1 (Some ?q) = Some True"
    using put by (auto simp: GenQ_Put_v1_def GenQ_IsSpace_v1_def Let_def split: if_splits)
qed

text \<open>The call of a callback, in this build.\<close>

definition pend_call :: "('f, 'z) swt_callbacks" where
  "pend_call f x w = pend_put \<lparr>cw_cb = Some f, cw_obj = x\<rparr> w"

lemma pend_put_simps [simp]:
  "sw_swt (pend_put x w) = sw_swt w" "vh_buf (pend_put x w) = vh_buf w" "vh_pool (pend_put x w) = vh_pool w"
  "swtTimerPool (pend_put x w) = swtTimerPool w" "sw_fault (pend_put x w) = sw_fault w" "sw_run (pend_put x w) = sw_run w"
  "swt_world.more (pend_put x w) = swt_world.more w" "sw_pendsv (pend_put x w) = sw_pendsv w"
  by (simp_all add: pend_put_def split: option.split prod.split)

interpretation queued: call_sink pend_call "\<lambda>w. pend_calls (pend_items w)" pend_room
proof (unfold_locales, goal_cases)
  case (6 n w f x)
  then show ?case
    using pend_put_room(1) [OF 6] by (simp add: pend_call_def pend_calls_def)
next
  case (7 n w f x)
  then show ?case
    using pend_put_room(2) by (simp add: pend_call_def)
next
  case (9 n w)
  then show ?case
    by (rule pend_put_room(3))
next
  case (10 v w n)
  then show ?case
    by (simp add: pend_items_def pend_room_def pend_ok_def)
qed (simp_all add: pend_call_def pend_room_def)

lemma countDown_hs_queued:
  assumes "cw_cb (swt_cbObj (sw_swt w a)) \<noteq> None"
  shows "countDown_hs a w = countDown pend_call a w"
proof -
  obtain f z where o: "swt_cbObj (sw_swt w a) = \<lparr>cw_cb = Some f, cw_obj = z\<rparr>"
    using assms by (cases "swt_cbObj (sw_swt w a)") auto
  have ret: "GenPool_Return_v1 (\<lambda>_. onRelease_hs) a v = GenPool_Return_v1 (\<lambda>_. onRelease pend_call) a v"
    if "swt_cbObj (sw_swt v a) = \<lparr>cw_cb = Some f, cw_obj = z\<rparr>" for v
    using that by (simp add: GenPool_Return_v1_def GenPool_ReturnGenBuf_def onRelease_hs_def onRelease_def pend_call_def
        split: option.split)
  have trm: "doTimerTerm_hs a v = doTimerTerm pend_call a v" if "swt_cbObj (sw_swt v a) = \<lparr>cw_cb = Some f, cw_obj = z\<rparr>" for v
    using ret [OF that] by (simp add: doTimerTerm_hs_def doTimerTerm_def)
  then show ?thesis
    using o by (auto simp: countDown_hs_def countDown_def Let_def trm) (auto simp: doTimerTerm_def pend_call_def)
qed

lemma runTimers_hs_queued:
  "swt_pool_ok w \<Longrightarrow> swtTimerPool w = p \<Longrightarrow> k + m = 16 \<Longrightarrow> pend_room m w \<Longrightarrow>
   v1_each (\<lambda>b. gb_size b \<noteq> 0) 4 countDown_hs p (swt_cell p k) w =
   v1_each (\<lambda>b. gb_size b \<noteq> 0) 4 (countDown pend_call) p (swt_cell p k) w"
proof (induction m arbitrary: k w)
  case 0
  then have "\<not> swt_cell p k \<le> pl_end (vh_pool w p)"
    by (auto simp: swt_pool_ok_def Let_def swt_cell_def)
  then show ?case
    by (simp add: v1_each.simps [of _ _ _ _ _ w])
next
  case (Suc m)
  have k: "k < 16"
    using Suc.prems by simp
  note turn = queued.sink_turn_ok [OF Suc.prems(1,4) k] queued.sink_turn_step(1,6) [OF Suc.prems(1,4) k]
  have a: "(if gb_size (vh_buf w (swt_cell p k)) \<noteq> 0 then countDown pend_call (swt_cell p k + 4) w else w) = swt_turn pend_call k w"
    using Suc.prems(2) by (simp add: swt_turn_def swt_active_def)
  have cb: "cw_cb (swt_cbObj (sw_swt w (swt_cell p k + 4))) \<noteq> None" if "gb_size (vh_buf w (swt_cell p k)) \<noteq> 0"
    using that Suc.prems(1,2) k by (auto simp: swt_pool_ok_def Let_def)
  have b: "(if gb_size (vh_buf w (swt_cell p k)) \<noteq> 0 then countDown_hs (swt_cell p k + 4) w else w) = swt_turn pend_call k w"
    using a countDown_hs_queued [OF cb] by (cases "gb_size (vh_buf w (swt_cell p k)) = 0") simp_all
  have nxt: "swt_cell p k + pl_cellSize (vh_pool (swt_turn pend_call k w) p) = swt_cell p (Suc k)"
    using turn(1,2) Suc.prems(2) by (simp add: swt_pool_ok_def Let_def swt_cell_def)
  show ?case
    using Suc.IH [OF turn(1)] turn(2,3) Suc.prems(2,3)
    by (subst (1 2) v1_each.simps) (simp add: Let_def a b nxt)
qed

text \<open>A run of the timers queues what the other build calls.\<close>

lemma runTimers_hs_turns:
  assumes "swt_pool_ok w" "pend_room 16 w"
  shows "runTimers_hs (swtTimerPool w) w = Some (fold (swt_turn pend_call) [0..<16] w)"
  using runTimers_hs_queued [OF assms(1) refl, of 0 16] queued.sink_tick [OF assms] assms(2)
  by (simp add: runTimers_hs_def SWT_OnSysTick_def runTimers_def Pool_OnEachActive_def pl_base_def swt_cell_def)

text \<open>Queueing makes no call and does not touch the static wrapper.\<close>

lemma countDown_pend_keeps:
  "swt_world.more (countDown pend_call a w) = swt_world.more w" "sw_run (countDown pend_call a w) = sw_run w"
  by (auto simp: countDown_def doTimerTerm_def GenPool_Return_v1_def GenPool_ReturnGenBuf_def onRelease_def pend_call_def
      ReleaseGenBuf_def upd_buf_def upd_swt_def Let_def split: option.split)

lemma turns_pend_keeps:
  "swt_world.more (fold (swt_turn pend_call) js w) = swt_world.more w" "sw_run (fold (swt_turn pend_call) js w) = sw_run w"
  by (induction js arbitrary: w) (simp_all add: swt_turn_def countDown_pend_keeps)

section \<open>A tick of this build\<close>

text \<open>The pool is in order, nothing is pending, the queue has its 32 slots, and no timer was
  given \<open>runTimers\<close> as its callback.\<close>

definition hs_ready :: "'f \<Rightarrow> ('f, 'z) swt_state \<Rightarrow> bool" where
  "hs_ready rt w \<longleftrightarrow> swt_pool_ok w \<and> pend_room 16 w \<and> pend_items w = [] \<and>
     (cw_cb (sw_run w) = None \<or> sw_run w = \<lparr>cw_cb = Some rt, cw_obj = swtTimerPool w\<rparr>) \<and>
     (\<forall>j < 16. swt_active w j \<longrightarrow> cw_cb (swt_cbObj (swt_timer w j)) \<noteq> Some rt)"

text \<open>The tick, and the pend service when it comes to run.\<close>

definition hs_tick :: "'f \<Rightarrow> ('f, ('f \<times> int) list) swt_state \<Rightarrow> ('f, ('f \<times> int) list) swt_state option" where
  "hs_tick rt w = SWT_PendService (hs_run rt) (SWT_OnSysTick_hs rt w)"

lemma pend_room_mono: "pend_room n w \<Longrightarrow> m \<le> n \<Longrightarrow> pend_room m w"
  by (simp add: pend_room_def)

text \<open>The service takes the queued run of the timers first, and is then left with what that has queued.\<close>

lemma hs_tick_starts:
  assumes "hs_ready rt w"
  obtains v where "hs_tick rt w = SWT_PendService (hs_run rt) (fold (swt_turn pend_call) [0..<16] v)"
    "swt_pool_ok v" "pend_room 16 v" "pend_items v = []" "swtTimerPool v = swtTimerPool w"
    "swt_timer v = swt_timer w" "swt_active v = swt_active w" "swt_world.more v = swt_world.more w"
    "sw_fault v = sw_fault w" "sw_run v = \<lparr>cw_cb = Some rt, cw_obj = swtTimerPool w\<rparr>"
proof -
  let ?r = "\<lparr>cw_cb = Some rt, cw_obj = swtTimerPool w\<rparr>"
  let ?w = "w\<lparr>sw_run := ?r\<rparr>"
  let ?p = "pend_put ?r ?w"
  have "SWT_OnSysTick_hs rt w = pend_put ?r (if cw_cb (sw_run w) = None then ?w else w)"
    and "cw_cb (sw_run w) = None \<or> w = ?w"
    using assms by (auto simp: SWT_OnSysTick_hs_def hs_ready_def Let_def)
  then have tick: "SWT_OnSysTick_hs rt w = ?p"
    by auto
  have room: "pend_room (Suc 15) ?w" and none: "pend_items ?w = []"
    using assms by (simp_all add: hs_ready_def pend_room_def pend_ok_def pend_items_def)
  note put = pend_put_room(1,2) [OF room, of ?r]
  have items: "pend_items ?p = [?r]"
    using put(1) none by simp
  obtain q where q: "GenQ_Get_v1 (Some (pendsvQueue ?p)) = (0, Some [?r], Some q)" "pend_ok (?p\<lparr>pendsvQueue := q\<rparr>)"
    "pend_items (?p\<lparr>pendsvQueue := q\<rparr>) = []" "gq_slots (as_new q) = gq_slots (as_new (pendsvQueue ?p))"
    using pend_get(2) [OF _ items] put(2) by (auto simp: pend_room_def)
  let ?w1 = "?p\<lparr>pendsvQueue := q\<rparr>"
  let ?v = "if sw_pendsv ?w1 then ?w1\<lparr>sw_pendsv := False, rependSvCnt := rependSvCnt ?w1 + 1\<rparr> else ?w1"
  have pool: "swt_pool_ok ?v"
    using assms by (simp add: hs_ready_def swt_pool_ok_def Let_def)
  have room1: "pend_room 16 ?v"
    using q(2-4) put(2) by (simp add: pend_room_def pend_ok_def pend_items_def)
  have "hs_run rt rt (swtTimerPool w) ?v = fold (swt_turn pend_call) [0..<16] ?v"
    using runTimers_hs_turns [OF pool room1] by (auto simp: hs_run_def)
  then have "hs_tick rt w = SWT_PendService (hs_run rt) (fold (swt_turn pend_call) [0..<16] ?v)"
    unfolding hs_tick_def tick using q(1) by (subst SWT_PendService.simps) (simp add: Let_def)
  then show ?thesis
    using q(3) by (intro that [of ?v] pool room1) (auto simp: pend_items_def swt_timer_def swt_active_def fun_eq_iff)
qed

lemma hs_tick_step:
  assumes "hs_ready rt w"
  shows "\<exists>w1. hs_tick rt w = Some w1 \<and> hs_ready rt w1 \<and> swtTimerPool w1 = swtTimerPool w \<and> sw_fault w1 = sw_fault w \<and>
    (\<forall>i. swt_timer w1 i = (if i < 16 \<and> swt_active w i then swt_tick (swt_timer w i) else swt_timer w i)) \<and>
    (\<forall>i. swt_active w1 i \<longleftrightarrow> swt_active w i \<and> \<not> (i < 16 \<and> swt_last (swt_timer w i))) \<and>
    swt_world.more w1 = swt_world.more w @ map (swt_call w) (filter (swt_due w) [0..<16])"
proof -
  obtain v where tick: "hs_tick rt w = SWT_PendService (hs_run rt) (fold (swt_turn pend_call) [0..<16] v)"
    and v: "swt_pool_ok v" "pend_room 16 v" "pend_items v = []" "swtTimerPool v = swtTimerPool w"
      "swt_timer v = swt_timer w" "swt_active v = swt_active w" "swt_world.more v = swt_world.more w"
      "sw_fault v = sw_fault w" "sw_run v = \<lparr>cw_cb = Some rt, cw_obj = swtTimerPool w\<rparr>"
    using hs_tick_starts [OF assms] .
  let ?u = "fold (swt_turn pend_call) [0..<16] v"
  have due: "swt_due v = swt_due w" "swt_call v = swt_call w"
    by (simp_all add: fun_eq_iff swt_due_def swt_call_def v(5,6))
  have u: "swt_pool_ok ?u" "swtTimerPool ?u = swtTimerPool w" "sw_fault ?u = sw_fault w"
    "\<forall>i. swt_timer ?u i = (if i < 16 \<and> swt_active w i then swt_tick (swt_timer w i) else swt_timer w i)"
    "\<forall>i. swt_active ?u i \<longleftrightarrow> swt_active w i \<and> \<not> (i < 16 \<and> swt_last (swt_timer w i))"
    "pend_calls (pend_items ?u) = map (swt_call w) (filter (swt_due w) [0..<16])" "pend_room 0 ?u"
    using queued.sink_turns [OF v(1), of 16 0] v(2-8) by (simp_all add: due pend_calls_def)
  have foreign: "f \<noteq> rt" if "x \<in> set (pend_items ?u)" "cw_cb x = Some f" for x f
  proof -
    have "(f, cw_obj x) \<in> set (pend_calls (pend_items ?u))"
      using that by (force simp: pend_calls_def)
    then obtain j where j: "j < 16" "swt_active w j" "f = the (cw_cb (swt_cbObj (swt_timer w j)))"
      unfolding u(6) by (auto simp: swt_call_def swt_due_def)
    have "cw_cb (swt_cbObj (swt_timer w j)) \<noteq> None" "cw_cb (swt_cbObj (swt_timer w j)) \<noteq> Some rt"
      using assms j(1,2) by (force simp: hs_ready_def swt_pool_ok_def swt_active_def swt_timer_def Let_def)+
    then show ?thesis
      using j(3) by auto
  qed
  obtain w1 where w1: "SWT_PendService (hs_run rt) ?u = Some w1" "pend_ok w1" "pend_items w1 = []"
     "swt_world.more w1 = swt_world.more w @ map (swt_call w) (filter (swt_due w) [0..<16])"
     "sw_swt w1 = sw_swt ?u" "vh_buf w1 = vh_buf ?u" "vh_pool w1 = vh_pool ?u" "swtTimerPool w1 = swtTimerPool w"
     "sw_run w1 = \<lparr>cw_cb = Some rt, cw_obj = swtTimerPool w\<rparr>" "sw_fault w1 = sw_fault w"
     "gq_slots (as_new (pendsvQueue w1)) = gq_slots (as_new (pendsvQueue ?u))"
    using SWT_PendService_drains_like [of ?u _ "hs_run rt", OF _ refl] foreign u(2,3,6,7) v(7,9)
    by (auto simp: hs_run_def fun_eq_iff pend_room_def turns_pend_keeps)
  have timer: "swt_timer w1 = swt_timer ?u" and active: "swt_active w1 = swt_active ?u"
    using w1(5,6,8) u(2) by (simp_all add: fun_eq_iff swt_timer_def swt_active_def)
  have "swt_pool_ok w1"
    using u(1) w1(5-8) u(2) by (simp add: swt_pool_ok_def Let_def)
  moreover have "pend_room 16 w1"
    using u(7) w1(2,3,11) by (simp add: pend_room_def)
  moreover have "cw_cb (swt_cbObj (swt_timer w1 j)) \<noteq> Some rt" if "j < 16" "swt_active w1 j" for j
    using that assms u(4,5) unfolding timer active by (auto simp: hs_ready_def)
  ultimately have "hs_ready rt w1"
    using w1(3,8,9) by (simp add: hs_ready_def)
  then show ?thesis
    using tick w1 u(4,5) by (intro exI [of _ w1]) (simp add: timer active)
qed

text \<open>A run of ticks, each followed by the service.\<close>

primrec hs_ticks :: "'f \<Rightarrow> nat \<Rightarrow> ('f, ('f \<times> int) list) swt_state \<Rightarrow> ('f, ('f \<times> int) list) swt_state option" where
  "hs_ticks rt 0 w = Some w"
| "hs_ticks rt (Suc k) w = Option.bind (hs_ticks rt k w) (hs_tick rt)"

text \<open>A fresh system is ready.\<close>

lemma hs_ready_init:
  fixes w :: "('f, 'z) swt_state"
  assumes "space \<noteq> 0" "cw_cb (sw_run w) = None"
  shows "hs_ready rt (snd (SWT_InitSysTimers space (SWT_FastInit 0 w)))" (is "hs_ready rt ?w")
proof -
  note ok = SWT_Init_ok [OF assms(1), of w]
  let ?q = "(pendsvQueue w)\<lparr>v1_base := 0, v1_next := 0, v1_last := 0, v1_end := 31, v1_objectSize := 1\<rparr>"
  have q: "pendsvQueue ?w = ?q" "sw_run ?w = sw_run w"
    using assms(1) by (simp_all add: SWT_InitSysTimers_def SWT_FastInit_def SWT_MicroSetup_def GenPool_InitWithCallback_def
        SizeUp4_def GenQ_Init_v1_def Let_def)
  have at: "genq_at (as_new ?q) 32 0 0"
    by (simp add: genq_at_def as_new_def)
  have "genq_inv (as_new ?q)" "gq_slots (as_new ?q) = 32" "genq_items (as_new ?q) = []"
    using genq_at_inv [OF at] genq_at_coords [OF at] by (simp_all add: genq_items_def ring_count_def)
  then have "pend_room 16 ?w" "pend_items ?w = []"
    by (simp_all add: pend_room_def pend_ok_def pend_items_def q)
  moreover have "\<not> swt_active ?w j" if "j < 16" for j
    using ok(3) [of j] that by simp
  ultimately show ?thesis
    using ok(1) assms(2) q(2) by (simp add: hs_ready_def swt_ok_def)
qed

text \<open>Arming a timer keeps the system ready.\<close>

lemma hs_ready_arm:
  assumes "hs_ready rt w" "SWT_SysTimerCallback (Some f) n r ctx w = Some (a, w1)" "f \<noteq> rt"
  shows "hs_ready rt w1"
proof -
  have ok: "swt_ok w"
    using assms(1) pend_put_room(3) [of 15 w] by (simp add: hs_ready_def swt_ok_def)
  show ?thesis
  proof (cases a)
    case None
    then show ?thesis
      using SWT_SysTimerCallback_arms [OF ok, where f = f and n = n and r = r and ctx = ctx] assms by simp
  next
    case (Some c)
    then obtain j where j: "j < 16" "swt_ok w1" "swtTimerPool w1 = swtTimerPool w" "pendsvQueue w1 = pendsvQueue w"
        "sw_run w1 = sw_run w" "\<forall>i. swt_active w1 i \<longleftrightarrow> swt_active w i \<or> i = j"
      and t: "\<forall>i. swt_timer w1 i = (if i = j then (swt_timer w j)\<lparr>swt_cbObj := \<lparr>cw_cb = Some f, cw_obj = ctx\<rparr>,
           swt_downCount := n, swt_runCount := r, swt_reloadVal := n\<rparr> else swt_timer w i)"
      using SWT_SysTimerCallback_arms [OF ok, where f = f and n = n and r = r and ctx = ctx] unfolding assms(2)
      by (simp only: option.case prod.case) blast
    have "pend_room 16 w1" "pend_items w1 = []"
      using assms(1) j(4) by (simp_all add: hs_ready_def pend_room_def pend_ok_def pend_items_def)
    moreover have "cw_cb (swt_cbObj (swt_timer w1 i)) \<noteq> Some rt" if "i < 16" "swt_active w1 i" for i
      using that assms(1,3) j(6) t by (auto simp: hs_ready_def)
    ultimately show ?thesis
      using assms(1) j(2,3,5) by (simp add: hs_ready_def swt_ok_def)
  qed
qed

section \<open>Properties\<close>



end
