(* ===== verification/Future.thy ===== *)
theory Future
  imports Prelude
begin

text \<open>
  Callbacks in the future, tied to a free running 32 bit hardware counter: \<^verbatim>\<open>src/src/future.c\<close> and
  \<^verbatim>\<open>future.h\<close>. The counter is a sequence of readings of which every read takes the next; the four
  compare registers and the interrupt mask are part of the state. What the project configures
  elsewhere is a parameter: \<open>n\<close> is \<^verbatim>\<open>BACKGROUND_TIMERS\<close>, \<open>ticks\<close> is \<^verbatim>\<open>TICKS_PER_US\<close>, \<open>start_it\<close> the
  vendor's \<^verbatim>\<open>HAL_TIM_OC_Start_IT\<close> and \<open>irq\<close> what interrupts do at the one point where the background
  is prepared for them. A write through a NULL register pointer is \<open>None\<close>.
\<close>

section \<open>State\<close>

record 'cb bkgCallback_t =
  bk_callback :: "'cb option"
  bk_context :: int
  bk_startTime :: u32
  bk_duration :: u32
  bk_repeat :: i32

record 'cb future_t =
  fu_callback :: "'cb option"
  fu_context :: int
  fu_target :: u32
  fu_hwTarget :: "nat option"

record 'cb fut_world =
  bkgFuture :: "nat \<Rightarrow> 'cb bkgCallback_t"
  isrFuture :: "nat \<Rightarrow> 'cb future_t"
  refOffset :: u32
  fut_ccr :: "nat \<Rightarrow> u32"
  fut_cnt :: "nat \<Rightarrow> u32"
  fut_reads :: nat
  fut_primask :: u32

datatype active_channel =
  HAL_TIM_ACTIVE_CHANNEL_1 | HAL_TIM_ACTIVE_CHANNEL_2 | HAL_TIM_ACTIVE_CHANNEL_3
| HAL_TIM_ACTIVE_CHANNEL_4 | HAL_TIM_ACTIVE_CHANNEL_CLEARED

type_synonym ('cb, 'z) fut_callbacks = "'cb \<Rightarrow> int \<Rightarrow> ('cb, 'z) fut_world_scheme \<Rightarrow> ('cb, 'z) fut_world_scheme"

definition upd_bkg ::
    "nat \<Rightarrow> ('cb bkgCallback_t \<Rightarrow> 'cb bkgCallback_t) \<Rightarrow> ('cb, 'z) fut_world_scheme \<Rightarrow> ('cb, 'z) fut_world_scheme" where
  "upd_bkg i f w = w\<lparr>bkgFuture := (bkgFuture w)(i := f (bkgFuture w i))\<rparr>"

definition upd_fut ::
    "nat \<Rightarrow> ('cb future_t \<Rightarrow> 'cb future_t) \<Rightarrow> ('cb, 'z) fut_world_scheme \<Rightarrow> ('cb, 'z) fut_world_scheme" where
  "upd_fut i f w = w\<lparr>isrFuture := (isrFuture w)(i := f (isrFuture w i))\<rparr>"

section \<open>Operations (future.c)\<close>

definition TimDevGetTimerCount :: "('cb, 'z) fut_world_scheme \<Rightarrow> u32 \<times> ('cb, 'z) fut_world_scheme" where
  "TimDevGetTimerCount w = (fut_cnt w (fut_reads w), w\<lparr>fut_reads := fut_reads w + 1\<rparr>)"

definition IsTimeBkg :: "'cb bkgCallback_t \<Rightarrow> ('cb, 'z) fut_world_scheme \<Rightarrow> bool \<times> ('cb, 'z) fut_world_scheme" where
  "IsTimeBkg bcb w =
     (let (now, w1) = TimDevGetTimerCount w in (now - bk_startTime bcb > bk_duration bcb, w1))"

definition FutureGetRefTime :: "u32 \<Rightarrow> ('cb, 'z) fut_world_scheme \<Rightarrow> u32 \<times> ('cb, 'z) fut_world_scheme" where
  "FutureGetRefTime ticks w = (let (now, w1) = TimDevGetTimerCount w in ((now + refOffset w1) div ticks, w1))"

definition FutureSetRefTime :: "u32 \<Rightarrow> u32 \<Rightarrow> ('cb, 'z) fut_world_scheme \<Rightarrow> ('cb, 'z) fut_world_scheme" where
  "FutureSetRefTime ticks ref w =
     (let (now, w1) = TimDevGetTimerCount w in w1\<lparr>refOffset := ref * ticks - now\<rparr>)"

text \<open>One turn of the background loop, for the slot \<open>i\<close>.\<close>

definition bkg_turn ::
    "('cb, 'z) fut_callbacks \<Rightarrow> (('cb, 'z) fut_world_scheme \<Rightarrow> ('cb, 'z) fut_world_scheme) \<Rightarrow> nat \<Rightarrow>
     ('cb, 'z) fut_world_scheme \<Rightarrow> ('cb, 'z) fut_world_scheme" where
  "bkg_turn run_cb irq i w =
     (if bk_callback (bkgFuture w i) = None then w
      else
        (case IsTimeBkg (bkgFuture w i) w of
           (False, w1) \<Rightarrow> w1
         | (True, w1) \<Rightarrow>
             let w2 = irq w1; pri = fut_primask w2; w3 = w2\<lparr>fut_primask := 1\<rparr> in
             (case bk_callback (bkgFuture w3 i) of
                Some tmpCb \<Rightarrow>
                  let tmp = bk_context (bkgFuture w3 i);
                      w4 = (if bk_repeat (bkgFuture w3 i) <s 0 then w3
                            else if bk_repeat (bkgFuture w3 i) \<noteq> 0
                            then upd_bkg i (\<lambda>b. b\<lparr>bk_repeat := bk_repeat b - 1\<rparr>) w3 else w3);
                      w5 = (if bk_repeat (bkgFuture w4 i) = 0
                            then upd_bkg i (\<lambda>b. b\<lparr>bk_callback := None\<rparr>) w4 else w4)
                  in run_cb tmpCb tmp (w5\<lparr>fut_primask := pri\<rparr>)
              | None \<Rightarrow> w3\<lparr>fut_primask := pri\<rparr>)))"

definition FutureBackground ::
    "('cb, 'z) fut_callbacks \<Rightarrow> (('cb, 'z) fut_world_scheme \<Rightarrow> ('cb, 'z) fut_world_scheme) \<Rightarrow> nat \<Rightarrow>
     ('cb, 'z) fut_world_scheme \<Rightarrow> ('cb, 'z) fut_world_scheme" where
  "FutureBackground run_cb irq n w = fold (bkg_turn run_cb irq) [0..<n] w"

definition FutureIsr ::
    "('cb, 'z) fut_callbacks \<Rightarrow> nat \<Rightarrow> ('cb, 'z) fut_world_scheme \<Rightarrow> ('cb, 'z) fut_world_scheme" where
  "FutureIsr run_cb chan w =
     (case fu_callback (isrFuture w chan) of
        Some tmpCb \<Rightarrow> run_cb tmpCb (fu_context (isrFuture w chan)) (upd_fut chan (\<lambda>f. f\<lparr>fu_callback := None\<rparr>) w)
      | None \<Rightarrow> w)"

text \<open>Interrupts are masked for each test of a slot, and let in between two slots.\<close>

fun bkg_alloc ::
    "nat \<Rightarrow> nat \<Rightarrow> u32 \<Rightarrow> int \<Rightarrow> 'cb option \<Rightarrow> ('cb, 'z) fut_world_scheme \<Rightarrow> nat option \<times> ('cb, 'z) fut_world_scheme" where
  "bkg_alloc 0 i uSec context callback w = (None, w)"
| "bkg_alloc (Suc k) i uSec context callback w =
     (let pri = fut_primask w; w1 = w\<lparr>fut_primask := 1\<rparr> in
      if bk_callback (bkgFuture w1 i) = None then
        let w2 = (upd_bkg i (\<lambda>b. b\<lparr>bk_callback := callback\<rparr>) w1)\<lparr>fut_primask := pri\<rparr>;
            w3 = upd_bkg i (\<lambda>b. b\<lparr>bk_context := context\<rparr>) w2;
            (now, w4) = TimDevGetTimerCount w3
        in (Some i, upd_bkg i (\<lambda>b. b\<lparr>bk_startTime := now, bk_duration := uSec\<rparr>) w4)
      else bkg_alloc k (i + 1) uSec context callback (w1\<lparr>fut_primask := pri\<rparr>))"

definition FutureCallbackBackground ::
    "nat \<Rightarrow> u32 \<Rightarrow> int \<Rightarrow> 'cb option \<Rightarrow> ('cb, 'z) fut_world_scheme \<Rightarrow> nat option \<times> ('cb, 'z) fut_world_scheme" where
  "FutureCallbackBackground n uSec context callback w = bkg_alloc n 0 uSec context callback w"

definition DelayCallback :: "nat \<Rightarrow> u32 \<Rightarrow> ('cb, 'z) fut_world_scheme \<Rightarrow> bool \<times> ('cb, 'z) fut_world_scheme" where
  "DelayCallback bcb delay w =
     (if bk_callback (bkgFuture w bcb) = None then (False, w)
      else let (now, w1) = TimDevGetTimerCount w
           in (True, upd_bkg bcb (\<lambda>b. b\<lparr>bk_startTime := now, bk_duration := delay\<rparr>) w1))"

definition KillCallback :: "nat \<Rightarrow> ('cb, 'z) fut_world_scheme \<Rightarrow> bool \<times> ('cb, 'z) fut_world_scheme" where
  "KillCallback bcb w =
     (bk_callback (bkgFuture w bcb) \<noteq> None, upd_bkg bcb (\<lambda>b. b\<lparr>bk_callback := None\<rparr>) w)"

fun isr_alloc ::
    "(nat \<Rightarrow> ('cb, 'z) fut_world_scheme \<Rightarrow> ('cb, 'z) fut_world_scheme) \<Rightarrow> nat \<Rightarrow> nat \<Rightarrow> u32 \<Rightarrow> int \<Rightarrow> 'cb option \<Rightarrow>
     ('cb, 'z) fut_world_scheme \<Rightarrow> (nat option \<times> ('cb, 'z) fut_world_scheme) option" where
  "isr_alloc start_it 0 i delay context callback w = Some (None, w)"
| "isr_alloc start_it (Suc k) i delay context callback w =
     (let pri = fut_primask w; w1 = w\<lparr>fut_primask := 1\<rparr> in
      if fu_callback (isrFuture w1 i) = None then
        let w2 = upd_fut i (\<lambda>f. f\<lparr>fu_callback := callback\<rparr>) w1;
            (now, w3) = TimDevGetTimerCount w2
        in (case fu_hwTarget (isrFuture w3 i) of
              None \<Rightarrow> None
            | Some r \<Rightarrow>
                let w4 = w3\<lparr>fut_ccr := (fut_ccr w3)(r := now + delay)\<rparr>;
                    w5 = (upd_fut i (\<lambda>f. f\<lparr>fu_context := context\<rparr>) w4)\<lparr>fut_primask := pri\<rparr>;
                    w6 = start_it i w5
                in Some (Some i, upd_fut i (\<lambda>f. f\<lparr>fu_target := fut_ccr w6 r\<rparr>) w6))
      else isr_alloc start_it k (i + 1) delay context callback (w1\<lparr>fut_primask := pri\<rparr>))"

definition FutureCallbackIsr ::
    "(nat \<Rightarrow> ('cb, 'z) fut_world_scheme \<Rightarrow> ('cb, 'z) fut_world_scheme) \<Rightarrow> u32 \<Rightarrow> u32 \<Rightarrow> int \<Rightarrow> 'cb option \<Rightarrow>
     ('cb, 'z) fut_world_scheme \<Rightarrow> (nat option \<times> ('cb, 'z) fut_world_scheme) option" where
  "FutureCallbackIsr start_it ticks uSec context callback w =
     isr_alloc start_it 4 0 (uSec * ticks) context callback w"

definition FutureReset :: "u32 \<Rightarrow> nat \<Rightarrow> u32 \<Rightarrow> ('cb, 'z) fut_world_scheme \<Rightarrow> (bool \<times> ('cb, 'z) fut_world_scheme) option" where
  "FutureReset ticks fut delay w =
     (let pri = fut_primask w; w1 = w\<lparr>fut_primask := 1\<rparr> in
      if fu_callback (isrFuture w1 fut) \<noteq> None then
        let (now, w2) = TimDevGetTimerCount w1; temp = now + delay * ticks in
        (case fu_hwTarget (isrFuture w2 fut) of
           None \<Rightarrow> None
         | Some r \<Rightarrow> Some (True, upd_fut fut (\<lambda>f. f\<lparr>fu_target := temp\<rparr>)
             (w2\<lparr>fut_ccr := (fut_ccr w2)(r := temp), fut_primask := pri\<rparr>)))
      else Some (False, w1\<lparr>fut_primask := pri\<rparr>))"

definition FutureKill :: "nat \<Rightarrow> ('cb, 'z) fut_world_scheme \<Rightarrow> bool \<times> ('cb, 'z) fut_world_scheme" where
  "FutureKill fut w =
     (let pri = fut_primask w; w1 = w\<lparr>fut_primask := 1\<rparr> in
      if fu_callback (isrFuture w1 fut) \<noteq> None
      then (True, (upd_fut fut (\<lambda>f. f\<lparr>fu_callback := None\<rparr>) w1)\<lparr>fut_primask := pri\<rparr>)
      else (False, w1\<lparr>fut_primask := pri\<rparr>))"

definition InitFuture :: "nat \<Rightarrow> ('cb, 'z) fut_world_scheme \<Rightarrow> ('cb, 'z) fut_world_scheme" where
  "InitFuture n w = w\<lparr>
     isrFuture := (\<lambda>i. if i < 4 then \<lparr>fu_callback = None, fu_context = 0, fu_target = 0, fu_hwTarget = Some (i + 1)\<rparr>
                       else isrFuture w i),
     bkgFuture := (\<lambda>i. if i < n then \<lparr>bk_callback = None, bk_context = 0, bk_startTime = 0, bk_duration = 0, bk_repeat = 0\<rparr>
                       else bkgFuture w i)\<rparr>"

definition HAL_TIM_OC_DelayElapsedCallback ::
    "('cb, 'z) fut_callbacks \<Rightarrow> active_channel \<Rightarrow> ('cb, 'z) fut_world_scheme \<Rightarrow> ('cb, 'z) fut_world_scheme" where
  "HAL_TIM_OC_DelayElapsedCallback run_cb chan w =
     (case chan of
        HAL_TIM_ACTIVE_CHANNEL_1 \<Rightarrow> FutureIsr run_cb 0 w
      | HAL_TIM_ACTIVE_CHANNEL_2 \<Rightarrow> FutureIsr run_cb 1 w
      | HAL_TIM_ACTIVE_CHANNEL_3 \<Rightarrow> FutureIsr run_cb 2 w
      | HAL_TIM_ACTIVE_CHANNEL_4 \<Rightarrow> FutureIsr run_cb 3 w
      | _ \<Rightarrow> w)"

section \<open>Reference time\<close>

text \<open>A reference time that has been set is read back, later by the full microseconds that have passed,
  as long as the counter with its offset has not wrapped around.\<close>

lemma ref_time_roundtrip:
  assumes "FutureSetRefTime ticks ref w = w1" "fut_reads w1 = r" "0 < ticks"
    and "fut_cnt w1 r = fut_cnt w (fut_reads w) + of_nat k"
    and "unat ref * unat ticks + k < 2 ^ 32"
  shows "unat (fst (FutureGetRefTime ticks w1)) = unat ref + k div unat ticks"
proof -
  have "fst (FutureGetRefTime ticks w1) = (ref * ticks + of_nat k) div ticks"
    using assms(1,2,4)
    by (auto simp: FutureSetRefTime_def FutureGetRefTime_def TimDevGetTimerCount_def algebra_simps)
  moreover have "unat (ref * ticks + of_nat k) = unat ref * unat ticks + k"
    using assms(5) unat_of_nat [where 'a = 32, of "unat ref * unat ticks + k"] by simp
  ultimately show ?thesis
    using assms(3) by (simp add: unat_div word_gt_0 unat_gt_0 algebra_simps)
qed

section \<open>Interrupt futures\<close>

text \<open>A channel interrupt calls what is armed, once; a killed future is not called.\<close>

lemma FutureIsr_once:
  assumes "fu_callback (isrFuture w chan) = Some cb"
  shows "\<exists>w1. FutureIsr run_cb chan w = run_cb cb (fu_context (isrFuture w chan)) w1 \<and>
    fu_callback (isrFuture w1 chan) = None \<and> FutureIsr run_cb chan w1 = w1"
  by (intro exI conjI) (auto simp: FutureIsr_def assms upd_fut_def)

lemma FutureKill_wins: "FutureIsr run_cb fut (snd (FutureKill fut w)) = snd (FutureKill fut w)"
  by (auto simp: FutureKill_def FutureIsr_def upd_fut_def Let_def split: option.splits)

lemma FutureKill_answer:
  "fst (FutureKill fut w) \<longleftrightarrow> fu_callback (isrFuture w fut) \<noteq> None"
  "fut_primask (snd (FutureKill fut w)) = fut_primask w"
  "fu_callback (isrFuture (snd (FutureKill fut w)) fut) = None"
  by (auto simp: FutureKill_def upd_fut_def Let_def)

text \<open>A channel that is handed out was free, is the first such, and its compare register is set to
  the scaled delay from now; with none free the answer is NULL and nothing has changed.\<close>

lemma isr_alloc_first_free:
  assumes "isr_alloc (\<lambda>_ w. w) k i delay ctx callback w = Some (res, w1)" "\<And>j. j < 4 \<Longrightarrow> fu_hwTarget (isrFuture w j) = Some (j + 1)"
    "i + k \<le> 4"
  shows "case res of
      None \<Rightarrow> (\<forall>j. i \<le> j \<and> j < i + k \<longrightarrow> fu_callback (isrFuture w j) \<noteq> None) \<and> w1 = w
    | Some c \<Rightarrow> i \<le> c \<and> c < i + k \<and> fu_callback (isrFuture w c) = None \<and>
        (\<forall>j. i \<le> j \<and> j < c \<longrightarrow> fu_callback (isrFuture w j) \<noteq> None) \<and>
        fu_callback (isrFuture w1 c) = callback \<and> fu_context (isrFuture w1 c) = ctx \<and>
        fut_ccr w1 (c + 1) = fut_cnt w (fut_reads w) + delay \<and> fu_target (isrFuture w1 c) = fut_ccr w1 (c + 1) \<and>
        (\<forall>j. j \<noteq> c \<longrightarrow> isrFuture w1 j = isrFuture w j) \<and> fut_primask w1 = fut_primask w"
  using assms
proof (induction k arbitrary: i)
  case 0
  then show ?case
    by auto
next
  case (Suc k)
  show ?case
  proof (cases "fu_callback (isrFuture w i) = None")
    case True
    then show ?thesis
      using Suc.prems by (auto simp: Let_def TimDevGetTimerCount_def upd_fut_def)
  next
    case False
    then have "isr_alloc (\<lambda>_ w. w) k (i + 1) delay ctx callback w = Some (res, w1)"
      using Suc.prems(1) by (auto simp: Let_def)
    from Suc.IH [OF this Suc.prems(2)] Suc.prems(3) False show ?thesis
      by (cases res) (auto, (metis Suc_leI le_neq_implies_less)+)
  qed
qed

section \<open>Background futures\<close>

abbreviation bkg_active :: "('cb, 'z) fut_world_scheme \<Rightarrow> nat \<Rightarrow> bool" where
  "bkg_active w i \<equiv> bk_callback (bkgFuture w i) \<noteq> None"

text \<open>Whether the slot is due in the pass that starts here: every active slot before it takes a reading.\<close>

definition bkg_due :: "('cb, 'z) fut_world_scheme \<Rightarrow> nat \<Rightarrow> bool" where
  "bkg_due w i \<longleftrightarrow> bkg_active w i \<and>
     fut_cnt w (fut_reads w + length (filter (bkg_active w) [0..<i])) - bk_startTime (bkgFuture w i) >
       bk_duration (bkgFuture w i)"

definition fut_log :: "('cb, ('cb \<times> int) list) fut_callbacks" where
  "fut_log cb ctx w = fut_world.more_update (\<lambda>l. l @ [(cb, ctx)]) w"

definition bkg_calls :: "('cb, 'z) fut_world_scheme \<Rightarrow> nat \<Rightarrow> ('cb \<times> int) list" where
  "bkg_calls w k = map (\<lambda>i. (the (bk_callback (bkgFuture w i)), bk_context (bkgFuture w i))) (filter (bkg_due w) [0..<k])"

definition bkg_passed :: "nat \<Rightarrow> ('cb, ('cb \<times> int) list) fut_world_scheme \<Rightarrow> ('cb, ('cb \<times> int) list) fut_world_scheme" where
  "bkg_passed k w = fut_world.more_update (\<lambda>l. l @ bkg_calls w k)
     (w\<lparr>bkgFuture := (\<lambda>i. if i < k \<and> bkg_due w i then (bkgFuture w i)\<lparr>bk_callback := None\<rparr> else bkgFuture w i),
        fut_reads := fut_reads w + length (filter (bkg_active w) [0..<k])\<rparr>)"

lemma bkg_passed_simps:
  "bkgFuture (bkg_passed k w) = (\<lambda>i. if i < k \<and> bkg_due w i then (bkgFuture w i)\<lparr>bk_callback := None\<rparr> else bkgFuture w i)"
  "fut_reads (bkg_passed k w) = fut_reads w + length (filter (bkg_active w) [0..<k])"
  "fut_cnt (bkg_passed k w) = fut_cnt w"
  "fut_primask (bkg_passed k w) = fut_primask w"
  "fut_world.more (bkg_passed k w) = fut_world.more w @ bkg_calls w k"
  by (simp_all add: bkg_passed_def)

lemma bkg_passed_Suc:
  "bkg_passed (Suc k) w =
    (if \<not> bkg_active w k then bkg_passed k w
     else
       let w1 = (bkg_passed k w)\<lparr>fut_reads := fut_reads (bkg_passed k w) + 1\<rparr> in
       if bkg_due w k
       then fut_log (the (bk_callback (bkgFuture w k))) (bk_context (bkgFuture w k))
              (upd_bkg k (\<lambda>b. b\<lparr>bk_callback := None\<rparr>) w1)
       else w1)"
proof -
  have "bkg_active w k" if "bkg_due w k"
    using that by (simp add: bkg_due_def)
  then show ?thesis
    by (intro fut_world.equality)
      (auto simp: bkg_passed_def bkg_calls_def upd_bkg_def fut_log_def less_Suc_eq fun_eq_iff Let_def)
qed

lemma bkg_turn_pass:
  assumes "bk_repeat (bkgFuture w k) = 0"
  shows "bkg_turn fut_log (\<lambda>w. w) k (bkg_passed k w) = bkg_passed (Suc k) w"
proof -
  let ?w = "bkg_passed k w"
  have b: "bkgFuture ?w k = bkgFuture w k"
    by (simp add: bkg_passed_simps)
  show ?thesis
  proof (cases "bk_callback (bkgFuture w k)")
    case None
    then show ?thesis
      by (simp add: bkg_turn_def bkg_passed_Suc b)
  next
    case (Some cb)
    then have t: "IsTimeBkg (bkgFuture w k) ?w = (bkg_due w k, ?w\<lparr>fut_reads := fut_reads ?w + 1\<rparr>)"
      by (simp add: IsTimeBkg_def TimDevGetTimerCount_def bkg_due_def bkg_passed_simps)
    show ?thesis
      using Some assms
      by (simp add: bkg_turn_def bkg_passed_Suc b t Let_def upd_bkg_def)
  qed
qed

lemma FutureBackground_pass:
  assumes "\<And>i. i < n \<Longrightarrow> bk_repeat (bkgFuture w i) = 0"
  shows "FutureBackground fut_log (\<lambda>w. w) n w = bkg_passed n w"
  using assms
proof (induction n)
  case 0
  then show ?case
    by (simp add: FutureBackground_def bkg_passed_def bkg_calls_def)
next
  case (Suc n)
  then show ?case
    using bkg_turn_pass [of w n] by (simp add: FutureBackground_def)
qed

text \<open>No operation sets the repeat count, so it stays 0 in every slot from \<open>InitFuture\<close> on.\<close>

lemma bkg_repeat_kept:
  "bk_repeat (bkgFuture (snd (bkg_alloc k i uSec ctx callback w)) j) = bk_repeat (bkgFuture w j)"
  "bk_repeat (bkgFuture (snd (DelayCallback s delay w)) j) = bk_repeat (bkgFuture w j)"
  "bk_repeat (bkgFuture (snd (KillCallback s w)) j) = bk_repeat (bkgFuture w j)"
  "j < n \<Longrightarrow> bk_repeat (bkgFuture (InitFuture n w) j) = 0"
proof -
  show "bk_repeat (bkgFuture (snd (bkg_alloc k i uSec ctx callback w)) j) = bk_repeat (bkgFuture w j)"
    by (induction k i uSec ctx callback w rule: bkg_alloc.induct)
      (auto simp: Let_def upd_bkg_def TimDevGetTimerCount_def)
qed (auto simp: DelayCallback_def KillCallback_def InitFuture_def upd_bkg_def TimDevGetTimerCount_def)

text \<open>An interrupt that kills the callback between the test and the lock wins.\<close>

lemma bkg_kill_wins:
  "fut_world.more (bkg_turn fut_log (\<lambda>w. snd (KillCallback i w)) i w) = fut_world.more w"
  by (auto simp: bkg_turn_def KillCallback_def IsTimeBkg_def TimDevGetTimerCount_def upd_bkg_def Let_def
      split: prod.splits bool.splits)

lemma bkg_alloc_more: "fut_world.more (snd (bkg_alloc k i uSec ctx callback w)) = fut_world.more w"
  by (induction k i uSec ctx callback w rule: bkg_alloc.induct) (auto simp: Let_def upd_bkg_def TimDevGetTimerCount_def)

text \<open>A slot that is handed out was free and is armed with the delay as it was given.\<close>

lemma bkg_alloc_first_free:
  assumes "bkg_alloc k i uSec ctx callback w = (res, w1)"
  shows "case res of
      None \<Rightarrow> (\<forall>j. i \<le> j \<and> j < i + k \<longrightarrow> bkg_active w j) \<and> w1 = w
    | Some c \<Rightarrow> i \<le> c \<and> c < i + k \<and> \<not> bkg_active w c \<and> (\<forall>j. i \<le> j \<and> j < c \<longrightarrow> bkg_active w j) \<and>
        bkgFuture w1 = (bkgFuture w)(c := (bkgFuture w c)\<lparr>bk_callback := callback, bk_context := ctx,
          bk_startTime := fut_cnt w (fut_reads w), bk_duration := uSec\<rparr>) \<and>
        fut_reads w1 = fut_reads w + 1 \<and> fut_cnt w1 = fut_cnt w \<and> fut_primask w1 = fut_primask w"
  using assms
proof (induction k arbitrary: i)
  case (Suc k)
  show ?case
  proof (cases "bkg_active w i")
    case False
    then show ?thesis
      using Suc.prems by (auto simp: Let_def TimDevGetTimerCount_def upd_bkg_def)
  next
    case True
    then have "bkg_alloc k (i + 1) uSec ctx callback w = (res, w1)"
      using Suc.prems by (auto simp: Let_def)
    from Suc.IH [OF this] True show ?thesis
      by (cases res) (auto, (metis Suc_leI le_neq_implies_less)+)
  qed
qed auto

section \<open>Properties\<close>

text \<open> C39. Background callbacks fire once each: when \<open>FutureCallbackBackground\<close> arms a slot of a table whose
  repeat counts are 0 (no operation changes them), the next pass calls exactly the callbacks whose
  delay has been exceeded, in the order of the slots and each with its own context, and frees
  exactly their slots; the new callback is among them iff more than \<open>uSec\<close> counter ticks, not
  microseconds, have gone by since it was armed. \<close>

theorem FutureBackground_fires_due:
  fixes w :: "('cb, ('cb \<times> int) list) fut_world_scheme"
  assumes "FutureCallbackBackground n uSec ctx (Some cb) w = (Some c, w1)"
    and "\<forall>i < n. bk_repeat (bkgFuture w i) = 0"
  shows "(let w2 = FutureBackground fut_log (\<lambda>w. w) n w1 in
      fut_world.more w2 = fut_world.more w @
        map (\<lambda>i. (the (bk_callback (bkgFuture w1 i)), bk_context (bkgFuture w1 i))) (filter (bkg_due w1) [0..<n]) \<and>
      (\<forall>i < n. bkgFuture w2 i =
        (if bkg_due w1 i then (bkgFuture w1 i)\<lparr>bk_callback := None\<rparr> else bkgFuture w1 i)) \<and>
      fut_primask w2 = fut_primask w) \<and>
    c < n \<and> bk_callback (bkgFuture w c) = None \<and> (bk_callback (bkgFuture w1 c), bk_context (bkgFuture w1 c)) = (Some cb, ctx) \<and>
    (bkg_due w1 c \<longleftrightarrow> uSec < fut_cnt w (fut_reads w1 + c) - fut_cnt w (fut_reads w))"
proof -
  have alloc: "bkg_alloc n 0 uSec ctx (Some cb) w = (Some c, w1)"
    using assms(1) by (simp add: FutureCallbackBackground_def)
  note a = bkg_alloc_first_free [OF alloc, simplified]
  have more: "fut_world.more w1 = fut_world.more w"
    using bkg_alloc_more [of n 0 uSec ctx "Some cb" w] alloc by simp
  have "bk_repeat (bkgFuture w1 i) = 0" if "i < n" for i
    using that assms(2) bkg_repeat_kept(1) [of n 0 uSec ctx "Some cb" w i] alloc by simp
  note pass = FutureBackground_pass [OF this]
  have "filter (bkg_active w1) [0..<c] = [0..<c]"
    using a by (auto simp: filter_id_conv)
  then show ?thesis
    using a more by (auto simp: pass bkg_passed_simps bkg_calls_def bkg_due_def Let_def)
qed

definition demo_fut :: "u32 \<Rightarrow> (nat, (nat \<times> int) list) fut_world_scheme" where
  "demo_fut now = snd (FutureCallbackBackground 2 9 70 (Some 7)
     (InitFuture 2 (fut_world.extend
       \<lparr>bkgFuture = \<lambda>_. \<lparr>bk_callback = Some 0, bk_context = 0, bk_startTime = 0, bk_duration = 0, bk_repeat = 3\<rparr>,
        isrFuture = \<lambda>_. \<lparr>fu_callback = None, fu_context = 0, fu_target = 0, fu_hwTarget = None\<rparr>,
        refOffset = 0, fut_ccr = \<lambda>_. 0, fut_cnt = (\<lambda>i. if i < 2 then -5 else now),
        fut_reads = 0, fut_primask = 0\<rparr> [])))"

text \<open>The second of two slots, armed across the wrap-around of the counter: the first slot fires.\<close>

theorem FutureBackground_fires_due_witness:
  "\<exists>w1. FutureCallbackBackground 2 20 80 (Some 8) (demo_fut 5) = (Some 1, w1) \<and>
    fut_world.more (FutureBackground fut_log (\<lambda>w. w) 2 w1) = [(7, 70)]"
proof -
  let ?w = "demo_fut 5"
  have w: "bkgFuture ?w 0 = \<lparr>bk_callback = Some 7, bk_context = 70, bk_startTime = -5, bk_duration = 9, bk_repeat = 0\<rparr>"
      "bkgFuture ?w 1 = \<lparr>bk_callback = None, bk_context = 0, bk_startTime = 0, bk_duration = 0, bk_repeat = 0\<rparr>"
      "fut_reads ?w = 1" "fut_world.more ?w = []" "fut_cnt ?w = (\<lambda>i. if i < 2 then -5 else 5)"
    by (simp_all add: demo_fut_def FutureCallbackBackground_def InitFuture_def numeral_2_eq_2 Let_def
        TimDevGetTimerCount_def upd_bkg_def fut_world.defs)
  obtain w1 where w1: "FutureCallbackBackground 2 20 80 (Some 8) ?w = (Some 1, w1)"
      "bkgFuture w1 = (bkgFuture ?w)(1 := \<lparr>bk_callback = Some 8, bk_context = 80, bk_startTime = -5, bk_duration = 20, bk_repeat = 0\<rparr>)"
      "fut_reads w1 = 2" "fut_cnt w1 = fut_cnt ?w"
    using w by (auto simp: FutureCallbackBackground_def numeral_2_eq_2 Let_def TimDevGetTimerCount_def upd_bkg_def)
  have "bkg_due w1 0" "\<not> bkg_due w1 1"
    using w w1(2-4) by (simp_all add: bkg_due_def)
  then have "filter (bkg_due w1) [0..<2] = [0]"
    by (simp add: numeral_2_eq_2)
  with FutureBackground_fires_due [OF w1(1)] w w1 show ?thesis
    by (auto simp: less_2_cases_iff Let_def)
qed

end
