(* ===== verification/TaskService.thy ===== *)
theory TaskService
  imports GeneralQueue
begin

text \<open>
  The prioritised background tasks of \<^verbatim>\<open>src/src/taskServiceClass.c\<close>/\<^verbatim>\<open>.h\<close> and their
  single-instance wrapper \<^verbatim>\<open>taskService.c\<close>/\<^verbatim>\<open>.h\<close>. A task master record is a header
  (8 bytes at address \<open>tm_addr\<close>) followed by 12 byte table entries; a task handle is the address of
  its entry, and \<open>tm_entry\<close> is what memory holds at each address read as an entry. A task is a value
  of type \<open>'f\<close>; the argument \<open>run\<close> says what running it does to the record (\<open>None\<close>: it does not
  return), a queue pointer is a handle into \<open>tm_queue\<close>. \<open>None\<close> as result is an endless loop or a
  dereference of NULL.
\<close>

section \<open>State\<close>

record 'f taskTableEntry_t =
  te_q :: "nat option"
  te_task :: "'f option"
  te_scheduled :: u16

record 'f taskMasterRecord_t =
  tm_runningTask :: int
  tm_lowestYielding :: int
  tm_nextInTable :: int
  tm_ttLen :: u8
  tm_addr :: int
  tm_entry :: "int \<Rightarrow> 'f taskTableEntry_t"
  tm_queue :: "nat \<Rightarrow> u8 genQ_t"

abbreviation TSC_BadParameter :: int where "TSC_BadParameter \<equiv> -10"
abbreviation TSC_TableFull :: int where "TSC_TableFull \<equiv> -9"
abbreviation TSC_NoTable :: int where "TSC_NoTable \<equiv> -8"
abbreviation TSC_TaskNotDefined :: int where "TSC_TaskNotDefined \<equiv> -7"
abbreviation TSC_IllegalCall :: int where "TSC_IllegalCall \<equiv> -6"
abbreviation TSC_OK :: int where "TSC_OK \<equiv> 0"
abbreviation sizeof_tmr :: int where "sizeof_tmr \<equiv> 8"
abbreviation sizeof_entry :: int where "sizeof_entry \<equiv> 12"

definition tt_at :: "('f, 'z) taskMasterRecord_t_scheme \<Rightarrow> int \<Rightarrow> int" where
  "tt_at tm i = tm_addr tm + sizeof_tmr + sizeof_entry * i"

definition upd_entry ::
    "int \<Rightarrow> ('f taskTableEntry_t \<Rightarrow> 'f taskTableEntry_t) \<Rightarrow> ('f, 'z) taskMasterRecord_t_scheme \<Rightarrow>
     ('f, 'z) taskMasterRecord_t_scheme" where
  "upd_entry a f tm = tm\<lparr>tm_entry := (tm_entry tm)(a := f (tm_entry tm a))\<rparr>"

type_synonym ('f, 'z) task_fun =
  "'f \<Rightarrow> ('f, 'z) taskMasterRecord_t_scheme \<Rightarrow> ('f, 'z) taskMasterRecord_t_scheme option"

section \<open>Setting up\<close>

definition TSC_InitGetSize :: "int \<Rightarrow> int" where
  "TSC_InitGetSize expectedTasks = sizeof_tmr + sizeof_entry * expectedTasks"

text \<open>\<open>ttLen\<close> has 8 bits; the second result is the record \<open>*tmrp\<close> ends up pointing to.\<close>

definition TSC_Init ::
    "int \<Rightarrow> nat \<Rightarrow> ('f, 'z) taskMasterRecord_t_scheme \<Rightarrow> int \<times> ('f, 'z) taskMasterRecord_t_scheme option" where
  "TSC_Init allocatedTableSpace sizeOfTableSpace mem =
     (if int sizeOfTableSpace < sizeof_tmr + sizeof_entry then (0, Some mem)
      else
        let temp = (int sizeOfTableSpace - sizeof_tmr) div sizeof_entry in
        if temp \<noteq> 0 then
          (temp, Some (mem\<lparr>tm_nextInTable := 0, tm_runningTask := -1, tm_lowestYielding := 0,
             tm_ttLen := word_of_int temp, tm_addr := allocatedTableSpace,
             tm_entry := (\<lambda>a. if allocatedTableSpace \<le> a \<and> a < allocatedTableSpace + int sizeOfTableSpace
                then \<lparr>te_q = None, te_task = None, te_scheduled = 0\<rparr> else tm_entry mem a)\<rparr>))
        else (temp, None))"

definition TSC_AddTaskWithQueue ::
    "'f option \<Rightarrow> nat option \<Rightarrow> ('f, 'z) taskMasterRecord_t_scheme \<Rightarrow> int \<times> ('f, 'z) taskMasterRecord_t_scheme" where
  "TSC_AddTaskWithQueue task q tm =
     (if tm_nextInTable tm \<ge> uint (tm_ttLen tm) then (TSC_TableFull, tm)
      else
        let te = tt_at tm (tm_nextInTable tm);
            tm1 = (if tm_lowestYielding tm = tm_nextInTable tm
                   then tm\<lparr>tm_lowestYielding := tm_lowestYielding tm + 1\<rparr> else tm);
            tm2 = tm1\<lparr>tm_nextInTable := tm_nextInTable tm1 + 1\<rparr>
        in (te, upd_entry te (\<lambda>e. e\<lparr>te_task := task, te_q := q, te_scheduled := 0\<rparr>) tm2))"

definition TSC_AddTask ::
    "'f option \<Rightarrow> ('f, 'z) taskMasterRecord_t_scheme \<Rightarrow> int \<times> ('f, 'z) taskMasterRecord_t_scheme" where
  "TSC_AddTask task tm =
     (if tm_nextInTable tm \<ge> uint (tm_ttLen tm) then (TSC_TableFull, tm)
      else
        let te = tt_at tm (tm_nextInTable tm);
            tm1 = (if tm_lowestYielding tm = tm_nextInTable tm
                   then tm\<lparr>tm_lowestYielding := tm_lowestYielding tm + 1\<rparr> else tm);
            tm2 = tm1\<lparr>tm_nextInTable := tm_nextInTable tm1 + 1\<rparr>
        in (te, upd_entry te (\<lambda>e. e\<lparr>te_task := task, te_q := None, te_scheduled := 0\<rparr>) tm2))"

section \<open>Signals and data\<close>

definition bad_handle :: "int \<Rightarrow> ('f, 'z) taskMasterRecord_t_scheme \<Rightarrow> bool" where
  "bad_handle te tm \<longleftrightarrow> te < tt_at tm 0 \<or> te > tt_at tm (tm_nextInTable tm - 1)"

definition TSC_SignalTask ::
    "int \<Rightarrow> ('f, 'z) taskMasterRecord_t_scheme \<Rightarrow> int \<times> ('f, 'z) taskMasterRecord_t_scheme" where
  "TSC_SignalTask te tm =
     (if bad_handle te tm then (TSC_TaskNotDefined, tm)
      else (TSC_OK, upd_entry te (\<lambda>e. e\<lparr>te_scheduled := USAT_INC_narrow (te_scheduled e)\<rparr>) tm))"

text \<open>Putting to a task without queue passes NULL on, which the queue dereferences: \<open>None\<close>.\<close>

definition TSC_Put ::
    "int \<Rightarrow> u8 list \<Rightarrow> ('f, 'z) taskMasterRecord_t_scheme \<Rightarrow> (int \<times> ('f, 'z) taskMasterRecord_t_scheme) option" where
  "TSC_Put te val tm =
     (if bad_handle te tm then Some (TSC_TaskNotDefined, tm)
      else
        let tm1 = upd_entry te (\<lambda>e. e\<lparr>te_scheduled := USAT_INC_narrow (te_scheduled e)\<rparr>) tm in
        case te_q (tm_entry tm1 te) of
          None \<Rightarrow> None
        | Some k \<Rightarrow> (case GenQ_Put_v1 (Some (tm_queue tm1 k)) val of
              None \<Rightarrow> None
            | Some (r, q) \<Rightarrow> Some (r, tm1\<lparr>tm_queue := (tm_queue tm1)(k := q)\<rparr>)))"

definition TSC_Get ::
    "('f, 'z) taskMasterRecord_t_scheme \<Rightarrow> int \<times> u8 list option \<times> ('f, 'z) taskMasterRecord_t_scheme" where
  "TSC_Get tm =
     (if tm_runningTask tm < 0 then (TSC_IllegalCall, None, tm)
      else case te_q (tm_entry tm (tt_at tm (tm_runningTask tm))) of
             None \<Rightarrow> (fst (GenQ_Get_v1 (None :: u8 genQ_t option)), None, tm)
           | Some k \<Rightarrow> (case GenQ_Get_v1 (Some (tm_queue tm k)) of
                 (r, v, Some q) \<Rightarrow> (r, v, tm\<lparr>tm_queue := (tm_queue tm)(k := q)\<rparr>)
               | (r, v, None) \<Rightarrow> (r, v, tm)))"

definition TSC_Test :: "('f, 'z) taskMasterRecord_t_scheme \<Rightarrow> int \<times> ('f, 'z) taskMasterRecord_t_scheme" where
  "TSC_Test tm =
     (if tm_runningTask tm < 0 then (TSC_IllegalCall, tm)
      else let te = tt_at tm (tm_runningTask tm); val = uint (te_scheduled (tm_entry tm te))
           in (val, upd_entry te (\<lambda>e. e\<lparr>te_scheduled := 0\<rparr>) tm))"

definition TSC_GetQueueObject :: "int \<Rightarrow> ('f, 'z) taskMasterRecord_t_scheme \<Rightarrow> nat option" where
  "TSC_GetQueueObject te tm = (if bad_handle te tm then None else te_q (tm_entry tm te))"

section \<open>The task loop\<close>

text \<open>
  The \<open>for\<close> loop of \<open>TSC_DoTasks\<close> from \<open>runningTask = i\<close>: it runs the first scheduled task and
  breaks (\<open>True\<close>), or ends with \<open>runningTask\<close> at its limit (\<open>False\<close>).
\<close>

function tsc_for ::
    "('f, 'z) task_fun \<Rightarrow> int \<Rightarrow> ('f, 'z) taskMasterRecord_t_scheme \<Rightarrow>
     (bool \<times> ('f, 'z) taskMasterRecord_t_scheme) option" where
  "tsc_for run i tm =
     (if i < tm_lowestYielding tm then
        let te = tt_at tm i in
        if te_scheduled (tm_entry tm te) \<noteq> 0 then
          let tm1 = upd_entry te (\<lambda>e. e\<lparr>te_scheduled := 0\<rparr>) (tm\<lparr>tm_runningTask := i\<rparr>) in
          (case te_task (tm_entry tm1 te) of
             None \<Rightarrow> Some (True, tm1)
           | Some f \<Rightarrow> (case run f tm1 of None \<Rightarrow> None | Some tm2 \<Rightarrow> Some (True, tm2)))
        else tsc_for run (i + 1) tm
      else Some (False, tm\<lparr>tm_runningTask := i\<rparr>))"
  by pat_completeness auto
termination
  by (relation "measure (\<lambda>(run, i, tm). nat (tm_lowestYielding tm - i))") auto

declare tsc_for.simps [simp del]

partial_function (option) TSC_DoTasks ::
    "('f, 'z) task_fun \<Rightarrow> ('f, 'z) taskMasterRecord_t_scheme \<Rightarrow> ('f, 'z) taskMasterRecord_t_scheme option" where
  "TSC_DoTasks run tm = (case tsc_for run 0 tm of
     None \<Rightarrow> None
   | Some (again, tm') \<Rightarrow> if again then TSC_DoTasks run tm' else Some tm')"

declare TSC_DoTasks.simps [code]

text \<open>The last assignment of \<open>TSC_Yield\<close> goes to its local copy, which is not used again.\<close>

definition TSC_Yield ::
    "('f, 'z) task_fun \<Rightarrow> ('f, 'z) taskMasterRecord_t_scheme \<Rightarrow> ('f, 'z) taskMasterRecord_t_scheme option" where
  "TSC_Yield run tm =
     (if tm_runningTask tm \<le> 0 then Some tm
      else
        let running = tm_runningTask tm; lowest = tm_lowestYielding tm in
        case TSC_DoTasks run (tm\<lparr>tm_lowestYielding := running, tm_runningTask := -1\<rparr>) of
          None \<Rightarrow> None
        | Some tm' \<Rightarrow> Some (tm'\<lparr>tm_runningTask := running, tm_lowestYielding := lowest\<rparr>))"

text \<open>
  The loop calls tasks that may yield, and a yield is the loop again. To define a task set that does,
  as a \<open>partial_function\<close>, loop and yield must be monotone in what running a task does: where more task runs
  return, nothing that returned before changes.
\<close>

lemma tsc_for_mono:
  assumes le: "\<And>f s. option_ord (g f s) (h f s)"
  shows "option_ord (tsc_for g i tm) (tsc_for h i tm)"
proof (induction "nat (tm_lowestYielding tm - i)" arbitrary: i rule: less_induct)
  case less
  let ?te = "tt_at tm i"
  let ?tm = "upd_entry ?te (\<lambda>e. e\<lparr>te_scheduled := 0\<rparr>) (tm\<lparr>tm_runningTask := i\<rparr>)"
  consider (off) "\<not> i < tm_lowestYielding tm" | (skip) "i < tm_lowestYielding tm" "te_scheduled (tm_entry tm ?te) = 0"
    | (none) "i < tm_lowestYielding tm" "te_scheduled (tm_entry tm ?te) \<noteq> 0" "te_task (tm_entry ?tm ?te) = None"
    | (run) f where "i < tm_lowestYielding tm" "te_scheduled (tm_entry tm ?te) \<noteq> 0" "te_task (tm_entry ?tm ?te) = Some f"
    by (cases "te_task (tm_entry ?tm ?te)") auto
  then show ?case
  proof cases
    case skip
    then show ?thesis
      using less.hyps [of "i + 1"] by (subst (1 2) tsc_for.simps) simp
  next
    case (run f)
    then show ?thesis
      using le [of f ?tm] by (subst (1 2) tsc_for.simps) (auto simp: flat_ord_def Let_def)
  qed (subst (1 2) tsc_for.simps, simp add: flat_ord_def Let_def)+
qed

lemma TSC_DoTasks_mono:
  assumes le: "\<And>f s. option_ord (g f s) (h f s)"
  shows "option_ord (TSC_DoTasks g tm) (TSC_DoTasks h tm)"
proof -
  have "(\<forall>f s. option_ord (g f s) (h f s)) \<longrightarrow> TSC_DoTasks h tm = Some y" if "TSC_DoTasks g tm = Some y" for y
  proof (rule TSC_DoTasks.raw_induct [OF _ that, where P = "\<lambda>g tm y. (\<forall>f s. option_ord (g f s) (h f s)) \<longrightarrow> TSC_DoTasks h tm = Some y"])
    fix rec g tm y
    assume IH: "\<And>g tm y. rec g tm = Some y \<Longrightarrow> (\<forall>f s. option_ord (g f s) (h f s)) \<longrightarrow> TSC_DoTasks h tm = Some y"
      and body: "(case tsc_for g 0 tm of None \<Rightarrow> None | Some (again, tm') \<Rightarrow> if again then rec g tm' else Some tm') = Some y"
    show "(\<forall>f s. option_ord (g f s) (h f s)) \<longrightarrow> TSC_DoTasks h tm = Some y"
    proof
      assume le: "\<forall>f s. option_ord (g f s) (h f s)"
      have "option_ord (tsc_for g 0 tm) (tsc_for h 0 tm)"
        by (rule tsc_for_mono) (use le in blast)
      then show "TSC_DoTasks h tm = Some y"
        using body IH [of g] le by (subst TSC_DoTasks.simps)
          (cases "tsc_for g 0 tm"; auto simp: flat_ord_def split: if_splits dest!: sym [of "Some _"])
    qed
  qed
  then show ?thesis
    using le by (cases "TSC_DoTasks g tm") (auto simp: flat_ord_def)
qed

lemma TSC_Yield_mono:
  assumes "\<And>f s. option_ord (g f s) (h f s)"
  shows "option_ord (TSC_Yield g tm) (TSC_Yield h tm)"
  using TSC_DoTasks_mono [where g = g and h = h, OF assms, where tm = "tm\<lparr>tm_lowestYielding := tm_runningTask tm, tm_runningTask := -1\<rparr>"]
  by (auto simp: TSC_Yield_def Let_def flat_ord_def split: option.split)

lemma TSC_Yield_mono_option [partial_function_mono]:
  assumes "\<And>f s. mono_option (\<lambda>r. B r f s)"
  shows "mono_option (\<lambda>r. TSC_Yield (B r) tm)"
  using assms by (auto simp: monotone_def intro: TSC_Yield_mono)

section \<open>The single instance (taskService.c)\<close>

text \<open>The static \<open>tmr\<close> is NULL (\<open>None\<close>) until \<open>TS_Init\<close>; only \<open>TS_Background\<close> tests for that.\<close>

definition TS_InitGetSize :: "int \<Rightarrow> int" where
  "TS_InitGetSize expectedTasks = TSC_InitGetSize expectedTasks"

definition TS_Init ::
    "int \<Rightarrow> nat \<Rightarrow> ('f, 'z) taskMasterRecord_t_scheme \<Rightarrow> int \<times> ('f, 'z) taskMasterRecord_t_scheme option" where
  "TS_Init space len mem =
     (if int len < sizeof_tmr + sizeof_entry then (0, None) else TSC_Init space len mem)"

definition TS_AddTask ::
    "'f option \<Rightarrow> ('f, 'z) taskMasterRecord_t_scheme option \<Rightarrow> (int \<times> ('f, 'z) taskMasterRecord_t_scheme) option" where
  "TS_AddTask task tmr = map_option (TSC_AddTask task) tmr"

definition TS_AddTaskWithQueue ::
    "'f option \<Rightarrow> nat option \<Rightarrow> ('f, 'z) taskMasterRecord_t_scheme option \<Rightarrow>
     (int \<times> ('f, 'z) taskMasterRecord_t_scheme) option" where
  "TS_AddTaskWithQueue task q tmr = map_option (TSC_AddTaskWithQueue task q) tmr"

definition TS_SignalTask ::
    "int \<Rightarrow> ('f, 'z) taskMasterRecord_t_scheme option \<Rightarrow> (int \<times> ('f, 'z) taskMasterRecord_t_scheme) option" where
  "TS_SignalTask task tmr = map_option (TSC_SignalTask task) tmr"

definition TS_Put ::
    "int \<Rightarrow> u8 list \<Rightarrow> ('f, 'z) taskMasterRecord_t_scheme option \<Rightarrow> (int \<times> ('f, 'z) taskMasterRecord_t_scheme) option" where
  "TS_Put task val tmr = (case tmr of None \<Rightarrow> None | Some tm \<Rightarrow> TSC_Put task val tm)"

definition TS_Get ::
    "('f, 'z) taskMasterRecord_t_scheme option \<Rightarrow>
     (int \<times> u8 list option \<times> ('f, 'z) taskMasterRecord_t_scheme) option" where
  "TS_Get tmr = map_option TSC_Get tmr"

definition TS_Test ::
    "('f, 'z) taskMasterRecord_t_scheme option \<Rightarrow> (int \<times> ('f, 'z) taskMasterRecord_t_scheme) option" where
  "TS_Test tmr = map_option TSC_Test tmr"

definition TS_Yield ::
    "('f, 'z) task_fun \<Rightarrow> ('f, 'z) taskMasterRecord_t_scheme option \<Rightarrow> ('f, 'z) taskMasterRecord_t_scheme option" where
  "TS_Yield run tmr = (case tmr of None \<Rightarrow> None | Some tm \<Rightarrow> TSC_Yield run tm)"

lemma TS_Yield_mono_option [partial_function_mono]:
  "(\<And>f s. mono_option (\<lambda>r. B r f s)) \<Longrightarrow> mono_option (\<lambda>r. TS_Yield (B r) tmr)"
  by (cases tmr) (auto simp: TS_Yield_def intro: TSC_Yield_mono_option option.const_mono)

definition TS_GetQueueObjectOutside :: "int \<Rightarrow> ('f, 'z) taskMasterRecord_t_scheme option \<Rightarrow> nat option option" where
  "TS_GetQueueObjectOutside task tmr = map_option (TSC_GetQueueObject task) tmr"

definition TS_Background ::
    "('f, 'z) task_fun \<Rightarrow> ('f, 'z) taskMasterRecord_t_scheme option \<Rightarrow>
     ('f, 'z) taskMasterRecord_t_scheme option option" where
  "TS_Background run tmr = (case tmr of
     None \<Rightarrow> Some None
   | Some tm \<Rightarrow> map_option Some (TSC_DoTasks run tm))"

section \<open>What the loop does\<close>

definition sched :: "('f, 'z) taskMasterRecord_t_scheme \<Rightarrow> nat \<Rightarrow> bool" where
  "sched tm i \<longleftrightarrow> te_scheduled (tm_entry tm (tt_at tm (int i))) \<noteq> 0"

definition start_task ::
    "('f, 'z) task_fun \<Rightarrow> nat \<Rightarrow> ('f, 'z) taskMasterRecord_t_scheme \<Rightarrow> ('f, 'z) taskMasterRecord_t_scheme option" where
  "start_task run i tm =
     (let tm1 = upd_entry (tt_at tm (int i)) (\<lambda>e. e\<lparr>te_scheduled := 0\<rparr>) (tm\<lparr>tm_runningTask := int i\<rparr>)
      in case te_task (tm_entry tm (tt_at tm (int i))) of None \<Rightarrow> Some tm1 | Some f \<Rightarrow> run f tm1)"

lemma tsc_for_find:
  "tm_lowestYielding tm = int n \<Longrightarrow> k \<le> n \<Longrightarrow> tsc_for run (int k) tm =
     (case find (sched tm) [k..<n] of
        None \<Rightarrow> Some (False, tm\<lparr>tm_runningTask := int n\<rparr>)
      | Some i \<Rightarrow> map_option (Pair True) (start_task run i tm))"
proof (induction "n - k" arbitrary: k)
  case 0
  then show ?case
    by (subst tsc_for.simps) simp
next
  case (Suc d)
  then have k: "k < n" by simp
  have list: "[k..<n] = k # [Suc k..<n]"
    using k by (rule upt_conv_Cons)
  show ?case
  proof (cases "sched tm k")
    case True
    then show ?thesis
      using k Suc.prems by (subst tsc_for.simps)
        (auto simp: list start_task_def sched_def Let_def upd_entry_def split: option.splits)
  next
    case False
    then have "tsc_for run (int k) tm = tsc_for run (int (Suc k)) tm"
      using k Suc.prems by (subst tsc_for.simps) (simp add: sched_def add.commute)
    with Suc.hyps(1) [of "Suc k"] Suc.hyps(2) Suc.prems(1) k False show ?thesis
      by (simp add: list)
  qed
qed

text \<open>Tasks that only leave a trace: the number of the running task.\<close>

record 'f tm_logged = "'f taskMasterRecord_t" +
  tm_log :: "int list"

definition log_run :: "'f \<Rightarrow> 'f tm_logged \<Rightarrow> 'f tm_logged option" where
  "log_run f tm = Some (tm\<lparr>tm_log := tm_log tm @ [tm_runningTask tm]\<rparr>)"

definition due :: "('f, 'z) taskMasterRecord_t_scheme \<Rightarrow> nat \<Rightarrow> bool" where
  "due tm i \<longleftrightarrow> sched tm i \<and> te_task (tm_entry tm (tt_at tm (int i))) \<noteq> None"

lemma start_task_log:
  fixes tm :: "'f tm_logged"
  assumes "sched tm i"
  shows "\<exists>tm'. start_task log_run i tm = Some tm' \<and>
    tm_log tm' = tm_log tm @ (if due tm i then [int i] else []) \<and>
    tm_lowestYielding tm' = tm_lowestYielding tm \<and> tm_addr tm' = tm_addr tm \<and>
    (\<forall>j. tm_entry tm' (tt_at tm (int j)) = (if j = i
       then (tm_entry tm (tt_at tm (int j)))\<lparr>te_scheduled := 0\<rparr> else tm_entry tm (tt_at tm (int j))))"
  using assms by (auto simp: start_task_def log_run_def upd_entry_def due_def tt_at_def Let_def split: option.splits)

lemma TSC_DoTasks_log:
  fixes tm :: "'f tm_logged"
  shows "tm_lowestYielding tm = int n \<Longrightarrow>
   \<exists>tm'. TSC_DoTasks log_run tm = Some tm' \<and>
     tm_log tm' = tm_log tm @ map int (filter (due tm) [0..<n]) \<and>
     (\<forall>i<n. \<not> sched tm' i) \<and> tm_runningTask tm' = int n \<and> tm_addr tm' = tm_addr tm \<and>
     (\<forall>j\<ge>n. tm_entry tm' (tt_at tm (int j)) = tm_entry tm (tt_at tm (int j)))"
proof (induction "length (filter (sched tm) [0..<n])" arbitrary: tm rule: less_induct)
  case less
  note f = tsc_for_find [OF less.prems, of 0 log_run, simplified]
  show ?case
  proof (cases "find (sched tm) [0..<n]")
    case None
    then have no: "\<not> sched tm i" if "i < n" for i
      using that by (auto simp: find_None_iff)
    then have "filter (due tm) [0..<n] = []"
      by (auto simp: filter_empty_conv due_def)
    then show ?thesis
      using f None no by (subst TSC_DoTasks.simps) (auto simp: sched_def tt_at_def)
  next
    case (Some i)
    then have i: "sched tm i" "i < n" and before: "\<And>j. j < i \<Longrightarrow> \<not> sched tm j"
      by (auto simp: find_Some_iff)
    obtain tm1 where tm1: "start_task log_run i tm = Some tm1"
      "tm_log tm1 = tm_log tm @ (if due tm i then [int i] else [])"
      "tm_lowestYielding tm1 = tm_lowestYielding tm" "tm_addr tm1 = tm_addr tm"
      "\<And>j. tm_entry tm1 (tt_at tm (int j)) = (if j = i
         then (tm_entry tm (tt_at tm (int j)))\<lparr>te_scheduled := 0\<rparr> else tm_entry tm (tt_at tm (int j)))"
      using start_task_log [OF i(1)] by blast
    have sched1: "sched tm1 j \<longleftrightarrow> sched tm j \<and> j \<noteq> i" for j
      using tm1(4,5) by (simp add: sched_def tt_at_def)
    have due1: "due tm1 j \<longleftrightarrow> due tm j \<and> j \<noteq> i" for j
      using tm1(4,5) sched1 [of j] by (auto simp: due_def tt_at_def)
    have split: "[0..<n] = [0..<i] @ i # [Suc i..<n]"
      using i(2) upt_split [of 0 i n] by (simp add: upt_conv_Cons)
    have fs: "filter (sched tm) [0..<n] = i # filter (sched tm) [Suc i..<n]"
      by (rule filter_upt_find [OF Some])
    have fs1: "filter (sched tm1) [0..<n] = filter (sched tm) [Suc i..<n]"
      unfolding split using before by (auto simp: sched1 filter_empty_conv intro!: filter_cong)
    have nodue: "\<not> due tm j" "\<not> due tm1 j" if "j < i" for j
      using before [OF that] by (simp_all add: due1) (simp_all add: due_def)
    have nil: "filter (due tm) [0..<i] = []" "filter (due tm1) [0..<i] = []"
      using nodue by (auto simp: filter_empty_conv)
    have same: "filter (due tm1) [Suc i..<n] = filter (due tm) [Suc i..<n]"
      by (rule filter_cong) (auto simp: due1)
    have "\<not> due tm1 i"
      by (simp add: due1)
    then have fd: "filter (due tm) [0..<n] = (if due tm i then [i] else []) @ filter (due tm1) [0..<n]"
      unfolding split by (simp add: nil same)
    have "length (filter (sched tm1) [0..<n]) < length (filter (sched tm) [0..<n])"
      unfolding fs fs1 by simp
    from less.hyps [OF this] obtain tm' where
      "TSC_DoTasks log_run tm1 = Some tm'" "tm_log tm' = tm_log tm1 @ map int (filter (due tm1) [0..<n])"
      "\<forall>i<n. \<not> sched tm' i" "tm_runningTask tm' = int n" "tm_addr tm' = tm_addr tm1"
      "\<forall>j\<ge>n. tm_entry tm' (tt_at tm1 (int j)) = tm_entry tm1 (tt_at tm1 (int j))"
      using less.prems tm1(3) by auto
    moreover have "tt_at tm1 j = tt_at tm j" for j
      using tm1(4) by (simp add: tt_at_def)
    moreover have "TSC_DoTasks log_run tm = TSC_DoTasks log_run tm1"
      using f Some tm1(1) by (subst TSC_DoTasks.simps) simp
    ultimately show ?thesis
      using tm1(2,4,5) fd i(2) by auto
  qed
qed

section \<open>Properties\<close>


definition demo_tm :: "nat tm_logged" where
  "demo_tm = the (snd (TSC_Init 100 60 \<lparr>tm_runningTask = 0, tm_lowestYielding = 0, tm_nextInTable = 0,
     tm_ttLen = 0, tm_addr = 0, tm_entry = (\<lambda>_. \<lparr>te_q = None, te_task = None, te_scheduled = 0\<rparr>),
     tm_queue = (\<lambda>_. GENERAL_QUEUE 0 1 4), tm_log = []\<rparr>))"

definition demo_tm3 :: "nat tm_logged" where
  "demo_tm3 = snd (TSC_SignalTask 132 (snd (TSC_SignalTask 108
     (snd (TSC_AddTask (Some 3) (snd (TSC_AddTask (Some 2) (snd (TSC_AddTask (Some 1) demo_tm)))))))))"




text \<open>The schedule counter does not saturate: the counter has 16 bits, the macro's sum is formed
  in \<open>int\<close>, and one more signal to a task signalled 65535 times wraps it to 0, so the task is no
  longer scheduled although the signal was accepted.\<close>

lemma TSC_SignalTask_wraps:
  assumes "\<not> bad_handle te tm" "te_scheduled (tm_entry tm te) = -1"
  shows "fst (TSC_SignalTask te tm) = TSC_OK \<and> te_scheduled (tm_entry (snd (TSC_SignalTask te tm)) te) = 0"
  using assms by (simp add: TSC_SignalTask_def upd_entry_def USAT_INC_narrow_add)

text \<open>A task added during a yield lies beyond the limit of the loop, which the yield restores: the statement
  that should raise it changes a copy. It never runs, and the same holds for all tasks added later.\<close>

lemma TSC_AddTask_in_yield:
  fixes task :: "'f option"
  assumes "tm_lowestYielding tm < tm_nextInTable tm" "tm_nextInTable tm < uint (tm_ttLen tm)"
  defines "tm1 \<equiv> snd (TSC_AddTask task tm)"
  shows "fst (TSC_AddTask task tm) = tt_at tm (tm_nextInTable tm)" "tm_lowestYielding tm1 = tm_lowestYielding tm"
    "tm_lowestYielding tm1 < tm_nextInTable tm1"
  using assms by (simp_all add: TSC_AddTask_def upd_entry_def Let_def)

end
