(* ===== verification/TaskCalls.thy ===== *)
theory TaskCalls
  imports TaskService
begin

text \<open>
  Applications of the task service in general: what a task does is any sequence of calls of the
  service, each chosen from the state and the results of the calls before, a yield among them, which
  runs other tasks inside this one. The theory shows that no such application can bring the record of the service
  into disorder or make it write outside its table.
\<close>

section \<open>Tasks that call the service\<close>

datatype 'f tsc_call =
    Call_AddTask "'f option"
  | Call_AddTaskWithQueue "'f option" "nat option"
  | Call_SignalTask int
  | Call_Put int "u8 list"
  | Call_Get
  | Call_Test
  | Call_GetQueueObject int
  | Call_Yield

text \<open>A call from a task, with the number and the data it gives back.\<close>

fun tsc_do ::
    "('f, 'z) task_fun \<Rightarrow> 'f tsc_call \<Rightarrow> ('f, 'z) taskMasterRecord_t_scheme \<Rightarrow>
     ((int \<times> u8 list option) \<times> ('f, 'z) taskMasterRecord_t_scheme) option" where
  "tsc_do run (Call_AddTask t) tm = (let (r, tm1) = TSC_AddTask t tm in Some ((r, None), tm1))"
| "tsc_do run (Call_AddTaskWithQueue t q) tm = (let (r, tm1) = TSC_AddTaskWithQueue t q tm in Some ((r, None), tm1))"
| "tsc_do run (Call_SignalTask te) tm = (let (r, tm1) = TSC_SignalTask te tm in Some ((r, None), tm1))"
| "tsc_do run (Call_Put te val) tm = map_option (\<lambda>(r, tm1). ((r, None), tm1)) (TSC_Put te val tm)"
| "tsc_do run Call_Get tm = (let (r, v, tm1) = TSC_Get tm in Some ((r, v), tm1))"
| "tsc_do run Call_Test tm = (let (r, tm1) = TSC_Test tm in Some ((r, None), tm1))"
| "tsc_do run (Call_GetQueueObject te) tm =
     Some ((case TSC_GetQueueObject te tm of Some q \<Rightarrow> int q | None \<Rightarrow> 0, None), tm)"
| "tsc_do run Call_Yield tm = map_option (Pair (0, None)) (TSC_Yield run tm)"

text \<open>
  \<open>behave f tm\<close>: the next call of task \<open>f\<close> and what the task does to its own data (the extension of the
  record) with the result; \<open>None\<close>: the task is finished.
\<close>

type_synonym ('f, 'z) behaviour =
  "'f \<Rightarrow> ('f, 'z) taskMasterRecord_t_scheme \<Rightarrow> ('f tsc_call \<times> (int \<times> u8 list option \<Rightarrow> 'z \<Rightarrow> 'z)) option"

lemma tsc_do_mono [partial_function_mono]:
  assumes "\<And>f s. mono_option (\<lambda>r. B r f s)"
  shows "mono_option (\<lambda>r. tsc_do (B r) c tm)"
proof (cases c)
  case Call_Yield
  then show ?thesis
    using TSC_Yield_mono_option [where B = B and tm = tm, OF assms] by (simp add: monotone_def flat_ord_def) metis
qed (simp_all add: option.const_mono)

partial_function (option) app_run :: "('f, 'z) behaviour \<Rightarrow> ('f, 'z) task_fun" where
  "app_run behave f tm =
     (case behave f tm of
        None \<Rightarrow> Some tm
      | Some (call, upd) \<Rightarrow>
          Option.bind (tsc_do (app_run behave) call tm) (\<lambda>(r, tm1).
            app_run behave f (taskMasterRecord_t.more_update (upd r) tm1)))"

section \<open>The record stays in order\<close>

text \<open>The limit of the loop is within the tasks added, and these within the table.\<close>

definition tm_wf :: "('f, 'z) taskMasterRecord_t_scheme \<Rightarrow> bool" where
  "tm_wf tm \<longleftrightarrow> 0 \<le> tm_lowestYielding tm \<and> tm_lowestYielding tm \<le> tm_nextInTable tm \<and>
     tm_nextInTable tm \<le> uint (tm_ttLen tm)"

text \<open>What every call may do to the record: add tasks, raise the limit, and write into the table.\<close>

definition tm_grows :: "('f, 'z) taskMasterRecord_t_scheme \<Rightarrow> ('f, 'z) taskMasterRecord_t_scheme \<Rightarrow> bool" where
  "tm_grows tm tm' \<longleftrightarrow> tm_wf tm' \<and> tm_addr tm' = tm_addr tm \<and> tm_ttLen tm' = tm_ttLen tm \<and>
     tm_lowestYielding tm \<le> tm_lowestYielding tm' \<and> tm_nextInTable tm \<le> tm_nextInTable tm' \<and>
     (\<forall>a. a < tt_at tm 0 \<or> tt_at tm (uint (tm_ttLen tm)) \<le> a \<longrightarrow> tm_entry tm' a = tm_entry tm a)"

lemma tm_grows_refl: "tm_wf tm \<Longrightarrow> tm_grows tm tm"
  by (simp add: tm_grows_def)

lemma tm_grows_trans: "tm_grows tm tm1 \<Longrightarrow> tm_grows tm1 tm2 \<Longrightarrow> tm_grows tm tm2"
  unfolding tm_grows_def tt_at_def by (metis order_trans)

lemma tm_grows_write:
  assumes "tm_wf tm" "0 \<le> i" "i < uint (tm_ttLen tm)" "tt_at tm 0 \<le> a" "a < tt_at tm (uint (tm_ttLen tm))"
  shows "tm_grows tm (upd_entry a f tm)"
  using assms by (auto simp: tm_grows_def tm_wf_def upd_entry_def)

text \<open>A task that is running sees its own number, and it is one of the table.\<close>

definition in_task :: "('f, 'z) taskMasterRecord_t_scheme \<Rightarrow> bool" where
  "in_task tm \<longleftrightarrow> tm_wf tm \<and> 0 \<le> tm_runningTask tm \<and> tm_runningTask tm < tm_lowestYielding tm"

definition task_safe :: "('f, 'z) taskMasterRecord_t_scheme \<Rightarrow> ('f, 'z) taskMasterRecord_t_scheme \<Rightarrow> bool" where
  "task_safe tm tm' \<longleftrightarrow> in_task tm' \<and> tm_runningTask tm' = tm_runningTask tm \<and> tm_grows tm tm'"

definition run_safe :: "('f, 'z) task_fun \<Rightarrow> bool" where
  "run_safe run \<longleftrightarrow> (\<forall>f tm tm'. in_task tm \<longrightarrow> run f tm = Some tm' \<longrightarrow> task_safe tm tm')"

lemma task_safe_trans: "task_safe tm tm1 \<Longrightarrow> task_safe tm1 tm2 \<Longrightarrow> task_safe tm tm2"
  using tm_grows_trans by (auto simp: task_safe_def)

lemma tsc_for_safe:
  assumes run: "run_safe run"
  shows "tm_wf tm \<Longrightarrow> 0 \<le> i \<Longrightarrow> i \<le> tm_lowestYielding tm \<Longrightarrow> tsc_for run i tm = Some (again, tm') \<Longrightarrow>
    tm_grows tm tm' \<and> (again \<or> tm_runningTask tm' = tm_lowestYielding tm' \<and> (\<forall>a. tm_entry tm' a = tm_entry tm a) \<and>
      (\<forall>j. i \<le> j \<and> j < tm_lowestYielding tm' \<longrightarrow> te_scheduled (tm_entry tm' (tt_at tm' j)) = 0))"
proof (induction "nat (tm_lowestYielding tm - i)" arbitrary: i rule: less_induct)
  case less
  let ?te = "tt_at tm i"
  let ?tm = "upd_entry ?te (\<lambda>e. e\<lparr>te_scheduled := 0\<rparr>) (tm\<lparr>tm_runningTask := i\<rparr>)"
  consider (off) "\<not> i < tm_lowestYielding tm" | (skip) "i < tm_lowestYielding tm" "te_scheduled (tm_entry tm ?te) = 0"
    | (run) "i < tm_lowestYielding tm" "te_scheduled (tm_entry tm ?te) \<noteq> 0"
    by blast
  then show ?case
  proof cases
    case off
    then have "again = False" "tm' = tm\<lparr>tm_runningTask := i\<rparr>"
      using less.prems(4) by (subst (asm) tsc_for.simps, simp)+
    then show ?thesis
      using off less.prems(1,3) by (auto simp: tm_grows_def tm_wf_def tt_at_def)
  next
    case skip
    have "tsc_for run (i + 1) tm = Some (again, tm')"
      using skip less.prems(4) by (subst (asm) tsc_for.simps) simp
    then have IH: "tm_grows tm tm' \<and> (again \<or> tm_runningTask tm' = tm_lowestYielding tm' \<and> (\<forall>a. tm_entry tm' a = tm_entry tm a) \<and>
      (\<forall>j. i + 1 \<le> j \<and> j < tm_lowestYielding tm' \<longrightarrow> te_scheduled (tm_entry tm' (tt_at tm' j)) = 0))"
      using less.hyps [of "i + 1"] less.prems skip by simp
    moreover have "te_scheduled (tm_entry tm' (tt_at tm' i)) = 0" if "\<not> again"
      using that IH skip(2) by (simp add: tm_grows_def tt_at_def)
    moreover have "i \<le> j \<longleftrightarrow> j = i \<or> i + 1 \<le> j" for j
      by linarith
    ultimately show ?thesis
      by auto
  next
    case run
    have t: "in_task ?tm"
      using run less.prems by (simp add: in_task_def tm_wf_def upd_entry_def)
    have "tm_grows (tm\<lparr>tm_runningTask := i\<rparr>) ?tm"
      by (rule tm_grows_write [of _ i]) (use run less.prems in \<open>simp_all add: tm_wf_def tt_at_def\<close>)
    then have g: "tm_grows tm ?tm"
      by (auto simp: tm_grows_def tm_wf_def tt_at_def)
    show ?thesis
    proof (cases "te_task (tm_entry ?tm ?te)")
      case None
      then have "again" "tm' = ?tm"
        using less.prems(4) run by (subst (asm) tsc_for.simps, simp add: Let_def)+
      then show ?thesis
        using g by simp
    next
      case (Some f)
      then have "again" "run f ?tm = Some tm'"
        using less.prems(4) run by (subst (asm) tsc_for.simps, simp add: Let_def split: option.splits)+
      then show ?thesis
        using assms t tm_grows_trans [OF g] by (auto simp: run_safe_def task_safe_def)
    qed
  qed
qed

lemma TSC_DoTasks_safe:
  assumes "run_safe run" "tm_wf tm" "TSC_DoTasks run tm = Some tm'"
  shows "tm_grows tm tm' \<and> tm_runningTask tm' = tm_lowestYielding tm' \<and>
    (\<forall>j. 0 \<le> j \<and> j < tm_lowestYielding tm' \<longrightarrow> te_scheduled (tm_entry tm' (tt_at tm' j)) = 0)"
proof -
  have "run_safe run \<longrightarrow> tm_wf tm \<longrightarrow> tm_grows tm tm' \<and> tm_runningTask tm' = tm_lowestYielding tm' \<and>
    (\<forall>j. 0 \<le> j \<and> j < tm_lowestYielding tm' \<longrightarrow> te_scheduled (tm_entry tm' (tt_at tm' j)) = 0)" (is "?P run tm tm'")
  proof (rule TSC_DoTasks.raw_induct [OF _ assms(3), where P = ?P])
    fix rec run tm tm'
    assume IH: "\<And>run tm tm'. rec run tm = Some tm' \<Longrightarrow> ?P run tm tm'"
      and body: "(case tsc_for run 0 tm of None \<Rightarrow> None | Some (again, tm1) \<Rightarrow> if again then rec run tm1 else Some tm1) = Some tm'"
    obtain again tm1 where f: "tsc_for run 0 tm = Some (again, tm1)"
      using body by (auto split: option.splits)
    show "?P run tm tm'"
    proof (intro impI)
      assume r: "run_safe run" and wf: "tm_wf tm"
      note s = tsc_for_safe [OF r wf _ _ f]
      show "tm_grows tm tm' \<and> tm_runningTask tm' = tm_lowestYielding tm' \<and>
         (\<forall>j. 0 \<le> j \<and> j < tm_lowestYielding tm' \<longrightarrow> te_scheduled (tm_entry tm' (tt_at tm' j)) = 0)"
      proof (cases again)
        case True
        then have "rec run tm1 = Some tm'" "tm_grows tm tm1" "tm_wf tm1"
          using body f s wf by (auto simp: tm_wf_def tm_grows_def)
        then show ?thesis
          using IH [of run tm1 tm'] r tm_grows_trans by blast
      next
        case False
        then show ?thesis
          using body f s wf by (auto simp: tm_wf_def)
      qed
    qed
  qed
  then show ?thesis
    using assms(1,2) by blast
qed

lemma TSC_Yield_safe:
  assumes "run_safe run" "in_task tm" "TSC_Yield run tm = Some tm'"
  shows "task_safe tm tm'"
proof (cases "tm_runningTask tm = 0")
  case True
  then show ?thesis
    using assms(2,3) by (simp add: TSC_Yield_def task_safe_def in_task_def tm_grows_refl)
next
  case False
  let ?tm = "tm\<lparr>tm_lowestYielding := tm_runningTask tm, tm_runningTask := -1\<rparr>"
  obtain tm1 where tm1: "TSC_DoTasks run ?tm = Some tm1"
    "tm' = tm1\<lparr>tm_runningTask := tm_runningTask tm, tm_lowestYielding := tm_lowestYielding tm\<rparr>"
    using assms(2,3) False by (auto simp: TSC_Yield_def in_task_def Let_def split: option.splits if_splits)
  have "tm_wf ?tm"
    using assms(2) by (auto simp: in_task_def tm_wf_def)
  from TSC_DoTasks_safe [OF assms(1) this tm1(1)] show ?thesis
    using assms(2) unfolding tm1(2) by (auto simp: task_safe_def in_task_def tm_grows_def tm_wf_def tt_at_def)
qed

section \<open>The calls of a task\<close>

lemma in_table:
  assumes "tm_wf tm" "\<not> bad_handle te tm"
  shows "tt_at tm 0 \<le> te \<and> te < tt_at tm (uint (tm_ttLen tm)) \<and> 0 < uint (tm_ttLen tm)"
  using assms by (simp add: tm_wf_def bad_handle_def tt_at_def)

lemma task_safe_refl: "in_task tm \<Longrightarrow> task_safe tm tm"
  by (simp add: task_safe_def in_task_def tm_grows_refl)

lemma task_safe_in: "task_safe tm tm' \<Longrightarrow> in_task tm'"
  by (simp add: task_safe_def)

text \<open>A write to an entry of the table and whatever happens to the queues is safe.\<close>

lemma task_safe_write:
  assumes "in_task tm" "tt_at tm 0 \<le> te" "te < tt_at tm (uint (tm_ttLen tm))"
  shows "task_safe tm (upd_entry te f tm)" "task_safe tm (tm\<lparr>tm_queue := q\<rparr>)"
    "task_safe tm ((upd_entry te f tm)\<lparr>tm_queue := q\<rparr>)"
  using assms by (auto simp: task_safe_def in_task_def tm_grows_def tm_wf_def upd_entry_def tt_at_def)

lemma task_safe_queue: "in_task tm \<Longrightarrow> task_safe tm (tm\<lparr>tm_queue := q\<rparr>)"
  by (auto simp: task_safe_def in_task_def tm_grows_def tm_wf_def tt_at_def)

lemma task_safe_more: "task_safe tm tm1 \<Longrightarrow> task_safe tm (taskMasterRecord_t.more_update u tm1)"
  by (auto simp: task_safe_def in_task_def tm_grows_def tm_wf_def tt_at_def)

lemma TSC_AddTaskWithQueue_safe:
  assumes "in_task tm" "TSC_AddTaskWithQueue t q tm = (r, tm')"
  shows "task_safe tm tm'"
  using assms
  by (auto simp: TSC_AddTaskWithQueue_def Let_def task_safe_def in_task_def tm_grows_def tm_wf_def upd_entry_def tt_at_def
      split: if_splits)

lemma TSC_AddTask_safe: "in_task tm \<Longrightarrow> TSC_AddTask t tm = (r, tm') \<Longrightarrow> task_safe tm tm'"
  using TSC_AddTaskWithQueue_safe [of tm t None r tm'] by (simp add: TSC_AddTask_def TSC_AddTaskWithQueue_def)

lemma TSC_SignalTask_safe: "in_task tm \<Longrightarrow> TSC_SignalTask te tm = (r, tm') \<Longrightarrow> task_safe tm tm'"
  using in_table [of tm te] task_safe_write(1) [of tm te]
  by (auto simp: TSC_SignalTask_def in_task_def task_safe_refl split: if_splits)

lemma TSC_Put_safe: "in_task tm \<Longrightarrow> TSC_Put te val tm = Some (r, tm') \<Longrightarrow> task_safe tm tm'"
  using in_table [of tm te] task_safe_write(3) [of tm te]
  by (auto simp: TSC_Put_def Let_def in_task_def task_safe_refl split: if_splits option.splits)

lemma TSC_Get_safe: "in_task tm \<Longrightarrow> TSC_Get tm = (r, v, tm') \<Longrightarrow> task_safe tm tm'"
  by (auto simp: TSC_Get_def task_safe_refl task_safe_queue split: if_splits option.splits prod.splits)

lemma TSC_Test_safe: "in_task tm \<Longrightarrow> TSC_Test tm = (r, tm') \<Longrightarrow> task_safe tm tm'"
  using task_safe_write(1) [of tm "tt_at tm (tm_runningTask tm)"]
  by (auto simp: TSC_Test_def Let_def in_task_def tm_wf_def tt_at_def split: if_splits)

lemma tsc_do_safe:
  assumes "run_safe run" "in_task tm" "tsc_do run c tm = Some (r, tm')"
  shows "task_safe tm tm'"
  using assms
  by (cases c) (auto intro: TSC_AddTask_safe TSC_AddTaskWithQueue_safe TSC_SignalTask_safe TSC_Put_safe
      TSC_Get_safe TSC_Test_safe TSC_Yield_safe task_safe_refl split: prod.splits)

section \<open>Tasks only run in order\<close>

text \<open>\<open>only_in run\<close>: as \<open>run\<close>, but a task started or resumed in disorder does not return.\<close>

definition only_in :: "('f, 'z) task_fun \<Rightarrow> ('f, 'z) task_fun" where
  "only_in run f tm = (if in_task tm then run f tm else None)"

lemma tsc_for_only_in:
  "tm_wf tm \<Longrightarrow> 0 \<le> i \<Longrightarrow> tsc_for (only_in run) i tm = tsc_for run i tm"
proof (induction "nat (tm_lowestYielding tm - i)" arbitrary: i rule: less_induct)
  case less
  then have "in_task (upd_entry (tt_at tm i) f (tm\<lparr>tm_runningTask := i\<rparr>))" if "i < tm_lowestYielding tm" for f
    using that by (simp add: in_task_def tm_wf_def upd_entry_def)
  then show ?case
    using less.hyps [of "i + 1"] less.prems
    by (subst (1 2) tsc_for.simps) (auto simp: only_in_def Let_def split: option.split)
qed

lemma TSC_DoTasks_only_in:
  assumes "run_safe run" "tm_wf tm"
  shows "TSC_DoTasks (only_in run) tm = TSC_DoTasks run tm"
proof -
  have "run_safe run \<longrightarrow> tm_wf tm \<longrightarrow> TSC_DoTasks (only_in run) tm = Some y" if "TSC_DoTasks run tm = Some y" for y
  proof (rule TSC_DoTasks.raw_induct [OF _ that, where
        P = "\<lambda>run tm y. run_safe run \<longrightarrow> tm_wf tm \<longrightarrow> TSC_DoTasks (only_in run) tm = Some y"], intro impI)
    fix rec run tm y
    assume IH: "\<And>run tm y. rec run tm = Some y \<Longrightarrow>
        run_safe run \<longrightarrow> tm_wf tm \<longrightarrow> TSC_DoTasks (only_in run) tm = Some y"
      and body: "(case tsc_for run 0 tm of None \<Rightarrow> None | Some (again, tm1) \<Rightarrow> if again then rec run tm1 else Some tm1) = Some y"
      and r: "run_safe run" and wf: "tm_wf tm"
    obtain again tm1 where f: "tsc_for run 0 tm = Some (again, tm1)"
      using body by (auto split: option.splits)
    moreover have "tm_wf tm1"
      using tsc_for_safe [OF r wf _ _ f] wf by (auto simp: tm_wf_def tm_grows_def)
    ultimately show "TSC_DoTasks (only_in run) tm = Some y"
      using body IH r tsc_for_only_in [OF wf] by (subst TSC_DoTasks.simps) (auto split: if_splits)
  qed
  then show ?thesis
    using assms TSC_DoTasks_mono [of "only_in run" run tm]
    by (cases "TSC_DoTasks run tm") (auto simp: flat_ord_def only_in_def)
qed

lemma TSC_Yield_only_in:
  assumes "run_safe run" "in_task tm"
  shows "TSC_Yield (only_in run) tm = TSC_Yield run tm"
proof -
  have "tm_wf (tm\<lparr>tm_lowestYielding := tm_runningTask tm, tm_runningTask := -1\<rparr>)"
    using assms(2) by (auto simp: in_task_def tm_wf_def)
  from TSC_DoTasks_only_in [OF assms(1) this] show ?thesis
    by (simp add: TSC_Yield_def)
qed

lemma tsc_do_only_in:
  assumes "run_safe run" "in_task tm" "\<And>f s. option_ord (only_in run f s) (run' f s)"
    and "tsc_do run c tm = Some y"
  shows "tsc_do run' c tm = Some y"
proof (cases c)
  case Call_Yield
  then show ?thesis
    using TSC_Yield_mono [where g = "only_in run" and h = run', OF assms(3), where tm = tm] TSC_Yield_only_in [OF assms(1,2)] assms(4)
    by (auto simp: flat_ord_def)
qed (use assms(4) in simp_all)

lemma app_run_in_order:
  fixes behave :: "('f, 'z) behaviour"
  assumes "app_run behave f tm = Some tm'"
  shows "in_task tm \<longrightarrow> task_safe tm tm' \<and>
    ((\<forall>f s. in_task s \<longrightarrow> b f s = behave f s) \<longrightarrow> app_run b f tm = Some tm')"
proof (rule app_run.raw_induct [OF _ assms, where P = "\<lambda>behave f tm tm'. in_task tm \<longrightarrow> task_safe tm tm' \<and>
    ((\<forall>f s. in_task s \<longrightarrow> b f s = behave f s) \<longrightarrow> app_run b f tm = Some tm')"], intro impI)
  fix run :: "('f, 'z) behaviour \<Rightarrow> ('f, 'z) task_fun" and behave f tm tm'
  assume IH: "\<And>behave f tm tm'. run behave f tm = Some tm' \<Longrightarrow> in_task tm \<longrightarrow> task_safe tm tm' \<and>
      ((\<forall>f s. in_task s \<longrightarrow> b f s = behave f s) \<longrightarrow> app_run b f tm = Some tm')"
    and body: "(case behave f tm of None \<Rightarrow> Some tm
      | Some (call, upd) \<Rightarrow> Option.bind (tsc_do (run behave) call tm) (\<lambda>(r, tm1).
          run behave f (taskMasterRecord_t.more_update (upd r) tm1))) = Some tm'"
    and t: "in_task tm"
  have safe: "run_safe (run behave)"
    using IH by (auto simp: run_safe_def)
  show "task_safe tm tm' \<and> ((\<forall>f s. in_task s \<longrightarrow> b f s = behave f s) \<longrightarrow> app_run b f tm = Some tm')"
  proof (cases "behave f tm")
    case None
    then show ?thesis
      using body t by (auto simp: task_safe_refl app_run.simps [of b])
  next
    case (Some cu)
    obtain call upd where cu: "cu = (call, upd)"
      by (cases cu)
    obtain r tm1 where c: "tsc_do (run behave) call tm = Some (r, tm1)"
      and rest: "run behave f (taskMasterRecord_t.more_update (upd r) tm1) = Some tm'"
      using body Some cu by (cases "tsc_do (run behave) call tm") auto
    have t1: "task_safe tm (taskMasterRecord_t.more_update (upd r) tm1)"
      by (rule task_safe_more [OF tsc_do_safe [OF safe t c]])
    note IH = IH [OF rest, rule_format, OF task_safe_in [OF t1]] IH
    have "app_run b f tm = Some tm'" if eq: "\<forall>f s. in_task s \<longrightarrow> b f s = behave f s"
    proof -
      have "option_ord (only_in (run behave) f s) (app_run b f s)" for f s
        using IH(2) eq by (cases "run behave f s") (auto simp: only_in_def flat_ord_def)
      from tsc_do_only_in [OF safe t this c] show ?thesis
        using IH(1) eq Some cu t by (subst app_run.simps) auto
    qed
    then show ?thesis
      using IH(1) task_safe_trans [OF t1] by blast
  qed
qed

lemma app_run_safe: "run_safe (app_run behave)"
  using app_run_in_order [where b = behave] by (auto simp: run_safe_def)

lemma TSC_DoTasks_app_cong:
  assumes "tm_wf tm" "\<And>f s. in_task s \<Longrightarrow> b f s = b' f s"
  shows "TSC_DoTasks (app_run b) tm = TSC_DoTasks (app_run b') tm"
proof -
  have le: "option_ord (TSC_DoTasks (app_run c) tm) (TSC_DoTasks (app_run c') tm)"
    if "\<And>f s. in_task s \<Longrightarrow> c f s = c' f s" for c c'
  proof -
    have "option_ord (only_in (app_run c) f s) (app_run c' f s)" for f s
      using app_run_in_order [of c f s _ c'] that by (cases "app_run c f s") (auto simp: only_in_def flat_ord_def)
    from TSC_DoTasks_mono [where g = "only_in (app_run c)" and h = "app_run c'", OF this, where tm = tm] show ?thesis
      using TSC_DoTasks_only_in [OF app_run_safe assms(1)] by simp
  qed
  show ?thesis
    using le [of b b'] le [of b' b] assms(2) by (auto simp: flat_ord_def)
qed


text \<open>
  An application with a counter as its own data: task 2 adds task 9, signals the first task of
  the table and yields to it; task 1 marks that it ran meanwhile. In disorder they would loop.
\<close>

definition demo_behave :: "bool \<Rightarrow> (nat, nat) behaviour" where
  "demo_behave loop f tm =
     (if loop \<and> \<not> in_task tm then Some (Call_Test, \<lambda>_ n. n)
      else let n = taskMasterRecord_t.more tm in
        if f = 2 then
          if n = 0 then Some (Call_AddTask (Some 9), \<lambda>_ _. 1)
          else if n = 1 then Some (Call_SignalTask 108, \<lambda>_ _. 2)
          else if n = 2 then Some (Call_Yield, \<lambda>_ n. n + 1)
          else None
        else if n = 2 then Some (Call_Test, \<lambda>_ _. 10) else None)"

definition demo_app :: "(nat, nat) taskMasterRecord_t_scheme" where
  "demo_app = snd (TSC_SignalTask 120 (snd (TSC_AddTask (Some 2) (snd (TSC_AddTask (Some 1) (the (snd (TSC_Init 100 60
     \<lparr>tm_runningTask = 0, tm_lowestYielding = 0, tm_nextInTable = 0, tm_ttLen = 0, tm_addr = 0,
      tm_entry = (\<lambda>_. \<lparr>te_q = None, te_task = None, te_scheduled = 0\<rparr>),
      tm_queue = (\<lambda>_. GENERAL_QUEUE 0 1 4), \<dots> = 0\<rparr>))))))))"

declare app_run.simps [code]

lemma demo_app_returns:
  "map_option (\<lambda>tm. (taskMasterRecord_t.more tm, tm_lowestYielding tm)) (TSC_DoTasks (app_run (demo_behave False)) demo_app) = Some (11, 3)"
  by code_simp


end
