(* ===== verification/Stm32Core.thy ===== *)
theory Stm32Core
  imports Prelude
begin

text \<open>
  The controller of the timer test (\<^verbatim>\<open>src/swtimertest\<close>), as far as its start-up code works on it: the register blocks
  of \<^verbatim>\<open>stm32f334x8.h\<close> and \<^verbatim>\<open>core_cm4.h\<close> as records, interrupt priorities and the system tick (\<^verbatim>\<open>core_cm4.h\<close>,
  \<^verbatim>\<open>stm32f3xx_hal_cortex.c\<close>, \<^verbatim>\<open>stm32f3xx_hal.c\<close>), the clock tree (\<^verbatim>\<open>stm32f3xx_ll_rcc.h\<close>, \<^verbatim>\<open>stm32f3xx_ll_system.h\<close>,
  \<^verbatim>\<open>stm32f3xx_ll_utils.c\<close>, \<^verbatim>\<open>system_stm32f3xx.c\<close>).
  What the device does by itself is kept apart. Status bits come from a sequence of readings \<open>hw_status\<close>, of which
  every read takes the next; the other bits of a register are those written last. The reference manual's effects of writing a
  register that is not plain memory are written out: an interrupt is enabled or disabled by writing ones
  (\<open>write_ISER\<close>, \<open>write_ICER\<close>), any write clears the tick's counter (\<open>write_VAL\<close>).
\<close>

section \<open>Registers\<close>

record RCC_TypeDef =
  rcc_CR :: u32
  rcc_CFGR :: u32
  rcc_CIR :: u32
  rcc_APB2RSTR :: u32
  rcc_APB1RSTR :: u32
  rcc_AHBENR :: u32
  rcc_APB2ENR :: u32
  rcc_APB1ENR :: u32
  rcc_BDCR :: u32
  rcc_CSR :: u32
  rcc_AHBRSTR :: u32
  rcc_CFGR2 :: u32
  rcc_CFGR3 :: u32

record FLASH_TypeDef =
  fl_ACR :: u32
  fl_KEYR :: u32
  fl_OPTKEYR :: u32
  fl_SR :: u32
  fl_CR :: u32
  fl_AR :: u32
  fl_OBR :: u32
  fl_WRPR :: u32

record NVIC_Type =
  nv_ISER :: "nat \<Rightarrow> u32"
  nv_ISPR :: "nat \<Rightarrow> u32"
  nv_IABR :: "nat \<Rightarrow> u32"
  nv_IP :: "nat \<Rightarrow> u8"

record SCB_Type =
  scb_ICSR :: u32
  scb_VTOR :: u32
  scb_AIRCR :: u32
  scb_SCR :: u32
  scb_CCR :: u32
  scb_SHP :: "nat \<Rightarrow> u8"
  scb_SHCSR :: u32
  scb_CPACR :: u32

record SysTick_Type =
  st_CTRL :: u32
  st_LOAD :: u32
  st_VAL :: u32
  st_CALIB :: u32

record hw_reading =
  rd_ACR :: u32
  rd_CR :: u32
  rd_CFGR :: u32

record stm32 =
  RCC :: RCC_TypeDef
  FLASH :: FLASH_TypeDef
  NVIC :: NVIC_Type
  SCB :: SCB_Type
  SysTick :: SysTick_Type
  SystemCoreClock :: u32
  hw_status :: "nat \<Rightarrow> hw_reading"
  hw_polls :: nat

definition hw_read :: "'z stm32_scheme \<Rightarrow> hw_reading \<times> 'z stm32_scheme" where
  "hw_read s = (hw_status s (hw_polls s), s\<lparr>hw_polls := hw_polls s + 1\<rparr>)"

section \<open>Read, modify, write (stm32f3xx.h)\<close>

definition SET_BIT :: "u32 \<Rightarrow> u32 \<Rightarrow> u32" where
  "SET_BIT r b = r OR b"

definition CLEAR_BIT :: "u32 \<Rightarrow> u32 \<Rightarrow> u32" where
  "CLEAR_BIT r b = r AND NOT b"

definition READ_BIT :: "u32 \<Rightarrow> u32 \<Rightarrow> u32" where
  "READ_BIT r b = r AND b"

definition MODIFY_REG :: "u32 \<Rightarrow> u32 \<Rightarrow> u32 \<Rightarrow> u32" where
  "MODIFY_REG r clearmask setmask = (r AND NOT clearmask) OR setmask"

named_theorems reg_simps \<open>what a field of a register holds after other fields were written\<close>

lemma and_not_zeroD:
  fixes k m :: u32
  assumes "k AND NOT m = 0" "bit k n"
  shows "bit m n"
proof (rule ccontr)
  assume "\<not> bit m n"
  then have "bit (k AND NOT m) n"
    using assms(2) by (auto simp: bit_simps dest: bit_imp_le_length)
  then show False using assms(1) by simp
qed

lemma and_zeroD: "k AND m = 0 \<Longrightarrow> bit k n \<Longrightarrow> \<not> bit m n" for k m :: u32
  by (metis bit_and_iff bit_0_eq bot_apply bot_bool_def)

lemma READ_MODIFY_in [reg_simps]: "k AND NOT m = 0 \<Longrightarrow> READ_BIT (MODIFY_REG r m v) k = READ_BIT v k"
  unfolding READ_BIT_def MODIFY_REG_def
  by (rule bit_word_eqI) (auto simp: bit_simps dest: and_not_zeroD)

lemma READ_MODIFY_out [reg_simps]:
  "k AND m = 0 \<Longrightarrow> k AND v = 0 \<Longrightarrow> READ_BIT (MODIFY_REG r m v) k = READ_BIT r k"
  unfolding READ_BIT_def MODIFY_REG_def
  by (rule bit_word_eqI) (auto simp: bit_simps dest: and_zeroD)

lemma READ_SET_in [reg_simps]: "k AND NOT b = 0 \<Longrightarrow> READ_BIT (SET_BIT r b) k = k"
  unfolding READ_BIT_def SET_BIT_def
  by (rule bit_word_eqI) (auto simp: bit_simps dest: and_not_zeroD)

lemma READ_SET_out [reg_simps]: "k AND b = 0 \<Longrightarrow> READ_BIT (SET_BIT r b) k = READ_BIT r k"
  unfolding READ_BIT_def SET_BIT_def
  by (rule bit_word_eqI) (auto simp: bit_simps dest: and_zeroD)

lemma READ_CLEAR_in [reg_simps]: "k AND NOT b = 0 \<Longrightarrow> READ_BIT (CLEAR_BIT r b) k = 0"
  unfolding READ_BIT_def CLEAR_BIT_def
  by (rule bit_word_eqI) (auto simp: bit_simps dest: and_not_zeroD)

lemma READ_CLEAR_out [reg_simps]: "k AND b = 0 \<Longrightarrow> READ_BIT (CLEAR_BIT r b) k = READ_BIT r k"
  unfolding READ_BIT_def CLEAR_BIT_def
  by (rule bit_word_eqI) (auto simp: bit_simps dest: and_zeroD)

section \<open>Interrupt priorities (core\_cm4.h, stm32f3xx\_hal\_cortex.c)\<close>

text \<open>Numbers of \<open>IRQn_Type\<close>; the exceptions of the core are negative.\<close>

abbreviation (input) MemoryManagement_IRQn :: int where "MemoryManagement_IRQn \<equiv> -12"
abbreviation (input) BusFault_IRQn :: int where "BusFault_IRQn \<equiv> -11"
abbreviation (input) UsageFault_IRQn :: int where "UsageFault_IRQn \<equiv> -10"
abbreviation (input) SVCall_IRQn :: int where "SVCall_IRQn \<equiv> -5"
abbreviation (input) DebugMonitor_IRQn :: int where "DebugMonitor_IRQn \<equiv> -4"
abbreviation (input) PendSV_IRQn :: int where "PendSV_IRQn \<equiv> -2"
abbreviation (input) SysTick_IRQn :: int where "SysTick_IRQn \<equiv> -1"
abbreviation (input) TIM3_IRQn :: int where "TIM3_IRQn \<equiv> 29"
abbreviation (input) TIM7_DAC2_IRQn :: int where "TIM7_DAC2_IRQn \<equiv> 55"
abbreviation (input) NVIC_PRIORITYGROUP_2 :: u32 where "NVIC_PRIORITYGROUP_2 \<equiv> 5"
abbreviation (input) NVIC_PRIORITYGROUP_4 :: u32 where "NVIC_PRIORITYGROUP_4 \<equiv> 3"
abbreviation (input) NVIC_PRIO_BITS :: nat where "NVIC_PRIO_BITS \<equiv> 4"
abbreviation (input) AIRCR_VECTKEY :: u32 where "AIRCR_VECTKEY \<equiv> 0xFFFF0000"
abbreviation (input) AIRCR_PRIGROUP :: u32 where "AIRCR_PRIGROUP \<equiv> 0x700"

definition NVIC_SetPriorityGrouping :: "u32 \<Rightarrow> 'z stm32_scheme \<Rightarrow> 'z stm32_scheme" where
  "NVIC_SetPriorityGrouping PriorityGroup s =
     (let tmp = PriorityGroup AND 7;
          reg = scb_AIRCR (SCB s) AND NOT (AIRCR_VECTKEY OR AIRCR_PRIGROUP)
      in s\<lparr>SCB := (SCB s)\<lparr>scb_AIRCR := reg OR push_bit 16 0x5FA OR push_bit 8 tmp\<rparr>\<rparr>)"

definition NVIC_GetPriorityGrouping :: "'z stm32_scheme \<Rightarrow> u32" where
  "NVIC_GetPriorityGrouping s = drop_bit 8 (scb_AIRCR (SCB s) AND AIRCR_PRIGROUP)"

definition write_ISER :: "nat \<Rightarrow> u32 \<Rightarrow> 'z stm32_scheme \<Rightarrow> 'z stm32_scheme" where
  "write_ISER i v s = s\<lparr>NVIC := (NVIC s)\<lparr>nv_ISER := (nv_ISER (NVIC s))(i := nv_ISER (NVIC s) i OR v)\<rparr>\<rparr>"

definition write_ICER :: "nat \<Rightarrow> u32 \<Rightarrow> 'z stm32_scheme \<Rightarrow> 'z stm32_scheme" where
  "write_ICER i v s = s\<lparr>NVIC := (NVIC s)\<lparr>nv_ISER := (nv_ISER (NVIC s))(i := nv_ISER (NVIC s) i AND NOT v)\<rparr>\<rparr>"

definition NVIC_EnableIRQ :: "int \<Rightarrow> 'z stm32_scheme \<Rightarrow> 'z stm32_scheme" where
  "NVIC_EnableIRQ IRQn s =
     (let n = (word_of_int IRQn :: u32) in write_ISER (unat (drop_bit 5 n)) (push_bit (unat (n AND 0x1F)) 1) s)"

definition NVIC_DisableIRQ :: "int \<Rightarrow> 'z stm32_scheme \<Rightarrow> 'z stm32_scheme" where
  "NVIC_DisableIRQ IRQn s =
     (let n = (word_of_int IRQn :: u32) in write_ICER (unat (drop_bit 5 n)) (push_bit (unat (n AND 0x1F)) 1) s)"

definition NVIC_SetPriority :: "int \<Rightarrow> u32 \<Rightarrow> 'z stm32_scheme \<Rightarrow> 'z stm32_scheme" where
  "NVIC_SetPriority IRQn priority s =
     (let v = (ucast (push_bit (8 - NVIC_PRIO_BITS) priority AND 0xFF) :: u8); n = (word_of_int IRQn :: u32) in
      if IRQn < 0 then s\<lparr>SCB := (SCB s)\<lparr>scb_SHP := (scb_SHP (SCB s))(unat ((n AND 0xF) - 4) := v)\<rparr>\<rparr>
      else s\<lparr>NVIC := (NVIC s)\<lparr>nv_IP := (nv_IP (NVIC s))(unat n := v)\<rparr>\<rparr>)"

definition NVIC_GetPriority :: "int \<Rightarrow> 'z stm32_scheme \<Rightarrow> u32" where
  "NVIC_GetPriority IRQn s =
     (let n = (word_of_int IRQn :: u32) in
      if IRQn < 0 then drop_bit (8 - NVIC_PRIO_BITS) (ucast (scb_SHP (SCB s) (unat ((n AND 0xF) - 4))))
      else drop_bit (8 - NVIC_PRIO_BITS) (ucast (nv_IP (NVIC s) (unat n))))"

text \<open>The numbers of bits for preemption and for the order within a group, by the priority group.\<close>

definition preempt_bits :: "u32 \<Rightarrow> nat" where
  "preempt_bits PriorityGroup =
     (let tmp = PriorityGroup AND 7 in if 7 - tmp > 4 then 4 else unat (7 - tmp))"

definition sub_bits :: "u32 \<Rightarrow> nat" where
  "sub_bits PriorityGroup =
     (let tmp = PriorityGroup AND 7 in if tmp + 4 < 7 then 0 else unat ((tmp - 7) + 4))"

definition NVIC_EncodePriority :: "u32 \<Rightarrow> u32 \<Rightarrow> u32 \<Rightarrow> u32" where
  "NVIC_EncodePriority PriorityGroup PreemptPriority SubPriority =
     push_bit (sub_bits PriorityGroup) (PreemptPriority AND (push_bit (preempt_bits PriorityGroup) 1 - 1))
     OR (SubPriority AND (push_bit (sub_bits PriorityGroup) 1 - 1))"

definition NVIC_DecodePriority :: "u32 \<Rightarrow> u32 \<Rightarrow> u32 \<times> u32" where
  "NVIC_DecodePriority Priority PriorityGroup =
     (drop_bit (sub_bits PriorityGroup) Priority AND (push_bit (preempt_bits PriorityGroup) 1 - 1),
      Priority AND (push_bit (sub_bits PriorityGroup) 1 - 1))"

definition HAL_NVIC_SetPriorityGrouping :: "u32 \<Rightarrow> 'z stm32_scheme \<Rightarrow> 'z stm32_scheme" where
  "HAL_NVIC_SetPriorityGrouping PriorityGroup s = NVIC_SetPriorityGrouping PriorityGroup s"

definition HAL_NVIC_SetPriority :: "int \<Rightarrow> u32 \<Rightarrow> u32 \<Rightarrow> 'z stm32_scheme \<Rightarrow> 'z stm32_scheme" where
  "HAL_NVIC_SetPriority IRQn PreemptPriority SubPriority s =
     (let prioritygroup = NVIC_GetPriorityGrouping s
      in NVIC_SetPriority IRQn (NVIC_EncodePriority prioritygroup PreemptPriority SubPriority) s)"

definition HAL_NVIC_EnableIRQ :: "int \<Rightarrow> 'z stm32_scheme \<Rightarrow> 'z stm32_scheme" where
  "HAL_NVIC_EnableIRQ IRQn s = NVIC_EnableIRQ IRQn s"

definition HAL_NVIC_DisableIRQ :: "int \<Rightarrow> 'z stm32_scheme \<Rightarrow> 'z stm32_scheme" where
  "HAL_NVIC_DisableIRQ IRQn s = NVIC_DisableIRQ IRQn s"

definition HAL_NVIC_GetPriority :: "int \<Rightarrow> u32 \<Rightarrow> 'z stm32_scheme \<Rightarrow> u32 \<times> u32" where
  "HAL_NVIC_GetPriority IRQn PriorityGroup s = NVIC_DecodePriority (NVIC_GetPriority IRQn s) PriorityGroup"

lemma mask_exp: "w AND (push_bit k 1 - 1) = take_bit k w" for w :: u32
  by (simp add: take_bit_eq_mask mask_eq_exp_minus_1)

lemma group_cases:
  fixes g :: u32
  obtains "g AND 7 = 0" | "g AND 7 = 1" | "g AND 7 = 2" | "g AND 7 = 3"
    | "g AND 7 = 4" | "g AND 7 = 5" | "g AND 7 = 6" | "g AND 7 = 7"
proof -
  have "g AND 7 = take_bit 3 g" by (simp add: take_bit_eq_mask mask_eq_exp_minus_1)
  then have "unat (g AND 7) < 8"
    using take_bit_nat_less_exp [of 3 "unat g"] by (simp add: unsigned_take_bit_eq)
  then have "unat (g AND 7) \<in> {0, 1, 2, 3, 4, 5, 6, 7}" by auto
  then have "of_nat (unat (g AND 7)) \<in> {0, 1, 2, 3, 4, 5, 6, 7 :: u32}" by fastforce
  then show thesis using that by auto
qed

lemma group_bits: "preempt_bits g + sub_bits g \<le> 4"
  by (cases g rule: group_cases) (simp_all add: preempt_bits_def sub_bits_def)

lemma bits_of_group: "preempt_bits g = min 4 (7 - unat (g AND 7))" "sub_bits g = unat (g AND 7) - 3"
  by (cases g rule: group_cases; simp add: preempt_bits_def sub_bits_def)+

lemma decode_encode:
  "NVIC_DecodePriority (NVIC_EncodePriority g p s) g = (take_bit (preempt_bits g) p, take_bit (sub_bits g) s)"
proof -
  have b: "preempt_bits g + sub_bits g \<le> 4" by (rule group_bits)
  have "drop_bit (sub_bits g) (NVIC_EncodePriority g p s) AND (push_bit (preempt_bits g) 1 - 1) = take_bit (preempt_bits g) p"
    unfolding NVIC_EncodePriority_def mask_exp by (rule bit_word_eqI) (use b in \<open>auto simp: bit_simps\<close>)
  moreover have "NVIC_EncodePriority g p s AND (push_bit (sub_bits g) 1 - 1) = take_bit (sub_bits g) s"
    unfolding NVIC_EncodePriority_def mask_exp by (rule bit_word_eqI) (use b in \<open>auto simp: bit_simps\<close>)
  ultimately show ?thesis by (simp add: NVIC_DecodePriority_def)
qed

lemma encode_fits: "take_bit 4 (NVIC_EncodePriority g p s) = NVIC_EncodePriority g p s"
  using group_bits [of g] unfolding NVIC_EncodePriority_def mask_exp
  by (intro bit_word_eqI) (auto simp: bit_simps)

lemma priority_byte: "drop_bit 4 (ucast (ucast (push_bit 4 q AND 0xFF) :: u8)) = take_bit 4 q" for q :: u32
proof (rule bit_word_eqI)
  have m: "(0xFF :: u32) = mask 8" by (simp add: mask_eq_exp_minus_1)
  show "bit (drop_bit 4 (ucast (ucast (push_bit 4 q AND 0xFF) :: u8)) :: u32) n = bit (take_bit 4 q) n" for n
    unfolding m by (auto simp: bit_simps)
qed

lemma IRQ_index:
  assumes "-12 \<le> i" "i < 240"
  shows "i < 0 \<Longrightarrow> unat (((word_of_int i :: u32) AND 0xF) - 4) = nat (i + 12)"
    and "\<not> i < 0 \<Longrightarrow> unat (word_of_int i :: u32) = nat i"
proof -
  assume "i < 0"
  then have "i \<in> {-12, -11, -10, -9, -8, -7, -6, -5, -4, -3, -2, -1}"
    using assms unfolding insert_iff empty_iff by presburger
  then show "unat (((word_of_int i :: u32) AND 0xF) - 4) = nat (i + 12)" by auto
next
  assume "\<not> i < 0"
  then have "take_bit 32 i = i" using assms by (simp add: take_bit_int_eq_self_iff)
  then show "unat (word_of_int i :: u32) = nat i" by (simp add: unsigned_of_int)
qed

lemma NVIC_GetPriority_Set:
  "NVIC_GetPriority i (NVIC_SetPriority i q s) = take_bit 4 q"
  by (simp add: NVIC_GetPriority_def NVIC_SetPriority_def Let_def priority_byte)

lemma NVIC_GetPriority_Set_other:
  assumes "-12 \<le> i" "i < 240" "-12 \<le> j" "j < 240" "i \<noteq> j"
  shows "NVIC_GetPriority j (NVIC_SetPriority i q s) = NVIC_GetPriority j s"
  using assms by (simp add: NVIC_GetPriority_def NVIC_SetPriority_def Let_def IRQ_index nat_eq_iff)

lemma NVIC_Get_set_grouping [simp]: "NVIC_GetPriorityGrouping (NVIC_SetPriority i q s) = NVIC_GetPriorityGrouping s"
  by (simp add: NVIC_GetPriorityGrouping_def NVIC_SetPriority_def Let_def)

lemma NVIC_GetPriorityGrouping_Set: "NVIC_GetPriorityGrouping (NVIC_SetPriorityGrouping g s) = g AND 7"
proof -
  have "(r AND NOT 0xFFFF0700 OR v) AND 0x700 = v AND 0x700" for r v :: u32
    using READ_MODIFY_in [of "0x700" "0xFFFF0700" r v] by (simp add: READ_BIT_def MODIFY_REG_def)
  then have "drop_bit 8 ((r AND NOT 0xFFFF0700 OR (0x5FA0000 OR push_bit 8 (g AND 7))) AND 0x700) = g AND 7" for r :: u32
    by (cases g rule: group_cases) simp_all
  then show ?thesis by (simp add: NVIC_GetPriorityGrouping_def NVIC_SetPriorityGrouping_def or.assoc)
qed

lemma HAL_GetPriority_Set:
  "HAL_NVIC_GetPriority i (NVIC_GetPriorityGrouping s) (HAL_NVIC_SetPriority i p q s) =
    (take_bit (min 4 (7 - unat (NVIC_GetPriorityGrouping s AND 7))) p, take_bit (unat (NVIC_GetPriorityGrouping s AND 7) - 3) q)"
  by (simp add: HAL_NVIC_SetPriority_def HAL_NVIC_GetPriority_def NVIC_GetPriority_Set encode_fits decode_encode bits_of_group)

lemma HAL_GetPriority_Set_other:
  "-12 \<le> i \<Longrightarrow> i < 240 \<Longrightarrow> -12 \<le> j \<Longrightarrow> j < 240 \<Longrightarrow> j \<noteq> i \<Longrightarrow>
    HAL_NVIC_GetPriority j g (HAL_NVIC_SetPriority i p q s) = HAL_NVIC_GetPriority j g s"
  by (simp add: HAL_NVIC_SetPriority_def HAL_NVIC_GetPriority_def NVIC_GetPriority_Set_other)

lemma HAL_SetPriority_grouping [simp]: "NVIC_GetPriorityGrouping (HAL_NVIC_SetPriority i p q s) = NVIC_GetPriorityGrouping s"
  by (simp add: HAL_NVIC_SetPriority_def)

lemma HAL_GetPriority_cong:
  "SCB s = SCB t \<Longrightarrow> NVIC s = NVIC t \<Longrightarrow> HAL_NVIC_GetPriority i g s = HAL_NVIC_GetPriority i g t"
  by (simp add: HAL_NVIC_GetPriority_def NVIC_GetPriority_def Let_def)

section \<open>The system tick (core\_cm4.h, stm32f3xx\_hal.c)\<close>

abbreviation (input) SysTick_CTRL_ENABLE :: u32 where "SysTick_CTRL_ENABLE \<equiv> 1"
abbreviation (input) SysTick_CTRL_TICKINT :: u32 where "SysTick_CTRL_TICKINT \<equiv> 2"
abbreviation (input) SysTick_CTRL_CLKSOURCE :: u32 where "SysTick_CTRL_CLKSOURCE \<equiv> 4"
abbreviation (input) SYSTICK_CLKSOURCE_HCLK :: u32 where "SYSTICK_CLKSOURCE_HCLK \<equiv> 4"
abbreviation (input) SysTick_LOAD_RELOAD :: u32 where "SysTick_LOAD_RELOAD \<equiv> 0xFFFFFF"

definition write_VAL :: "'z stm32_scheme \<Rightarrow> 'z stm32_scheme" where
  "write_VAL s = s\<lparr>SysTick := (SysTick s)\<lparr>st_VAL := 0\<rparr>\<rparr>"

definition set_CTRL :: "u32 \<Rightarrow> 'z stm32_scheme \<Rightarrow> 'z stm32_scheme" where
  "set_CTRL v s = s\<lparr>SysTick := (SysTick s)\<lparr>st_CTRL := v\<rparr>\<rparr>"

definition SysTick_Config :: "u32 \<Rightarrow> 'z stm32_scheme \<Rightarrow> u32 \<times> 'z stm32_scheme" where
  "SysTick_Config ticks s =
     (if ticks - 1 > SysTick_LOAD_RELOAD then (1, s)
      else
        let s1 = s\<lparr>SysTick := (SysTick s)\<lparr>st_LOAD := ticks - 1\<rparr>\<rparr>;
            s2 = NVIC_SetPriority SysTick_IRQn (push_bit NVIC_PRIO_BITS 1 - 1) s1
        in (0, set_CTRL (SysTick_CTRL_CLKSOURCE OR SysTick_CTRL_TICKINT OR SysTick_CTRL_ENABLE) (write_VAL s2)))"

definition HAL_SYSTICK_Config :: "u32 \<Rightarrow> 'z stm32_scheme \<Rightarrow> u32 \<times> 'z stm32_scheme" where
  "HAL_SYSTICK_Config TicksNumb s = SysTick_Config TicksNumb s"

definition HAL_SYSTICK_CLKSourceConfig :: "u32 \<Rightarrow> 'z stm32_scheme \<Rightarrow> 'z stm32_scheme" where
  "HAL_SYSTICK_CLKSourceConfig CLKSource s =
     (if CLKSource = SYSTICK_CLKSOURCE_HCLK
      then set_CTRL (SET_BIT (st_CTRL (SysTick s)) SYSTICK_CLKSOURCE_HCLK) s
      else set_CTRL (CLEAR_BIT (st_CTRL (SysTick s)) SYSTICK_CLKSOURCE_HCLK) s)"

definition HAL_InitTick :: "u32 \<Rightarrow> 'z stm32_scheme \<Rightarrow> 'z stm32_scheme" where
  "HAL_InitTick TickPriority s =
     (let (_, s1) = HAL_SYSTICK_Config (SystemCoreClock s div 1000) s
      in HAL_NVIC_SetPriority SysTick_IRQn TickPriority 0 s1)"

definition HAL_SuspendTick :: "'z stm32_scheme \<Rightarrow> 'z stm32_scheme" where
  "HAL_SuspendTick s = set_CTRL (CLEAR_BIT (st_CTRL (SysTick s)) SysTick_CTRL_TICKINT) s"

definition HAL_ResumeTick :: "'z stm32_scheme \<Rightarrow> 'z stm32_scheme" where
  "HAL_ResumeTick s = set_CTRL (SET_BIT (st_CTRL (SysTick s)) SysTick_CTRL_TICKINT) s"

definition LL_InitTick :: "u32 \<Rightarrow> u32 \<Rightarrow> 'z stm32_scheme \<Rightarrow> 'z stm32_scheme" where
  "LL_InitTick HCLKFrequency Ticks s =
     (let s1 = s\<lparr>SysTick := (SysTick s)\<lparr>st_LOAD := HCLKFrequency div Ticks - 1\<rparr>\<rparr>
      in set_CTRL (SysTick_CTRL_CLKSOURCE OR SysTick_CTRL_ENABLE) (write_VAL s1))"

definition LL_Init1msTick :: "u32 \<Rightarrow> 'z stm32_scheme \<Rightarrow> 'z stm32_scheme" where
  "LL_Init1msTick HCLKFrequency s = LL_InitTick HCLKFrequency 1000 s"

definition LL_SYSTICK_SetClkSource :: "u32 \<Rightarrow> 'z stm32_scheme \<Rightarrow> 'z stm32_scheme" where
  "LL_SYSTICK_SetClkSource Source s =
     (if Source = SYSTICK_CLKSOURCE_HCLK
      then set_CTRL (SET_BIT (st_CTRL (SysTick s)) SYSTICK_CLKSOURCE_HCLK) s
      else set_CTRL (CLEAR_BIT (st_CTRL (SysTick s)) SYSTICK_CLKSOURCE_HCLK) s)"

definition LL_SetSystemCoreClock :: "u32 \<Rightarrow> 'z stm32_scheme \<Rightarrow> 'z stm32_scheme" where
  "LL_SetSystemCoreClock HCLKFrequency s = s\<lparr>SystemCoreClock := HCLKFrequency\<rparr>"

section \<open>The clock tree (stm32f3xx\_ll\_system.h, stm32f3xx\_ll\_rcc.h, system\_stm32f3xx.c)\<close>

abbreviation (input) FLASH_ACR_LATENCY :: u32 where "FLASH_ACR_LATENCY \<equiv> 7"
abbreviation (input) FLASH_ACR_PRFTBE :: u32 where "FLASH_ACR_PRFTBE \<equiv> 0x10"
abbreviation (input) LL_FLASH_LATENCY_2 :: u32 where "LL_FLASH_LATENCY_2 \<equiv> 2"
abbreviation (input) RCC_CR_HSION :: u32 where "RCC_CR_HSION \<equiv> 1"
abbreviation (input) RCC_CR_HSIRDY :: u32 where "RCC_CR_HSIRDY \<equiv> 2"
abbreviation (input) RCC_CR_HSITRIM :: u32 where "RCC_CR_HSITRIM \<equiv> 0xF8"
abbreviation (input) RCC_CR_PLLON :: u32 where "RCC_CR_PLLON \<equiv> 0x1000000"
abbreviation (input) RCC_CR_PLLRDY :: u32 where "RCC_CR_PLLRDY \<equiv> 0x2000000"
abbreviation (input) RCC_CFGR_SW :: u32 where "RCC_CFGR_SW \<equiv> 3"
abbreviation (input) RCC_CFGR_SWS :: u32 where "RCC_CFGR_SWS \<equiv> 0xC"
abbreviation (input) RCC_CFGR_SWS_HSI :: u32 where "RCC_CFGR_SWS_HSI \<equiv> 0"
abbreviation (input) RCC_CFGR_SWS_HSE :: u32 where "RCC_CFGR_SWS_HSE \<equiv> 4"
abbreviation (input) RCC_CFGR_SWS_PLL :: u32 where "RCC_CFGR_SWS_PLL \<equiv> 8"
abbreviation (input) RCC_CFGR_HPRE :: u32 where "RCC_CFGR_HPRE \<equiv> 0xF0"
abbreviation (input) RCC_CFGR_PPRE1 :: u32 where "RCC_CFGR_PPRE1 \<equiv> 0x700"
abbreviation (input) RCC_CFGR_PPRE2 :: u32 where "RCC_CFGR_PPRE2 \<equiv> 0x3800"
abbreviation (input) RCC_CFGR_PLLSRC :: u32 where "RCC_CFGR_PLLSRC \<equiv> 0x10000"
abbreviation (input) RCC_CFGR_PLLMUL :: u32 where "RCC_CFGR_PLLMUL \<equiv> 0x3C0000"
abbreviation (input) RCC_CFGR2_PREDIV :: u32 where "RCC_CFGR2_PREDIV \<equiv> 0xF"
abbreviation (input) LL_RCC_PLLSOURCE_HSI_DIV_2 :: u32 where "LL_RCC_PLLSOURCE_HSI_DIV_2 \<equiv> 0"
abbreviation (input) LL_RCC_PLL_MUL_16 :: u32 where "LL_RCC_PLL_MUL_16 \<equiv> 0x380000"
abbreviation (input) LL_RCC_SYSCLK_DIV_1 :: u32 where "LL_RCC_SYSCLK_DIV_1 \<equiv> 0"
abbreviation (input) LL_RCC_APB1_DIV_1 :: u32 where "LL_RCC_APB1_DIV_1 \<equiv> 0"
abbreviation (input) LL_RCC_APB1_DIV_2 :: u32 where "LL_RCC_APB1_DIV_2 \<equiv> 0x400"
abbreviation (input) LL_RCC_SYS_CLKSOURCE_PLL :: u32 where "LL_RCC_SYS_CLKSOURCE_PLL \<equiv> 2"
abbreviation (input) HSI_VALUE :: u32 where "HSI_VALUE \<equiv> 8000000"
abbreviation (input) HSE_VALUE :: u32 where "HSE_VALUE \<equiv> 8000000"

definition LL_FLASH_SetLatency :: "u32 \<Rightarrow> 'z stm32_scheme \<Rightarrow> 'z stm32_scheme" where
  "LL_FLASH_SetLatency Latency s = s\<lparr>FLASH := (FLASH s)\<lparr>fl_ACR := MODIFY_REG (fl_ACR (FLASH s)) FLASH_ACR_LATENCY Latency\<rparr>\<rparr>"

definition LL_FLASH_GetLatency :: "'z stm32_scheme \<Rightarrow> u32 \<times> 'z stm32_scheme" where
  "LL_FLASH_GetLatency s = (let (h, s1) = hw_read s in (READ_BIT (rd_ACR h) FLASH_ACR_LATENCY, s1))"

text \<open>Writing the two clock registers.\<close>

definition set_CR :: "u32 \<Rightarrow> 'z stm32_scheme \<Rightarrow> 'z stm32_scheme" where
  "set_CR v s = s\<lparr>RCC := (RCC s)\<lparr>rcc_CR := v\<rparr>\<rparr>"

definition set_CFGR :: "u32 \<Rightarrow> 'z stm32_scheme \<Rightarrow> 'z stm32_scheme" where
  "set_CFGR v s = s\<lparr>RCC := (RCC s)\<lparr>rcc_CFGR := v\<rparr>\<rparr>"

definition LL_RCC_HSI_Enable :: "'z stm32_scheme \<Rightarrow> 'z stm32_scheme" where
  "LL_RCC_HSI_Enable s = set_CR (SET_BIT (rcc_CR (RCC s)) RCC_CR_HSION) s"

definition LL_RCC_HSI_IsReady :: "'z stm32_scheme \<Rightarrow> u32 \<times> 'z stm32_scheme" where
  "LL_RCC_HSI_IsReady s =
     (let (h, s1) = hw_read s in (if READ_BIT (rd_CR h) RCC_CR_HSIRDY = RCC_CR_HSIRDY then 1 else 0, s1))"

definition LL_RCC_HSI_SetCalibTrimming :: "u32 \<Rightarrow> 'z stm32_scheme \<Rightarrow> 'z stm32_scheme" where
  "LL_RCC_HSI_SetCalibTrimming Value s = set_CR (MODIFY_REG (rcc_CR (RCC s)) RCC_CR_HSITRIM (push_bit 3 Value)) s"

definition LL_RCC_PLL_ConfigDomain_SYS :: "u32 \<Rightarrow> u32 \<Rightarrow> 'z stm32_scheme \<Rightarrow> 'z stm32_scheme" where
  "LL_RCC_PLL_ConfigDomain_SYS Source PLLMul s =
     (let s1 = set_CFGR (MODIFY_REG (rcc_CFGR (RCC s)) (RCC_CFGR_PLLSRC OR RCC_CFGR_PLLMUL)
                 ((Source AND RCC_CFGR_PLLSRC) OR PLLMul)) s
      in s1\<lparr>RCC := (RCC s1)\<lparr>rcc_CFGR2 := MODIFY_REG (rcc_CFGR2 (RCC s1)) RCC_CFGR2_PREDIV (Source AND RCC_CFGR2_PREDIV)\<rparr>\<rparr>)"

definition LL_RCC_PLL_Enable :: "'z stm32_scheme \<Rightarrow> 'z stm32_scheme" where
  "LL_RCC_PLL_Enable s = set_CR (SET_BIT (rcc_CR (RCC s)) RCC_CR_PLLON) s"

definition LL_RCC_PLL_IsReady :: "'z stm32_scheme \<Rightarrow> u32 \<times> 'z stm32_scheme" where
  "LL_RCC_PLL_IsReady s =
     (let (h, s1) = hw_read s in (if READ_BIT (rd_CR h) RCC_CR_PLLRDY = RCC_CR_PLLRDY then 1 else 0, s1))"

definition LL_RCC_SetAHBPrescaler :: "u32 \<Rightarrow> 'z stm32_scheme \<Rightarrow> 'z stm32_scheme" where
  "LL_RCC_SetAHBPrescaler Prescaler s = set_CFGR (MODIFY_REG (rcc_CFGR (RCC s)) RCC_CFGR_HPRE Prescaler) s"

definition LL_RCC_SetAPB1Prescaler :: "u32 \<Rightarrow> 'z stm32_scheme \<Rightarrow> 'z stm32_scheme" where
  "LL_RCC_SetAPB1Prescaler Prescaler s = set_CFGR (MODIFY_REG (rcc_CFGR (RCC s)) RCC_CFGR_PPRE1 Prescaler) s"

definition LL_RCC_SetAPB2Prescaler :: "u32 \<Rightarrow> 'z stm32_scheme \<Rightarrow> 'z stm32_scheme" where
  "LL_RCC_SetAPB2Prescaler Prescaler s = set_CFGR (MODIFY_REG (rcc_CFGR (RCC s)) RCC_CFGR_PPRE2 Prescaler) s"

definition LL_RCC_SetSysClkSource :: "u32 \<Rightarrow> 'z stm32_scheme \<Rightarrow> 'z stm32_scheme" where
  "LL_RCC_SetSysClkSource Source s = set_CFGR (MODIFY_REG (rcc_CFGR (RCC s)) RCC_CFGR_SW Source) s"

definition LL_RCC_GetSysClkSource :: "'z stm32_scheme \<Rightarrow> u32 \<times> 'z stm32_scheme" where
  "LL_RCC_GetSysClkSource s = (let (h, s1) = hw_read s in (READ_BIT (rd_CFGR h) RCC_CFGR_SWS, s1))"

text \<open>
  \<open>SystemInit\<close> runs before \<open>main\<close>, in the build with the floating point unit. \<open>SystemCoreClockUpdate\<close> computes the
  frequency of the core from the registers.
\<close>

definition SystemInit :: "'z stm32_scheme \<Rightarrow> 'z stm32_scheme" where
  "SystemInit s =
     (let s1 = s\<lparr>SCB := (SCB s)\<lparr>scb_CPACR := scb_CPACR (SCB s) OR (push_bit 20 3 OR push_bit 22 3)\<rparr>\<rparr>;
          s2 = set_CR (rcc_CR (RCC s1) OR 0x00000001) s1;
          s3 = set_CFGR (rcc_CFGR (RCC s2) AND 0xF87FC00C) s2;
          s4 = set_CR (rcc_CR (RCC s3) AND 0xFEF6FFFF) s3;
          s5 = set_CR (rcc_CR (RCC s4) AND 0xFFFBFFFF) s4;
          s6 = set_CFGR (rcc_CFGR (RCC s5) AND 0xFF80FFFF) s5;
          s7 = s6\<lparr>RCC := (RCC s6)\<lparr>rcc_CFGR2 := rcc_CFGR2 (RCC s6) AND 0xFFFFFFF0\<rparr>\<rparr>;
          s8 = s7\<lparr>RCC := (RCC s7)\<lparr>rcc_CFGR3 := rcc_CFGR3 (RCC s7) AND 0xFF00FCCC\<rparr>\<rparr>;
          s9 = s8\<lparr>RCC := (RCC s8)\<lparr>rcc_CIR := 0\<rparr>\<rparr>
      in s9\<lparr>SCB := (SCB s9)\<lparr>scb_VTOR := 0x08000000 OR 0\<rparr>\<rparr>)"

definition AHBPrescTable :: "nat list" where
  "AHBPrescTable = [0, 0, 0, 0, 0, 0, 0, 0, 1, 2, 3, 4, 6, 7, 8, 9]"

definition SystemCoreClockUpdate :: "'z stm32_scheme \<Rightarrow> 'z stm32_scheme" where
  "SystemCoreClockUpdate s =
     (let (h, s1) = hw_read s; tmp = READ_BIT (rd_CFGR h) RCC_CFGR_SWS; cfgr = rcc_CFGR (RCC s1);
          clock =
            (if tmp = RCC_CFGR_SWS_HSI then HSI_VALUE
             else if tmp = RCC_CFGR_SWS_HSE then HSE_VALUE
             else if tmp = RCC_CFGR_SWS_PLL then
               (let pllmull = drop_bit 18 (READ_BIT cfgr RCC_CFGR_PLLMUL) + 2
                in if READ_BIT cfgr RCC_CFGR_PLLSRC = LL_RCC_PLLSOURCE_HSI_DIV_2 then drop_bit 1 HSI_VALUE * pllmull
                   else HSE_VALUE div (READ_BIT (rcc_CFGR2 (RCC s1)) RCC_CFGR2_PREDIV + 1) * pllmull)
             else HSI_VALUE)
      in s1\<lparr>SystemCoreClock := drop_bit (AHBPrescTable ! unat (drop_bit 4 (READ_BIT cfgr RCC_CFGR_HPRE))) clock\<rparr>)"

text \<open>The clocks of the two peripheral busses.\<close>

definition APBPrescTable :: "nat list" where
  "APBPrescTable = [0, 0, 0, 0, 1, 2, 3, 4]"

definition HAL_RCC_GetHCLKFreq :: "'z stm32_scheme \<Rightarrow> u32" where
  "HAL_RCC_GetHCLKFreq s = SystemCoreClock s"

definition HAL_RCC_GetPCLK1Freq :: "'z stm32_scheme \<Rightarrow> u32" where
  "HAL_RCC_GetPCLK1Freq s =
     drop_bit (APBPrescTable ! unat (drop_bit 8 (rcc_CFGR (RCC s) AND RCC_CFGR_PPRE1))) (HAL_RCC_GetHCLKFreq s)"

definition HAL_RCC_GetPCLK2Freq :: "'z stm32_scheme \<Rightarrow> u32" where
  "HAL_RCC_GetPCLK2Freq s =
     drop_bit (APBPrescTable ! unat (drop_bit 11 (rcc_CFGR (RCC s) AND RCC_CFGR_PPRE2))) (HAL_RCC_GetHCLKFreq s)"

section \<open>Waiting for the hardware\<close>

text \<open>The empty loop \<open>while (ready() != v) {}\<close>; it returns if a reading ever has the value.\<close>

partial_function (option) wait_until ::
    "('z stm32_scheme \<Rightarrow> u32 \<times> 'z stm32_scheme) \<Rightarrow> u32 \<Rightarrow> 'z stm32_scheme \<Rightarrow> 'z stm32_scheme option" where
  "wait_until ready v s = (let (r, s1) = ready s in if r \<noteq> v then wait_until ready v s1 else Some s1)"

declare wait_until.simps [code]

definition hw_polled :: "nat \<Rightarrow> 'z stm32_scheme \<Rightarrow> 'z stm32_scheme" where
  "hw_polled n s = s\<lparr>hw_polls := n\<rparr>"

lemma hw_polled_simps [simp]:
  "RCC (hw_polled n s) = RCC s" "FLASH (hw_polled n s) = FLASH s" "NVIC (hw_polled n s) = NVIC s" "SCB (hw_polled n s) = SCB s"
  "SysTick (hw_polled n s) = SysTick s" "SystemCoreClock (hw_polled n s) = SystemCoreClock s"
  "hw_status (hw_polled n s) = hw_status s" "hw_polls (hw_polled n s) = n" "hw_polled m (hw_polled n s) = hw_polled m s"
  "stm32.more (hw_polled n s) = stm32.more s"
  by (simp_all add: hw_polled_def)

lemma hw_read_polled: "hw_read s = (hw_status s (hw_polls s), hw_polled (Suc (hw_polls s)) s)"
  by (simp add: hw_read_def hw_polled_def)

lemma wait_until_first:
  assumes "\<And>s :: 'z stm32_scheme. ready s = (f (hw_status s (hw_polls s)), hw_polled (Suc (hw_polls s)) s)"
    and "hw_polls s \<le> n" "f (hw_status s n) = v" "\<And>m. hw_polls s \<le> m \<Longrightarrow> m < n \<Longrightarrow> f (hw_status s m) \<noteq> v"
  shows "wait_until ready v s = Some (hw_polled (Suc n) s)"
  using assms(2-)
proof (induction "n - hw_polls s" arbitrary: s)
  case 0
  then show ?case by (subst wait_until.simps) (simp add: assms(1))
next
  case (Suc k)
  then have "f (hw_status s (hw_polls s)) \<noteq> v" by auto
  moreover have "wait_until ready v (hw_polled (Suc (hw_polls s)) s) = Some (hw_polled (Suc n) s)"
    using Suc.prems Suc.hyps(2) by (subst Suc.hyps(1)) auto
  ultimately show ?case by (subst wait_until.simps) (simp add: assms(1))
qed

lemma wait_until_Some:
  assumes "\<And>s :: 'z stm32_scheme. ready s = (f (hw_status s (hw_polls s)), hw_polled (Suc (hw_polls s)) s)"
    and "wait_until ready v s = Some s'"
  shows "\<exists>n\<ge>hw_polls s. f (hw_status s n) = v \<and> s' = hw_polled (Suc n) s"
proof (rule wait_until.raw_induct [OF _ assms(2), where P = "\<lambda>rd v s s'. rd = ready \<longrightarrow>
    (\<exists>n\<ge>hw_polls s. f (hw_status s n) = v \<and> s' = hw_polled (Suc n) s)", THEN mp, OF _ refl], intro impI)
  fix w rd v s s'
  assume IH: "\<And>rd v s s'. w rd v s = Some s' \<Longrightarrow> rd = ready \<longrightarrow>
      (\<exists>n\<ge>hw_polls s. f (hw_status s n) = v \<and> s' = hw_polled (Suc n) s)"
    and w: "(let (r, s1) = rd s in if r \<noteq> v then w rd v s1 else Some s1) = Some s'" and rd: "rd = ready"
  show "\<exists>n\<ge>hw_polls s. f (hw_status s n) = v \<and> s' = hw_polled (Suc n) s"
  proof (cases "f (hw_status s (hw_polls s)) = v")
    case False
    then have "w ready v (hw_polled (Suc (hw_polls s)) s) = Some s'" using w rd by (simp add: assms(1))
    from IH [OF this] obtain n where "Suc (hw_polls s) \<le> n" "f (hw_status s n) = v" "s' = hw_polled (Suc n) s" by auto
    then show ?thesis by (intro exI [of _ n]) simp
  next
    case True
    then have "s' = hw_polled (Suc (hw_polls s)) s" using w rd by (simp add: assms(1))
    with True show ?thesis by blast
  qed
qed

text \<open>The loop returns if and only if the value is ever read.\<close>

lemma wait_until_returns:
  assumes "\<And>s :: 'z stm32_scheme. ready s = (f (hw_status s (hw_polls s)), hw_polled (Suc (hw_polls s)) s)"
    and "hw_polls s \<le> m" "f (hw_status s m) = v"
  shows "\<exists>n\<le>m. wait_until ready v s = Some (hw_polled (Suc n) s)"
proof -
  let ?P = "\<lambda>n. hw_polls s \<le> n \<and> f (hw_status s n) = v"
  have l: "?P (Least ?P)" by (rule LeastI [of ?P m]) (simp add: assms(2,3))
  have "f (hw_status s k) \<noteq> v" if "hw_polls s \<le> k" "k < Least ?P" for k
    using not_less_Least [OF that(2)] that(1) by blast
  with l have "wait_until ready v s = Some (hw_polled (Suc (Least ?P)) s)"
    by (intro wait_until_first [where f = f, OF assms(1)]) blast+
  moreover have "Least ?P \<le> m" by (rule Least_le) (simp add: assms(2,3))
  ultimately show ?thesis by blast
qed

section \<open>Properties\<close>

text \<open>The registers after a reset, with hardware that is ready at once.\<close>

definition reset_state :: stm32 where
  "reset_state =
     \<lparr>RCC = \<lparr>rcc_CR = 0x83, rcc_CFGR = 0, rcc_CIR = 0, rcc_APB2RSTR = 0, rcc_APB1RSTR = 0, rcc_AHBENR = 0x14, rcc_APB2ENR = 0,
        rcc_APB1ENR = 0, rcc_BDCR = 0, rcc_CSR = 0, rcc_AHBRSTR = 0, rcc_CFGR2 = 0, rcc_CFGR3 = 0\<rparr>,
      FLASH = \<lparr>fl_ACR = 0x30, fl_KEYR = 0, fl_OPTKEYR = 0, fl_SR = 0, fl_CR = 0x80, fl_AR = 0, fl_OBR = 0, fl_WRPR = 0\<rparr>,
      NVIC = \<lparr>nv_ISER = (\<lambda>_. 0), nv_ISPR = (\<lambda>_. 0), nv_IABR = (\<lambda>_. 0), nv_IP = (\<lambda>_. 0)\<rparr>,
      SCB = \<lparr>scb_ICSR = 0, scb_VTOR = 0, scb_AIRCR = 0xFA050000, scb_SCR = 0, scb_CCR = 0, scb_SHP = (\<lambda>_. 0), scb_SHCSR = 0, scb_CPACR = 0\<rparr>,
      SysTick = \<lparr>st_CTRL = 0, st_LOAD = 0, st_VAL = 0, st_CALIB = 0\<rparr>,
      SystemCoreClock = 8000000,
      hw_status = (\<lambda>_. \<lparr>rd_ACR = 2, rd_CR = RCC_CR_HSIRDY OR RCC_CR_PLLRDY, rd_CFGR = RCC_CFGR_SWS_PLL\<rparr>), hw_polls = 0\<rparr>"

text \<open>
  Priorities survive the registers. For every state of the controller, what \<open>HAL_NVIC_SetPriority\<close> stores in the
  four bits an interrupt has is read back by \<open>HAL_NVIC_GetPriority\<close> as the two numbers given, each cut to the bits the
  priority group in force leaves it; the grouping and the priorities of all other interrupts and exceptions are as before.
\<close>

lemma HAL_NVIC_priority_roundtrip:
  assumes "-12 \<le> IRQn" "IRQn < 240"
  shows "HAL_NVIC_GetPriority IRQn (NVIC_GetPriorityGrouping s) (HAL_NVIC_SetPriority IRQn p q s) =
      (take_bit (min 4 (7 - unat (NVIC_GetPriorityGrouping s AND 7))) p, take_bit (unat (NVIC_GetPriorityGrouping s AND 7) - 3) q) \<and>
    NVIC_GetPriorityGrouping (HAL_NVIC_SetPriority IRQn p q s) = NVIC_GetPriorityGrouping s \<and>
    (\<forall>j g. -12 \<le> j \<and> j < 240 \<and> j \<noteq> IRQn \<longrightarrow>
       HAL_NVIC_GetPriority j g (HAL_NVIC_SetPriority IRQn p q s) = HAL_NVIC_GetPriority j g s)"
  using assms by (simp add: HAL_GetPriority_Set HAL_GetPriority_Set_other)

lemma HAL_NVIC_priority_roundtrip_witness:
  "HAL_NVIC_GetPriority TIM3_IRQn 5 (HAL_NVIC_SetPriority TIM3_IRQn 1 6 (NVIC_SetPriorityGrouping 5 reset_state)) = (1, 2)"
  using HAL_NVIC_priority_roundtrip [of TIM3_IRQn "NVIC_SetPriorityGrouping 5 reset_state" 1 6]
  by (simp add: NVIC_GetPriorityGrouping_Set)

end
