(* ===== verification/Stm32Io.thy ===== *)
theory Stm32Io
  imports Stm32Core
begin

text \<open>
  Pins, external interrupts and the CRC unit of the controller, as \<^verbatim>\<open>gpio.c\<close> and \<^verbatim>\<open>crc.c\<close> of \<^verbatim>\<open>src/swtimertest/Src\<close>
  set them up through \<^verbatim>\<open>stm32f3xx_ll_gpio.c\<close>/\<^verbatim>\<open>.h\<close>, \<^verbatim>\<open>stm32f3xx_ll_exti.c\<close>/\<^verbatim>\<open>.h\<close> and \<^verbatim>\<open>stm32f3xx_ll_crc.h\<close>. The
  state of \<open>Stm32Core\<close> is extended by the register blocks of these units. A write to the reset register of a port clears
  output bits (\<open>write_BRR\<close>). \<open>LL_GPIO_Init\<close> always answers SUCCESS; the answer is left out. At the end: what \<open>MX_GPIO_Init\<close>
  leaves in the registers (\<open>pins_ready\<close>).
\<close>

section \<open>Registers\<close>

datatype GPIO_Port = GPIOA | GPIOB | GPIOC | GPIOD | GPIOF

record GPIO_TypeDef =
  gp_MODER :: u32
  gp_OTYPER :: u32
  gp_OSPEEDR :: u32
  gp_PUPDR :: u32
  gp_IDR :: u32
  gp_ODR :: u32
  gp_LCKR :: u32
  gp_AFR :: "nat \<Rightarrow> u32"

record EXTI_TypeDef =
  ex_IMR :: u32
  ex_EMR :: u32
  ex_RTSR :: u32
  ex_FTSR :: u32
  ex_SWIER :: u32
  ex_PR :: u32
  ex_IMR2 :: u32
  ex_EMR2 :: u32
  ex_RTSR2 :: u32
  ex_FTSR2 :: u32
  ex_SWIER2 :: u32
  ex_PR2 :: u32

record SYSCFG_TypeDef =
  sy_CFGR1 :: u32
  sy_RCR :: u32
  sy_EXTICR :: "nat \<Rightarrow> u32"
  sy_CFGR2 :: u32
  sy_CFGR3 :: u32

record CRC_TypeDef =
  cr_DR :: u32
  cr_IDR :: u8
  cr_CR :: u32
  cr_INIT :: u32
  cr_POL :: u32

record stm32_io = stm32 +
  GPIO :: "GPIO_Port \<Rightarrow> GPIO_TypeDef"
  EXTI :: EXTI_TypeDef
  SYSCFG :: SYSCFG_TypeDef
  CRCx :: CRC_TypeDef

definition upd_gpio :: "GPIO_Port \<Rightarrow> (GPIO_TypeDef \<Rightarrow> GPIO_TypeDef) \<Rightarrow> 'z stm32_io_scheme \<Rightarrow> 'z stm32_io_scheme" where
  "upd_gpio p f s = s\<lparr>GPIO := (GPIO s)(p := f (GPIO s p))\<rparr>"

definition POSITION_VAL :: "u32 \<Rightarrow> nat" where
  "POSITION_VAL v = length (takeWhile Not (map (bit v) [0..<32]))"

definition LL_AHB1_GRP1_EnableClock :: "u32 \<Rightarrow> 'z stm32_scheme \<Rightarrow> 'z stm32_scheme" where
  "LL_AHB1_GRP1_EnableClock Periphs s = s\<lparr>RCC := (RCC s)\<lparr>rcc_AHBENR := SET_BIT (rcc_AHBENR (RCC s)) Periphs\<rparr>\<rparr>"

section \<open>Pins (stm32f3xx\_ll\_gpio)\<close>

abbreviation (input) LL_GPIO_MODE_INPUT :: u32 where "LL_GPIO_MODE_INPUT \<equiv> 0"
abbreviation (input) LL_GPIO_MODE_OUTPUT :: u32 where "LL_GPIO_MODE_OUTPUT \<equiv> 1"
abbreviation (input) LL_GPIO_MODE_ALTERNATE :: u32 where "LL_GPIO_MODE_ALTERNATE \<equiv> 2"
abbreviation (input) LL_GPIO_PULL_NO :: u32 where "LL_GPIO_PULL_NO \<equiv> 0"
abbreviation (input) LL_GPIO_SPEED_FREQ_LOW :: u32 where "LL_GPIO_SPEED_FREQ_LOW \<equiv> 0"
abbreviation (input) LL_GPIO_SPEED_FREQ_HIGH :: u32 where "LL_GPIO_SPEED_FREQ_HIGH \<equiv> 3"
abbreviation (input) LL_GPIO_OUTPUT_PUSHPULL :: u32 where "LL_GPIO_OUTPUT_PUSHPULL \<equiv> 0"
abbreviation (input) LL_GPIO_AF_7 :: u32 where "LL_GPIO_AF_7 \<equiv> 7"

record LL_GPIO_InitTypeDef =
  gi_Pin :: u32
  gi_Mode :: u32
  gi_Speed :: u32
  gi_OutputType :: u32
  gi_Pull :: u32
  gi_Alternate :: u32

definition write_BRR :: "u32 \<Rightarrow> GPIO_TypeDef \<Rightarrow> GPIO_TypeDef" where
  "write_BRR v g = g\<lparr>gp_ODR := gp_ODR g AND NOT v\<rparr>"

definition LL_GPIO_ResetOutputPin :: "GPIO_Port \<Rightarrow> u32 \<Rightarrow> 'z stm32_io_scheme \<Rightarrow> 'z stm32_io_scheme" where
  "LL_GPIO_ResetOutputPin p PinMask = upd_gpio p (write_BRR PinMask)"

definition LL_GPIO_SetPinMode :: "u32 \<Rightarrow> u32 \<Rightarrow> GPIO_TypeDef \<Rightarrow> GPIO_TypeDef" where
  "LL_GPIO_SetPinMode Pin Mode g =
     g\<lparr>gp_MODER := MODIFY_REG (gp_MODER g) (push_bit (POSITION_VAL Pin * 2) 3) (push_bit (POSITION_VAL Pin * 2) Mode)\<rparr>"

definition LL_GPIO_SetPinSpeed :: "u32 \<Rightarrow> u32 \<Rightarrow> GPIO_TypeDef \<Rightarrow> GPIO_TypeDef" where
  "LL_GPIO_SetPinSpeed Pin Speed g =
     g\<lparr>gp_OSPEEDR := MODIFY_REG (gp_OSPEEDR g) (push_bit (POSITION_VAL Pin * 2) 3) (push_bit (POSITION_VAL Pin * 2) Speed)\<rparr>"

definition LL_GPIO_SetPinPull :: "u32 \<Rightarrow> u32 \<Rightarrow> GPIO_TypeDef \<Rightarrow> GPIO_TypeDef" where
  "LL_GPIO_SetPinPull Pin Pull g =
     g\<lparr>gp_PUPDR := MODIFY_REG (gp_PUPDR g) (push_bit (POSITION_VAL Pin * 2) 3) (push_bit (POSITION_VAL Pin * 2) Pull)\<rparr>"

definition LL_GPIO_SetPinOutputType :: "u32 \<Rightarrow> u32 \<Rightarrow> GPIO_TypeDef \<Rightarrow> GPIO_TypeDef" where
  "LL_GPIO_SetPinOutputType PinMask OutputType g =
     g\<lparr>gp_OTYPER := MODIFY_REG (gp_OTYPER g) PinMask (PinMask * OutputType)\<rparr>"

definition LL_GPIO_SetAFPin_0_7 :: "u32 \<Rightarrow> u32 \<Rightarrow> GPIO_TypeDef \<Rightarrow> GPIO_TypeDef" where
  "LL_GPIO_SetAFPin_0_7 Pin Alternate g =
     g\<lparr>gp_AFR := (gp_AFR g)(0 :=
       MODIFY_REG (gp_AFR g 0) (push_bit (POSITION_VAL Pin * 4) 0xF) (push_bit (POSITION_VAL Pin * 4) Alternate))\<rparr>"

definition LL_GPIO_SetAFPin_8_15 :: "u32 \<Rightarrow> u32 \<Rightarrow> GPIO_TypeDef \<Rightarrow> GPIO_TypeDef" where
  "LL_GPIO_SetAFPin_8_15 Pin Alternate g =
     g\<lparr>gp_AFR := (gp_AFR g)(1 :=
       MODIFY_REG (gp_AFR g 1) (push_bit (POSITION_VAL (drop_bit 8 Pin) * 4) 0xF)
         (push_bit (POSITION_VAL (drop_bit 8 Pin) * 4) Alternate))\<rparr>"

definition gpio_drives :: "LL_GPIO_InitTypeDef \<Rightarrow> bool" where
  "gpio_drives c \<longleftrightarrow> gi_Mode c = LL_GPIO_MODE_OUTPUT \<or> gi_Mode c = LL_GPIO_MODE_ALTERNATE"

definition gpio_init_pin :: "LL_GPIO_InitTypeDef \<Rightarrow> u32 \<Rightarrow> GPIO_TypeDef \<Rightarrow> GPIO_TypeDef" where
  "gpio_init_pin c currentpin g =
     (let g1 = LL_GPIO_SetPinMode currentpin (gi_Mode c) g;
          g2 = (if gpio_drives c then LL_GPIO_SetPinSpeed currentpin (gi_Speed c) g1 else g1);
          g3 = LL_GPIO_SetPinPull currentpin (gi_Pull c) g2
      in if gi_Mode c = LL_GPIO_MODE_ALTERNATE then
           if POSITION_VAL currentpin < 8 then LL_GPIO_SetAFPin_0_7 currentpin (gi_Alternate c) g3
           else LL_GPIO_SetAFPin_8_15 currentpin (gi_Alternate c) g3
         else g3)"

lemma drop_bit_pin: "drop_bit n w \<noteq> 0 \<Longrightarrow> n < 32" for w :: u32
proof (rule ccontr)
  assume "drop_bit n w \<noteq> 0" "\<not> n < 32"
  moreover from \<open>\<not> n < 32\<close> have "drop_bit n w = 0"
    by (intro bit_word_eqI) (auto simp: bit_simps dest: bit_imp_le_length)
  ultimately show False by simp
qed

text \<open>The loop over the pins from \<open>pinpos\<close> on.\<close>

function gpio_init_loop :: "LL_GPIO_InitTypeDef \<Rightarrow> nat \<Rightarrow> GPIO_TypeDef \<Rightarrow> GPIO_TypeDef" where
  "gpio_init_loop c pinpos g =
     (if drop_bit pinpos (gi_Pin c) \<noteq> 0 then
        let currentpin = gi_Pin c AND push_bit pinpos 1
        in gpio_init_loop c (pinpos + 1) (if currentpin \<noteq> 0 then gpio_init_pin c currentpin g else g)
      else g)"
  by pat_completeness auto

termination
  by (relation "measure (\<lambda>(c, pinpos, g). 32 - pinpos)") (auto dest: drop_bit_pin)

declare gpio_init_loop.simps [simp del]

definition LL_GPIO_Init :: "GPIO_Port \<Rightarrow> LL_GPIO_InitTypeDef \<Rightarrow> 'z stm32_io_scheme \<Rightarrow> 'z stm32_io_scheme" where
  "LL_GPIO_Init p c s =
     (let s1 = upd_gpio p (gpio_init_loop c (POSITION_VAL (gi_Pin c))) s
      in if gpio_drives c then upd_gpio p (LL_GPIO_SetPinOutputType (gi_Pin c) (gi_OutputType c)) s1 else s1)"

section \<open>External interrupts (stm32f3xx\_ll\_exti, stm32f3xx\_ll\_system.h)\<close>

datatype ErrorStatus = ERROR | SUCCESS

abbreviation (input) LL_EXTI_LINE_NONE :: u32 where "LL_EXTI_LINE_NONE \<equiv> 0"
abbreviation (input) LL_EXTI_LINE_13 :: u32 where "LL_EXTI_LINE_13 \<equiv> 0x2000"
abbreviation (input) LL_EXTI_MODE_IT :: u8 where "LL_EXTI_MODE_IT \<equiv> 0"
abbreviation (input) LL_EXTI_MODE_EVENT :: u8 where "LL_EXTI_MODE_EVENT \<equiv> 1"
abbreviation (input) LL_EXTI_MODE_IT_EVENT :: u8 where "LL_EXTI_MODE_IT_EVENT \<equiv> 2"
abbreviation (input) LL_EXTI_TRIGGER_NONE :: u8 where "LL_EXTI_TRIGGER_NONE \<equiv> 0"
abbreviation (input) LL_EXTI_TRIGGER_RISING :: u8 where "LL_EXTI_TRIGGER_RISING \<equiv> 1"
abbreviation (input) LL_EXTI_TRIGGER_FALLING :: u8 where "LL_EXTI_TRIGGER_FALLING \<equiv> 2"
abbreviation (input) LL_EXTI_TRIGGER_RISING_FALLING :: u8 where "LL_EXTI_TRIGGER_RISING_FALLING \<equiv> 3"

record LL_EXTI_InitTypeDef =
  ei_Line_0_31 :: u32
  ei_Line_32_63 :: u32
  ei_LineCommand :: bool
  ei_Mode :: u8
  ei_Trigger :: u8

definition LL_EXTI_EnableIT_0_31 :: "u32 \<Rightarrow> EXTI_TypeDef \<Rightarrow> EXTI_TypeDef" where
  "LL_EXTI_EnableIT_0_31 ExtiLine e = e\<lparr>ex_IMR := SET_BIT (ex_IMR e) ExtiLine\<rparr>"

definition LL_EXTI_DisableIT_0_31 :: "u32 \<Rightarrow> EXTI_TypeDef \<Rightarrow> EXTI_TypeDef" where
  "LL_EXTI_DisableIT_0_31 ExtiLine e = e\<lparr>ex_IMR := CLEAR_BIT (ex_IMR e) ExtiLine\<rparr>"

definition LL_EXTI_EnableEvent_0_31 :: "u32 \<Rightarrow> EXTI_TypeDef \<Rightarrow> EXTI_TypeDef" where
  "LL_EXTI_EnableEvent_0_31 ExtiLine e = e\<lparr>ex_EMR := SET_BIT (ex_EMR e) ExtiLine\<rparr>"

definition LL_EXTI_DisableEvent_0_31 :: "u32 \<Rightarrow> EXTI_TypeDef \<Rightarrow> EXTI_TypeDef" where
  "LL_EXTI_DisableEvent_0_31 ExtiLine e = e\<lparr>ex_EMR := CLEAR_BIT (ex_EMR e) ExtiLine\<rparr>"

definition LL_EXTI_EnableRisingTrig_0_31 :: "u32 \<Rightarrow> EXTI_TypeDef \<Rightarrow> EXTI_TypeDef" where
  "LL_EXTI_EnableRisingTrig_0_31 ExtiLine e = e\<lparr>ex_RTSR := SET_BIT (ex_RTSR e) ExtiLine\<rparr>"

definition LL_EXTI_DisableRisingTrig_0_31 :: "u32 \<Rightarrow> EXTI_TypeDef \<Rightarrow> EXTI_TypeDef" where
  "LL_EXTI_DisableRisingTrig_0_31 ExtiLine e = e\<lparr>ex_RTSR := CLEAR_BIT (ex_RTSR e) ExtiLine\<rparr>"

definition LL_EXTI_EnableFallingTrig_0_31 :: "u32 \<Rightarrow> EXTI_TypeDef \<Rightarrow> EXTI_TypeDef" where
  "LL_EXTI_EnableFallingTrig_0_31 ExtiLine e = e\<lparr>ex_FTSR := SET_BIT (ex_FTSR e) ExtiLine\<rparr>"

definition LL_EXTI_DisableFallingTrig_0_31 :: "u32 \<Rightarrow> EXTI_TypeDef \<Rightarrow> EXTI_TypeDef" where
  "LL_EXTI_DisableFallingTrig_0_31 ExtiLine e = e\<lparr>ex_FTSR := CLEAR_BIT (ex_FTSR e) ExtiLine\<rparr>"

definition LL_EXTI_EnableIT_32_63 :: "u32 \<Rightarrow> EXTI_TypeDef \<Rightarrow> EXTI_TypeDef" where
  "LL_EXTI_EnableIT_32_63 ExtiLine e = e\<lparr>ex_IMR2 := SET_BIT (ex_IMR2 e) ExtiLine\<rparr>"

definition LL_EXTI_DisableIT_32_63 :: "u32 \<Rightarrow> EXTI_TypeDef \<Rightarrow> EXTI_TypeDef" where
  "LL_EXTI_DisableIT_32_63 ExtiLine e = e\<lparr>ex_IMR2 := CLEAR_BIT (ex_IMR2 e) ExtiLine\<rparr>"

definition LL_EXTI_EnableEvent_32_63 :: "u32 \<Rightarrow> EXTI_TypeDef \<Rightarrow> EXTI_TypeDef" where
  "LL_EXTI_EnableEvent_32_63 ExtiLine e = e\<lparr>ex_EMR2 := SET_BIT (ex_EMR2 e) ExtiLine\<rparr>"

definition LL_EXTI_DisableEvent_32_63 :: "u32 \<Rightarrow> EXTI_TypeDef \<Rightarrow> EXTI_TypeDef" where
  "LL_EXTI_DisableEvent_32_63 ExtiLine e = e\<lparr>ex_EMR2 := CLEAR_BIT (ex_EMR2 e) ExtiLine\<rparr>"

definition LL_EXTI_EnableRisingTrig_32_63 :: "u32 \<Rightarrow> EXTI_TypeDef \<Rightarrow> EXTI_TypeDef" where
  "LL_EXTI_EnableRisingTrig_32_63 ExtiLine e = e\<lparr>ex_RTSR2 := SET_BIT (ex_RTSR2 e) ExtiLine\<rparr>"

definition LL_EXTI_DisableRisingTrig_32_63 :: "u32 \<Rightarrow> EXTI_TypeDef \<Rightarrow> EXTI_TypeDef" where
  "LL_EXTI_DisableRisingTrig_32_63 ExtiLine e = e\<lparr>ex_RTSR2 := CLEAR_BIT (ex_RTSR2 e) ExtiLine\<rparr>"

definition LL_EXTI_EnableFallingTrig_32_63 :: "u32 \<Rightarrow> EXTI_TypeDef \<Rightarrow> EXTI_TypeDef" where
  "LL_EXTI_EnableFallingTrig_32_63 ExtiLine e = e\<lparr>ex_FTSR2 := SET_BIT (ex_FTSR2 e) ExtiLine\<rparr>"

definition LL_EXTI_DisableFallingTrig_32_63 :: "u32 \<Rightarrow> EXTI_TypeDef \<Rightarrow> EXTI_TypeDef" where
  "LL_EXTI_DisableFallingTrig_32_63 ExtiLine e = e\<lparr>ex_FTSR2 := CLEAR_BIT (ex_FTSR2 e) ExtiLine\<rparr>"

text \<open>The switches over mode and trigger, for the lines 0 to 31 and for the lines 32 to 63.\<close>

definition exti_mode_0_31 :: "u8 \<Rightarrow> u32 \<Rightarrow> ErrorStatus \<times> EXTI_TypeDef \<Rightarrow> ErrorStatus \<times> EXTI_TypeDef" where
  "exti_mode_0_31 mode line = (\<lambda>(status, e).
     if mode = LL_EXTI_MODE_IT then (status, LL_EXTI_EnableIT_0_31 line (LL_EXTI_DisableEvent_0_31 line e))
     else if mode = LL_EXTI_MODE_EVENT then (status, LL_EXTI_EnableEvent_0_31 line (LL_EXTI_DisableIT_0_31 line e))
     else if mode = LL_EXTI_MODE_IT_EVENT then (status, LL_EXTI_EnableEvent_0_31 line (LL_EXTI_EnableIT_0_31 line e))
     else (ERROR, e))"

definition exti_trigger_0_31 :: "u8 \<Rightarrow> u32 \<Rightarrow> ErrorStatus \<times> EXTI_TypeDef \<Rightarrow> ErrorStatus \<times> EXTI_TypeDef" where
  "exti_trigger_0_31 trigger line = (\<lambda>(status, e).
     if trigger = LL_EXTI_TRIGGER_NONE then (status, e)
     else if trigger = LL_EXTI_TRIGGER_RISING
       then (status, LL_EXTI_EnableRisingTrig_0_31 line (LL_EXTI_DisableFallingTrig_0_31 line e))
     else if trigger = LL_EXTI_TRIGGER_FALLING
       then (status, LL_EXTI_EnableFallingTrig_0_31 line (LL_EXTI_DisableRisingTrig_0_31 line e))
     else if trigger = LL_EXTI_TRIGGER_RISING_FALLING
       then (status, LL_EXTI_EnableFallingTrig_0_31 line (LL_EXTI_EnableRisingTrig_0_31 line e))
     else (ERROR, e))"

definition exti_mode_32_63 :: "u8 \<Rightarrow> u32 \<Rightarrow> ErrorStatus \<times> EXTI_TypeDef \<Rightarrow> ErrorStatus \<times> EXTI_TypeDef" where
  "exti_mode_32_63 mode line = (\<lambda>(status, e).
     if mode = LL_EXTI_MODE_IT then (status, LL_EXTI_EnableIT_32_63 line (LL_EXTI_DisableEvent_32_63 line e))
     else if mode = LL_EXTI_MODE_EVENT then (status, LL_EXTI_EnableEvent_32_63 line (LL_EXTI_DisableIT_32_63 line e))
     else if mode = LL_EXTI_MODE_IT_EVENT then (status, LL_EXTI_EnableEvent_32_63 line (LL_EXTI_EnableIT_32_63 line e))
     else (ERROR, e))"

definition exti_trigger_32_63 :: "u8 \<Rightarrow> u32 \<Rightarrow> ErrorStatus \<times> EXTI_TypeDef \<Rightarrow> ErrorStatus \<times> EXTI_TypeDef" where
  "exti_trigger_32_63 trigger line = (\<lambda>(status, e).
     if trigger = LL_EXTI_TRIGGER_NONE then (status, e)
     else if trigger = LL_EXTI_TRIGGER_RISING
       then (status, LL_EXTI_EnableRisingTrig_32_63 line (LL_EXTI_DisableFallingTrig_32_63 line e))
     else if trigger = LL_EXTI_TRIGGER_FALLING
       then (status, LL_EXTI_EnableFallingTrig_32_63 line (LL_EXTI_DisableRisingTrig_32_63 line e))
     else if trigger = LL_EXTI_TRIGGER_RISING_FALLING
       then (status, LL_EXTI_EnableFallingTrig_32_63 line (LL_EXTI_EnableRisingTrig_32_63 line e))
     else (ERROR, e))"

definition LL_EXTI_Init :: "LL_EXTI_InitTypeDef \<Rightarrow> 'z stm32_io_scheme \<Rightarrow> ErrorStatus \<times> 'z stm32_io_scheme" where
  "LL_EXTI_Init c s =
     (let (status, e) =
        (if ei_LineCommand c then
           let a = (if ei_Line_0_31 c \<noteq> LL_EXTI_LINE_NONE
                 then exti_trigger_0_31 (ei_Trigger c) (ei_Line_0_31 c)
                   (exti_mode_0_31 (ei_Mode c) (ei_Line_0_31 c) (SUCCESS, EXTI s))
                 else (SUCCESS, EXTI s))
           in if ei_Line_32_63 c \<noteq> LL_EXTI_LINE_NONE
              then exti_trigger_32_63 (ei_Trigger c) (ei_Line_32_63 c) (exti_mode_32_63 (ei_Mode c) (ei_Line_32_63 c) a)
              else a
         else
           (SUCCESS, LL_EXTI_DisableEvent_32_63 (ei_Line_32_63 c) (LL_EXTI_DisableIT_32_63 (ei_Line_32_63 c)
              (LL_EXTI_DisableEvent_0_31 (ei_Line_0_31 c) (LL_EXTI_DisableIT_0_31 (ei_Line_0_31 c) (EXTI s))))))
      in (status, s\<lparr>EXTI := e\<rparr>))"

abbreviation (input) LL_SYSCFG_EXTI_PORTC :: u32 where "LL_SYSCFG_EXTI_PORTC \<equiv> 2"
abbreviation (input) LL_SYSCFG_EXTI_LINE13 :: u32 where "LL_SYSCFG_EXTI_LINE13 \<equiv> 0xF00003"

definition LL_SYSCFG_SetEXTISource :: "u32 \<Rightarrow> u32 \<Rightarrow> 'z stm32_io_scheme \<Rightarrow> 'z stm32_io_scheme" where
  "LL_SYSCFG_SetEXTISource Port Line s =
     (let i = unat (Line AND 0xFF) in
      s\<lparr>SYSCFG := (SYSCFG s)\<lparr>sy_EXTICR := (sy_EXTICR (SYSCFG s))(i :=
        MODIFY_REG (sy_EXTICR (SYSCFG s) i) (drop_bit 16 Line) (push_bit (POSITION_VAL (drop_bit 16 Line)) Port))\<rparr>\<rparr>)"

section \<open>Set-up of the pins (gpio.c)\<close>

abbreviation (input) LL_AHB1_GRP1_PERIPH_CRC :: u32 where "LL_AHB1_GRP1_PERIPH_CRC \<equiv> 0x40"
abbreviation (input) LL_AHB1_GRP1_PERIPH_GPIOA :: u32 where "LL_AHB1_GRP1_PERIPH_GPIOA \<equiv> 0x20000"
abbreviation (input) LL_AHB1_GRP1_PERIPH_GPIOB :: u32 where "LL_AHB1_GRP1_PERIPH_GPIOB \<equiv> 0x40000"
abbreviation (input) LL_AHB1_GRP1_PERIPH_GPIOC :: u32 where "LL_AHB1_GRP1_PERIPH_GPIOC \<equiv> 0x80000"
abbreviation (input) LL_AHB1_GRP1_PERIPH_GPIOF :: u32 where "LL_AHB1_GRP1_PERIPH_GPIOF \<equiv> 0x400000"
abbreviation (input) LD2_Pin :: u32 where "LD2_Pin \<equiv> 0x20"
abbreviation (input) B1_Pin :: u32 where "B1_Pin \<equiv> 0x2000"
abbreviation (input) USART_TX_Pin :: u32 where "USART_TX_Pin \<equiv> 0x4"
abbreviation (input) USART_RX_Pin :: u32 where "USART_RX_Pin \<equiv> 0x8"

definition usart_pins :: LL_GPIO_InitTypeDef where
  "usart_pins = \<lparr>gi_Pin = USART_TX_Pin OR USART_RX_Pin, gi_Mode = LL_GPIO_MODE_ALTERNATE, gi_Speed = LL_GPIO_SPEED_FREQ_HIGH,
     gi_OutputType = LL_GPIO_OUTPUT_PUSHPULL, gi_Pull = LL_GPIO_PULL_NO, gi_Alternate = LL_GPIO_AF_7\<rparr>"

text \<open>The structure is used again for the next pin, so the alternate function is still set.\<close>

definition led_pin :: LL_GPIO_InitTypeDef where
  "led_pin = usart_pins\<lparr>gi_Pin := LD2_Pin, gi_Mode := LL_GPIO_MODE_OUTPUT, gi_Speed := LL_GPIO_SPEED_FREQ_LOW,
     gi_OutputType := LL_GPIO_OUTPUT_PUSHPULL, gi_Pull := LL_GPIO_PULL_NO\<rparr>"

definition button_line :: LL_EXTI_InitTypeDef where
  "button_line = \<lparr>ei_Line_0_31 = LL_EXTI_LINE_13, ei_Line_32_63 = LL_EXTI_LINE_NONE, ei_LineCommand = True,
     ei_Mode = LL_EXTI_MODE_IT, ei_Trigger = LL_EXTI_TRIGGER_FALLING\<rparr>"

definition MX_GPIO_Init :: "'z stm32_io_scheme \<Rightarrow> 'z stm32_io_scheme" where
  "MX_GPIO_Init s =
     (let s1 = LL_AHB1_GRP1_EnableClock LL_AHB1_GRP1_PERIPH_GPIOC s;
          s2 = LL_AHB1_GRP1_EnableClock LL_AHB1_GRP1_PERIPH_GPIOF s1;
          s3 = LL_AHB1_GRP1_EnableClock LL_AHB1_GRP1_PERIPH_GPIOA s2;
          s4 = LL_AHB1_GRP1_EnableClock LL_AHB1_GRP1_PERIPH_GPIOB s3;
          s5 = LL_GPIO_ResetOutputPin GPIOA LD2_Pin s4;
          s6 = LL_SYSCFG_SetEXTISource LL_SYSCFG_EXTI_PORTC LL_SYSCFG_EXTI_LINE13 s5;
          s7 = upd_gpio GPIOC (LL_GPIO_SetPinPull B1_Pin LL_GPIO_PULL_NO) s6;
          s8 = upd_gpio GPIOC (LL_GPIO_SetPinMode B1_Pin LL_GPIO_MODE_INPUT) s7;
          (_, s9) = LL_EXTI_Init button_line s8
      in LL_GPIO_Init GPIOA led_pin (LL_GPIO_Init GPIOA usart_pins s9))"

section \<open>Set-up of the CRC unit (crc.c)\<close>

abbreviation (input) CRC_CR_POLYSIZE :: u32 where "CRC_CR_POLYSIZE \<equiv> 0x18"
abbreviation (input) CRC_CR_REV_IN :: u32 where "CRC_CR_REV_IN \<equiv> 0x60"
abbreviation (input) CRC_CR_REV_OUT :: u32 where "CRC_CR_REV_OUT \<equiv> 0x80"
abbreviation (input) LL_CRC_DEFAULT_CRC32_POLY :: u32 where "LL_CRC_DEFAULT_CRC32_POLY \<equiv> 0x04C11DB7"
abbreviation (input) LL_CRC_DEFAULT_CRC_INITVALUE :: u32 where "LL_CRC_DEFAULT_CRC_INITVALUE \<equiv> 0xFFFFFFFF"

definition LL_CRC_SetInputDataReverseMode :: "u32 \<Rightarrow> CRC_TypeDef \<Rightarrow> CRC_TypeDef" where
  "LL_CRC_SetInputDataReverseMode m c = c\<lparr>cr_CR := MODIFY_REG (cr_CR c) CRC_CR_REV_IN m\<rparr>"

definition LL_CRC_SetOutputDataReverseMode :: "u32 \<Rightarrow> CRC_TypeDef \<Rightarrow> CRC_TypeDef" where
  "LL_CRC_SetOutputDataReverseMode m c = c\<lparr>cr_CR := MODIFY_REG (cr_CR c) CRC_CR_REV_OUT m\<rparr>"

definition LL_CRC_SetPolynomialCoef :: "u32 \<Rightarrow> CRC_TypeDef \<Rightarrow> CRC_TypeDef" where
  "LL_CRC_SetPolynomialCoef p c = c\<lparr>cr_POL := p\<rparr>"

definition LL_CRC_SetPolynomialSize :: "u32 \<Rightarrow> CRC_TypeDef \<Rightarrow> CRC_TypeDef" where
  "LL_CRC_SetPolynomialSize n c = c\<lparr>cr_CR := MODIFY_REG (cr_CR c) CRC_CR_POLYSIZE n\<rparr>"

definition LL_CRC_SetInitialData :: "u32 \<Rightarrow> CRC_TypeDef \<Rightarrow> CRC_TypeDef" where
  "LL_CRC_SetInitialData v c = c\<lparr>cr_INIT := v\<rparr>"

definition MX_CRC_Init :: "'z stm32_io_scheme \<Rightarrow> 'z stm32_io_scheme" where
  "MX_CRC_Init s =
     (let s1 = LL_AHB1_GRP1_EnableClock LL_AHB1_GRP1_PERIPH_CRC s;
          c1 = LL_CRC_SetInputDataReverseMode 0 (CRCx s1);
          c2 = LL_CRC_SetOutputDataReverseMode 0 c1;
          c3 = LL_CRC_SetPolynomialCoef LL_CRC_DEFAULT_CRC32_POLY c2;
          c4 = LL_CRC_SetPolynomialSize 0 c3
      in s1\<lparr>CRCx := LL_CRC_SetInitialData LL_CRC_DEFAULT_CRC_INITVALUE c4\<rparr>)"

section \<open>What the set-up of the pins leaves\<close>

lemma pin_positions: "POSITION_VAL 0x4 = 2" "POSITION_VAL 0x8 = 3" "POSITION_VAL 0x20 = 5" "POSITION_VAL 0x2000 = 13"
    "POSITION_VAL 0xC = 2" "POSITION_VAL 0xF0 = 4"
  by (simp_all add: POSITION_VAL_def upt_rec)

lemmas pin_defs = gpio_init_pin_def usart_pins_def led_pin_def gpio_drives_def Let_def LL_GPIO_SetPinMode_def LL_GPIO_SetPinSpeed_def
  LL_GPIO_SetPinPull_def LL_GPIO_SetPinOutputType_def LL_GPIO_SetAFPin_0_7_def LL_GPIO_SetAFPin_8_15_def

lemma pin_loops:
  "gpio_init_loop usart_pins 2 g = gpio_init_pin usart_pins 0x8 (gpio_init_pin usart_pins 0x4 g)"
  "gpio_init_loop led_pin 5 g = gpio_init_pin led_pin 0x20 g"
  by (simp_all add: gpio_init_loop.simps usart_pins_def led_pin_def Let_def)

lemma pins_set:
  "GPIO (LL_GPIO_Init p usart_pins s) = (GPIO s)(p := LL_GPIO_SetPinOutputType 0xC 0
     (gpio_init_pin usart_pins 0x8 (gpio_init_pin usart_pins 0x4 (GPIO s p))))"
  "GPIO (LL_GPIO_Init p led_pin s) = (GPIO s)(p := LL_GPIO_SetPinOutputType 0x20 0 (gpio_init_pin led_pin 0x20 (GPIO s p)))"
proof -
  have "gi_Pin usart_pins = 0xC" "gi_Pin led_pin = 0x20" "gpio_drives usart_pins" "gpio_drives led_pin"
    "gi_OutputType usart_pins = 0" "gi_OutputType led_pin = 0"
    by (simp_all add: usart_pins_def led_pin_def gpio_drives_def)
  then show "GPIO (LL_GPIO_Init p usart_pins s) = (GPIO s)(p := LL_GPIO_SetPinOutputType 0xC 0
       (gpio_init_pin usart_pins 0x8 (gpio_init_pin usart_pins 0x4 (GPIO s p))))"
    "GPIO (LL_GPIO_Init p led_pin s) = (GPIO s)(p := LL_GPIO_SetPinOutputType 0x20 0 (gpio_init_pin led_pin 0x20 (GPIO s p)))"
    by (simp_all add: LL_GPIO_Init_def pin_positions pin_loops upd_gpio_def Let_def)
qed

lemma exti_frame [simp]:
  "EXTI (LL_GPIO_Init p c s) = EXTI s" "SYSCFG (LL_GPIO_Init p c s) = SYSCFG s" "GPIO (snd (LL_EXTI_Init e s)) = GPIO s"
  "SYSCFG (snd (LL_EXTI_Init e s)) = SYSCFG s" "GPIO (LL_SYSCFG_SetEXTISource a b s) = GPIO s" "EXTI (LL_SYSCFG_SetEXTISource a b s) = EXTI s"
  by (simp_all add: LL_GPIO_Init_def upd_gpio_def LL_EXTI_Init_def LL_SYSCFG_SetEXTISource_def Let_def split_beta)

lemma button_set:
  "EXTI (snd (LL_EXTI_Init button_line s)) = LL_EXTI_EnableFallingTrig_0_31 0x2000 (LL_EXTI_DisableRisingTrig_0_31 0x2000
     (LL_EXTI_EnableIT_0_31 0x2000 (LL_EXTI_DisableEvent_0_31 0x2000 (EXTI s))))"
  by (simp add: LL_EXTI_Init_def button_line_def exti_mode_0_31_def exti_trigger_0_31_def)

lemmas exti_line_defs = LL_EXTI_EnableFallingTrig_0_31_def LL_EXTI_DisableRisingTrig_0_31_def LL_EXTI_EnableIT_0_31_def LL_EXTI_DisableEvent_0_31_def

text \<open>
  Pins 2 and 3 of port A have their alternate function, the serial port; pin 5 is an output that is low; pin 13 of port C is an
  input whose falling edge interrupts.
\<close>

definition pins_ready :: "'z stm32_io_scheme \<Rightarrow> bool" where
  "pins_ready s \<longleftrightarrow>
     READ_BIT (gp_MODER (GPIO s GPIOA)) 0x30 = 0x20 \<and> READ_BIT (gp_MODER (GPIO s GPIOA)) 0xC0 = 0x80 \<and>
     READ_BIT (gp_AFR (GPIO s GPIOA) 0) 0xF00 = 0x700 \<and> READ_BIT (gp_AFR (GPIO s GPIOA) 0) 0xF000 = 0x7000 \<and>
     READ_BIT (gp_MODER (GPIO s GPIOA)) 0xC00 = 0x400 \<and> READ_BIT (gp_OTYPER (GPIO s GPIOA)) 0x20 = 0 \<and>
     READ_BIT (gp_ODR (GPIO s GPIOA)) 0x20 = 0 \<and>
     READ_BIT (gp_MODER (GPIO s GPIOC)) 0xC000000 = 0 \<and> READ_BIT (sy_EXTICR (SYSCFG s) 3) 0xF0 = 0x20 \<and>
     READ_BIT (ex_IMR (EXTI s)) 0x2000 = 0x2000 \<and> READ_BIT (ex_EMR (EXTI s)) 0x2000 = 0 \<and>
     READ_BIT (ex_FTSR (EXTI s)) 0x2000 = 0x2000 \<and> READ_BIT (ex_RTSR (EXTI s)) 0x2000 = 0"

lemma pins_ready_cong: "GPIO s = GPIO t \<Longrightarrow> EXTI s = EXTI t \<Longrightarrow> SYSCFG s = SYSCFG t \<Longrightarrow> pins_ready s = pins_ready t"
  by (simp add: pins_ready_def)

lemma MX_GPIO_Init_pins: "pins_ready (MX_GPIO_Init s)"
  unfolding pins_ready_def
  by (intro conjI; simp add: MX_GPIO_Init_def Let_def split_beta pins_set button_set upd_gpio_def LL_GPIO_ResetOutputPin_def write_BRR_def;
      simp add: pin_defs pin_positions reg_simps exti_line_defs LL_SYSCFG_SetEXTISource_def LL_AHB1_GRP1_EnableClock_def;
      (simp add: READ_BIT_def and.assoc)?)

lemma MX_CRC_Init_pins [simp]: "pins_ready (MX_CRC_Init s) = pins_ready s"
  by (rule pins_ready_cong) (simp_all add: MX_CRC_Init_def LL_AHB1_GRP1_EnableClock_def Let_def)

end
