(* ===== verification/HalTim.thy ===== *)
theory HalTim
  imports Stm32Io
begin

text \<open>
  The part of the vendor's timer driver the timer test runs: \<^verbatim>\<open>stm32f3xx_hal_tim.c\<close> and
  \<^verbatim>\<open>stm32f3xx_hal_tim_ex.c\<close> (base set-up, clock source, output compare channels, master mode, starting and stopping,
  the interrupt handler), and the clock gating of \<^verbatim>\<open>tim.c\<close>. A handle is a value of type \<open>'h\<close> and the
  state has what it points to; a timer whose registers a handle points to is a value of \<open>TIM_Inst\<close>. \<open>None\<close> as result is a
  dereference of NULL. What the device does when a register is written follows the reference manual: a generated update
  event clears the counter and, unless masked, sets the update flag (\<open>write_EGR\<close>); flags are cleared by writing zeros (\<open>clear_SR\<close>).
\<close>

section \<open>Registers and handles\<close>

datatype TIM_Inst = TIM1 | TIM2 | TIM3 | TIM6 | TIM7 | TIM15 | TIM16 | TIM17

record TIM_TypeDef =
  tr_CR1 :: u32
  tr_CR2 :: u32
  tr_SMCR :: u32
  tr_DIER :: u32
  tr_SR :: u32
  tr_CCMR1 :: u32
  tr_CCMR2 :: u32
  tr_CCER :: u32
  tr_CNT :: u32
  tr_PSC :: u32
  tr_ARR :: u32
  tr_RCR :: u32
  tr_CCR1 :: u32
  tr_CCR2 :: u32
  tr_CCR3 :: u32
  tr_CCR4 :: u32
  tr_BDTR :: u32
  tr_DCR :: u32
  tr_DMAR :: u32
  tr_OR :: u32
  tr_CCMR3 :: u32
  tr_CCR5 :: u32
  tr_CCR6 :: u32

record TIM_Base_InitTypeDef =
  ti_Prescaler :: u32
  ti_CounterMode :: u32
  ti_Period :: u32
  ti_ClockDivision :: u32
  ti_RepetitionCounter :: u32
  ti_AutoReloadPreload :: u32

record TIM_OC_InitTypeDef =
  oc_OCMode :: u32
  oc_Pulse :: u32
  oc_OCPolarity :: u32
  oc_OCNPolarity :: u32
  oc_OCFastMode :: u32
  oc_OCIdleState :: u32
  oc_OCNIdleState :: u32

record TIM_ClockConfigTypeDef =
  tc_ClockSource :: u32
  tc_ClockPolarity :: u32
  tc_ClockPrescaler :: u32
  tc_ClockFilter :: u32

record TIM_MasterConfigTypeDef =
  mc_MasterOutputTrigger :: u32
  mc_MasterOutputTrigger2 :: u32
  mc_MasterSlaveMode :: u32

datatype HAL_StatusTypeDef = HAL_OK | HAL_ERROR | HAL_BUSY | HAL_TIMEOUT

datatype HAL_TIM_StateTypeDef =
    HAL_TIM_STATE_RESET | HAL_TIM_STATE_READY | HAL_TIM_STATE_BUSY | HAL_TIM_STATE_TIMEOUT | HAL_TIM_STATE_ERROR

datatype HAL_TIM_ActiveChannel =
    HAL_TIM_ACTIVE_CHANNEL_1 | HAL_TIM_ACTIVE_CHANNEL_2 | HAL_TIM_ACTIVE_CHANNEL_3 | HAL_TIM_ACTIVE_CHANNEL_4
  | HAL_TIM_ACTIVE_CHANNEL_CLEARED

record TIM_HandleTypeDef =
  th_Instance :: "TIM_Inst option"
  th_Init :: TIM_Base_InitTypeDef
  th_Channel :: HAL_TIM_ActiveChannel
  th_Lock :: bool
  th_State :: HAL_TIM_StateTypeDef

record 'h stm32_tim = stm32_io +
  TIMx :: "TIM_Inst \<Rightarrow> TIM_TypeDef"
  tim_handle :: "'h \<Rightarrow> TIM_HandleTypeDef"

definition upd_tim :: "TIM_Inst \<Rightarrow> (TIM_TypeDef \<Rightarrow> TIM_TypeDef) \<Rightarrow> ('h, 'z) stm32_tim_scheme \<Rightarrow> ('h, 'z) stm32_tim_scheme" where
  "upd_tim i f s = s\<lparr>TIMx := (TIMx s)(i := f (TIMx s i))\<rparr>"

definition upd_h :: "'h \<Rightarrow> (TIM_HandleTypeDef \<Rightarrow> TIM_HandleTypeDef) \<Rightarrow> ('h, 'z) stm32_tim_scheme \<Rightarrow> ('h, 'z) stm32_tim_scheme" where
  "upd_h h f s = s\<lparr>tim_handle := (tim_handle s)(h := f (tim_handle s h))\<rparr>"

text \<open>Access through the handle's pointer to the registers.\<close>

definition on_tim ::
    "'h \<Rightarrow> (TIM_Inst \<Rightarrow> TIM_TypeDef \<Rightarrow> TIM_TypeDef) \<Rightarrow> ('h, 'z) stm32_tim_scheme \<Rightarrow> ('h, 'z) stm32_tim_scheme option" where
  "on_tim h f s = map_option (\<lambda>i. upd_tim i (f i) s) (th_Instance (tim_handle s h))"

abbreviation (input) TIM_CR1_CEN :: u32 where "TIM_CR1_CEN \<equiv> 1"
abbreviation (input) TIM_CR1_UDIS :: u32 where "TIM_CR1_UDIS \<equiv> 2"
abbreviation (input) TIM_CR1_URS :: u32 where "TIM_CR1_URS \<equiv> 4"
abbreviation (input) TIM_CR1_DIR :: u32 where "TIM_CR1_DIR \<equiv> 0x10"
abbreviation (input) TIM_CR1_CMS :: u32 where "TIM_CR1_CMS \<equiv> 0x60"
abbreviation (input) TIM_CR1_ARPE :: u32 where "TIM_CR1_ARPE \<equiv> 0x80"
abbreviation (input) TIM_CR1_CKD :: u32 where "TIM_CR1_CKD \<equiv> 0x300"
abbreviation (input) TIM_EGR_UG :: u32 where "TIM_EGR_UG \<equiv> 1"
abbreviation (input) TIM_FLAG_UPDATE :: u32 where "TIM_FLAG_UPDATE \<equiv> 1"
abbreviation (input) TIM_IT_UPDATE :: u32 where "TIM_IT_UPDATE \<equiv> 1"

definition write_EGR :: "u32 \<Rightarrow> TIM_TypeDef \<Rightarrow> TIM_TypeDef" where
  "write_EGR v t =
     (if v AND TIM_EGR_UG \<noteq> 0 then
        t\<lparr>tr_CNT := 0, tr_SR := (if tr_CR1 t AND (TIM_CR1_UDIS OR TIM_CR1_URS) = 0 then tr_SR t OR TIM_FLAG_UPDATE else tr_SR t)\<rparr>
      else t)"

definition clear_SR :: "u32 \<Rightarrow> TIM_TypeDef \<Rightarrow> TIM_TypeDef" where
  "clear_SR v t = t\<lparr>tr_SR := tr_SR t AND v\<rparr>"

section \<open>What the timers have (stm32f334x8.h)\<close>

definition IS_TIM_COUNTER_MODE_SELECT_INSTANCE :: "TIM_Inst \<Rightarrow> bool" where
  "IS_TIM_COUNTER_MODE_SELECT_INSTANCE i \<longleftrightarrow> i = TIM1 \<or> i = TIM2 \<or> i = TIM3"

definition IS_TIM_CLOCK_DIVISION_INSTANCE :: "TIM_Inst \<Rightarrow> bool" where
  "IS_TIM_CLOCK_DIVISION_INSTANCE i \<longleftrightarrow> i = TIM1 \<or> i = TIM2 \<or> i = TIM3 \<or> i = TIM15 \<or> i = TIM16 \<or> i = TIM17"

definition IS_TIM_REPETITION_COUNTER_INSTANCE :: "TIM_Inst \<Rightarrow> bool" where
  "IS_TIM_REPETITION_COUNTER_INSTANCE i \<longleftrightarrow> i = TIM1 \<or> i = TIM15 \<or> i = TIM16 \<or> i = TIM17"

definition IS_TIM_BREAK_INSTANCE :: "TIM_Inst \<Rightarrow> bool" where
  "IS_TIM_BREAK_INSTANCE i \<longleftrightarrow> i = TIM1 \<or> i = TIM15 \<or> i = TIM16 \<or> i = TIM17"

abbreviation (input) TIM_CHANNEL_1 :: u32 where "TIM_CHANNEL_1 \<equiv> 0"
abbreviation (input) TIM_CHANNEL_2 :: u32 where "TIM_CHANNEL_2 \<equiv> 4"
abbreviation (input) TIM_CHANNEL_3 :: u32 where "TIM_CHANNEL_3 \<equiv> 8"
abbreviation (input) TIM_CHANNEL_4 :: u32 where "TIM_CHANNEL_4 \<equiv> 0xC"
abbreviation (input) TIM_CHANNEL_5 :: u32 where "TIM_CHANNEL_5 \<equiv> 0x10"
abbreviation (input) TIM_CHANNEL_6 :: u32 where "TIM_CHANNEL_6 \<equiv> 0x14"

definition IS_TIM_CCXN_INSTANCE :: "TIM_Inst \<Rightarrow> u32 \<Rightarrow> bool" where
  "IS_TIM_CCXN_INSTANCE i ch \<longleftrightarrow>
     (i = TIM1 \<and> (ch = TIM_CHANNEL_1 \<or> ch = TIM_CHANNEL_2 \<or> ch = TIM_CHANNEL_3))
     \<or> (i = TIM15 \<and> ch = TIM_CHANNEL_1) \<or> (i = TIM16 \<and> ch = TIM_CHANNEL_1) \<or> (i = TIM17 \<and> ch = TIM_CHANNEL_1)"

definition IS_TIM_TRGO2_INSTANCE :: "TIM_Inst \<Rightarrow> bool" where
  "IS_TIM_TRGO2_INSTANCE i \<longleftrightarrow> i = TIM1"

section \<open>Base set-up\<close>

definition TIM_Base_SetConfig :: "TIM_Base_InitTypeDef \<Rightarrow> TIM_Inst \<Rightarrow> TIM_TypeDef \<Rightarrow> TIM_TypeDef" where
  "TIM_Base_SetConfig st i t =
     (let c0 = tr_CR1 t;
          c1 = (if IS_TIM_COUNTER_MODE_SELECT_INSTANCE i
                then c0 AND NOT (TIM_CR1_DIR OR TIM_CR1_CMS) OR ti_CounterMode st else c0);
          c2 = (if IS_TIM_CLOCK_DIVISION_INSTANCE i then c1 AND NOT TIM_CR1_CKD OR ti_ClockDivision st else c1);
          c3 = MODIFY_REG c2 TIM_CR1_ARPE (ti_AutoReloadPreload st);
          t1 = t\<lparr>tr_CR1 := c3, tr_ARR := ti_Period st, tr_PSC := ti_Prescaler st\<rparr>;
          t2 = (if IS_TIM_REPETITION_COUNTER_INSTANCE i then t1\<lparr>tr_RCR := ti_RepetitionCounter st\<rparr> else t1)
      in write_EGR TIM_EGR_UG t2)"

text \<open>The clock gates (tim.c); only the timers of the application are known there.\<close>

definition HAL_TIM_Base_MspInit :: "'h \<Rightarrow> ('h, 'z) stm32_tim_scheme \<Rightarrow> ('h, 'z) stm32_tim_scheme" where
  "HAL_TIM_Base_MspInit h s =
     (if th_Instance (tim_handle s h) = Some TIM3
      then s\<lparr>RCC := (RCC s)\<lparr>rcc_APB1ENR := SET_BIT (rcc_APB1ENR (RCC s)) 0x2\<rparr>\<rparr>
      else if th_Instance (tim_handle s h) = Some TIM7
      then s\<lparr>RCC := (RCC s)\<lparr>rcc_APB1ENR := SET_BIT (rcc_APB1ENR (RCC s)) 0x20\<rparr>\<rparr>
      else s)"

definition HAL_TIM_Base_MspDeInit :: "'h \<Rightarrow> ('h, 'z) stm32_tim_scheme \<Rightarrow> ('h, 'z) stm32_tim_scheme" where
  "HAL_TIM_Base_MspDeInit h s =
     (if th_Instance (tim_handle s h) = Some TIM3
      then HAL_NVIC_DisableIRQ TIM3_IRQn (s\<lparr>RCC := (RCC s)\<lparr>rcc_APB1ENR := rcc_APB1ENR (RCC s) AND NOT 0x2\<rparr>\<rparr>)
      else if th_Instance (tim_handle s h) = Some TIM7
      then HAL_NVIC_DisableIRQ TIM7_DAC2_IRQn (s\<lparr>RCC := (RCC s)\<lparr>rcc_APB1ENR := rcc_APB1ENR (RCC s) AND NOT 0x20\<rparr>\<rparr>)
      else s)"

abbreviation set_state :: "'h \<Rightarrow> HAL_TIM_StateTypeDef \<Rightarrow> ('h, 'z) stm32_tim_scheme \<Rightarrow> ('h, 'z) stm32_tim_scheme" where
  "set_state h st \<equiv> upd_h h (\<lambda>x. x\<lparr>th_State := st\<rparr>)"

abbreviation set_lock :: "'h \<Rightarrow> bool \<Rightarrow> ('h, 'z) stm32_tim_scheme \<Rightarrow> ('h, 'z) stm32_tim_scheme" where
  "set_lock h l \<equiv> upd_h h (\<lambda>x. x\<lparr>th_Lock := l\<rparr>)"

definition HAL_TIM_Base_Init ::
    "'h option \<Rightarrow> ('h, 'z) stm32_tim_scheme \<Rightarrow> (HAL_StatusTypeDef \<times> ('h, 'z) stm32_tim_scheme) option" where
  "HAL_TIM_Base_Init htim s =
     (case htim of
        None \<Rightarrow> Some (HAL_ERROR, s)
      | Some h \<Rightarrow>
          let s1 = (if th_State (tim_handle s h) = HAL_TIM_STATE_RESET
                    then HAL_TIM_Base_MspInit h (set_lock h False s) else s);
              s2 = set_state h HAL_TIM_STATE_BUSY s1
          in map_option (\<lambda>s3. (HAL_OK, set_state h HAL_TIM_STATE_READY s3))
               (on_tim h (TIM_Base_SetConfig (th_Init (tim_handle s2 h))) s2))"

text \<open>The driver's hook \<open>HAL_TIM_OC_MspInit\<close> is empty.\<close>

definition HAL_TIM_OC_Init ::
    "'h option \<Rightarrow> ('h, 'z) stm32_tim_scheme \<Rightarrow> (HAL_StatusTypeDef \<times> ('h, 'z) stm32_tim_scheme) option" where
  "HAL_TIM_OC_Init htim s =
     (case htim of
        None \<Rightarrow> Some (HAL_ERROR, s)
      | Some h \<Rightarrow>
          let s1 = (if th_State (tim_handle s h) = HAL_TIM_STATE_RESET then set_lock h False s else s);
              s2 = set_state h HAL_TIM_STATE_BUSY s1
          in map_option (\<lambda>s3. (HAL_OK, set_state h HAL_TIM_STATE_READY s3))
               (on_tim h (TIM_Base_SetConfig (th_Init (tim_handle s2 h))) s2))"

section \<open>Starting and stopping\<close>

abbreviation (input) TIM_CCER_CCxE_MASK :: u32 where "TIM_CCER_CCxE_MASK \<equiv> 0x1111"
abbreviation (input) TIM_CCER_CCxNE_MASK :: u32 where "TIM_CCER_CCxNE_MASK \<equiv> 0x444"

definition HAL_TIM_ENABLE :: "TIM_TypeDef \<Rightarrow> TIM_TypeDef" where
  "HAL_TIM_ENABLE t = t\<lparr>tr_CR1 := tr_CR1 t OR TIM_CR1_CEN\<rparr>"

definition HAL_TIM_DISABLE :: "TIM_TypeDef \<Rightarrow> TIM_TypeDef" where
  "HAL_TIM_DISABLE t =
     (if tr_CCER t AND TIM_CCER_CCxE_MASK = 0
      then if tr_CCER t AND TIM_CCER_CCxNE_MASK = 0 then t\<lparr>tr_CR1 := tr_CR1 t AND NOT TIM_CR1_CEN\<rparr> else t
      else t)"

definition HAL_TIM_ENABLE_IT :: "u32 \<Rightarrow> TIM_TypeDef \<Rightarrow> TIM_TypeDef" where
  "HAL_TIM_ENABLE_IT it t = t\<lparr>tr_DIER := tr_DIER t OR it\<rparr>"

definition HAL_TIM_DISABLE_IT :: "u32 \<Rightarrow> TIM_TypeDef \<Rightarrow> TIM_TypeDef" where
  "HAL_TIM_DISABLE_IT it t = t\<lparr>tr_DIER := tr_DIER t AND NOT it\<rparr>"

definition HAL_TIM_Base_Start ::
    "'h \<Rightarrow> ('h, 'z) stm32_tim_scheme \<Rightarrow> (HAL_StatusTypeDef \<times> ('h, 'z) stm32_tim_scheme) option" where
  "HAL_TIM_Base_Start h s = map_option (\<lambda>s1. (HAL_OK, set_state h HAL_TIM_STATE_READY s1))
     (on_tim h (\<lambda>_. HAL_TIM_ENABLE) (set_state h HAL_TIM_STATE_BUSY s))"

definition HAL_TIM_Base_Stop ::
    "'h \<Rightarrow> ('h, 'z) stm32_tim_scheme \<Rightarrow> (HAL_StatusTypeDef \<times> ('h, 'z) stm32_tim_scheme) option" where
  "HAL_TIM_Base_Stop h s = map_option (\<lambda>s1. (HAL_OK, set_state h HAL_TIM_STATE_READY s1))
     (on_tim h (\<lambda>_. HAL_TIM_DISABLE) (set_state h HAL_TIM_STATE_BUSY s))"

definition HAL_TIM_Base_Start_IT ::
    "'h \<Rightarrow> ('h, 'z) stm32_tim_scheme \<Rightarrow> (HAL_StatusTypeDef \<times> ('h, 'z) stm32_tim_scheme) option" where
  "HAL_TIM_Base_Start_IT h s = map_option (Pair HAL_OK)
     (on_tim h (\<lambda>_ t. HAL_TIM_ENABLE (HAL_TIM_ENABLE_IT TIM_IT_UPDATE t)) s)"

definition HAL_TIM_Base_Stop_IT ::
    "'h \<Rightarrow> ('h, 'z) stm32_tim_scheme \<Rightarrow> (HAL_StatusTypeDef \<times> ('h, 'z) stm32_tim_scheme) option" where
  "HAL_TIM_Base_Stop_IT h s = map_option (Pair HAL_OK)
     (on_tim h (\<lambda>_ t. HAL_TIM_DISABLE (HAL_TIM_DISABLE_IT TIM_IT_UPDATE t)) s)"

definition HAL_TIM_Base_DeInit ::
    "'h \<Rightarrow> ('h, 'z) stm32_tim_scheme \<Rightarrow> (HAL_StatusTypeDef \<times> ('h, 'z) stm32_tim_scheme) option" where
  "HAL_TIM_Base_DeInit h s = map_option
     (\<lambda>s1. (HAL_OK, set_lock h False (set_state h HAL_TIM_STATE_RESET (HAL_TIM_Base_MspDeInit h s1))))
     (on_tim h (\<lambda>_. HAL_TIM_DISABLE) (set_state h HAL_TIM_STATE_BUSY s))"

section \<open>Output compare channels\<close>

text \<open>
  The six functions work alike on the bits of their channel: the channel is switched off, mode, polarity and pulse are
  set, and, on timers that have them, the complementary output and the idle states.
\<close>

definition TIM_OC1_SetConfig :: "TIM_OC_InitTypeDef \<Rightarrow> TIM_Inst \<Rightarrow> TIM_TypeDef \<Rightarrow> TIM_TypeDef" where
  "TIM_OC1_SetConfig c i t =
     (let t1 = t\<lparr>tr_CCER := tr_CCER t AND NOT 0x1\<rparr>;
          ccmr = (tr_CCMR1 t1 AND NOT 0x10070 AND NOT 0x3) OR oc_OCMode c;
          ccer1 = (tr_CCER t1 AND NOT 0x2) OR oc_OCPolarity c;
          ccer2 = (if IS_TIM_CCXN_INSTANCE i TIM_CHANNEL_1
                   then ((ccer1 AND NOT 0x8) OR oc_OCNPolarity c) AND NOT 0x4 else ccer1);
          cr2 = (if IS_TIM_BREAK_INSTANCE i
                 then (tr_CR2 t1 AND NOT 0x100 AND NOT 0x200) OR oc_OCIdleState c OR oc_OCNIdleState c else tr_CR2 t1)
      in t1\<lparr>tr_CR2 := cr2, tr_CCMR1 := ccmr, tr_CCR1 := oc_Pulse c, tr_CCER := ccer2\<rparr>)"

definition TIM_OC2_SetConfig :: "TIM_OC_InitTypeDef \<Rightarrow> TIM_Inst \<Rightarrow> TIM_TypeDef \<Rightarrow> TIM_TypeDef" where
  "TIM_OC2_SetConfig c i t =
     (let t1 = t\<lparr>tr_CCER := tr_CCER t AND NOT 0x10\<rparr>;
          ccmr = (tr_CCMR1 t1 AND NOT 0x1007000 AND NOT 0x300) OR push_bit 8 (oc_OCMode c);
          ccer1 = (tr_CCER t1 AND NOT 0x20) OR push_bit 4 (oc_OCPolarity c);
          ccer2 = (if IS_TIM_CCXN_INSTANCE i TIM_CHANNEL_2
                   then ((ccer1 AND NOT 0x80) OR push_bit 4 (oc_OCNPolarity c)) AND NOT 0x40 else ccer1);
          cr2 = (if IS_TIM_BREAK_INSTANCE i
                 then (tr_CR2 t1 AND NOT 0x400 AND NOT 0x800) OR push_bit 2 (oc_OCIdleState c) OR push_bit 2 (oc_OCNIdleState c) else tr_CR2 t1)
      in t1\<lparr>tr_CR2 := cr2, tr_CCMR1 := ccmr, tr_CCR2 := oc_Pulse c, tr_CCER := ccer2\<rparr>)"

definition TIM_OC3_SetConfig :: "TIM_OC_InitTypeDef \<Rightarrow> TIM_Inst \<Rightarrow> TIM_TypeDef \<Rightarrow> TIM_TypeDef" where
  "TIM_OC3_SetConfig c i t =
     (let t1 = t\<lparr>tr_CCER := tr_CCER t AND NOT 0x100\<rparr>;
          ccmr = (tr_CCMR2 t1 AND NOT 0x10070 AND NOT 0x3) OR oc_OCMode c;
          ccer1 = (tr_CCER t1 AND NOT 0x200) OR push_bit 8 (oc_OCPolarity c);
          ccer2 = (if IS_TIM_CCXN_INSTANCE i TIM_CHANNEL_3
                   then ((ccer1 AND NOT 0x800) OR push_bit 8 (oc_OCNPolarity c)) AND NOT 0x400 else ccer1);
          cr2 = (if IS_TIM_BREAK_INSTANCE i
                 then (tr_CR2 t1 AND NOT 0x1000 AND NOT 0x2000) OR push_bit 4 (oc_OCIdleState c) OR push_bit 4 (oc_OCNIdleState c) else tr_CR2 t1)
      in t1\<lparr>tr_CR2 := cr2, tr_CCMR2 := ccmr, tr_CCR3 := oc_Pulse c, tr_CCER := ccer2\<rparr>)"

definition TIM_OC4_SetConfig :: "TIM_OC_InitTypeDef \<Rightarrow> TIM_Inst \<Rightarrow> TIM_TypeDef \<Rightarrow> TIM_TypeDef" where
  "TIM_OC4_SetConfig c i t =
     (let t1 = t\<lparr>tr_CCER := tr_CCER t AND NOT 0x1000\<rparr>;
          ccmr = (tr_CCMR2 t1 AND NOT 0x1007000 AND NOT 0x300) OR push_bit 8 (oc_OCMode c);
          ccer1 = (tr_CCER t1 AND NOT 0x2000) OR push_bit 12 (oc_OCPolarity c);
          cr2 = (if IS_TIM_BREAK_INSTANCE i
                 then (tr_CR2 t1 AND NOT 0x4000) OR push_bit 6 (oc_OCIdleState c) else tr_CR2 t1)
      in t1\<lparr>tr_CR2 := cr2, tr_CCMR2 := ccmr, tr_CCR4 := oc_Pulse c, tr_CCER := ccer1\<rparr>)"

definition TIM_OC5_SetConfig :: "TIM_OC_InitTypeDef \<Rightarrow> TIM_Inst \<Rightarrow> TIM_TypeDef \<Rightarrow> TIM_TypeDef" where
  "TIM_OC5_SetConfig c i t =
     (let t1 = t\<lparr>tr_CCER := tr_CCER t AND NOT 0x10000\<rparr>;
          ccmr = (tr_CCMR3 t1 AND NOT 0x10070) OR oc_OCMode c;
          ccer1 = (tr_CCER t1 AND NOT 0x20000) OR push_bit 16 (oc_OCPolarity c);
          cr2 = (if IS_TIM_BREAK_INSTANCE i
                 then (tr_CR2 t1 AND NOT 0x10000) OR push_bit 8 (oc_OCIdleState c) else tr_CR2 t1)
      in t1\<lparr>tr_CR2 := cr2, tr_CCMR3 := ccmr, tr_CCR5 := oc_Pulse c, tr_CCER := ccer1\<rparr>)"

definition TIM_OC6_SetConfig :: "TIM_OC_InitTypeDef \<Rightarrow> TIM_Inst \<Rightarrow> TIM_TypeDef \<Rightarrow> TIM_TypeDef" where
  "TIM_OC6_SetConfig c i t =
     (let t1 = t\<lparr>tr_CCER := tr_CCER t AND NOT 0x100000\<rparr>;
          ccmr = (tr_CCMR3 t1 AND NOT 0x1007000) OR push_bit 8 (oc_OCMode c);
          ccer1 = (tr_CCER t1 AND NOT 0x200000) OR push_bit 20 (oc_OCPolarity c);
          cr2 = (if IS_TIM_BREAK_INSTANCE i
                 then (tr_CR2 t1 AND NOT 0x40000) OR push_bit 10 (oc_OCIdleState c) else tr_CR2 t1)
      in t1\<lparr>tr_CR2 := cr2, tr_CCMR3 := ccmr, tr_CCR6 := oc_Pulse c, tr_CCER := ccer1\<rparr>)"

definition TIM_OC_SetConfig :: "u32 \<Rightarrow> TIM_OC_InitTypeDef \<Rightarrow> TIM_Inst \<Rightarrow> TIM_TypeDef \<Rightarrow> TIM_TypeDef" where
  "TIM_OC_SetConfig Channel c i =
     (if Channel = TIM_CHANNEL_1 then TIM_OC1_SetConfig c i
      else if Channel = TIM_CHANNEL_2 then TIM_OC2_SetConfig c i
      else if Channel = TIM_CHANNEL_3 then TIM_OC3_SetConfig c i
      else if Channel = TIM_CHANNEL_4 then TIM_OC4_SetConfig c i
      else if Channel = TIM_CHANNEL_5 then TIM_OC5_SetConfig c i
      else if Channel = TIM_CHANNEL_6 then TIM_OC6_SetConfig c i
      else id)"

definition HAL_TIM_OC_ConfigChannel ::
    "'h \<Rightarrow> TIM_OC_InitTypeDef \<Rightarrow> u32 \<Rightarrow> ('h, 'z) stm32_tim_scheme \<Rightarrow>
     (HAL_StatusTypeDef \<times> ('h, 'z) stm32_tim_scheme) option" where
  "HAL_TIM_OC_ConfigChannel h sConfig Channel s =
     (if th_Lock (tim_handle s h) then Some (HAL_BUSY, s)
      else map_option (\<lambda>s1. (HAL_OK, set_lock h False (set_state h HAL_TIM_STATE_READY s1)))
        ((if Channel \<in> {TIM_CHANNEL_1, TIM_CHANNEL_2, TIM_CHANNEL_3, TIM_CHANNEL_4, TIM_CHANNEL_5, TIM_CHANNEL_6}
          then on_tim h (TIM_OC_SetConfig Channel sConfig) else Some)
         (set_state h HAL_TIM_STATE_BUSY (set_lock h True s))))"

section \<open>Clock source and master mode\<close>

abbreviation (input) TIM_SMCR_SMS :: u32 where "TIM_SMCR_SMS \<equiv> 0x10007"
abbreviation (input) TIM_SMCR_TS :: u32 where "TIM_SMCR_TS \<equiv> 0x70"
abbreviation (input) TIM_SMCR_MSM :: u32 where "TIM_SMCR_MSM \<equiv> 0x80"
abbreviation (input) TIM_SMCR_ETF :: u32 where "TIM_SMCR_ETF \<equiv> 0xF00"
abbreviation (input) TIM_SMCR_ETPS :: u32 where "TIM_SMCR_ETPS \<equiv> 0x3000"
abbreviation (input) TIM_SMCR_ECE :: u32 where "TIM_SMCR_ECE \<equiv> 0x4000"
abbreviation (input) TIM_SMCR_ETP :: u32 where "TIM_SMCR_ETP \<equiv> 0x8000"
abbreviation (input) TIM_SLAVEMODE_EXTERNAL1 :: u32 where "TIM_SLAVEMODE_EXTERNAL1 \<equiv> 7"
abbreviation (input) TIM_CLOCKSOURCE_INTERNAL :: u32 where "TIM_CLOCKSOURCE_INTERNAL \<equiv> 0x1000"
abbreviation (input) TIM_CLOCKSOURCE_ETRMODE1 :: u32 where "TIM_CLOCKSOURCE_ETRMODE1 \<equiv> 0x70"
abbreviation (input) TIM_CLOCKSOURCE_ETRMODE2 :: u32 where "TIM_CLOCKSOURCE_ETRMODE2 \<equiv> 0x2000"
abbreviation (input) TIM_CLOCKSOURCE_TI1 :: u32 where "TIM_CLOCKSOURCE_TI1 \<equiv> 0x50"
abbreviation (input) TIM_CLOCKSOURCE_TI2 :: u32 where "TIM_CLOCKSOURCE_TI2 \<equiv> 0x60"
abbreviation (input) TIM_CLOCKSOURCE_TI1ED :: u32 where "TIM_CLOCKSOURCE_TI1ED \<equiv> 0x40"
abbreviation (input) TIM_CLOCKSOURCE_ITR0 :: u32 where "TIM_CLOCKSOURCE_ITR0 \<equiv> 0"
abbreviation (input) TIM_CLOCKSOURCE_ITR1 :: u32 where "TIM_CLOCKSOURCE_ITR1 \<equiv> 0x10"
abbreviation (input) TIM_CLOCKSOURCE_ITR2 :: u32 where "TIM_CLOCKSOURCE_ITR2 \<equiv> 0x20"
abbreviation (input) TIM_CLOCKSOURCE_ITR3 :: u32 where "TIM_CLOCKSOURCE_ITR3 \<equiv> 0x30"

definition TIM_ETR_SetConfig :: "u32 \<Rightarrow> u32 \<Rightarrow> u32 \<Rightarrow> TIM_TypeDef \<Rightarrow> TIM_TypeDef" where
  "TIM_ETR_SetConfig TIM_ExtTRGPrescaler TIM_ExtTRGPolarity ExtTRGFilter t =
     t\<lparr>tr_SMCR := (tr_SMCR t AND NOT (TIM_SMCR_ETF OR TIM_SMCR_ETPS OR TIM_SMCR_ECE OR TIM_SMCR_ETP))
       OR (TIM_ExtTRGPrescaler OR (TIM_ExtTRGPolarity OR push_bit 8 ExtTRGFilter))\<rparr>"

definition TIM_TI1_ConfigInputStage :: "u32 \<Rightarrow> u32 \<Rightarrow> TIM_TypeDef \<Rightarrow> TIM_TypeDef" where
  "TIM_TI1_ConfigInputStage TIM_ICPolarity TIM_ICFilter t =
     (let ccer = (tr_CCER t AND NOT (0x2 OR 0x8)) OR TIM_ICPolarity;
          ccmr1 = (tr_CCMR1 t AND NOT 0xF0) OR push_bit 4 TIM_ICFilter
      in t\<lparr>tr_CCMR1 := ccmr1, tr_CCER := ccer\<rparr>)"

definition TIM_TI2_ConfigInputStage :: "u32 \<Rightarrow> u32 \<Rightarrow> TIM_TypeDef \<Rightarrow> TIM_TypeDef" where
  "TIM_TI2_ConfigInputStage TIM_ICPolarity TIM_ICFilter t =
     (let ccer = ((tr_CCER t AND NOT 0x10) AND NOT (0x20 OR 0x80)) OR push_bit 4 TIM_ICPolarity;
          ccmr1 = (tr_CCMR1 t AND NOT 0xF000) OR push_bit 12 TIM_ICFilter
      in t\<lparr>tr_CCMR1 := ccmr1, tr_CCER := ccer\<rparr>)"

definition TIM_ITRx_SetConfig :: "u16 \<Rightarrow> TIM_TypeDef \<Rightarrow> TIM_TypeDef" where
  "TIM_ITRx_SetConfig InputTriggerSource t =
     t\<lparr>tr_SMCR := (tr_SMCR t AND NOT TIM_SMCR_TS) OR (ucast InputTriggerSource OR TIM_SLAVEMODE_EXTERNAL1)\<rparr>"

text \<open>The switch over the clock source.\<close>

definition tim_clock_source :: "TIM_ClockConfigTypeDef \<Rightarrow> TIM_TypeDef \<Rightarrow> TIM_TypeDef" where
  "tim_clock_source c t =
     (let src = tc_ClockSource c; etr = TIM_ETR_SetConfig (tc_ClockPrescaler c) (tc_ClockPolarity c) (tc_ClockFilter c) in
      if src = TIM_CLOCKSOURCE_INTERNAL then t\<lparr>tr_SMCR := tr_SMCR t AND NOT TIM_SMCR_SMS\<rparr>
      else if src = TIM_CLOCKSOURCE_ETRMODE1 then
        (let t1 = etr t in
         t1\<lparr>tr_SMCR := (tr_SMCR t1 AND NOT (TIM_SMCR_SMS OR TIM_SMCR_TS)) OR (TIM_SLAVEMODE_EXTERNAL1 OR TIM_CLOCKSOURCE_ETRMODE1)\<rparr>)
      else if src = TIM_CLOCKSOURCE_ETRMODE2 then (let t1 = etr t in t1\<lparr>tr_SMCR := tr_SMCR t1 OR TIM_SMCR_ECE\<rparr>)
      else if src = TIM_CLOCKSOURCE_TI1 then
        TIM_ITRx_SetConfig (ucast TIM_CLOCKSOURCE_TI1) (TIM_TI1_ConfigInputStage (tc_ClockPolarity c) (tc_ClockFilter c) t)
      else if src = TIM_CLOCKSOURCE_TI2 then
        TIM_ITRx_SetConfig (ucast TIM_CLOCKSOURCE_TI2) (TIM_TI2_ConfigInputStage (tc_ClockPolarity c) (tc_ClockFilter c) t)
      else if src = TIM_CLOCKSOURCE_TI1ED then
        TIM_ITRx_SetConfig (ucast TIM_CLOCKSOURCE_TI1ED) (TIM_TI1_ConfigInputStage (tc_ClockPolarity c) (tc_ClockFilter c) t)
      else if src = TIM_CLOCKSOURCE_ITR0 then TIM_ITRx_SetConfig (ucast TIM_CLOCKSOURCE_ITR0) t
      else if src = TIM_CLOCKSOURCE_ITR1 then TIM_ITRx_SetConfig (ucast TIM_CLOCKSOURCE_ITR1) t
      else if src = TIM_CLOCKSOURCE_ITR2 then TIM_ITRx_SetConfig (ucast TIM_CLOCKSOURCE_ITR2) t
      else if src = TIM_CLOCKSOURCE_ITR3 then TIM_ITRx_SetConfig (ucast TIM_CLOCKSOURCE_ITR3) t
      else t)"

definition HAL_TIM_ConfigClockSource ::
    "'h \<Rightarrow> TIM_ClockConfigTypeDef \<Rightarrow> ('h, 'z) stm32_tim_scheme \<Rightarrow>
     (HAL_StatusTypeDef \<times> ('h, 'z) stm32_tim_scheme) option" where
  "HAL_TIM_ConfigClockSource h c s =
     (if th_Lock (tim_handle s h) then Some (HAL_BUSY, s)
      else map_option (\<lambda>s1. (HAL_OK, set_lock h False (set_state h HAL_TIM_STATE_READY s1)))
        (on_tim h (\<lambda>_ t.
            let smcr = tr_SMCR t AND NOT (TIM_SMCR_SMS OR TIM_SMCR_TS);
                smcr1 = smcr AND NOT (TIM_SMCR_ETF OR TIM_SMCR_ETPS OR TIM_SMCR_ECE OR TIM_SMCR_ETP)
            in tim_clock_source c (t\<lparr>tr_SMCR := smcr1\<rparr>))
          (set_state h HAL_TIM_STATE_BUSY (set_lock h True s))))"

abbreviation (input) TIM_CR2_MMS :: u32 where "TIM_CR2_MMS \<equiv> 0x70"
abbreviation (input) TIM_CR2_MMS2 :: u32 where "TIM_CR2_MMS2 \<equiv> 0xF00000"

definition HAL_TIMEx_MasterConfigSynchronization ::
    "'h \<Rightarrow> TIM_MasterConfigTypeDef \<Rightarrow> ('h, 'z) stm32_tim_scheme \<Rightarrow>
     (HAL_StatusTypeDef \<times> ('h, 'z) stm32_tim_scheme) option" where
  "HAL_TIMEx_MasterConfigSynchronization h c s =
     (if th_Lock (tim_handle s h) then Some (HAL_BUSY, s)
      else map_option (\<lambda>s1. (HAL_OK, set_lock h False s1))
        (on_tim h (\<lambda>i t.
            let cr2 = (if IS_TIM_TRGO2_INSTANCE i then tr_CR2 t AND NOT TIM_CR2_MMS2 OR mc_MasterOutputTrigger2 c else tr_CR2 t);
                cr2' = (cr2 AND NOT TIM_CR2_MMS) OR mc_MasterOutputTrigger c;
                smcr = (tr_SMCR t AND NOT TIM_SMCR_MSM) OR mc_MasterSlaveMode c
            in t\<lparr>tr_CR2 := cr2', tr_SMCR := smcr\<rparr>)
          (set_lock h True s)))"

section \<open>The interrupt handler\<close>

datatype tim_callback =
    IC_CaptureCallback | OC_DelayElapsedCallback | PWM_PulseFinishedCallback
  | PeriodElapsedCallback | BreakCallback | Break2Callback
  | TriggerCallback | CommutationCallback

type_synonym ('h, 'z) tim_runner = "tim_callback \<Rightarrow> 'h \<Rightarrow> ('h, 'z) stm32_tim_scheme \<Rightarrow> ('h, 'z) stm32_tim_scheme"

text \<open>One of the handler's tests: if flag and interrupt are set, the flag is cleared and the rest runs.\<close>

definition irq_flag ::
    "'h \<Rightarrow> u32 \<Rightarrow> u32 \<Rightarrow> (('h, 'z) stm32_tim_scheme \<Rightarrow> ('h, 'z) stm32_tim_scheme option) \<Rightarrow>
     ('h, 'z) stm32_tim_scheme \<Rightarrow> ('h, 'z) stm32_tim_scheme option" where
  "irq_flag h flag it body s =
     (case th_Instance (tim_handle s h) of
        None \<Rightarrow> None
      | Some i \<Rightarrow>
          if tr_SR (TIMx s i) AND flag = flag \<and> tr_DIER (TIMx s i) AND it = it
          then body (upd_tim i (clear_SR (NOT flag)) s) else Some s)"

definition irq_channel ::
    "('h, 'z) tim_runner \<Rightarrow> 'h \<Rightarrow> HAL_TIM_ActiveChannel \<Rightarrow> (TIM_TypeDef \<Rightarrow> u32) \<Rightarrow>
     ('h, 'z) stm32_tim_scheme \<Rightarrow> ('h, 'z) stm32_tim_scheme option" where
  "irq_channel run h ch sel s =
     (let s1 = upd_h h (\<lambda>x. x\<lparr>th_Channel := ch\<rparr>) s in
      case th_Instance (tim_handle s1 h) of
        None \<Rightarrow> None
      | Some i \<Rightarrow>
          let s2 = (if sel (TIMx s1 i) \<noteq> 0 then run IC_CaptureCallback h s1
                    else run PWM_PulseFinishedCallback h (run OC_DelayElapsedCallback h s1))
          in Some (upd_h h (\<lambda>x. x\<lparr>th_Channel := HAL_TIM_ACTIVE_CHANNEL_CLEARED\<rparr>) s2))"

definition HAL_TIM_IRQHandler ::
    "('h, 'z) tim_runner \<Rightarrow> 'h \<Rightarrow> ('h, 'z) stm32_tim_scheme \<Rightarrow> ('h, 'z) stm32_tim_scheme option" where
  "HAL_TIM_IRQHandler run h s =
     Option.bind (irq_flag h 0x2 0x2 (irq_channel run h HAL_TIM_ACTIVE_CHANNEL_1 (\<lambda>t. tr_CCMR1 t AND 0x3)) s) (\<lambda>s1.
     Option.bind (irq_flag h 0x4 0x4 (irq_channel run h HAL_TIM_ACTIVE_CHANNEL_2 (\<lambda>t. tr_CCMR1 t AND 0x300)) s1) (\<lambda>s2.
     Option.bind (irq_flag h 0x8 0x8 (irq_channel run h HAL_TIM_ACTIVE_CHANNEL_3 (\<lambda>t. tr_CCMR2 t AND 0x3)) s2) (\<lambda>s3.
     Option.bind (irq_flag h 0x10 0x10 (irq_channel run h HAL_TIM_ACTIVE_CHANNEL_4 (\<lambda>t. tr_CCMR2 t AND 0x300)) s3) (\<lambda>s4.
     Option.bind (irq_flag h TIM_FLAG_UPDATE TIM_IT_UPDATE (Some \<circ> run PeriodElapsedCallback h) s4) (\<lambda>s5.
     Option.bind (irq_flag h 0x80 0x80 (Some \<circ> run BreakCallback h) s5) (\<lambda>s6.
     Option.bind (irq_flag h 0x100 0x80 (Some \<circ> run Break2Callback h) s6) (\<lambda>s7.
     Option.bind (irq_flag h 0x40 0x40 (Some \<circ> run TriggerCallback h) s7) (\<lambda>s8.
     irq_flag h 0x20 0x20 (Some \<circ> run CommutationCallback h) s8))))))))"

text \<open>
  The reference: which callbacks a set of flags and enabled interrupts calls for, and which flags are acknowledged.
\<close>

definition irq_pending :: "u32 \<Rightarrow> u32 \<Rightarrow> TIM_TypeDef \<Rightarrow> bool" where
  "irq_pending flag it t \<longleftrightarrow> tr_SR t AND flag = flag \<and> tr_DIER t AND it = it"

definition channel_calls :: "u32 \<Rightarrow> u32 \<Rightarrow> TIM_TypeDef \<Rightarrow> tim_callback list" where
  "channel_calls flag sel t =
     (if \<not> irq_pending flag flag t then []
      else if sel \<noteq> 0 then [IC_CaptureCallback]
      else [OC_DelayElapsedCallback, PWM_PulseFinishedCallback])"

definition irq_calls :: "TIM_TypeDef \<Rightarrow> tim_callback list" where
  "irq_calls t =
     channel_calls 0x2 (tr_CCMR1 t AND 0x3) t @ channel_calls 0x4 (tr_CCMR1 t AND 0x300) t
     @ channel_calls 0x8 (tr_CCMR2 t AND 0x3) t @ channel_calls 0x10 (tr_CCMR2 t AND 0x300) t
     @ (if irq_pending 0x1 0x1 t then [PeriodElapsedCallback] else [])
     @ (if irq_pending 0x80 0x80 t then [BreakCallback] else [])
     @ (if irq_pending 0x100 0x80 t then [Break2Callback] else [])
     @ (if irq_pending 0x40 0x40 t then [TriggerCallback] else [])
     @ (if irq_pending 0x20 0x20 t then [CommutationCallback] else [])"

definition irq_flags :: "(u32 \<times> u32) list" where
  "irq_flags = [(0x20, 0x20), (0x40, 0x40), (0x100, 0x80), (0x80, 0x80), (0x1, 0x1), (0x10, 0x10), (0x8, 0x8), (0x4, 0x4), (0x2, 0x2)]"

definition irq_acked :: "(u32 \<times> u32) list \<Rightarrow> TIM_TypeDef \<Rightarrow> u32" where
  "irq_acked fs t = foldr (\<lambda>(f, it) a. if irq_pending f it t then f OR a else a) fs 0"

definition irq_served ::
    "'h \<Rightarrow> TIM_Inst \<Rightarrow> (u32 \<times> u32) list \<Rightarrow> HAL_TIM_ActiveChannel \<Rightarrow> 'z \<Rightarrow> ('h, 'z) stm32_tim_scheme \<Rightarrow> ('h, 'z) stm32_tim_scheme" where
  "irq_served h i fs ch m s =
     s\<lparr>TIMx := (TIMx s)(i := (TIMx s i)\<lparr>tr_SR := tr_SR (TIMx s i) AND NOT (irq_acked fs (TIMx s i))\<rparr>),
       tim_handle := (tim_handle s)(h := (tim_handle s h)\<lparr>th_Channel := ch\<rparr>), stm32_tim.more := m\<rparr>"

lemma irq_acked_simps [simp]:
  "irq_acked [] t = 0"
  "irq_acked ((f, it) # fs) t = (if irq_pending f it t then f OR irq_acked fs t else irq_acked fs t)"
  by (simp_all add: irq_acked_def)

lemma irq_acked_disjoint: "list_all (\<lambda>(f', _). f AND f' = 0) fs \<Longrightarrow> f AND irq_acked fs t = 0"
  by (induction fs) (auto simp: bit.conj_disj_distrib)

lemma irq_pending_after:
  assumes "list_all (\<lambda>(f', _). f AND f' = 0) fs"
  shows "(tr_SR t AND NOT (irq_acked fs t)) AND f = tr_SR t AND f"
proof (rule bit_word_eqI)
  fix n :: nat
  assume "n < LENGTH(32)"
  then show "bit ((tr_SR t AND NOT (irq_acked fs t)) AND f) n = bit (tr_SR t AND f) n"
    using and_zeroD [OF irq_acked_disjoint [OF assms, of t]] by (auto simp: bit_simps)
qed

lemma irq_served_fields [simp]:
  "TIMx (irq_served h i fs ch m s) = (TIMx s)(i := (TIMx s i)\<lparr>tr_SR := tr_SR (TIMx s i) AND NOT (irq_acked fs (TIMx s i))\<rparr>)"
  "tim_handle (irq_served h i fs ch m s) = (tim_handle s)(h := (tim_handle s h)\<lparr>th_Channel := ch\<rparr>)"
  "stm32_tim.more (irq_served h i fs ch m s) = m"
  by (simp_all add: irq_served_def)

lemma irq_served_upd [simp]:
  "stm32_tim.more_update g (irq_served h i fs ch m s) = irq_served h i fs ch (g m) s"
  "upd_h h (\<lambda>x. x\<lparr>th_Channel := ch'\<rparr>) (irq_served h i fs ch m s) = irq_served h i fs ch' m s"
  by (simp_all add: irq_served_def upd_h_def)

lemma irq_served_ack:
  "irq_pending f it (TIMx s i) \<Longrightarrow> upd_tim i (clear_SR (NOT f)) (irq_served h i fs ch m s) = irq_served h i ((f, it) # fs) ch m s"
  by (simp add: irq_served_def upd_tim_def clear_SR_def ac_simps)

lemma irq_served_skip: "\<not> irq_pending f it (TIMx s i) \<Longrightarrow> irq_served h i ((f, it) # fs) ch m s = irq_served h i fs ch m s"
  by (simp add: irq_served_def)

lemma irq_served_start: "s = irq_served h i [] (th_Channel (tim_handle s h)) (stm32_tim.more s) s"
  by (simp add: irq_served_def)

lemma irq_flag_served:
  assumes "th_Instance (tim_handle s h) = Some i" "list_all (\<lambda>(f', _). f AND f' = 0) fs"
  shows "irq_flag h f it body (irq_served h i fs ch m s) =
    (if irq_pending f it (TIMx s i) then body (irq_served h i ((f, it) # fs) ch m s) else Some (irq_served h i fs ch m s))"
  by (simp add: irq_flag_def assms(1) irq_pending_def [symmetric] irq_pending_after [OF assms(2)] irq_served_ack)

lemma plain_step:
  assumes "th_Instance (tim_handle s h) = Some i" "\<And>c s. run c h s = stm32_tim.more_update (g c) s"
    and "list_all (\<lambda>(f', _). f AND f' = 0) fs"
  shows "irq_flag h f it (Some \<circ> run c h) (irq_served h i fs ch m s) =
    Some (irq_served h i ((f, it) # fs) ch (fold g (if irq_pending f it (TIMx s i) then [c] else []) m) s)"
  by (simp add: irq_flag_served [OF assms(1,3)] assms(2) irq_served_skip)

lemma channel_step:
  assumes "th_Instance (tim_handle s h) = Some i" "\<And>c s. run c h s = stm32_tim.more_update (g c) s"
    and "list_all (\<lambda>(f', _). f AND f' = 0) fs" "\<And>t v. sel (t\<lparr>tr_SR := v\<rparr>) = sel t"
  shows "irq_flag h f f (irq_channel run h c sel) (irq_served h i fs ch m s) =
    Some (irq_served h i ((f, f) # fs) (if irq_pending f f (TIMx s i) then HAL_TIM_ACTIVE_CHANNEL_CLEARED else ch)
      (fold g (channel_calls f (sel (TIMx s i)) (TIMx s i)) m) s)"
  by (simp add: irq_flag_served [OF assms(1,3)] irq_channel_def Let_def assms(1,2,4) irq_served_skip channel_calls_def)

text \<open>
  The handler calls what the reference says, in its order, and acknowledges what it serves and nothing else.
\<close>

lemma HAL_TIM_IRQHandler_serves:
  assumes "th_Instance (tim_handle s h) = Some i" "\<And>c s. run c h s = stm32_tim.more_update (g c) s"
  obtains ch where "HAL_TIM_IRQHandler run h s =
    Some (irq_served h i irq_flags ch (fold g (irq_calls (TIMx s i)) (stm32_tim.more s)) s)"
proof -
  let ?t = "TIMx s i"
  define m0 where "m0 = stm32_tim.more s"
  define c0 where "c0 = th_Channel (tim_handle s h)"
  define m1 where "m1 = fold g (channel_calls 0x2 (tr_CCMR1 ?t AND 0x3) ?t) m0"
  obtain c1 where e1: "irq_flag h 0x2 0x2 (irq_channel run h HAL_TIM_ACTIVE_CHANNEL_1 (\<lambda>t. tr_CCMR1 t AND 0x3))
      (irq_served h i [] c0 m0 s) = Some (irq_served h i [(0x2, 0x2)] c1 m1 s)"
    using channel_step [where run = run and g = g, OF assms] unfolding m1_def by simp
  define m2 where "m2 = fold g (channel_calls 0x4 (tr_CCMR1 ?t AND 0x300) ?t) m1"
  obtain c2 where e2: "irq_flag h 0x4 0x4 (irq_channel run h HAL_TIM_ACTIVE_CHANNEL_2 (\<lambda>t. tr_CCMR1 t AND 0x300))
      (irq_served h i [(0x2, 0x2)] c1 m1 s) = Some (irq_served h i [(0x4, 0x4), (0x2, 0x2)] c2 m2 s)"
    using channel_step [where run = run and g = g, OF assms] unfolding m2_def by simp
  define m3 where "m3 = fold g (channel_calls 0x8 (tr_CCMR2 ?t AND 0x3) ?t) m2"
  obtain c3 where e3: "irq_flag h 0x8 0x8 (irq_channel run h HAL_TIM_ACTIVE_CHANNEL_3 (\<lambda>t. tr_CCMR2 t AND 0x3))
      (irq_served h i [(0x4, 0x4), (0x2, 0x2)] c2 m2 s) = Some (irq_served h i [(0x8, 0x8), (0x4, 0x4), (0x2, 0x2)] c3 m3 s)"
    using channel_step [where run = run and g = g, OF assms] unfolding m3_def by simp
  define m4 where "m4 = fold g (channel_calls 0x10 (tr_CCMR2 ?t AND 0x300) ?t) m3"
  obtain c4 where e4: "irq_flag h 0x10 0x10 (irq_channel run h HAL_TIM_ACTIVE_CHANNEL_4 (\<lambda>t. tr_CCMR2 t AND 0x300))
      (irq_served h i [(0x8, 0x8), (0x4, 0x4), (0x2, 0x2)] c3 m3 s) = Some (irq_served h i [(0x10, 0x10), (0x8, 0x8), (0x4, 0x4), (0x2, 0x2)] c4 m4 s)"
    using channel_step [where run = run and g = g, OF assms] unfolding m4_def by simp
  define m5 where "m5 = fold g (if irq_pending 0x1 0x1 ?t then [PeriodElapsedCallback] else []) m4"
  have e5: "irq_flag h 0x1 0x1 (Some \<circ> run PeriodElapsedCallback h) (irq_served h i [(0x10, 0x10), (0x8, 0x8), (0x4, 0x4), (0x2, 0x2)] c4 m4 s) =
      Some (irq_served h i [(0x1, 0x1), (0x10, 0x10), (0x8, 0x8), (0x4, 0x4), (0x2, 0x2)] c4 m5 s)"
    unfolding m5_def by (rule plain_step [where run = run and g = g, OF assms]) simp
  define m6 where "m6 = fold g (if irq_pending 0x80 0x80 ?t then [BreakCallback] else []) m5"
  have e6: "irq_flag h 0x80 0x80 (Some \<circ> run BreakCallback h) (irq_served h i [(0x1, 0x1), (0x10, 0x10), (0x8, 0x8), (0x4, 0x4), (0x2, 0x2)] c4 m5 s) =
      Some (irq_served h i [(0x80, 0x80), (0x1, 0x1), (0x10, 0x10), (0x8, 0x8), (0x4, 0x4), (0x2, 0x2)] c4 m6 s)"
    unfolding m6_def by (rule plain_step [where run = run and g = g, OF assms]) simp
  define m7 where "m7 = fold g (if irq_pending 0x100 0x80 ?t then [Break2Callback] else []) m6"
  have e7: "irq_flag h 0x100 0x80 (Some \<circ> run Break2Callback h) (irq_served h i [(0x80, 0x80), (0x1, 0x1), (0x10, 0x10), (0x8, 0x8), (0x4, 0x4), (0x2, 0x2)] c4 m6 s) =
      Some (irq_served h i [(0x100, 0x80), (0x80, 0x80), (0x1, 0x1), (0x10, 0x10), (0x8, 0x8), (0x4, 0x4), (0x2, 0x2)] c4 m7 s)"
    unfolding m7_def by (rule plain_step [where run = run and g = g, OF assms]) simp
  define m8 where "m8 = fold g (if irq_pending 0x40 0x40 ?t then [TriggerCallback] else []) m7"
  have e8: "irq_flag h 0x40 0x40 (Some \<circ> run TriggerCallback h) (irq_served h i [(0x100, 0x80), (0x80, 0x80), (0x1, 0x1), (0x10, 0x10), (0x8, 0x8), (0x4, 0x4), (0x2, 0x2)] c4 m7 s) =
      Some (irq_served h i [(0x40, 0x40), (0x100, 0x80), (0x80, 0x80), (0x1, 0x1), (0x10, 0x10), (0x8, 0x8), (0x4, 0x4), (0x2, 0x2)] c4 m8 s)"
    unfolding m8_def by (rule plain_step [where run = run and g = g, OF assms]) simp
  define m9 where "m9 = fold g (if irq_pending 0x20 0x20 ?t then [CommutationCallback] else []) m8"
  have e9: "irq_flag h 0x20 0x20 (Some \<circ> run CommutationCallback h) (irq_served h i [(0x40, 0x40), (0x100, 0x80), (0x80, 0x80), (0x1, 0x1), (0x10, 0x10), (0x8, 0x8), (0x4, 0x4), (0x2, 0x2)] c4 m8 s) =
      Some (irq_served h i [(0x20, 0x20), (0x40, 0x40), (0x100, 0x80), (0x80, 0x80), (0x1, 0x1), (0x10, 0x10), (0x8, 0x8), (0x4, 0x4), (0x2, 0x2)] c4 m9 s)"
    unfolding m9_def by (rule plain_step [where run = run and g = g, OF assms]) simp
  have "fold g (irq_calls ?t) m0 = m9"
    unfolding irq_calls_def m9_def m8_def m7_def m6_def m5_def m4_def m3_def m2_def m1_def by (simp only: fold_append comp_apply)
  moreover have "HAL_TIM_IRQHandler run h (irq_served h i [] c0 m0 s) = Some (irq_served h i irq_flags c4 m9 s)"
    unfolding HAL_TIM_IRQHandler_def irq_flags_def by (simp only: e1 e2 e3 e4 e5 e6 e7 e8 e9 Option.bind.simps)
  ultimately show thesis using that [of c4] unfolding m0_def c0_def irq_served_start [symmetric] by simp
qed

end
