(* ===== verification/TimerTest.thy ===== *)
theory TimerTest
  imports TaskService SwBgTimers SwTimers
begin

text \<open>
  The application of \<^verbatim>\<open>src/swtimertest/Src/main.c\<close> and its interrupt handlers in \<^verbatim>\<open>stm32f3xx_it.c\<close>: a
  clock put together from a rollover count and a hardware counter, four tasks that yield while they work and schedule
  each other, the background timers as the task of highest priority, and four fast timers. The vendor's
  functions appear with what they are documented to do: \<open>HAL_IncTick\<close> counts \<open>uwTick\<close>, the system tick handler calls
  \<open>HAL_SYSTICK_Callback\<close>, and the handler of a timer calls \<open>HAL_TIM_PeriodElapsedCallback\<close> when the timer has rolled over
  (\<open>TimeBase\<close> shows that the driver's handler does so).
  Interrupts come in the loop of \<open>subTask\<close>, before each iteration as many as the sequence \<open>tt_irqs\<close> says; a reading of
  the clock takes the next of the sequence \<open>tt_tim3\<close>: whether the rollover interrupt came before it, and the counter.
  \<open>None\<close> as result is a call that does not return.
\<close>

section \<open>State\<close>

datatype tt_fun = F_SWT_Background | F_task1 | F_task2 | F_task3 | F_task4
datatype tt_future = F_futureTest2 | F_futureTest20 | F_futureTest200 | F_futureTest2000
datatype tt_tim = htim3 | htim7
datatype tt_irq = Irq_SysTick | Irq_TIM3 | Irq_TIM7 | Irq_PendSV

record tt_world = "tt_fun taskMasterRecord_t" +
  bgTimerTask :: int
  task1Task :: int
  task2Task :: int
  task3Task :: int
  task4Task :: int
  uwTick :: u32
  extendedTick :: u32
  testusec :: u32
  Clock3 :: u32
  Clock7 :: u32
  futureCalled :: u32
  fut_cnt :: "tt_future \<Rightarrow> i32"
  fut_dif :: "tt_future \<Rightarrow> i32"
  tasksAllowed :: u32
  tt_tim3 :: "nat \<Rightarrow> bool \<times> u32"
  tt_reads :: nat
  tt_irqs :: "nat \<Rightarrow> tt_irq list"
  tt_iter :: nat
  tt_bg :: "nat bg_state"
  tt_swt :: "(tt_future, unit) swt_state"

section \<open>The clock\<close>

definition read_time :: "tt_world \<Rightarrow> u32 \<times> tt_world" where
  "read_time w =
     (let (roll, c) = tt_tim3 w (tt_reads w);
          w1 = w\<lparr>tt_reads := tt_reads w + 1, Clock3 := (if roll then Clock3 w + 1 else Clock3 w)\<rparr>
      in (push_bit 14 (Clock3 w1) + drop_bit 2 c, w1))"

partial_function (option) get_time_loop :: "u32 \<Rightarrow> tt_world \<Rightarrow> (u32 \<times> tt_world) option" where
  "get_time_loop time1 w =
     (let (time2, w1) = read_time w
      in if time2 - time1 > 1 then get_time_loop time2 w1 else Some (time2, w1))"

declare get_time_loop.simps [code]

definition GetTimeuSec :: "tt_world \<Rightarrow> (u32 \<times> tt_world) option" where
  "GetTimeuSec w = (let (time1, w1) = read_time w in get_time_loop time1 w1)"

text \<open>The four functions \<open>futureTest...\<close> differ in their variables only. The quotient is unsigned, as the time is.\<close>

definition futureTest :: "tt_future \<Rightarrow> int \<Rightarrow> tt_world \<Rightarrow> tt_world option" where
  "futureTest f startTime w =
     map_option (\<lambda>(t, w1).
       let c = fut_cnt w1 f + 1
       in w1\<lparr>fut_cnt := (fut_cnt w1)(f := c), fut_dif := (fut_dif w1)(f := (t - word_of_int startTime) div c)\<rparr>)
     (GetTimeuSec (w\<lparr>futureCalled := futureCalled w + 1\<rparr>))"

section \<open>Interrupts\<close>

definition HAL_SYSTICK_Callback :: "tt_world \<Rightarrow> tt_world option" where
  "HAL_SYSTICK_Callback w =
     Option.bind (TS_SignalTask (bgTimerTask w) (Some w)) (\<lambda>(_, w1).
       let w2 = (if uwTick w1 = 0 then w1\<lparr>extendedTick := extendedTick w1 + 1\<rparr> else w1)
       in map_option (\<lambda>(t, w3). w3\<lparr>testusec := t\<rparr>) (GetTimeuSec w2))"

definition HAL_TIM_PeriodElapsedCallback :: "tt_tim \<Rightarrow> tt_world \<Rightarrow> tt_world" where
  "HAL_TIM_PeriodElapsedCallback htim w =
     (let w1 = (if htim = htim3 then w\<lparr>Clock3 := Clock3 w + 1\<rparr> else w)
      in if htim = htim7 then w1\<lparr>Clock7 := Clock7 w1 + 1\<rparr> else w1)"

definition SysTick_Handler :: "tt_world \<Rightarrow> tt_world option" where
  "SysTick_Handler w = HAL_SYSTICK_Callback (w\<lparr>uwTick := uwTick w + 1\<rparr>)"

definition TIM3_IRQHandler :: "tt_world \<Rightarrow> tt_world" where
  "TIM3_IRQHandler w = HAL_TIM_PeriodElapsedCallback htim3 w"

definition TIM7_DAC2_IRQHandler :: "tt_world \<Rightarrow> tt_world" where
  "TIM7_DAC2_IRQHandler w = HAL_TIM_PeriodElapsedCallback htim7 w"

text \<open>The pend service runs on the state of the fast timers; its callbacks act on the whole.\<close>

definition PendSV_Handler :: "tt_world \<Rightarrow> tt_world option" where
  "PendSV_Handler w =
     Option.bind (SWT_PendService (\<lambda>f obj. swt_world.more_update (\<lambda>x. Option.bind x (futureTest f obj)))
       (swt_world.extend (tt_swt w) (Some w)))
     (\<lambda>s. map_option (\<lambda>w1. w1\<lparr>tt_swt := swt_world.truncate s\<rparr>) (swt_world.more s))"

fun tt_interrupt :: "tt_irq \<Rightarrow> tt_world \<Rightarrow> tt_world option" where
  "tt_interrupt Irq_SysTick w = SysTick_Handler w"
| "tt_interrupt Irq_TIM3 w = Some (TIM3_IRQHandler w)"
| "tt_interrupt Irq_TIM7 w = Some (TIM7_DAC2_IRQHandler w)"
| "tt_interrupt Irq_PendSV w = PendSV_Handler w"

primrec tt_interrupts :: "tt_irq list \<Rightarrow> tt_world \<Rightarrow> tt_world option" where
  "tt_interrupts [] w = Some w"
| "tt_interrupts (q # qs) w = Option.bind (tt_interrupt q w) (tt_interrupts qs)"

section \<open>The tasks\<close>

text \<open>\<open>k\<close> iterations are left and the counter is \<open>i\<close>.\<close>

primrec subTask_loop :: "(tt_world \<Rightarrow> tt_world option) \<Rightarrow> nat \<Rightarrow> nat \<Rightarrow> tt_world \<Rightarrow> tt_world option" where
  "subTask_loop yield 0 i w = Some w"
| "subTask_loop yield (Suc k) i w =
     Option.bind (tt_interrupts (tt_irqs w (tt_iter w)) (w\<lparr>tt_iter := tt_iter w + 1\<rparr>)) (\<lambda>w1.
     Option.bind (if i mod 1000 = 0 then yield w1 else Some w1) (subTask_loop yield k (i + 1)))"

definition subTask :: "(tt_world \<Rightarrow> tt_world option) \<Rightarrow> nat \<Rightarrow> tt_world \<Rightarrow> tt_world option" where
  "subTask yield cnt w = subTask_loop yield cnt 0 w"

definition signal :: "int \<Rightarrow> tt_world \<Rightarrow> tt_world option" where
  "signal task w = map_option snd (TS_SignalTask task (Some w))"

definition task1 :: "(tt_world \<Rightarrow> tt_world option) \<Rightarrow> tt_world \<Rightarrow> tt_world option" where
  "task1 yield w = Option.bind (subTask yield 3000 w) (\<lambda>w1.
     Option.bind (signal (task4Task w1) w1) (\<lambda>w2. signal (task2Task w2) w2))"

definition task2 :: "(tt_world \<Rightarrow> tt_world option) \<Rightarrow> tt_world \<Rightarrow> tt_world option" where
  "task2 yield w = Option.bind (subTask yield 30000 w) (\<lambda>w1. signal (task3Task w1) w1)"

definition task3 :: "(tt_world \<Rightarrow> tt_world option) \<Rightarrow> tt_world \<Rightarrow> tt_world option" where
  "task3 yield w = Option.bind (subTask yield 300000 w) (\<lambda>w1. signal (task1Task w1) w1)"

definition task4 :: "(tt_world \<Rightarrow> tt_world option) \<Rightarrow> tt_world \<Rightarrow> tt_world option" where
  "task4 yield w = Option.bind (subTask yield 3000000 w) (\<lambda>w1. signal (task2Task w1) w1)"

lemma subTask_loop_mono [partial_function_mono]:
  assumes "\<And>w. mono_option (\<lambda>r. B r w)"
  shows "mono_option (\<lambda>r. subTask_loop (B r) k i w)"
proof (induction k arbitrary: i w)
  case (Suc k)
  show ?case
    by (simp only: subTask_loop.simps) (intro bind_mono option.const_mono if_mono assms Suc)
qed (simp add: monotone_def flat_ord_def)

lemma task_mono [partial_function_mono]:
  assumes "\<And>w. mono_option (\<lambda>r. B r w)"
  shows "mono_option (\<lambda>r. task1 (B r) w)" "mono_option (\<lambda>r. task2 (B r) w)"
    "mono_option (\<lambda>r. task3 (B r) w)" "mono_option (\<lambda>r. task4 (B r) w)"
  unfolding task1_def task2_def task3_def task4_def subTask_def
  by (intro bind_mono subTask_loop_mono assms option.const_mono)+

text \<open>What running a task does; \<open>run_bg\<close> is what the callbacks of background timers do.\<close>

partial_function (option) tt_run :: "(nat, unit) bg_runner \<Rightarrow> tt_fun \<Rightarrow> tt_world \<Rightarrow> tt_world option" where
  "tt_run run_bg f w =
     (case f of
        F_SWT_Background \<Rightarrow> map_option (\<lambda>b. w\<lparr>tt_bg := b\<rparr>) (SWT_Background run_bg (tt_bg w))
      | F_task1 \<Rightarrow> task1 (\<lambda>w. TS_Yield (tt_run run_bg) (Some w)) w
      | F_task2 \<Rightarrow> task2 (\<lambda>w. TS_Yield (tt_run run_bg) (Some w)) w
      | F_task3 \<Rightarrow> task3 (\<lambda>w. TS_Yield (tt_run run_bg) (Some w)) w
      | F_task4 \<Rightarrow> task4 (\<lambda>w. TS_Yield (tt_run run_bg) (Some w)) w)"

section \<open>Set-up and main loop\<close>

definition tt_add :: "tt_fun \<Rightarrow> tt_world \<Rightarrow> (int \<times> tt_world) option" where
  "tt_add f w = TS_AddTask (Some f) (Some w)"

text \<open>A fast timer is started with the time of its start as context.\<close>

definition tt_start_future :: "u32 \<Rightarrow> tt_future \<Rightarrow> u32 \<Rightarrow> tt_world \<Rightarrow> tt_world option" where
  "tt_start_future scaler f ns w =
     map_option (\<lambda>(t, w1). w1\<lparr>tt_swt := snd (SWT_FastTimerCallback scaler (Some f) ns 256 (sint t) (tt_swt w1))\<rparr>)
     (GetTimeuSec w)"

text \<open>\<open>main\<close> up to its loop, after the vendor's initialisation; the table is placed at \<open>space\<close>.\<close>

definition main_setup :: "int \<Rightarrow> nat \<Rightarrow> u32 \<Rightarrow> tt_world \<Rightarrow> tt_world option" where
  "main_setup space cbBuf scaler w =
     (case TS_Init space (nat (TS_InitGetSize 10)) (w\<lparr>tt_swt := SWT_FastInit cbBuf (tt_swt w)\<rparr>) of
        (n, None) \<Rightarrow> None
      | (n, Some w1) \<Rightarrow>
          let w1a = w1\<lparr>tasksAllowed := word_of_int n\<rparr> in
          if tasksAllowed w1a \<noteq> 10 then None
          else
            Option.bind (tt_add F_SWT_Background w1a) (\<lambda>(h, w2).
            Option.bind (tt_add F_task1 (w2\<lparr>bgTimerTask := h\<rparr>)) (\<lambda>(h, w3).
            Option.bind (tt_add F_task2 (w3\<lparr>task1Task := h\<rparr>)) (\<lambda>(h, w4).
            Option.bind (tt_add F_task3 (w4\<lparr>task2Task := h\<rparr>)) (\<lambda>(h, w5).
            Option.bind (tt_add F_task4 (w5\<lparr>task3Task := h\<rparr>)) (\<lambda>(h, w6).
            Option.bind (signal (task3Task w6) (w6\<lparr>task4Task := h\<rparr>)) (\<lambda>w7.
            Option.bind (tt_start_future scaler F_futureTest2000 2000000 w7) (\<lambda>w8.
            Option.bind (tt_start_future scaler F_futureTest200 200000 w8) (\<lambda>w9.
            Option.bind (tt_start_future scaler F_futureTest20 20000 w9)
              (tt_start_future scaler F_futureTest2 2000))))))))))"

text \<open>A turn of \<open>while (1)\<close>.\<close>

definition tt_main_turn :: "(nat, unit) bg_runner \<Rightarrow> tt_world \<Rightarrow> tt_world option" where
  "tt_main_turn run_bg w = Option.bind (TS_Background (tt_run run_bg) (Some w)) id"

section \<open>The clock returns\<close>

text \<open>Readings \<open>k\<close> and \<open>k + 1\<close> are at most a microsecond apart, with no rollover interrupt between them.\<close>

definition steady :: "tt_world \<Rightarrow> nat \<Rightarrow> bool" where
  "steady w k \<longleftrightarrow> \<not> fst (tt_tim3 w (Suc k)) \<and> drop_bit 2 (snd (tt_tim3 w (Suc k))) - drop_bit 2 (snd (tt_tim3 w k)) \<le> 1"

text \<open>The rollover count before reading \<open>k\<close> is compared, and the time that reading \<open>k\<close> gives.\<close>

fun rolled :: "tt_world \<Rightarrow> nat \<Rightarrow> u32" where
  "rolled w 0 = 0"
| "rolled w (Suc k) = rolled w k + (if fst (tt_tim3 w (tt_reads w + k)) then 1 else 0)"

definition time_at :: "tt_world \<Rightarrow> nat \<Rightarrow> u32" where
  "time_at w k = push_bit 14 (Clock3 w + rolled w (Suc k)) + drop_bit 2 (snd (tt_tim3 w (tt_reads w + k)))"

definition after_reads :: "nat \<Rightarrow> tt_world \<Rightarrow> tt_world" where
  "after_reads k w = w\<lparr>tt_reads := tt_reads w + k, Clock3 := Clock3 w + rolled w k\<rparr>"

lemma read_time_after: "read_time (after_reads k w) = (time_at w k, after_reads (Suc k) w)"
  by (simp add: read_time_def after_reads_def time_at_def split_beta add.assoc)

lemma get_time_loop_stops:
  "k \<le> n \<Longrightarrow> time_at w (Suc n) - time_at w n \<le> 1 \<Longrightarrow> \<forall>j. k \<le> j \<and> j < n \<longrightarrow> 1 < time_at w (Suc j) - time_at w j \<Longrightarrow>
   get_time_loop (time_at w k) (after_reads (Suc k) w) = Some (time_at w (Suc n), after_reads (Suc (Suc n)) w)"
proof (induction "n - k" arbitrary: k)
  case 0
  then show ?case
    by (subst get_time_loop.simps) (simp add: read_time_after linorder_not_less [symmetric])
next
  case (Suc d)
  then have "get_time_loop (time_at w k) (after_reads (Suc k) w) =
      get_time_loop (time_at w (Suc k)) (after_reads (Suc (Suc k)) w)"
    by (subst get_time_loop.simps) (simp add: read_time_after)
  then show ?case
    using Suc.hyps(1) [of "Suc k"] Suc.hyps(2) Suc.prems by simp
qed

text \<open>The clock waits for the first two consecutive times that differ by at most one.\<close>

lemma GetTimeuSec_first:
  assumes "time_at w (Suc n) - time_at w n \<le> 1" "\<forall>j < n. 1 < time_at w (Suc j) - time_at w j"
  shows "GetTimeuSec w = Some (time_at w (Suc n), after_reads (Suc (Suc n)) w)"
proof -
  have w: "after_reads 0 w = w"
    by (simp add: after_reads_def)
  show ?thesis
    using get_time_loop_stops [of 0 n w] read_time_after [of 0 w] assms by (simp add: GetTimeuSec_def w)
qed

lemma GetTimeuSec_returns:
  assumes "\<exists>k \<ge> tt_reads w. steady w k"
  shows "\<exists>t n. GetTimeuSec w = Some (t, after_reads n w)"
proof -
  obtain k where "steady w (tt_reads w + k)"
    using assms by (auto simp: le_iff_add)
  then have "time_at w (Suc k) - time_at w k \<le> 1"
    by (simp add: steady_def time_at_def)
  moreover define n where "n = (LEAST n. time_at w (Suc n) - time_at w n \<le> 1)"
  ultimately have "time_at w (Suc n) - time_at w n \<le> 1"
    by (metis (mono_tags, lifting) LeastI)
  moreover have "\<forall>j < n. 1 < time_at w (Suc j) - time_at w j"
    using not_less_Least n_def by (auto simp: linorder_not_le [symmetric])
  ultimately show ?thesis
    using GetTimeuSec_first by blast
qed

section \<open>The task table of the application\<close>

definition clock_ok :: "tt_world \<Rightarrow> bool" where
  "clock_ok w \<longleftrightarrow> (\<forall>n. \<exists>k \<ge> n. steady w k)"

text \<open>The five tasks are in the table with their handles known, no background timer is listed, nothing
  is pending for the fast timers.\<close>

definition tt_ready :: "tt_world \<Rightarrow> bool" where
  "tt_ready w \<longleftrightarrow> clock_ok w \<and> tm_nextInTable w = 5 \<and>
     [bgTimerTask w, task1Task w, task2Task w, task3Task w, task4Task w] = map (tt_at w) [0, 1, 2, 3, 4] \<and>
     map (\<lambda>i. te_task (tm_entry w (tt_at w i))) [0, 1, 2, 3, 4] =
       [Some F_SWT_Background, Some F_task1, Some F_task2, Some F_task3, Some F_task4] \<and>
     timerList (tt_bg w) = None \<and> v1_next (pendsvQueue (tt_swt w)) = v1_last (pendsvQueue (tt_swt w))"

text \<open>A change that leaves the table alone but for the entry of the background timers.\<close>

definition calm :: "tt_world \<Rightarrow> tt_world \<Rightarrow> bool" where
  "calm w w' \<longleftrightarrow> tt_ready w' \<and> tm_addr w' = tm_addr w \<and> tm_lowestYielding w' = tm_lowestYielding w \<and>
     tm_runningTask w' = tm_runningTask w \<and> (\<forall>a. a \<noteq> tt_at w 0 \<longrightarrow> tm_entry w' a = tm_entry w a)"

lemma calm_refl: "tt_ready w \<Longrightarrow> calm w w"
  by (simp add: calm_def)

lemma calm_trans: "calm u v \<Longrightarrow> calm v w \<Longrightarrow> calm u w"
  by (simp add: calm_def tt_at_def)

lemma calm_sched: "calm w w' \<Longrightarrow> 0 < i \<Longrightarrow> sched w' i = sched w i"
  by (simp add: calm_def sched_def tt_at_def)

lemma tt_at_update [simp]:
  fixes w :: tt_world
  shows "tt_at (w\<lparr>tt_iter := n\<rparr>) = tt_at w" "tt_at (w\<lparr>uwTick := t\<rparr>) = tt_at w" "tt_at (w\<lparr>extendedTick := t\<rparr>) = tt_at w"
    "tt_at (w\<lparr>testusec := t\<rparr>) = tt_at w" "tt_at (w\<lparr>Clock3 := t\<rparr>) = tt_at w" "tt_at (w\<lparr>Clock7 := t\<rparr>) = tt_at w"
    "tt_at (after_reads k w) = tt_at w" "tt_at (w\<lparr>tt_bg := b\<rparr>) = tt_at w" "tt_at (w\<lparr>tt_swt := q\<rparr>) = tt_at w"
    "tt_at (upd_entry a f w) = tt_at w" "tt_at (w\<lparr>tm_runningTask := i\<rparr>) = tt_at w" "tt_at (w\<lparr>tm_lowestYielding := i\<rparr>) = tt_at w"
  by (simp_all add: tt_at_def after_reads_def upd_entry_def fun_eq_iff)

lemma clock_ok_update [simp]:
  "clock_ok (w\<lparr>tt_iter := n\<rparr>) = clock_ok w" "clock_ok (w\<lparr>uwTick := t\<rparr>) = clock_ok w"
  "clock_ok (w\<lparr>extendedTick := t\<rparr>) = clock_ok w" "clock_ok (w\<lparr>testusec := t\<rparr>) = clock_ok w"
  "clock_ok (w\<lparr>Clock3 := t\<rparr>) = clock_ok w" "clock_ok (w\<lparr>Clock7 := t\<rparr>) = clock_ok w"
  "clock_ok (after_reads k w) = clock_ok w" "clock_ok (w\<lparr>tt_bg := b\<rparr>) = clock_ok w"
  "clock_ok (w\<lparr>tt_swt := q\<rparr>) = clock_ok w" "clock_ok (upd_entry a f w) = clock_ok w"
  "clock_ok (w\<lparr>tm_runningTask := i\<rparr>) = clock_ok w" "clock_ok (w\<lparr>tm_lowestYielding := i\<rparr>) = clock_ok w"
  by (simp_all add: clock_ok_def steady_def after_reads_def upd_entry_def)

lemma clock_returns:
  "clock_ok w \<Longrightarrow> \<exists>t n. GetTimeuSec w = Some (t, after_reads n w)"
  by (rule GetTimeuSec_returns) (simp add: clock_ok_def)

lemma upd_entry_kept [simp]:
  fixes w :: tt_world
  shows "te_task (tm_entry (upd_entry a (te_scheduled_update f) w) b) = te_task (tm_entry w b)"
    "tm_entry (upd_entry a g w) b = (if b = a then g (tm_entry w a) else tm_entry w b)"
    "tm_nextInTable (upd_entry a g w) = tm_nextInTable w" "tm_addr (upd_entry a g w) = tm_addr w"
    "tm_lowestYielding (upd_entry a g w) = tm_lowestYielding w" "tm_runningTask (upd_entry a g w) = tm_runningTask w"
    "bgTimerTask (upd_entry a g w) = bgTimerTask w" "task1Task (upd_entry a g w) = task1Task w"
    "task2Task (upd_entry a g w) = task2Task w" "task3Task (upd_entry a g w) = task3Task w"
    "task4Task (upd_entry a g w) = task4Task w" "tt_bg (upd_entry a g w) = tt_bg w" "tt_swt (upd_entry a g w) = tt_swt w"
  by (simp_all add: upd_entry_def)

lemma tt_ready_sched: "tt_ready w \<Longrightarrow> tt_ready (upd_entry a (te_scheduled_update f) w)"
  by (simp add: tt_ready_def del: upd_entry_kept(2))

lemma tt_ready_update [simp]:
  "tt_ready (w\<lparr>tt_iter := n\<rparr>) = tt_ready w" "tt_ready (w\<lparr>uwTick := t\<rparr>) = tt_ready w"
  "tt_ready (w\<lparr>extendedTick := t\<rparr>) = tt_ready w" "tt_ready (w\<lparr>testusec := t\<rparr>) = tt_ready w"
  "tt_ready (w\<lparr>Clock3 := t\<rparr>) = tt_ready w" "tt_ready (w\<lparr>Clock7 := t\<rparr>) = tt_ready w"
  "tt_ready (after_reads k w) = tt_ready w" "tt_ready (w\<lparr>tm_runningTask := i\<rparr>) = tt_ready w"
  "tt_ready (w\<lparr>tm_lowestYielding := i\<rparr>) = tt_ready w"
  by (simp_all add: tt_ready_def) (simp_all add: after_reads_def)

lemma te_scheduled_update_eq:
  "(\<lambda>e :: 'f taskTableEntry_t. e\<lparr>te_scheduled := g (te_scheduled e)\<rparr>) = te_scheduled_update g"
proof
  show "e\<lparr>te_scheduled := g (te_scheduled e)\<rparr> = te_scheduled_update g e" for e :: "'f taskTableEntry_t"
    by (cases e) simp
qed

lemma signal_task:
  assumes "tt_ready w" "i < 5"
  shows "signal (tt_at w (int i)) w = Some (upd_entry (tt_at w (int i)) (te_scheduled_update USAT_INC_narrow) w)"
  using assms by (simp add: signal_def TS_SignalTask_def TSC_SignalTask_def bad_handle_def te_scheduled_update_eq tt_ready_def tt_at_def)

section \<open>Interrupts leave the tasks alone\<close>

lemma SysTick_calm:
  assumes "tt_ready w"
  shows "\<exists>w'. SysTick_Handler w = Some w' \<and> calm w w'"
proof -
  let ?w = "w\<lparr>uwTick := uwTick w + 1\<rparr>"
  let ?w1 = "upd_entry (tt_at w 0) (te_scheduled_update USAT_INC_narrow) ?w"
  let ?w2 = "if uwTick ?w1 = 0 then ?w1\<lparr>extendedTick := extendedTick ?w1 + 1\<rparr> else ?w1"
  have bg: "bgTimerTask ?w = tt_at w 0"
    using assms by (simp add: tt_ready_def)
  have ready: "tt_ready ?w1"
    using assms by (simp add: tt_ready_sched)
  then have "clock_ok ?w2"
    by (simp add: tt_ready_def)
  then obtain t n where t: "GetTimeuSec ?w2 = Some (t, after_reads n ?w2)"
    using clock_returns by blast
  have "TS_SignalTask (tt_at w 0) (Some ?w) = Some (TSC_OK, ?w1)"
    using assms by (simp add: TS_SignalTask_def TSC_SignalTask_def bad_handle_def te_scheduled_update_eq tt_ready_def) (simp add: tt_at_def)
  then have "SysTick_Handler w = Some ((after_reads n ?w2)\<lparr>testusec := t\<rparr>)"
    using t by (simp only: SysTick_Handler_def HAL_SYSTICK_Callback_def bg Let_def bind.simps prod.case option.map)
  moreover have "calm w ((after_reads n ?w2)\<lparr>testusec := t\<rparr>)"
    using ready by (auto simp: calm_def) (simp_all add: after_reads_def upd_entry_def)
  ultimately show ?thesis
    by blast
qed

lemma PendSV_calm:
  assumes "tt_ready w"
  shows "PendSV_Handler w = Some w"
proof -
  have "SWT_PendService g (swt_world.extend (tt_swt w) (Some w)) = Some (swt_world.extend (tt_swt w) (Some w))" for g
    using assms by (subst SWT_PendService.simps) (simp add: tt_ready_def GenQ_Get_v1_def swt_world.defs)
  then show ?thesis
    by (simp add: PendSV_Handler_def swt_world.defs)
qed

lemma interrupt_calm:
  assumes "tt_ready w"
  shows "\<exists>w'. tt_interrupt q w = Some w' \<and> calm w w'"
  using assms SysTick_calm [OF assms] by (cases q) (simp_all add: PendSV_calm calm_refl calm_def TIM3_IRQHandler_def TIM7_DAC2_IRQHandler_def
      HAL_TIM_PeriodElapsedCallback_def)

lemma interrupts_calm:
  "tt_ready w \<Longrightarrow> \<exists>w'. tt_interrupts qs w = Some w' \<and> calm w w'"
proof (induction qs arbitrary: w)
  case (Cons q qs)
  obtain w1 where w1: "tt_interrupt q w = Some w1" "calm w w1"
    using interrupt_calm [OF Cons.prems] by blast
  then obtain w2 where "tt_interrupts qs w1 = Some w2" "calm w1 w2"
    using Cons.IH [of w1] by (auto simp: calm_def)
  with w1 show ?case
    using calm_trans by auto
qed (simp add: calm_refl)

section \<open>Tasks and yields\<close>

text \<open>A turn of the background timers, started from the loop.\<close>

lemma start_background:
  assumes "tt_ready w"
  shows "\<exists>w'. start_task (tt_run run_bg) 0 w = Some w' \<and> tt_ready w' \<and> tm_addr w' = tm_addr w \<and>
    tm_lowestYielding w' = tm_lowestYielding w \<and> tm_runningTask w' = 0 \<and> \<not> sched w' 0 \<and>
    (\<forall>a. a \<noteq> tt_at w 0 \<longrightarrow> tm_entry w' a = tm_entry w a)"
proof -
  let ?w = "upd_entry (tt_at w 0) (\<lambda>e. e\<lparr>te_scheduled := 0\<rparr>) (w\<lparr>tm_runningTask := 0\<rparr>)"
  have none: "timerList (tt_bg ?w) = None" and f: "te_task (tm_entry w (tt_at w 0)) = Some F_SWT_Background"
    using assms by (simp_all add: tt_ready_def)
  have "\<exists>b. SWT_Background run_bg (tt_bg ?w) = Some b \<and> timerList b = None"
    using none by (simp add: SWT_Background_def Let_def bg_loop.simps)
  then obtain b where b: "SWT_Background run_bg (tt_bg ?w) = Some b" "timerList b = None"
    by blast
  have ready: "tt_ready ?w"
    using tt_ready_sched [of "w\<lparr>tm_runningTask := 0\<rparr>" "tt_at w 0" "\<lambda>_. 0"] assms by simp
  then have "tt_ready (?w\<lparr>tt_bg := b\<rparr>)"
    using b(2) by (simp add: tt_ready_def)
  moreover have "start_task (tt_run run_bg) 0 w = Some (?w\<lparr>tt_bg := b\<rparr>)"
    using b f by (simp add: start_task_def tt_run.simps Let_def)
  ultimately show ?thesis
    by (simp add: sched_def)
qed

lemma yield_calm:
  assumes "tt_ready w" "tm_runningTask w = int i" "0 < i" "\<forall>j. 0 < j \<and> j < i \<longrightarrow> \<not> sched w j"
  shows "\<exists>w'. TS_Yield (tt_run run_bg) (Some w) = Some w' \<and> calm w w'"
proof -
  let ?w = "w\<lparr>tm_lowestYielding := int i, tm_runningTask := -1\<rparr>"
  have idle: "TSC_DoTasks (tt_run run_bg) v = Some (v\<lparr>tm_runningTask := int i\<rparr>)"
    if "tm_lowestYielding v = int i" "\<forall>j < i. \<not> sched v j" for v :: tt_world
    using tsc_for_find [OF that(1), of 0 "tt_run run_bg"] that(2)
    by (subst TSC_DoTasks.simps) (simp add: find_None_iff [THEN iffD2])
  have "\<exists>v. TSC_DoTasks (tt_run run_bg) ?w = Some v \<and> tt_ready v \<and> tm_addr v = tm_addr w \<and>
      (\<forall>a. a \<noteq> tt_at w 0 \<longrightarrow> tm_entry v a = tm_entry w a)"
  proof (cases "sched w 0")
    case False
    then have "\<forall>j < i. \<not> sched ?w j"
      using assms(4) by (auto simp: sched_def) (metis gr0I int_ops(1))
    then show ?thesis
      using idle [of ?w] assms(1) by simp
  next
    case True
    obtain v where v: "start_task (tt_run run_bg) 0 ?w = Some v" "tt_ready v" "tm_addr v = tm_addr w"
      "tm_lowestYielding v = int i" "\<not> sched v 0" "\<forall>a. a \<noteq> tt_at w 0 \<longrightarrow> tm_entry v a = tm_entry w a"
      using start_background [of ?w run_bg] assms(1) by auto
    have "find (sched ?w) [0..<i] = Some 0"
      using True assms(3) by (simp add: upt_conv_Cons sched_def)
    then have "TSC_DoTasks (tt_run run_bg) ?w = TSC_DoTasks (tt_run run_bg) v"
      using tsc_for_find [of ?w i 0 "tt_run run_bg"] v(1) by (subst TSC_DoTasks.simps) simp
    moreover have "\<not> sched v j" if "j < i" for j
      using v(3,5,6) that assms(4) by (cases "j = 0") (simp_all add: sched_def tt_at_def)
    ultimately show ?thesis
      using idle [of v] v(2-4,6) by simp
  qed
  then obtain v where v: "TSC_DoTasks (tt_run run_bg) ?w = Some v" "tt_ready v" "tm_addr v = tm_addr w"
      "\<forall>a. a \<noteq> tt_at w 0 \<longrightarrow> tm_entry v a = tm_entry w a"
    by blast
  then have "TS_Yield (tt_run run_bg) (Some w) =
      Some (v\<lparr>tm_runningTask := tm_runningTask w, tm_lowestYielding := tm_lowestYielding w\<rparr>)"
    using assms(2,3) by (simp add: TS_Yield_def TSC_Yield_def)
  then show ?thesis
    using v(2-4) by (simp add: calm_def)
qed

lemma subTask_calm:
  "tt_ready w \<Longrightarrow> tm_runningTask w = int i \<Longrightarrow> 0 < i \<Longrightarrow> \<forall>j. 0 < j \<and> j < i \<longrightarrow> \<not> sched w j \<Longrightarrow>
   \<exists>w'. subTask_loop (\<lambda>w. TS_Yield (tt_run run_bg) (Some w)) k n w = Some w' \<and> calm w w'"
proof (induction k arbitrary: n w)
  case 0
  then show ?case
    by (simp add: calm_refl)
next
  case (Suc k)
  let ?w = "w\<lparr>tt_iter := tt_iter w + 1\<rparr>"
  obtain w1 where w1: "tt_interrupts (tt_irqs w (tt_iter w)) ?w = Some w1" "calm ?w w1"
    using interrupts_calm [of ?w] Suc.prems(1) by auto
  have c1: "calm w w1"
    using w1(2) by (simp add: calm_def)
  have next_calm: "tt_ready v \<and> tm_runningTask v = int i \<and> (\<forall>j. 0 < j \<and> j < i \<longrightarrow> \<not> sched v j)" if "calm w v" for v
    using that Suc.prems(2,4) calm_sched [OF that] by (auto simp: calm_def)
  obtain w2 where w2: "(if n mod 1000 = 0 then TS_Yield (tt_run run_bg) (Some w1) else Some w1) = Some w2" "calm w w2"
    using yield_calm [of w1 i run_bg] next_calm [OF c1] Suc.prems(3) c1 calm_trans by (cases "n mod 1000 = 0") auto
  obtain w3 where "subTask_loop (\<lambda>w. TS_Yield (tt_run run_bg) (Some w)) k (n + 1) w2 = Some w3" "calm w2 w3"
    using Suc.IH [of w2 "n + 1"] next_calm [OF w2(2)] Suc.prems(3) by blast
  then show ?case
    using w1(1) w2 calm_trans [of w w2 w3] by simp
qed

lemma signal_sched:
  assumes "tt_ready w" "i < 5"
  shows "\<exists>u. signal (tt_at w (int i)) w = Some u \<and> tt_ready u \<and> tm_lowestYielding u = tm_lowestYielding w \<and>
    tm_runningTask u = tm_runningTask w \<and> (\<forall>j. j \<noteq> i \<longrightarrow> sched u j = sched w j) \<and> (\<not> sched w i \<longrightarrow> sched u i)"
  using signal_task [OF assms] tt_ready_sched [OF assms(1)]
  by (simp add: sched_def USAT_INC_narrow_add) (simp add: tt_at_def)

text \<open>Task 3 schedules 1, task 1 schedules 2 (and 4), task 2 schedules 3.\<close>

definition tt_next :: "nat \<Rightarrow> nat" where
  "tt_next i = (if i = 3 then 1 else i + 1)"

lemma tt_next_simps [simp]: "tt_next (Suc 0) = 2" "tt_next 2 = 3" "tt_next 3 = 1"
  by (simp_all add: tt_next_def)

text \<open>Of the three tasks just this one is scheduled.\<close>

definition phase :: "nat \<Rightarrow> tt_world \<Rightarrow> bool" where
  "phase i w \<longleftrightarrow> tt_ready w \<and> 0 < i \<and> i < 4 \<and> tm_lowestYielding w = 5 \<and> (\<forall>j. 0 < j \<and> j < 4 \<longrightarrow> (sched w j \<longleftrightarrow> j = i))"

text \<open>A task at work: started, it does its \<open>subTask\<close>, after which it is the running task and none is scheduled.\<close>

definition at_work :: "nat \<Rightarrow> tt_world \<Rightarrow> bool" where
  "at_work i u \<longleftrightarrow> tt_ready u \<and> 0 < i \<and> i < 4 \<and> tm_lowestYielding u = 5 \<and> tm_runningTask u = int i \<and>
     (\<forall>j. 0 < j \<and> j < 4 \<longrightarrow> \<not> sched u j)"

lemma start_work:
  assumes "phase i w" "te_task (tm_entry w (tt_at w (int i))) = Some f"
  obtains u v where "start_task (tt_run run_bg) i w = tt_run run_bg f v" "at_work i u"
    "subTask (\<lambda>w. TS_Yield (tt_run run_bg) (Some w)) k v = Some u"
proof -
  let ?v = "upd_entry (tt_at w (int i)) (\<lambda>e. e\<lparr>te_scheduled := 0\<rparr>) (w\<lparr>tm_runningTask := int i\<rparr>)"
  have i: "0 < i" "i < 4"
    using assms(1) by (simp_all add: phase_def)
  have v: "tt_ready ?v" "tm_runningTask ?v = int i" "tm_lowestYielding ?v = 5"
    using tt_ready_sched [of "w\<lparr>tm_runningTask := int i\<rparr>" _ "\<lambda>_. 0"] assms(1) by (simp_all add: phase_def)
  have off: "\<not> sched ?v j" if "0 < j" "j < 4" for j
    using assms(1) that by (auto simp: phase_def sched_def)
  then have "\<forall>j. 0 < j \<and> j < i \<longrightarrow> \<not> sched ?v j"
    using i(2) by auto
  from subTask_calm [OF v(1,2) i(1) this, of run_bg k 0]
  obtain u where u: "subTask (\<lambda>w. TS_Yield (tt_run run_bg) (Some w)) k ?v = Some u" "calm ?v u"
    by (auto simp: subTask_def)
  then have "at_work i u"
    using v(2,3) off i calm_sched [OF u(2)] by (simp add: at_work_def calm_def)
  then show ?thesis
    using that [of ?v u] u(1) assms(2) by (simp add: start_task_def Let_def)
qed

lemma signal_background:
  assumes "at_work i u"
  obtains u1 where "signal (tt_at u (int 4)) u = Some u1" "at_work i u1"
  using signal_sched [of u 4] assms that by (auto simp: at_work_def)

lemma signal_next:
  assumes "at_work i u"
  obtains u1 where "signal (tt_at u (int (tt_next i))) u = Some u1" "phase (tt_next i) u1" "tm_runningTask u1 = int i"
proof -
  have n: "0 < tt_next i" "tt_next i < 4"
    using assms by (auto simp: at_work_def tt_next_def)
  obtain u1 where u1: "signal (tt_at u (int (tt_next i))) u = Some u1" "tt_ready u1" "tm_lowestYielding u1 = 5"
    "tm_runningTask u1 = int i" "\<forall>j. j \<noteq> tt_next i \<longrightarrow> sched u1 j = sched u j" "sched u1 (tt_next i)"
    using signal_sched [of u "tt_next i"] assms n by (auto simp: at_work_def)
  then have "phase (tt_next i) u1"
    using assms n by (auto simp: phase_def at_work_def)
  with u1 that show ?thesis
    by blast
qed

lemma ready_handles:
  "tt_ready u \<Longrightarrow> task1Task u = tt_at u (int 1) \<and> task2Task u = tt_at u (int 2) \<and> task3Task u = tt_at u (int 3) \<and>
    task4Task u = tt_at u (int 4)"
  by (simp add: tt_ready_def)

lemma start_phase:
  assumes "phase i w"
  shows "\<exists>w'. start_task (tt_run run_bg) i w = Some w' \<and> phase (tt_next i) w' \<and> tm_runningTask w' = int i"
proof -
  have ready: "tt_ready w"
    using assms by (simp add: phase_def)
  consider "i = 1" | "i = 2" | "i = 3"
    using assms by (fastforce simp: phase_def)
  then show ?thesis
  proof cases
    case 1
    have "te_task (tm_entry w (tt_at w (int i))) = Some F_task1"
      using ready 1 by (simp add: tt_ready_def)
    from start_work [OF assms this, of run_bg 3000] obtain u v where w: "start_task (tt_run run_bg) i w = tt_run run_bg F_task1 v"
      "at_work i u" "subTask (\<lambda>w. TS_Yield (tt_run run_bg) (Some w)) 3000 v = Some u" .
    obtain u1 where u1: "signal (tt_at u (int 4)) u = Some u1" "at_work i u1"
      using signal_background [OF w(2)] .
    obtain u2 where u2: "signal (tt_at u1 (int (tt_next i))) u1 = Some u2" "phase (tt_next i) u2" "tm_runningTask u2 = int i"
      using signal_next [OF u1(2)] .
    then show ?thesis
      using 1 w u1 ready_handles [of u] ready_handles [of u1] by (simp add: tt_run.simps task1_def at_work_def)
  next
    case 2
    have "te_task (tm_entry w (tt_at w (int i))) = Some F_task2"
      using ready 2 by (simp add: tt_ready_def)
    from start_work [OF assms this, of run_bg 30000] obtain u v where w: "start_task (tt_run run_bg) i w = tt_run run_bg F_task2 v"
      "at_work i u" "subTask (\<lambda>w. TS_Yield (tt_run run_bg) (Some w)) 30000 v = Some u" .
    then show ?thesis
      using 2 signal_next [OF w(2)] ready_handles [of u] by (auto simp: tt_run.simps task2_def at_work_def)
  next
    case 3
    have "te_task (tm_entry w (tt_at w (int i))) = Some F_task3"
      using ready 3 by (simp add: tt_ready_def)
    from start_work [OF assms this, of run_bg 300000] obtain u v where w: "start_task (tt_run run_bg) i w = tt_run run_bg F_task3 v"
      "at_work i u" "subTask (\<lambda>w. TS_Yield (tt_run run_bg) (Some w)) 300000 v = Some u" .
    then show ?thesis
      using 3 signal_next [OF w(2)] ready_handles [of u] by (auto simp: tt_run.simps task3_def at_work_def)
  qed
qed

section \<open>The main loop\<close>

text \<open>The first \<open>n\<close> passes of the task loop and the tasks they ran; \<open>None\<close> if a pass does not return or finds
  nothing to run.\<close>

primrec tt_passes :: "(nat, unit) bg_runner \<Rightarrow> nat \<Rightarrow> tt_world \<Rightarrow> (nat list \<times> tt_world) option" where
  "tt_passes run_bg 0 w = Some ([], w)"
| "tt_passes run_bg (Suc n) w =
     (case tsc_for (tt_run run_bg) 0 w of
        Some (True, w1) \<Rightarrow> map_option (map_prod ((#) (nat (tm_runningTask w1))) id) (tt_passes run_bg n w1)
      | _ \<Rightarrow> None)"

lemma pass_background:
  assumes "phase i w" "sched w 0"
  shows "\<exists>w'. tsc_for (tt_run run_bg) 0 w = Some (True, w') \<and> phase i w' \<and> \<not> sched w' 0 \<and> tm_runningTask w' = 0"
proof -
  obtain w' where w': "start_task (tt_run run_bg) 0 w = Some w'" "tt_ready w'" "tm_addr w' = tm_addr w"
    "tm_lowestYielding w' = tm_lowestYielding w" "tm_runningTask w' = 0" "\<not> sched w' 0"
    "\<forall>a. a \<noteq> tt_at w 0 \<longrightarrow> tm_entry w' a = tm_entry w a"
    using start_background [of w run_bg] assms(1) unfolding phase_def by blast
  have "find (sched w) [0..<5] = Some 0"
    using assms(2) by (simp add: upt_conv_Cons)
  then have "tsc_for (tt_run run_bg) 0 w = Some (True, w')"
    using tsc_for_find [of w 5 0 "tt_run run_bg"] assms(1) w'(1) by (simp add: phase_def)
  moreover have "phase i w'"
    using assms(1) w'(2-4,7) by (simp add: phase_def sched_def tt_at_def)
  ultimately show ?thesis
    using w'(5,6) by blast
qed

lemma pass_task:
  assumes "phase i w" "\<not> sched w 0"
  shows "\<exists>w'. tsc_for (tt_run run_bg) 0 w = Some (True, w') \<and> phase (tt_next i) w' \<and> tm_runningTask w' = int i"
proof -
  obtain w' where w': "start_task (tt_run run_bg) i w = Some w'" "phase (tt_next i) w'" "tm_runningTask w' = int i"
    using start_phase [OF assms(1)] by blast
  have i: "0 < i" "i < 4" "sched w i"
    using assms by (simp_all add: phase_def)
  have "\<not> sched w j" if "j < i" for j
    using assms that i(2) by (cases "j = 0") (simp_all add: phase_def)
  then have "find (sched w) [0..<5] = Some i"
    using i by (auto simp: find_Some_iff intro: exI [of _ i])
  then show ?thesis
    using tsc_for_find [of w 5 0 "tt_run run_bg"] assms(1) w' by (simp add: phase_def)
qed

text \<open>The cycle of the tasks from \<open>i\<close> on.\<close>

definition tt_cycle :: "nat \<Rightarrow> nat \<Rightarrow> nat list" where
  "tt_cycle i k = map (\<lambda>n. (tt_next ^^ n) i) [0..<k]"

lemma tt_cycle_Suc: "tt_cycle i (Suc k) = i # tt_cycle (tt_next i) k"
proof -
  have "[0..<Suc k] = 0 # map Suc [0..<k]"
    by (simp add: map_Suc_upt upt_conv_Cons del: upt_Suc)
  then show ?thesis
    by (simp add: tt_cycle_def o_def funpow_swap1 del: upt_Suc)
qed

lemma tt_passes_cycle:
  "phase i w \<Longrightarrow> \<exists>rs w' k. tt_passes run_bg n w = Some (rs, w') \<and> filter ((\<noteq>) 0) rs = tt_cycle i k \<and>
     n \<le> 2 * k + (if sched w 0 then 1 else 0) \<and> phase ((tt_next ^^ k) i) w'"
proof (induction n arbitrary: i w)
  case 0
  then show ?case
    by (intro exI [of _ "[]"] exI [of _ w] exI [of _ 0]) (simp add: tt_cycle_def)
next
  case (Suc n)
  show ?case
  proof (cases "sched w 0")
    case True
    obtain w1 where w1: "tsc_for (tt_run run_bg) 0 w = Some (True, w1)" "phase i w1" "\<not> sched w1 0" "tm_runningTask w1 = 0"
      using pass_background [OF Suc.prems True] by blast
    obtain rs w' k where "tt_passes run_bg n w1 = Some (rs, w')" "filter ((\<noteq>) 0) rs = tt_cycle i k"
      "n \<le> 2 * k" "phase ((tt_next ^^ k) i) w'"
      using Suc.IH [OF w1(2)] w1(3) by auto
    then show ?thesis
      using w1(1,4) True by (intro exI [of _ "0 # rs"] exI [of _ w'] exI [of _ k]) simp
  next
    case False
    obtain w1 where w1: "tsc_for (tt_run run_bg) 0 w = Some (True, w1)" "phase (tt_next i) w1" "tm_runningTask w1 = int i"
      using pass_task [OF Suc.prems False] by blast
    obtain rs w' k where "tt_passes run_bg n w1 = Some (rs, w')" "filter ((\<noteq>) 0) rs = tt_cycle (tt_next i) k"
      "n \<le> 2 * k + 1" "phase ((tt_next ^^ k) (tt_next i)) w'"
      using Suc.IH [OF w1(2)] by (auto split: if_splits)
    moreover have "i \<noteq> 0"
      using Suc.prems by (simp add: phase_def)
    ultimately show ?thesis
      using w1(1,3) by (intro exI [of _ "i # rs"] exI [of _ w'] exI [of _ "Suc k"]) (simp add: tt_cycle_Suc funpow_swap1)
  qed
qed

text \<open>So the task loop, and with it the first turn of \<open>while (1)\<close>, never returns.\<close>

lemma tt_main_turn_endless:
  assumes "phase i w"
  shows "tt_main_turn run_bg w = None"
proof -
  have "\<not> phase i w" if "TSC_DoTasks (tt_run run_bg) w = Some y" for i w y
  proof -
    have "g = tt_run run_bg \<longrightarrow> (\<forall>i. \<not> phase i w)" if "TSC_DoTasks g w = Some y" for g
    proof (rule TSC_DoTasks.raw_induct [OF _ that, where P = "\<lambda>g w _. g = tt_run run_bg \<longrightarrow> (\<forall>i. \<not> phase i w)"])
      fix rec g w y
      assume IH: "\<And>g w y. rec g w = Some y \<Longrightarrow> g = tt_run run_bg \<longrightarrow> (\<forall>i. \<not> phase i w)"
        and body: "(case tsc_for g 0 w of None \<Rightarrow> None | Some (again, w') \<Rightarrow> if again then rec g w' else Some w') = Some y"
      show "g = tt_run run_bg \<longrightarrow> (\<forall>i. \<not> phase i w)"
      proof (intro impI allI notI)
        fix i
        assume "g = tt_run run_bg" "phase i w"
        then obtain w' k where "tsc_for g 0 w = Some (True, w')" "phase k w'"
          using pass_background pass_task by metis
        then show False
          using body IH \<open>g = tt_run run_bg\<close> by auto
      qed
    qed
    then show ?thesis
      using that by blast
  qed
  then show ?thesis
    using assms by (cases "TSC_DoTasks (tt_run run_bg) w") (auto simp: tt_main_turn_def TS_Background_def)
qed

section \<open>The set-up\<close>

lemma SWT_start_queue: "pendsvQueue (SWT_start i s) = pendsvQueue s"
  by (simp add: SWT_start_def read_CNT_def write_target_def upd_fast_def Let_def split: option.split)

lemma fast_alloc_queue:
  "pendsvQueue (snd (fast_alloc k i scaler cb ns runs ctx s)) = pendsvQueue s"
proof (induction k arbitrary: i s)
  case (Suc k)
  then show ?case
    by (simp add: Let_def upd_fast_def SWT_start_queue)
qed simp

lemma start_future_phase:
  assumes "phase i w" "\<not> sched w 0"
  shows "\<exists>w'. tt_start_future scaler f ns w = Some w' \<and> phase i w' \<and> \<not> sched w' 0"
proof -
  have "clock_ok w"
    using assms(1) by (simp add: phase_def tt_ready_def)
  then obtain t n where t: "GetTimeuSec w = Some (t, after_reads n w)"
    using clock_returns by blast
  let ?w = "after_reads n w"
  let ?s = "snd (SWT_FastTimerCallback scaler (Some f) ns 256 (sint t) (tt_swt ?w))"
  have q: "pendsvQueue ?s = pendsvQueue (tt_swt w)"
    by (simp add: SWT_FastTimerCallback_def fast_alloc_queue after_reads_def)
  have "tt_ready ?w"
    using assms(1) by (simp add: phase_def)
  then have "tt_ready (?w\<lparr>tt_swt := ?s\<rparr>)"
    using q by (simp add: tt_ready_def) (simp add: after_reads_def)
  moreover have "sched (?w\<lparr>tt_swt := ?s\<rparr>) = sched w" "tm_lowestYielding ?w = tm_lowestYielding w"
    by (simp_all add: sched_def fun_eq_iff) (simp_all add: after_reads_def)
  ultimately show ?thesis
    using t assms by (simp add: tt_start_future_def phase_def)
qed

lemma main_setup_phase:
  assumes "clock_ok w" "timerList (tt_bg w) = None"
  shows "\<exists>w0. main_setup space cbBuf scaler w = Some w0 \<and> phase 3 w0 \<and> \<not> sched w0 0"
proof -
  define w1 where "w1 = (w\<lparr>tt_swt := SWT_FastInit cbBuf (tt_swt w), tm_nextInTable := 0, tm_runningTask := -1,
     tm_lowestYielding := 0, tm_ttLen := 10, tm_addr := space,
     tm_entry := (\<lambda>a. if space \<le> a \<and> a < space + 128 then \<lparr>te_q = None, te_task = None, te_scheduled = 0\<rparr> else tm_entry w a),
     tasksAllowed := 10\<rparr>)"
  have init: "TS_Init space (nat (TS_InitGetSize 10)) (w\<lparr>tt_swt := SWT_FastInit cbBuf (tt_swt w)\<rparr>) =
      (10, Some (w1\<lparr>tasksAllowed := tasksAllowed w\<rparr>))"
    by (simp add: TS_Init_def TSC_Init_def TS_InitGetSize_def TSC_InitGetSize_def w1_def cong: if_cong)
  have q: "v1_next (pendsvQueue (SWT_FastInit cbBuf s)) = v1_last (pendsvQueue (SWT_FastInit cbBuf s))"
    for s :: "(tt_future, unit) swt_state"
    by (simp add: SWT_FastInit_def SWT_MicroSetup_def GenQ_Init_v1_def Let_def)
  define add where "add i f v = (tt_at v i, upd_entry (tt_at v i) (\<lambda>e. e\<lparr>te_task := Some f, te_q := None, te_scheduled := 0\<rparr>)
     (v\<lparr>tm_lowestYielding := i + 1, tm_nextInTable := i + 1\<rparr>))" for i f and v :: tt_world
  have add: "tt_add f v = Some (add i f v)" if "tm_nextInTable v = i" "tm_lowestYielding v = i" "i < uint (tm_ttLen v)" for f v i
    using that by (simp add: tt_add_def TS_AddTask_def TSC_AddTask_def add_def Let_def tt_at_def)
  define v2 where "v2 = (snd (add 0 F_SWT_Background w1))\<lparr>bgTimerTask := space + 8\<rparr>"
  define v3 where "v3 = (snd (add 1 F_task1 v2))\<lparr>task1Task := space + 20\<rparr>"
  define v4 where "v4 = (snd (add 2 F_task2 v3))\<lparr>task2Task := space + 32\<rparr>"
  define v5 where "v5 = (snd (add 3 F_task3 v4))\<lparr>task3Task := space + 44\<rparr>"
  define v6 where "v6 = (snd (add 4 F_task4 v5))\<lparr>task4Task := space + 56\<rparr>"
  note d = v2_def v3_def v4_def v5_def v6_def
  have addr: "tm_addr v2 = space" "tm_addr v3 = space" "tm_addr v4 = space" "tm_addr v5 = space" "tm_addr v6 = space" "tm_addr w1 = space"
    by (simp_all add: d add_def w1_def)
  have len: "tm_ttLen w1 = 10" "tm_ttLen v2 = 10" "tm_ttLen v3 = 10" "tm_ttLen v4 = 10" "tm_ttLen v5 = 10"
    by (simp_all add: d add_def upd_entry_def w1_def)
  have cnt: "tm_nextInTable w1 = 0" "tm_nextInTable v2 = 1" "tm_nextInTable v3 = 2" "tm_nextInTable v4 = 3" "tm_nextInTable v5 = 4"
      "tm_nextInTable v6 = 5" "tm_lowestYielding w1 = 0" "tm_lowestYielding v2 = 1" "tm_lowestYielding v3 = 2"
      "tm_lowestYielding v4 = 3" "tm_lowestYielding v5 = 4" "tm_lowestYielding v6 = 5"
    by (simp_all add: d add_def w1_def)
  have fst_add: "fst (add i f v) = tm_addr v + 8 + 12 * i" for i f v
    by (simp add: add_def tt_at_def)
  have steps: "tt_add F_SWT_Background w1 = Some (space + 8, snd (add 0 F_SWT_Background w1))"
      "tt_add F_task1 v2 = Some (space + 20, snd (add 1 F_task1 v2))" "tt_add F_task2 v3 = Some (space + 32, snd (add 2 F_task2 v3))"
      "tt_add F_task3 v4 = Some (space + 44, snd (add 3 F_task3 v4))" "tt_add F_task4 v5 = Some (space + 56, snd (add 4 F_task4 v5))"
    using add [of w1 0] add [of v2 1] add [of v3 2] add [of v4 3] add [of v5 4]
    by (simp_all add: cnt len prod_eq_iff fst_add addr)
  have entries: "te_task (tm_entry v6 (space + 8)) = Some F_SWT_Background" "te_task (tm_entry v6 (space + 20)) = Some F_task1"
      "te_task (tm_entry v6 (space + 32)) = Some F_task2" "te_task (tm_entry v6 (space + 44)) = Some F_task3"
      "te_task (tm_entry v6 (space + 56)) = Some F_task4"
    by (simp_all add: d add_def tt_at_def w1_def)
  have off: "te_scheduled (tm_entry v6 (space + 8 + 12 * int j)) = 0" if "j < 5" for j
    using that by (simp add: d add_def tt_at_def w1_def)
  have handles: "bgTimerTask v6 = space + 8" "task1Task v6 = space + 20" "task2Task v6 = space + 32" "task3Task v6 = space + 44"
      "task4Task v6 = space + 56" "tt_tim3 v6 = tt_tim3 w" "tt_bg v6 = tt_bg w" "tt_swt v6 = SWT_FastInit cbBuf (tt_swt w)"
    by (simp_all add: d add_def upd_entry_def w1_def)
  have at: "tt_at v6 0 = space + 8" "tt_at v6 1 = space + 20" "tt_at v6 2 = space + 32" "tt_at v6 3 = space + 44" "tt_at v6 4 = space + 56"
    by (simp_all add: tt_at_def addr)
  have ready: "tt_ready v6"
    using assms handles entries q by (simp add: tt_ready_def at cnt clock_ok_def steady_def)
  obtain w7 where w7: "signal (tt_at v6 (int 3)) v6 = Some w7" "tt_ready w7" "tm_lowestYielding w7 = 5"
     "\<forall>j. j \<noteq> 3 \<longrightarrow> sched w7 j = sched v6 j" "\<not> sched v6 3 \<longrightarrow> sched w7 3"
    using signal_sched [OF ready, of 3] cnt by auto
  have "\<not> sched v6 j" if "j < 5" for j
    using off [OF that] by (simp add: sched_def tt_at_def addr)
  then have p7: "phase 3 w7" "\<not> sched w7 0"
    using w7(2-5) by (auto simp: phase_def)
  obtain w8 where w8: "tt_start_future scaler F_futureTest2000 2000000 w7 = Some w8" "phase 3 w8" "\<not> sched w8 0"
    using start_future_phase [OF p7] by blast
  obtain w9 where w9: "tt_start_future scaler F_futureTest200 200000 w8 = Some w9" "phase 3 w9" "\<not> sched w9 0"
    using start_future_phase [OF w8(2,3)] by blast
  obtain wa where wa: "tt_start_future scaler F_futureTest20 20000 w9 = Some wa" "phase 3 wa" "\<not> sched wa 0"
    using start_future_phase [OF w9(2,3)] by blast
  obtain wb where wb: "tt_start_future scaler F_futureTest2 2000 wa = Some wb" "phase 3 wb" "\<not> sched wb 0"
    using start_future_phase [OF wa(2,3)] by blast
  have "task3Task (snd (add 4 F_task4 v5)) = tt_at v6 (int 3)"
    using at(4) by (simp add: v5_def add_def)
  moreover have "w1\<lparr>tasksAllowed := 10\<rparr> = w1"
    by (simp add: w1_def)
  ultimately have "main_setup space cbBuf scaler w = Some wb"
    unfolding main_setup_def init
    using steps w7(1) w8(1) w9(1) wa(1) wb(1)
    by (simp add: v2_def [symmetric] v3_def [symmetric] v4_def [symmetric] v5_def [symmetric] v6_def [symmetric])
  then show ?thesis
    using wb(2,3) by blast
qed

section \<open>Properties\<close>



end
