(* ===== verification/StartUp.thy ===== *)
theory StartUp
  imports HalTim TimerTest
begin

text \<open>
  The start of the timer test on the hardware: \<^verbatim>\<open>SystemClock_Config\<close>, \<^verbatim>\<open>MX_NVIC_Init\<close>, the error handler and the first half of
  \<^verbatim>\<open>main\<close> (\<^verbatim>\<open>main.c\<close>), \<^verbatim>\<open>stm32f3xx_hal_msp.c\<close>, \<^verbatim>\<open>tim.c\<close>, all of \<^verbatim>\<open>src/swtimertest/Src\<close>, on the registers of
  \<open>Stm32Core\<close>, \<open>Stm32Io\<close> and \<open>HalTim\<close>. What it leaves behind is joined with the application in \<open>TimerTest\<close>: the priorities of
  its interrupts and the unit of its clock. \<open>None\<close> as result is a start-up that hangs.
\<close>

type_synonym 'z board = "(tt_tim, 'z) stm32_tim_scheme"

section \<open>Errors\<close>

text \<open>\<open>_Error_Handler\<close> is an endless loop; a driver call that does not answer \<open>HAL_OK\<close> ends there.\<close>

definition Error_Handler :: "'s \<Rightarrow> 's option" where
  "Error_Handler s = None"

definition check_ok :: "(HAL_StatusTypeDef \<times> 's) option \<Rightarrow> 's option" where
  "check_ok r = Option.bind r (\<lambda>(st, s). if st \<noteq> HAL_OK then Error_Handler s else Some s)"

section \<open>Initialisation of the driver (stm32f3xx\_hal.c, stm32f3xx\_hal\_msp.c)\<close>

definition HAL_MspInit :: "'z stm32_scheme \<Rightarrow> 'z stm32_scheme" where
  "HAL_MspInit s =
     (let s0 = s\<lparr>RCC := (RCC s)\<lparr>rcc_APB2ENR := SET_BIT (rcc_APB2ENR (RCC s)) 1\<rparr>\<rparr>;
          s1 = HAL_NVIC_SetPriorityGrouping NVIC_PRIORITYGROUP_2 s0;
          s2 = HAL_NVIC_SetPriority MemoryManagement_IRQn 0 0 s1;
          s3 = HAL_NVIC_SetPriority BusFault_IRQn 0 0 s2;
          s4 = HAL_NVIC_SetPriority UsageFault_IRQn 0 0 s3;
          s5 = HAL_NVIC_SetPriority SVCall_IRQn 0 0 s4;
          s6 = HAL_NVIC_SetPriority DebugMonitor_IRQn 0 0 s5;
          s7 = HAL_NVIC_SetPriority PendSV_IRQn 3 3 s6
      in HAL_NVIC_SetPriority SysTick_IRQn 0 0 s7)"

abbreviation (input) TICK_INT_PRIORITY :: u32 where "TICK_INT_PRIORITY \<equiv> 0"

definition HAL_Init :: "'z stm32_scheme \<Rightarrow> HAL_StatusTypeDef \<times> 'z stm32_scheme" where
  "HAL_Init s =
     (let s1 = s\<lparr>FLASH := (FLASH s)\<lparr>fl_ACR := fl_ACR (FLASH s) OR FLASH_ACR_PRFTBE\<rparr>\<rparr>;
          s2 = HAL_NVIC_SetPriorityGrouping NVIC_PRIORITYGROUP_4 s1
      in (HAL_OK, HAL_MspInit (HAL_InitTick TICK_INT_PRIORITY s2)))"

section \<open>The clocks (main.c)\<close>

definition clock_switched :: "'z stm32_scheme \<Rightarrow> 'z stm32_scheme" where
  "clock_switched s5 =
     (let s6 = LL_Init1msTick 64000000 s5;
          s7 = LL_SYSTICK_SetClkSource SYSTICK_CLKSOURCE_HCLK s6;
          s8 = LL_SetSystemCoreClock 64000000 s7
      in NVIC_SetPriority SysTick_IRQn (NVIC_EncodePriority (NVIC_GetPriorityGrouping s8) 0 0) s8)"

definition SystemClock_Config :: "'z stm32_scheme \<Rightarrow> 'z stm32_scheme option" where
  "SystemClock_Config s =
     (let (latency, s1) = LL_FLASH_GetLatency (LL_FLASH_SetLatency LL_FLASH_LATENCY_2 s) in
      Option.bind (if latency \<noteq> LL_FLASH_LATENCY_2 then Error_Handler s1 else Some s1) (\<lambda>s2.
      Option.bind (wait_until LL_RCC_HSI_IsReady 1 (LL_RCC_HSI_Enable s2)) (\<lambda>s3.
      Option.bind (wait_until LL_RCC_PLL_IsReady 1
        (LL_RCC_PLL_Enable (LL_RCC_PLL_ConfigDomain_SYS LL_RCC_PLLSOURCE_HSI_DIV_2 LL_RCC_PLL_MUL_16
          (LL_RCC_HSI_SetCalibTrimming 16 s3)))) (\<lambda>s4.
      map_option clock_switched (wait_until LL_RCC_GetSysClkSource RCC_CFGR_SWS_PLL
        (LL_RCC_SetSysClkSource LL_RCC_SYS_CLKSOURCE_PLL (LL_RCC_SetAPB2Prescaler LL_RCC_APB1_DIV_1
          (LL_RCC_SetAPB1Prescaler LL_RCC_APB1_DIV_2 (LL_RCC_SetAHBPrescaler LL_RCC_SYSCLK_DIV_1 s4)))))))))"

definition MX_NVIC_Init :: "'z stm32_scheme \<Rightarrow> 'z stm32_scheme" where
  "MX_NVIC_Init s =
     (let s1 = HAL_NVIC_SetPriority TIM7_DAC2_IRQn 1 2 s;
          s2 = HAL_NVIC_EnableIRQ TIM7_DAC2_IRQn s1;
          s3 = HAL_NVIC_SetPriority TIM3_IRQn 1 1 s2
      in HAL_NVIC_EnableIRQ TIM3_IRQn s3)"

section \<open>The timers (tim.c)\<close>

abbreviation (input) TIM_COUNTERMODE_UP :: u32 where "TIM_COUNTERMODE_UP \<equiv> 0"
abbreviation (input) TIM_CLOCKDIVISION_DIV1 :: u32 where "TIM_CLOCKDIVISION_DIV1 \<equiv> 0"
abbreviation (input) TIM_AUTORELOAD_PRELOAD_DISABLE :: u32 where "TIM_AUTORELOAD_PRELOAD_DISABLE \<equiv> 0"
abbreviation (input) TIM_TRGO_RESET :: u32 where "TIM_TRGO_RESET \<equiv> 0"
abbreviation (input) TIM_MASTERSLAVEMODE_ENABLE :: u32 where "TIM_MASTERSLAVEMODE_ENABLE \<equiv> 0x80"
abbreviation (input) TIM_MASTERSLAVEMODE_DISABLE :: u32 where "TIM_MASTERSLAVEMODE_DISABLE \<equiv> 0"

text \<open>
  The configuration structures are local variables of which only some members are set; the arguments are what the others
  happen to hold.
\<close>

definition MX_TIM3_Init ::
    "TIM_ClockConfigTypeDef \<Rightarrow> TIM_MasterConfigTypeDef \<Rightarrow> TIM_OC_InitTypeDef \<Rightarrow> 'z board \<Rightarrow> 'z board option" where
  "MX_TIM3_Init clk mst oc s =
     (let s0 = upd_h htim3 (\<lambda>x. x\<lparr>th_Instance := Some TIM3,
            th_Init := (th_Init x)\<lparr>ti_Prescaler := 15, ti_CounterMode := TIM_COUNTERMODE_UP, ti_Period := 0xffff,
              ti_ClockDivision := TIM_CLOCKDIVISION_DIV1, ti_AutoReloadPreload := TIM_AUTORELOAD_PRELOAD_DISABLE\<rparr>\<rparr>) s;
          clk' = clk\<lparr>tc_ClockSource := TIM_CLOCKSOURCE_INTERNAL\<rparr>;
          mst' = mst\<lparr>mc_MasterOutputTrigger := TIM_TRGO_RESET, mc_MasterSlaveMode := TIM_MASTERSLAVEMODE_ENABLE\<rparr>;
          oc' = oc\<lparr>oc_OCMode := 0, oc_Pulse := 0, oc_OCPolarity := 0, oc_OCFastMode := 0\<rparr>
      in
      Option.bind (check_ok (HAL_TIM_Base_Init (Some htim3) s0)) (\<lambda>s1.
      Option.bind (check_ok (HAL_TIM_ConfigClockSource htim3 clk' s1)) (\<lambda>s2.
      Option.bind (check_ok (HAL_TIM_OC_Init (Some htim3) s2)) (\<lambda>s3.
      Option.bind (check_ok (HAL_TIMEx_MasterConfigSynchronization htim3 mst' s3)) (\<lambda>s4.
      Option.bind (check_ok (HAL_TIM_OC_ConfigChannel htim3 oc' TIM_CHANNEL_1 s4)) (\<lambda>s5.
      Option.bind (check_ok (HAL_TIM_OC_ConfigChannel htim3 oc' TIM_CHANNEL_2 s5)) (\<lambda>s6.
      Option.bind (check_ok (HAL_TIM_OC_ConfigChannel htim3 oc' TIM_CHANNEL_3 s6)) (\<lambda>s7.
      check_ok (HAL_TIM_OC_ConfigChannel htim3 oc' TIM_CHANNEL_4 s7)))))))))"

definition MX_TIM7_Init :: "TIM_MasterConfigTypeDef \<Rightarrow> 'z board \<Rightarrow> 'z board option" where
  "MX_TIM7_Init mst s =
     (let s0 = upd_h htim7 (\<lambda>x. x\<lparr>th_Instance := Some TIM7,
            th_Init := (th_Init x)\<lparr>ti_Prescaler := 63, ti_CounterMode := TIM_COUNTERMODE_UP, ti_Period := 65535,
              ti_AutoReloadPreload := TIM_AUTORELOAD_PRELOAD_DISABLE\<rparr>\<rparr>) s;
          mst' = mst\<lparr>mc_MasterOutputTrigger := TIM_TRGO_RESET, mc_MasterSlaveMode := TIM_MASTERSLAVEMODE_DISABLE\<rparr>
      in
      Option.bind (check_ok (HAL_TIM_Base_Init (Some htim7) s0)) (\<lambda>s1.
      check_ok (HAL_TIMEx_MasterConfigSynchronization htim7 mst' s1)))"

text \<open>\<open>main\<close> up to the initialisation of the application; the results of the two starts are ignored.\<close>

definition board_setup ::
    "TIM_ClockConfigTypeDef \<Rightarrow> TIM_MasterConfigTypeDef \<Rightarrow> TIM_OC_InitTypeDef \<Rightarrow> TIM_MasterConfigTypeDef \<Rightarrow>
     'z board \<Rightarrow> 'z board option" where
  "board_setup clk mst oc mst7 s =
     Option.bind (SystemClock_Config (snd (HAL_Init s))) (\<lambda>s1.
     Option.bind (MX_TIM7_Init mst7 (MX_GPIO_Init s1)) (\<lambda>s2.
     Option.bind (MX_TIM3_Init clk mst oc (MX_CRC_Init s2)) (\<lambda>s3.
     Option.bind (HAL_TIM_Base_Start_IT htim3 (HAL_ResumeTick (MX_NVIC_Init s3))) (\<lambda>(_, s4).
     map_option snd (HAL_TIM_Base_Start_IT htim7 s4)))))"

section \<open>The clock tree is set up\<close>

abbreviation (input) hsi_up :: "hw_reading \<Rightarrow> bool" where "hsi_up h \<equiv> READ_BIT (rd_CR h) RCC_CR_HSIRDY = RCC_CR_HSIRDY"
abbreviation (input) pll_up :: "hw_reading \<Rightarrow> bool" where "pll_up h \<equiv> READ_BIT (rd_CR h) RCC_CR_PLLRDY = RCC_CR_PLLRDY"
abbreviation (input) on_pll :: "hw_reading \<Rightarrow> bool" where "on_pll h \<equiv> READ_BIT (rd_CFGR h) RCC_CFGR_SWS = RCC_CFGR_SWS_PLL"

lemma ready_reads:
  "LL_FLASH_GetLatency s = (READ_BIT (rd_ACR (hw_status s (hw_polls s))) FLASH_ACR_LATENCY, hw_polled (Suc (hw_polls s)) s)"
  "LL_RCC_HSI_IsReady s = ((\<lambda>h. if hsi_up h then 1 else 0) (hw_status s (hw_polls s)), hw_polled (Suc (hw_polls s)) s)"
  "LL_RCC_PLL_IsReady s = ((\<lambda>h. if pll_up h then 1 else 0) (hw_status s (hw_polls s)), hw_polled (Suc (hw_polls s)) s)"
  "LL_RCC_GetSysClkSource s = ((\<lambda>h. READ_BIT (rd_CFGR h) RCC_CFGR_SWS) (hw_status s (hw_polls s)), hw_polled (Suc (hw_polls s)) s)"
  by (simp_all add: LL_FLASH_GetLatency_def LL_RCC_HSI_IsReady_def LL_RCC_PLL_IsReady_def LL_RCC_GetSysClkSource_def hw_read_polled)

lemmas wait_until_exs = wait_until_Some [OF ready_reads(2)] wait_until_Some [OF ready_reads(3)] wait_until_Some [OF ready_reads(4)]

lemma setters_hw [simp]:
  "hw_status (set_CR v s) = hw_status s" "hw_polls (set_CR v s) = hw_polls s"
  "hw_status (set_CFGR v s) = hw_status s" "hw_polls (set_CFGR v s) = hw_polls s"
  "hw_status (LL_FLASH_SetLatency l s) = hw_status s" "hw_polls (LL_FLASH_SetLatency l s) = hw_polls s"
  "hw_status (LL_RCC_PLL_ConfigDomain_SYS a b s) = hw_status s" "hw_polls (LL_RCC_PLL_ConfigDomain_SYS a b s) = hw_polls s"
  by (simp_all add: set_CR_def set_CFGR_def LL_FLASH_SetLatency_def LL_RCC_PLL_ConfigDomain_SYS_def Let_def)

lemmas rcc_defs = LL_RCC_HSI_Enable_def LL_RCC_HSI_SetCalibTrimming_def LL_RCC_PLL_Enable_def
  LL_RCC_SetAHBPrescaler_def LL_RCC_SetAPB1Prescaler_def LL_RCC_SetAPB2Prescaler_def LL_RCC_SetSysClkSource_def

text \<open>What is written once the latency is accepted; \<open>k\<close> is the number of readings at the end.\<close>

definition clocks_set :: "nat \<Rightarrow> 'z stm32_scheme \<Rightarrow> 'z stm32_scheme" where
  "clocks_set k s =
     (let s3 = LL_RCC_HSI_Enable (LL_FLASH_SetLatency LL_FLASH_LATENCY_2 s);
          s4 = LL_RCC_PLL_Enable (LL_RCC_PLL_ConfigDomain_SYS LL_RCC_PLLSOURCE_HSI_DIV_2 LL_RCC_PLL_MUL_16
                 (LL_RCC_HSI_SetCalibTrimming 16 s3));
          s5 = hw_polled k (LL_RCC_SetSysClkSource LL_RCC_SYS_CLKSOURCE_PLL (LL_RCC_SetAPB2Prescaler LL_RCC_APB1_DIV_1
                 (LL_RCC_SetAPB1Prescaler LL_RCC_APB1_DIV_2 (LL_RCC_SetAHBPrescaler LL_RCC_SYSCLK_DIV_1 s4))))
      in clock_switched s5)"

lemma polled_commute:
  "LL_FLASH_SetLatency a (hw_polled k s) = hw_polled k (LL_FLASH_SetLatency a s)"
  "set_CR v (hw_polled k s) = hw_polled k (set_CR v s)"
  "set_CFGR v (hw_polled k s) = hw_polled k (set_CFGR v s)"
  "LL_RCC_PLL_ConfigDomain_SYS a b (hw_polled k s) = hw_polled k (LL_RCC_PLL_ConfigDomain_SYS a b s)"
  by (simp_all add: hw_polled_def LL_FLASH_SetLatency_def set_CR_def set_CFGR_def LL_RCC_PLL_ConfigDomain_SYS_def Let_def)

lemma SystemClock_Config_Some:
  assumes "SystemClock_Config s = Some s'"
  obtains i j k where "READ_BIT (rd_ACR (hw_status s (hw_polls s))) FLASH_ACR_LATENCY = LL_FLASH_LATENCY_2"
    "hw_polls s < i" "i < j" "j < k" "hsi_up (hw_status s i)" "pll_up (hw_status s j)" "on_pll (hw_status s k)"
    "s' = clocks_set (Suc k) s"
proof -
  let ?s2 = "hw_polled (Suc (hw_polls s)) (LL_FLASH_SetLatency LL_FLASH_LATENCY_2 s)"
  have l: "READ_BIT (rd_ACR (hw_status s (hw_polls s))) FLASH_ACR_LATENCY = LL_FLASH_LATENCY_2"
  proof (rule ccontr)
    assume "\<not> ?thesis"
    then have "SystemClock_Config s = None"
      by (simp only: SystemClock_Config_def ready_reads(1) setters_hw Let_def prod.case Error_Handler_def if_True simp_thms Option.bind.simps)
    then show False using assms by simp
  qed
  have "\<exists>s3. wait_until LL_RCC_HSI_IsReady 1 (LL_RCC_HSI_Enable ?s2) = Some s3 \<and>
      (\<exists>s4. wait_until LL_RCC_PLL_IsReady 1 (LL_RCC_PLL_Enable (LL_RCC_PLL_ConfigDomain_SYS LL_RCC_PLLSOURCE_HSI_DIV_2 LL_RCC_PLL_MUL_16
          (LL_RCC_HSI_SetCalibTrimming 16 s3))) = Some s4 \<and>
      (\<exists>s5. wait_until LL_RCC_GetSysClkSource RCC_CFGR_SWS_PLL (LL_RCC_SetSysClkSource LL_RCC_SYS_CLKSOURCE_PLL
          (LL_RCC_SetAPB2Prescaler LL_RCC_APB1_DIV_1 (LL_RCC_SetAPB1Prescaler LL_RCC_APB1_DIV_2
          (LL_RCC_SetAHBPrescaler LL_RCC_SYSCLK_DIV_1 s4)))) = Some s5 \<and> clock_switched s5 = s'))"
    using assms unfolding SystemClock_Config_def ready_reads(1) setters_hw l Let_def prod.case
    by (simp only: simp_thms if_False Option.bind.simps bind_eq_Some_conv map_option_eq_Some)
  then obtain s3 s4 s5 where w:
      "wait_until LL_RCC_HSI_IsReady 1 (LL_RCC_HSI_Enable ?s2) = Some s3"
      "wait_until LL_RCC_PLL_IsReady 1 (LL_RCC_PLL_Enable (LL_RCC_PLL_ConfigDomain_SYS LL_RCC_PLLSOURCE_HSI_DIV_2 LL_RCC_PLL_MUL_16
          (LL_RCC_HSI_SetCalibTrimming 16 s3))) = Some s4"
      "wait_until LL_RCC_GetSysClkSource RCC_CFGR_SWS_PLL (LL_RCC_SetSysClkSource LL_RCC_SYS_CLKSOURCE_PLL
          (LL_RCC_SetAPB2Prescaler LL_RCC_APB1_DIV_1 (LL_RCC_SetAPB1Prescaler LL_RCC_APB1_DIV_2
          (LL_RCC_SetAHBPrescaler LL_RCC_SYSCLK_DIV_1 s4)))) = Some s5"
      "s' = clock_switched s5"
    by blast
  from wait_until_exs(1) [OF w(1)] obtain i where
    i: "Suc (hw_polls s) \<le> i" "hsi_up (hw_status s i)" "s3 = hw_polled (Suc i) (LL_RCC_HSI_Enable ?s2)"
    by (auto simp: rcc_defs split: if_splits)
  from wait_until_exs(2) [OF w(2)] obtain j where
    j: "Suc i \<le> j" "pll_up (hw_status s j)" "s4 = hw_polled (Suc j) (LL_RCC_PLL_Enable (LL_RCC_PLL_ConfigDomain_SYS
      LL_RCC_PLLSOURCE_HSI_DIV_2 LL_RCC_PLL_MUL_16 (LL_RCC_HSI_SetCalibTrimming 16 s3)))"
    by (auto simp: rcc_defs i(3) split: if_splits)
  from wait_until_exs(3) [OF w(3)] obtain k where
    k: "Suc j \<le> k" "on_pll (hw_status s k)" "s5 = hw_polled (Suc k) (LL_RCC_SetSysClkSource LL_RCC_SYS_CLKSOURCE_PLL
          (LL_RCC_SetAPB2Prescaler LL_RCC_APB1_DIV_1 (LL_RCC_SetAPB1Prescaler LL_RCC_APB1_DIV_2
          (LL_RCC_SetAHBPrescaler LL_RCC_SYSCLK_DIV_1 s4))))"
    by (auto simp: rcc_defs i(3) j(3))
  have "s' = clocks_set (Suc k) s"
    by (simp add: w(4) k(3) j(3) i(3) clocks_set_def Let_def rcc_defs polled_commute)
  then show thesis using that [of i j k] l i j k by simp
qed

lemma SystemClock_Config_returns:
  assumes "READ_BIT (rd_ACR (hw_status s (hw_polls s))) FLASH_ACR_LATENCY = LL_FLASH_LATENCY_2"
    "hw_polls s < i" "i < j" "j < k" "hsi_up (hw_status s i)" "pll_up (hw_status s j)" "on_pll (hw_status s k)"
  shows "SystemClock_Config s \<noteq> None"
proof -
  let ?s2 = "hw_polled (Suc (hw_polls s)) (LL_FLASH_SetLatency LL_FLASH_LATENCY_2 s)"
  have "\<exists>i'\<le>i. wait_until LL_RCC_HSI_IsReady 1 (LL_RCC_HSI_Enable ?s2) = Some (hw_polled (Suc i') (LL_RCC_HSI_Enable ?s2))"
    by (rule wait_until_returns [OF ready_reads(2)]) (use assms in \<open>auto simp: rcc_defs\<close>)
  then obtain i' where i: "i' \<le> i" "wait_until LL_RCC_HSI_IsReady 1 (LL_RCC_HSI_Enable ?s2) =
      Some (hw_polled (Suc i') (LL_RCC_HSI_Enable ?s2))" by blast
  let ?s3 = "LL_RCC_PLL_Enable (LL_RCC_PLL_ConfigDomain_SYS LL_RCC_PLLSOURCE_HSI_DIV_2 LL_RCC_PLL_MUL_16
      (LL_RCC_HSI_SetCalibTrimming 16 (hw_polled (Suc i') (LL_RCC_HSI_Enable ?s2))))"
  have "\<exists>j'\<le>j. wait_until LL_RCC_PLL_IsReady 1 ?s3 = Some (hw_polled (Suc j') ?s3)"
    by (rule wait_until_returns [OF ready_reads(3)]) (use assms i(1) in \<open>auto simp: rcc_defs\<close>)
  then obtain j' where j: "j' \<le> j" "wait_until LL_RCC_PLL_IsReady 1 ?s3 = Some (hw_polled (Suc j') ?s3)" by blast
  let ?s4 = "LL_RCC_SetSysClkSource LL_RCC_SYS_CLKSOURCE_PLL (LL_RCC_SetAPB2Prescaler LL_RCC_APB1_DIV_1
      (LL_RCC_SetAPB1Prescaler LL_RCC_APB1_DIV_2 (LL_RCC_SetAHBPrescaler LL_RCC_SYSCLK_DIV_1 (hw_polled (Suc j') ?s3))))"
  have "\<exists>k'\<le>k. wait_until LL_RCC_GetSysClkSource RCC_CFGR_SWS_PLL ?s4 = Some (hw_polled (Suc k') ?s4)"
    by (rule wait_until_returns [OF ready_reads(4)]) (use assms j(1) in \<open>auto simp: rcc_defs\<close>)
  then obtain k' where k: "wait_until LL_RCC_GetSysClkSource RCC_CFGR_SWS_PLL ?s4 = Some (hw_polled (Suc k') ?s4)" by blast
  show ?thesis
    unfolding SystemClock_Config_def ready_reads(1) setters_hw Let_def prod.case
    by (simp only: assms(1) simp_thms if_False Option.bind.simps i(2) j(2) k option.map) simp
qed

lemmas clocks_set_defs = clocks_set_def clock_switched_def Let_def rcc_defs polled_commute
  LL_RCC_PLL_ConfigDomain_SYS_def LL_SetSystemCoreClock_def LL_SYSTICK_SetClkSource_def LL_Init1msTick_def LL_InitTick_def
  NVIC_SetPriority_def set_CFGR_def set_CR_def set_CTRL_def write_VAL_def LL_FLASH_SetLatency_def hw_polled_def

lemma clocks_set_fields [simp]:
  "SystemCoreClock (clocks_set k s) = 64000000"
  "st_LOAD (SysTick (clocks_set k s)) = 63999"
  "st_CTRL (SysTick (clocks_set k s)) = SysTick_CTRL_CLKSOURCE OR SysTick_CTRL_ENABLE"
  "scb_AIRCR (SCB (clocks_set k s)) = scb_AIRCR (SCB s)"
  "hw_polls (clocks_set k s) = k" "hw_status (clocks_set k s) = hw_status s"
  by (simp_all add: clocks_set_defs SET_BIT_def)

lemma clocks_set_CFGR [simp]:
  "READ_BIT (rcc_CFGR (RCC (clocks_set k s))) RCC_CFGR_PPRE1 = LL_RCC_APB1_DIV_2"
  "READ_BIT (rcc_CFGR (RCC (clocks_set k s))) RCC_CFGR_PPRE2 = 0"
  "READ_BIT (rcc_CFGR (RCC (clocks_set k s))) RCC_CFGR_HPRE = 0"
  "READ_BIT (rcc_CFGR (RCC (clocks_set k s))) RCC_CFGR_PLLMUL = LL_RCC_PLL_MUL_16"
  "READ_BIT (rcc_CFGR (RCC (clocks_set k s))) RCC_CFGR_PLLSRC = LL_RCC_PLLSOURCE_HSI_DIV_2"
  "READ_BIT (rcc_CFGR (RCC (clocks_set k s))) RCC_CFGR_SW = LL_RCC_SYS_CLKSOURCE_PLL"
  by (simp_all add: clocks_set_defs reg_simps) (simp_all add: READ_BIT_def)

lemma encode_0 [simp]: "NVIC_EncodePriority g 0 0 = 0"
  by (simp add: NVIC_EncodePriority_def)

lemma NVIC_GetPriority_cong: "SCB s = SCB t \<Longrightarrow> NVIC s = NVIC t \<Longrightarrow> NVIC_GetPriority i s = NVIC_GetPriority i t"
  by (simp add: NVIC_GetPriority_def Let_def)

lemma clock_switched_core:
  "\<exists>u. clock_switched s = NVIC_SetPriority SysTick_IRQn 0 u \<and> SCB u = SCB s \<and> NVIC u = NVIC s"
  unfolding clock_switched_def Let_def encode_0
  by (intro exI conjI, rule refl)
    (simp_all add: LL_SetSystemCoreClock_def LL_SYSTICK_SetClkSource_def LL_Init1msTick_def LL_InitTick_def Let_def set_CTRL_def write_VAL_def)

lemma clocks_set_core:
  "\<exists>u. clocks_set k s = NVIC_SetPriority SysTick_IRQn 0 u \<and> SCB u = SCB s \<and> NVIC u = NVIC s"
  unfolding clocks_set_def Let_def
  by (rule exE [OF clock_switched_core], rule exI, elim conjE, intro conjI, assumption)
    (simp_all add: rcc_defs LL_RCC_PLL_ConfigDomain_SYS_def LL_FLASH_SetLatency_def Let_def set_CR_def set_CFGR_def)

lemma clocks_set_priority:
  "-12 \<le> i \<Longrightarrow> i < 240 \<Longrightarrow> i \<noteq> SysTick_IRQn \<Longrightarrow> NVIC_GetPriority i (clocks_set k s) = NVIC_GetPriority i s"
  "NVIC_GetPriority SysTick_IRQn (clocks_set k s) = 0"
proof -
  obtain u where u: "clocks_set k s = NVIC_SetPriority SysTick_IRQn 0 u" "SCB u = SCB s" "NVIC u = NVIC s"
    using clocks_set_core by blast
  show "NVIC_GetPriority SysTick_IRQn (clocks_set k s) = 0"
    unfolding u(1) NVIC_GetPriority_Set by simp
  assume "-12 \<le> i" "i < 240" "i \<noteq> SysTick_IRQn"
  then have "NVIC_GetPriority i (clocks_set k s) = NVIC_GetPriority i u"
    unfolding u(1) by (intro NVIC_GetPriority_Set_other) auto
  then show "NVIC_GetPriority i (clocks_set k s) = NVIC_GetPriority i s"
    using NVIC_GetPriority_cong [OF u(2,3)] by simp
qed

section \<open>The timers are set up\<close>

text \<open>The driver, called for handle \<open>h\<close>, changes its timer \<open>i\<close>, the handle and the clock gates.\<close>

definition only_timer :: "tt_tim \<Rightarrow> TIM_Inst \<Rightarrow> 'z board \<Rightarrow> 'z board \<Rightarrow> bool" where
  "only_timer h i s t \<longleftrightarrow> (\<exists>x y en. t = s\<lparr>TIMx := (TIMx s)(i := x), tim_handle := (tim_handle s)(h := y),
     RCC := (RCC s)\<lparr>rcc_APB1ENR := en\<rparr>\<rparr>)"

lemma only_timerI:
  "t = s\<lparr>TIMx := (TIMx s)(i := x), tim_handle := (tim_handle s)(h := y)\<rparr> \<Longrightarrow> only_timer h i s t"
  unfolding only_timer_def by (intro exI [of _ x] exI [of _ y] exI [of _ "rcc_APB1ENR (RCC s)"]) simp

lemma only_timer_trans: "only_timer h i s t \<Longrightarrow> only_timer h i t u \<Longrightarrow> only_timer h i s u"
  unfolding only_timer_def by (elim exE) force

lemma only_timerD:
  assumes "only_timer h i s t"
  shows "SCB t = SCB s" "NVIC t = NVIC s" "SysTick t = SysTick s" "SystemCoreClock t = SystemCoreClock s"
    "rcc_CFGR (RCC t) = rcc_CFGR (RCC s)" "stm32_tim.more t = stm32_tim.more s"
    "j \<noteq> i \<Longrightarrow> TIMx t j = TIMx s j" "k \<noteq> h \<Longrightarrow> tim_handle t k = tim_handle s k"
    "pins_ready t = pins_ready s"
  using assms by (auto simp: only_timer_def pins_ready_def)

text \<open>
  A handle ready for use, and a timer that counts up freely from its prescaler and period. Its update flag is set, by the
  update event with which the driver loads the prescaler.
\<close>

definition handle_ok :: "TIM_Inst \<Rightarrow> u32 \<Rightarrow> u32 \<Rightarrow> TIM_HandleTypeDef \<Rightarrow> bool" where
  "handle_ok i psc per x \<longleftrightarrow> th_Instance x = Some i \<and> \<not> th_Lock x \<and> ti_Prescaler (th_Init x) = psc \<and> ti_Period (th_Init x) = per \<and>
     ti_CounterMode (th_Init x) = 0 \<and> ti_ClockDivision (th_Init x) = 0 \<and> ti_AutoReloadPreload (th_Init x) = 0"

definition base_ok :: "u32 \<Rightarrow> u32 \<Rightarrow> u32 \<Rightarrow> TIM_TypeDef \<Rightarrow> bool" where
  "base_ok psc per d t \<longleftrightarrow> tr_PSC t = psc \<and> tr_ARR t = per \<and> tr_DIER t = d \<and> READ_BIT (tr_CR1 t) 0x7E = 0 \<and>
     tr_SR t AND TIM_FLAG_UPDATE = TIM_FLAG_UPDATE"

definition step_ok ::
    "tt_tim \<Rightarrow> TIM_Inst \<Rightarrow> (TIM_TypeDef \<Rightarrow> bool) \<Rightarrow> (TIM_TypeDef \<Rightarrow> bool) \<Rightarrow> u32 \<Rightarrow> u32 \<Rightarrow>
     ('z board \<Rightarrow> (HAL_StatusTypeDef \<times> 'z board) option) \<Rightarrow> bool" where
  "step_ok h i P Q psc per f \<longleftrightarrow> (\<forall>s. handle_ok i psc per (tim_handle s h) \<and> P (TIMx s i) \<longrightarrow>
     (\<exists>t. check_ok (f s) = Some t \<and> only_timer h i s t \<and> handle_ok i psc per (tim_handle t h) \<and> Q (TIMx t i)))"

lemma step_okI:
  assumes "\<And>s. handle_ok i psc per (tim_handle s h) \<Longrightarrow> f s = Some (HAL_OK, s\<lparr>TIMx := (TIMx s)(i := F (tim_handle s h) (TIMx s i)),
       tim_handle := (tim_handle s)(h := G (tim_handle s h))\<rparr>)"
    and "\<And>x. handle_ok i psc per x \<Longrightarrow> handle_ok i psc per (G x)" "\<And>x t. handle_ok i psc per x \<Longrightarrow> P t \<Longrightarrow> Q (F x t)"
  shows "step_ok h i P Q psc per f"
  using assms by (auto simp: step_ok_def check_ok_def intro: only_timerI)

lemma step_ok_bind:
  assumes "step_ok h i P Q psc per f" "handle_ok i psc per (tim_handle s h)" "P (TIMx s i)"
    and "\<And>t. handle_ok i psc per (tim_handle t h) \<Longrightarrow> Q (TIMx t i) \<Longrightarrow> \<exists>u. g t = Some u \<and> only_timer h i t u \<and> R u"
  shows "\<exists>u. Option.bind (check_ok (f s)) g = Some u \<and> only_timer h i s u \<and> R u"
  using assms unfolding step_ok_def by (metis Option.bind.simps(2) only_timer_trans)

lemma step_ok_last:
  assumes "step_ok h i P Q psc per f" "handle_ok i psc per (tim_handle s h)" "P (TIMx s i)"
  shows "\<exists>t. check_ok (f s) = Some t \<and> only_timer h i s t \<and> handle_ok i psc per (tim_handle t h) \<and> Q (TIMx t i)"
  using assms by (simp add: step_ok_def)

lemma TIM_OC_SetConfig_frame [simp]:
  "tr_PSC (TIM_OC_SetConfig ch c i t) = tr_PSC t" "tr_ARR (TIM_OC_SetConfig ch c i t) = tr_ARR t"
  "tr_DIER (TIM_OC_SetConfig ch c i t) = tr_DIER t" "tr_CR1 (TIM_OC_SetConfig ch c i t) = tr_CR1 t"
  "tr_SMCR (TIM_OC_SetConfig ch c i t) = tr_SMCR t" "tr_SR (TIM_OC_SetConfig ch c i t) = tr_SR t"
  by (simp_all add: TIM_OC_SetConfig_def TIM_OC1_SetConfig_def TIM_OC2_SetConfig_def TIM_OC3_SetConfig_def
      TIM_OC4_SetConfig_def TIM_OC5_SetConfig_def TIM_OC6_SetConfig_def Let_def)

lemmas hal_simps = on_tim_def upd_tim_def upd_h_def handle_ok_def

abbreviation (input) released :: "TIM_HandleTypeDef \<Rightarrow> TIM_HandleTypeDef" where
  "released x \<equiv> x\<lparr>th_State := HAL_TIM_STATE_READY, th_Lock := False\<rparr>"

lemma step_OC:
  assumes "ch \<in> {TIM_CHANNEL_1, TIM_CHANNEL_2, TIM_CHANNEL_3, TIM_CHANNEL_4}"
    and "\<And>t. Q t \<Longrightarrow> Q (TIM_OC_SetConfig ch c i t)"
  shows "step_ok h i Q Q psc per (HAL_TIM_OC_ConfigChannel h c ch)"
  by (rule step_okI [where F = "\<lambda>_. TIM_OC_SetConfig ch c i" and G = released])
    (use assms in \<open>auto simp: HAL_TIM_OC_ConfigChannel_def hal_simps\<close>)

definition timer_ok :: "u32 \<Rightarrow> u32 \<Rightarrow> u32 \<Rightarrow> TIM_TypeDef \<Rightarrow> bool" where
  "timer_ok psc per d t \<longleftrightarrow> base_ok psc per d t \<and> READ_BIT (tr_SMCR t) TIM_SMCR_SMS = 0"

lemma step_clock:
  assumes "tc_ClockSource c = TIM_CLOCKSOURCE_INTERNAL"
  shows "step_ok h i (base_ok psc per d) (timer_ok psc per d) psc per (HAL_TIM_ConfigClockSource h c)"
proof (rule step_okI [where G = released and F = "\<lambda>_ t. t\<lparr>tr_SMCR := CLEAR_BIT (tr_SMCR t AND NOT (TIM_SMCR_SMS OR TIM_SMCR_TS)
        AND NOT (TIM_SMCR_ETF OR TIM_SMCR_ETPS OR TIM_SMCR_ECE OR TIM_SMCR_ETP)) TIM_SMCR_SMS\<rparr>"])
  fix s :: "'z board"
  assume "handle_ok i psc per (tim_handle s h)"
  then show "HAL_TIM_ConfigClockSource h c s = Some (HAL_OK, s\<lparr>TIMx := (TIMx s)(i :=
      (TIMx s i)\<lparr>tr_SMCR := CLEAR_BIT (tr_SMCR (TIMx s i) AND NOT (TIM_SMCR_SMS OR TIM_SMCR_TS)
        AND NOT (TIM_SMCR_ETF OR TIM_SMCR_ETPS OR TIM_SMCR_ECE OR TIM_SMCR_ETP)) TIM_SMCR_SMS\<rparr>),
      tim_handle := (tim_handle s)(h := released (tim_handle s h))\<rparr>)"
    using assms by (simp add: HAL_TIM_ConfigClockSource_def hal_simps tim_clock_source_def CLEAR_BIT_def and.assoc)
qed (auto simp: handle_ok_def timer_ok_def base_ok_def reg_simps)

lemma READ_7E: "READ_BIT r 0x7E = 0 \<longleftrightarrow> READ_BIT r 0x70 = 0 \<and> READ_BIT r 0xE = 0"
proof -
  have "READ_BIT r 0x7E = READ_BIT r 0x70 OR READ_BIT r 0xE"
    by (simp add: READ_BIT_def bit.conj_disj_distrib [symmetric])
  then show ?thesis by (simp add: or_eq_0_iff)
qed

text \<open>Counting direction and mode are set by the code only where a timer has them.\<close>

definition fresh :: "TIM_Inst \<Rightarrow> u32 \<Rightarrow> TIM_TypeDef \<Rightarrow> bool" where
  "fresh i d t \<longleftrightarrow> tr_DIER t = d \<and> READ_BIT (tr_CR1 t) 0xE = 0 \<and>
     (IS_TIM_COUNTER_MODE_SELECT_INSTANCE i \<or> READ_BIT (tr_CR1 t) 0x70 = 0)"

lemma base_config:
  assumes "handle_ok i psc per x" "fresh i d t"
  shows "base_ok psc per d (TIM_Base_SetConfig (th_Init x) i t)"
proof -
  have eq: "tr_CR1 t AND - 113 = CLEAR_BIT (tr_CR1 t) 0x70" "tr_CR1 t AND - 769 = CLEAR_BIT (tr_CR1 t) 0x300"
    "CLEAR_BIT (tr_CR1 t) 0x70 AND - 769 = CLEAR_BIT (CLEAR_BIT (tr_CR1 t) 0x70) 0x300"
    by (simp_all add: CLEAR_BIT_def)
  have up: "(r OR 1) AND 1 = 1" "r AND 6 = 0" if "READ_BIT r 0x7E = 0" for r :: u32
  proof -
    show "(r OR 1) AND 1 = 1" by (simp add: bit.conj_disj_distrib2)
    have "r AND 6 = READ_BIT r 0x7E AND 6" by (simp add: READ_BIT_def and.assoc)
    then show "r AND 6 = 0" using that by simp
  qed
  have c: "READ_BIT (tr_CR1 (TIM_Base_SetConfig (th_Init x) i t)) 0x7E = 0"
    using assms unfolding TIM_Base_SetConfig_def handle_ok_def fresh_def
    by (auto simp: Let_def eq READ_7E reg_simps write_EGR_def)
  have "TIM_Base_SetConfig (th_Init x) i t = write_EGR TIM_EGR_UG u \<Longrightarrow> tr_CR1 (write_EGR TIM_EGR_UG u) = tr_CR1 u" for u
    by (simp add: write_EGR_def)
  then have "tr_SR (TIM_Base_SetConfig (th_Init x) i t) AND TIM_FLAG_UPDATE = TIM_FLAG_UPDATE"
    using up(2) [OF c] unfolding TIM_Base_SetConfig_def Let_def by (simp add: write_EGR_def bit.conj_disj_distrib2)
  then show ?thesis
    using assms c unfolding base_ok_def TIM_Base_SetConfig_def handle_ok_def fresh_def
    by (simp add: Let_def write_EGR_def)
qed

abbreviation (input) initialised :: "TIM_HandleTypeDef \<Rightarrow> TIM_HandleTypeDef" where
  "initialised x \<equiv> (if th_State x = HAL_TIM_STATE_RESET then x\<lparr>th_Lock := False\<rparr> else x)\<lparr>th_State := HAL_TIM_STATE_READY\<rparr>"

definition clock_gate :: "TIM_Inst option \<Rightarrow> u32 \<Rightarrow> u32" where
  "clock_gate i v = (if i = Some TIM3 then SET_BIT v 0x2 else if i = Some TIM7 then SET_BIT v 0x20 else v)"

lemma MspInit_gate: "HAL_TIM_Base_MspInit h s =
    s\<lparr>RCC := (RCC s)\<lparr>rcc_APB1ENR := clock_gate (th_Instance (tim_handle s h)) (rcc_APB1ENR (RCC s))\<rparr>\<rparr>"
  by (simp add: HAL_TIM_Base_MspInit_def clock_gate_def)

lemma step_base:
  "step_ok h i (fresh i d) (base_ok psc per d) psc per (HAL_TIM_Base_Init (Some h))"
  unfolding step_ok_def
proof (intro allI impI, elim conjE)
  fix s :: "'z board"
  let ?x = "tim_handle s h"
  let ?X = "TIM_Base_SetConfig (th_Init ?x) i (TIMx s i)"
  assume h: "handle_ok i psc per ?x" and f: "fresh i d (TIMx s i)"
  define en where "en = (if th_State ?x = HAL_TIM_STATE_RESET then clock_gate (Some i) (rcc_APB1ENR (RCC s)) else rcc_APB1ENR (RCC s))"
  have "HAL_TIM_Base_Init (Some h) s = Some (HAL_OK, s\<lparr>TIMx := (TIMx s)(i := ?X),
      tim_handle := (tim_handle s)(h := initialised ?x), RCC := (RCC s)\<lparr>rcc_APB1ENR := en\<rparr>\<rparr>)"
    using h by (simp add: HAL_TIM_Base_Init_def MspInit_gate hal_simps Let_def en_def)
  then show "\<exists>t. check_ok (HAL_TIM_Base_Init (Some h) s) = Some t \<and> only_timer h i s t \<and> handle_ok i psc per (tim_handle t h) \<and>
      base_ok psc per d (TIMx t i)"
    using base_config [OF h f] h by (auto simp: check_ok_def only_timer_def handle_ok_def)
qed

lemma base_ok_fresh: "base_ok psc per d t \<Longrightarrow> fresh i d t"
  by (simp add: base_ok_def fresh_def READ_7E)

lemma TIM_Base_SetConfig_SMCR [simp]: "tr_SMCR (TIM_Base_SetConfig x i t) = tr_SMCR t"
  by (simp add: TIM_Base_SetConfig_def Let_def write_EGR_def)

lemma step_OC_Init:
  "step_ok h i (timer_ok psc per d) (timer_ok psc per d) psc per (HAL_TIM_OC_Init (Some h))"
proof (rule step_okI [where G = initialised and F = "\<lambda>x. TIM_Base_SetConfig (th_Init x) i"])
  fix s :: "'z board"
  assume "handle_ok i psc per (tim_handle s h)"
  then show "HAL_TIM_OC_Init (Some h) s = Some (HAL_OK, s\<lparr>TIMx := (TIMx s)(i := TIM_Base_SetConfig (th_Init (tim_handle s h)) i (TIMx s i)),
      tim_handle := (tim_handle s)(h := initialised (tim_handle s h))\<rparr>)"
    by (simp add: HAL_TIM_OC_Init_def hal_simps Let_def)
next
  show "handle_ok i psc per x \<Longrightarrow> timer_ok psc per d t \<Longrightarrow> timer_ok psc per d (TIM_Base_SetConfig (th_Init x) i t)" for x t
    using base_config [OF _ base_ok_fresh] by (auto simp: timer_ok_def)
qed (simp add: handle_ok_def)

lemma step_master:
  assumes "\<And>t a b. Q t \<Longrightarrow> Q (t\<lparr>tr_CR2 := a, tr_SMCR := (tr_SMCR t AND NOT TIM_SMCR_MSM) OR mc_MasterSlaveMode c\<rparr>)"
  shows "step_ok h i Q Q psc per (HAL_TIMEx_MasterConfigSynchronization h c)"
  by (rule step_okI [where G = "\<lambda>x. x\<lparr>th_Lock := False\<rparr>" and F = "\<lambda>_ t. t\<lparr>tr_CR2 :=
        ((if IS_TIM_TRGO2_INSTANCE i then tr_CR2 t AND NOT TIM_CR2_MMS2 OR mc_MasterOutputTrigger2 c else tr_CR2 t) AND NOT TIM_CR2_MMS)
          OR mc_MasterOutputTrigger c, tr_SMCR := (tr_SMCR t AND NOT TIM_SMCR_MSM) OR mc_MasterSlaveMode c\<rparr>"])
    (use assms in \<open>auto simp: HAL_TIMEx_MasterConfigSynchronization_def hal_simps Let_def\<close>)


lemma timer_ok_OC: "timer_ok psc per d t \<Longrightarrow> timer_ok psc per d (TIM_OC_SetConfig ch c i t)"
  by (simp add: timer_ok_def base_ok_def)

lemma timer_ok_master:
  assumes "timer_ok psc per d t" "m AND TIM_SMCR_SMS = 0"
  shows "timer_ok psc per d (t\<lparr>tr_CR2 := a, tr_SMCR := (tr_SMCR t AND NOT TIM_SMCR_MSM) OR m\<rparr>)"
  using assms READ_MODIFY_out [of TIM_SMCR_SMS TIM_SMCR_MSM m "tr_SMCR t"]
  by (simp add: timer_ok_def base_ok_def MODIFY_REG_def and.commute)

lemma MX_TIM3_Init_ok:
  assumes "\<not> th_Lock (tim_handle s htim3)" "fresh TIM3 d (TIMx s TIM3)"
  shows "\<exists>t. MX_TIM3_Init clk mst oc s = Some t \<and> only_timer htim3 TIM3 s t \<and>
    handle_ok TIM3 15 0xffff (tim_handle t htim3) \<and> timer_ok 15 0xffff d (TIMx t TIM3)"
proof -
  define s0 where "s0 = upd_h htim3 (\<lambda>x. x\<lparr>th_Instance := Some TIM3, th_Init := (th_Init x)\<lparr>ti_Prescaler := 15, ti_CounterMode := 0,
      ti_Period := 0xffff, ti_ClockDivision := 0, ti_AutoReloadPreload := 0\<rparr>\<rparr>) s"
  have h0: "handle_ok TIM3 15 0xffff (tim_handle s0 htim3)" and t0: "fresh TIM3 d (TIMx s0 TIM3)"
    using assms by (simp_all add: s0_def handle_ok_def upd_h_def)
  have f0: "only_timer htim3 TIM3 s s0"
    by (rule only_timerI [where x = "TIMx s TIM3"]) (simp add: s0_def upd_h_def)
  note master = step_master [where Q = "timer_ok 15 0xffff d", OF timer_ok_master]
  note oc = step_OC [where Q = "timer_ok 15 0xffff d", OF _ timer_ok_OC]
  have "\<exists>t. MX_TIM3_Init clk mst oc s = Some t \<and> only_timer htim3 TIM3 s0 t \<and>
    (handle_ok TIM3 15 0xffff (tim_handle t htim3) \<and> timer_ok 15 0xffff d (TIMx t TIM3))"
    unfolding MX_TIM3_Init_def s0_def [symmetric] Let_def
    by (rule step_ok_bind [OF step_base h0 t0], rule step_ok_bind [OF step_clock], simp, assumption, assumption,
      rule step_ok_bind [OF step_OC_Init], assumption, assumption,
      rule step_ok_bind [OF master], assumption, simp, assumption, assumption,
      (rule step_ok_bind [OF oc], simp, assumption, assumption, assumption)+,
      rule step_ok_last [OF oc], simp_all)
  then show ?thesis using only_timer_trans [OF f0] by blast
qed


lemma MX_TIM7_Init_ok:
  assumes "\<not> th_Lock (tim_handle s htim7)" "ti_ClockDivision (th_Init (tim_handle s htim7)) = 0" "fresh TIM7 d (TIMx s TIM7)"
  shows "\<exists>t. MX_TIM7_Init mst s = Some t \<and> only_timer htim7 TIM7 s t \<and>
    handle_ok TIM7 63 65535 (tim_handle t htim7) \<and> base_ok 63 65535 d (TIMx t TIM7)"
proof -
  define s0 where "s0 = upd_h htim7 (\<lambda>x. x\<lparr>th_Instance := Some TIM7, th_Init := (th_Init x)\<lparr>ti_Prescaler := 63, ti_CounterMode := 0,
      ti_Period := 65535, ti_AutoReloadPreload := 0\<rparr>\<rparr>) s"
  have h0: "handle_ok TIM7 63 65535 (tim_handle s0 htim7)" and t0: "fresh TIM7 d (TIMx s0 TIM7)"
    using assms by (simp_all add: s0_def handle_ok_def upd_h_def)
  have f0: "only_timer htim7 TIM7 s s0"
    by (rule only_timerI [where x = "TIMx s TIM7"]) (simp add: s0_def upd_h_def)
  have "\<exists>t. MX_TIM7_Init mst s = Some t \<and> only_timer htim7 TIM7 s0 t \<and>
    (handle_ok TIM7 63 65535 (tim_handle t htim7) \<and> base_ok 63 65535 d (TIMx t TIM7))"
    unfolding MX_TIM7_Init_def s0_def [symmetric] Let_def
    by (rule step_ok_bind [OF step_base h0 t0], rule step_ok_last [OF step_master]) (simp_all add: base_ok_def)
  then show ?thesis using only_timer_trans [OF f0] by blast
qed

section \<open>The board is set up\<close>

lemma HAL_Init_frame [simp]:
  "hw_polls (snd (HAL_Init s)) = hw_polls s" "hw_status (snd (HAL_Init s)) = hw_status s" "stm32.more (snd (HAL_Init s)) = stm32.more s"
  by (simp_all add: HAL_Init_def HAL_MspInit_def HAL_InitTick_def HAL_SYSTICK_Config_def SysTick_Config_def HAL_NVIC_SetPriority_def
      NVIC_SetPriority_def HAL_NVIC_SetPriorityGrouping_def NVIC_SetPriorityGrouping_def set_CTRL_def write_VAL_def Let_def split_beta)

lemma clocks_set_more [simp]: "stm32.more (clocks_set k s) = stm32.more s"
  by (simp add: clocks_set_defs)

lemma more_fields:
  fixes s t :: "'z board"
  assumes "stm32.more s = stm32.more t"
  shows "TIMx s = TIMx t" "tim_handle s = tim_handle t" "stm32_tim.more s = stm32_tim.more t"
  using assms by (cases s; cases t; simp)+

lemma io_prims [simp]:
  "TIMx (upd_gpio p f s) = TIMx s" "tim_handle (upd_gpio p f s) = tim_handle s" "SCB (upd_gpio p f s) = SCB s" "NVIC (upd_gpio p f s) = NVIC s" "SysTick (upd_gpio p f s) = SysTick s" "SystemCoreClock (upd_gpio p f s) = SystemCoreClock s" "rcc_CFGR (RCC (upd_gpio p f s)) = rcc_CFGR (RCC s)" "stm32_tim.more (upd_gpio p f s) = stm32_tim.more s"
  "TIMx (LL_AHB1_GRP1_EnableClock v s) = TIMx s" "tim_handle (LL_AHB1_GRP1_EnableClock v s) = tim_handle s" "SCB (LL_AHB1_GRP1_EnableClock v s) = SCB s" "NVIC (LL_AHB1_GRP1_EnableClock v s) = NVIC s" "SysTick (LL_AHB1_GRP1_EnableClock v s) = SysTick s" "SystemCoreClock (LL_AHB1_GRP1_EnableClock v s) = SystemCoreClock s" "rcc_CFGR (RCC (LL_AHB1_GRP1_EnableClock v s)) = rcc_CFGR (RCC s)" "stm32_tim.more (LL_AHB1_GRP1_EnableClock v s) = stm32_tim.more s"
  "TIMx (LL_SYSCFG_SetEXTISource v w s) = TIMx s" "tim_handle (LL_SYSCFG_SetEXTISource v w s) = tim_handle s" "SCB (LL_SYSCFG_SetEXTISource v w s) = SCB s" "NVIC (LL_SYSCFG_SetEXTISource v w s) = NVIC s" "SysTick (LL_SYSCFG_SetEXTISource v w s) = SysTick s" "SystemCoreClock (LL_SYSCFG_SetEXTISource v w s) = SystemCoreClock s" "rcc_CFGR (RCC (LL_SYSCFG_SetEXTISource v w s)) = rcc_CFGR (RCC s)" "stm32_tim.more (LL_SYSCFG_SetEXTISource v w s) = stm32_tim.more s"
  "TIMx (snd (LL_EXTI_Init c s)) = TIMx s" "tim_handle (snd (LL_EXTI_Init c s)) = tim_handle s" "SCB (snd (LL_EXTI_Init c s)) = SCB s" "NVIC (snd (LL_EXTI_Init c s)) = NVIC s" "SysTick (snd (LL_EXTI_Init c s)) = SysTick s" "SystemCoreClock (snd (LL_EXTI_Init c s)) = SystemCoreClock s" "rcc_CFGR (RCC (snd (LL_EXTI_Init c s))) = rcc_CFGR (RCC s)" "stm32_tim.more (snd (LL_EXTI_Init c s)) = stm32_tim.more s"
  by (simp_all add: upd_gpio_def LL_AHB1_GRP1_EnableClock_def LL_SYSCFG_SetEXTISource_def LL_EXTI_Init_def Let_def split_beta)

lemma io_frame [simp]:
  "TIMx (LL_GPIO_Init p i s) = TIMx s" "tim_handle (LL_GPIO_Init p i s) = tim_handle s" "SCB (LL_GPIO_Init p i s) = SCB s" "NVIC (LL_GPIO_Init p i s) = NVIC s" "SysTick (LL_GPIO_Init p i s) = SysTick s" "SystemCoreClock (LL_GPIO_Init p i s) = SystemCoreClock s" "rcc_CFGR (RCC (LL_GPIO_Init p i s)) = rcc_CFGR (RCC s)" "stm32_tim.more (LL_GPIO_Init p i s) = stm32_tim.more s"
  by (simp_all add: LL_GPIO_Init_def Let_def)

lemma MX_io_frame [simp]:
  "TIMx (MX_GPIO_Init s) = TIMx s" "tim_handle (MX_GPIO_Init s) = tim_handle s" "SCB (MX_GPIO_Init s) = SCB s" "NVIC (MX_GPIO_Init s) = NVIC s" "SysTick (MX_GPIO_Init s) = SysTick s" "SystemCoreClock (MX_GPIO_Init s) = SystemCoreClock s" "rcc_CFGR (RCC (MX_GPIO_Init s)) = rcc_CFGR (RCC s)" "stm32_tim.more (MX_GPIO_Init s) = stm32_tim.more s"
  "TIMx (MX_CRC_Init s) = TIMx s" "tim_handle (MX_CRC_Init s) = tim_handle s" "SCB (MX_CRC_Init s) = SCB s" "NVIC (MX_CRC_Init s) = NVIC s" "SysTick (MX_CRC_Init s) = SysTick s" "SystemCoreClock (MX_CRC_Init s) = SystemCoreClock s" "rcc_CFGR (RCC (MX_CRC_Init s)) = rcc_CFGR (RCC s)" "stm32_tim.more (MX_CRC_Init s) = stm32_tim.more s"
  by (simp_all add: MX_GPIO_Init_def MX_CRC_Init_def LL_GPIO_ResetOutputPin_def Let_def split_beta)

lemma nvic_frame [simp]:
  "TIMx (MX_NVIC_Init s) = TIMx s" "tim_handle (MX_NVIC_Init s) = tim_handle s" "SysTick (MX_NVIC_Init s) = SysTick s"
  "SystemCoreClock (MX_NVIC_Init s) = SystemCoreClock s" "RCC (MX_NVIC_Init s) = RCC s"
  "stm32_tim.more (MX_NVIC_Init s) = stm32_tim.more s" "stm32_tim.more (HAL_ResumeTick s) = stm32_tim.more s"
  "TIMx (HAL_ResumeTick s) = TIMx s" "tim_handle (HAL_ResumeTick s) = tim_handle s" "SCB (HAL_ResumeTick s) = SCB s"
  "NVIC (HAL_ResumeTick s) = NVIC s" "SystemCoreClock (HAL_ResumeTick s) = SystemCoreClock s" "RCC (HAL_ResumeTick s) = RCC s"
  "st_LOAD (SysTick (HAL_ResumeTick s)) = st_LOAD (SysTick s)"
  "st_CTRL (SysTick (HAL_ResumeTick s)) = SET_BIT (st_CTRL (SysTick s)) SysTick_CTRL_TICKINT"
  "pins_ready (HAL_ResumeTick (MX_NVIC_Init s)) = pins_ready s"
  by (simp_all add: pins_ready_def MX_NVIC_Init_def HAL_NVIC_SetPriority_def NVIC_SetPriority_def HAL_NVIC_EnableIRQ_def NVIC_EnableIRQ_def write_ISER_def
      HAL_ResumeTick_def set_CTRL_def Let_def)

lemma HAL_GetPriority_Enable [simp]: "HAL_NVIC_GetPriority i g (HAL_NVIC_EnableIRQ j s) = HAL_NVIC_GetPriority i g s"
  by (simp add: HAL_NVIC_GetPriority_def NVIC_GetPriority_def HAL_NVIC_EnableIRQ_def NVIC_EnableIRQ_def write_ISER_def Let_def)

lemma grouping_Enable [simp]: "NVIC_GetPriorityGrouping (HAL_NVIC_EnableIRQ j s) = NVIC_GetPriorityGrouping s"
  by (simp add: NVIC_GetPriorityGrouping_def HAL_NVIC_EnableIRQ_def NVIC_EnableIRQ_def write_ISER_def Let_def)

lemma grouping_cong: "SCB s = SCB t \<Longrightarrow> NVIC_GetPriorityGrouping s = NVIC_GetPriorityGrouping t"
  by (simp add: NVIC_GetPriorityGrouping_def)

lemma Start_IT_ok:
  assumes "th_Instance (tim_handle s h) = Some i"
  shows "\<exists>t. HAL_TIM_Base_Start_IT h s = Some (HAL_OK, t) \<and> only_timer h i s t \<and> tim_handle t = tim_handle s \<and>
    TIMx t i = (TIMx s i)\<lparr>tr_DIER := tr_DIER (TIMx s i) OR TIM_IT_UPDATE, tr_CR1 := tr_CR1 (TIMx s i) OR TIM_CR1_CEN\<rparr>"
proof -
  have "HAL_TIM_Base_Start_IT h s = Some (HAL_OK, upd_tim i (\<lambda>t. HAL_TIM_ENABLE (HAL_TIM_ENABLE_IT TIM_IT_UPDATE t)) s)"
    using assms by (simp add: HAL_TIM_Base_Start_IT_def on_tim_def)
  then show ?thesis
    by (auto simp: upd_tim_def HAL_TIM_ENABLE_def HAL_TIM_ENABLE_IT_def intro!: only_timerI [where y = "tim_handle s h"])
qed

text \<open>Before \<open>main\<close>: the handles are zeroed static memory, the timers as after a reset.\<close>

definition at_reset :: "'z board \<Rightarrow> bool" where
  "at_reset s \<longleftrightarrow> (\<forall>h. \<not> th_Lock (tim_handle s h)) \<and> ti_ClockDivision (th_Init (tim_handle s htim7)) = 0 \<and>
     fresh TIM3 0 (TIMx s TIM3) \<and> fresh TIM7 0 (TIMx s TIM7)"

definition running :: "u32 \<Rightarrow> u32 \<Rightarrow> TIM_TypeDef \<Rightarrow> bool" where
  "running psc per t \<longleftrightarrow> tr_PSC t = psc \<and> tr_ARR t = per \<and> tr_DIER t = TIM_IT_UPDATE \<and> READ_BIT (tr_CR1 t) 0x7F = TIM_CR1_CEN \<and>
     irq_pending TIM_FLAG_UPDATE TIM_IT_UPDATE t"

lemma base_ok_running:
  "base_ok psc per 0 t \<Longrightarrow> running psc per (t\<lparr>tr_DIER := tr_DIER t OR TIM_IT_UPDATE, tr_CR1 := tr_CR1 t OR TIM_CR1_CEN\<rparr>)"
proof -
  assume b: "base_ok psc per 0 t"
  have "READ_BIT (r OR 1) 0x7F = 1" if "READ_BIT r 0x7E = 0" for r :: u32
  proof -
    have "(r OR 1) AND 0x7F = (r AND 0x7E) OR 1"
    proof -
      have "(r OR 1) AND 0x7F = (r AND 0x7F) OR 1" by (simp add: bit.conj_disj_distrib2)
      also have "\<dots> = (r AND (0x7E OR 1)) OR 1" by simp
      also have "\<dots> = ((r AND 0x7E) OR (r AND 1)) OR 1" by (simp only: bit.conj_disj_distrib)
      also have "\<dots> = (r AND 0x7E) OR 1" by (rule bit_word_eqI) (auto simp: bit_simps)
      finally show ?thesis .
    qed
    then show ?thesis using that by (simp add: READ_BIT_def)
  qed
  then show ?thesis using b by (simp add: base_ok_def running_def irq_pending_def bit.conj_disj_distrib2)
qed

text \<open>The priority an interrupt has under the grouping in force: for preemption, and within its group.\<close>

definition priority_of :: "int \<Rightarrow> 'z stm32_scheme \<Rightarrow> u32 \<times> u32" where
  "priority_of i s = HAL_NVIC_GetPriority i (NVIC_GetPriorityGrouping s) s"

lemma priority_cong: "SCB s = SCB t \<Longrightarrow> NVIC s = NVIC t \<Longrightarrow> priority_of i s = priority_of i t"
  by (simp add: priority_of_def grouping_cong [of s t] HAL_GetPriority_cong [of s t])

lemma priority_Set:
  "NVIC_GetPriorityGrouping s = 5 \<Longrightarrow> priority_of i (HAL_NVIC_SetPriority i p q s) = (take_bit 2 p, take_bit 2 q)"
  using HAL_GetPriority_Set [of i s p q] by (simp add: priority_of_def)

lemma priority_Set_other:
  "-12 \<le> i \<Longrightarrow> i < 240 \<Longrightarrow> -12 \<le> j \<Longrightarrow> j < 240 \<Longrightarrow> j \<noteq> i \<Longrightarrow>
    priority_of j (HAL_NVIC_SetPriority i p q s) = priority_of j s"
  by (simp add: priority_of_def HAL_GetPriority_Set_other)

lemma priority_Enable [simp]: "priority_of i (HAL_NVIC_EnableIRQ j s) = priority_of i s"
  by (simp add: priority_of_def)

lemma HAL_Init_priorities:
  "NVIC_GetPriorityGrouping (snd (HAL_Init s)) = 5" "priority_of PendSV_IRQn (snd (HAL_Init s)) = (3, 3)"
  by (simp_all add: HAL_Init_def HAL_MspInit_def Let_def priority_Set_other)
    (simp_all add: HAL_NVIC_SetPriorityGrouping_def NVIC_GetPriorityGrouping_Set priority_Set)

lemma clocks_set_priorities:
  assumes "NVIC_GetPriorityGrouping s = 5" "priority_of PendSV_IRQn s = (3, 3)"
  shows "NVIC_GetPriorityGrouping (clocks_set k s) = 5" "priority_of PendSV_IRQn (clocks_set k s) = (3, 3)"
    "priority_of SysTick_IRQn (clocks_set k s) = (0, 0)"
proof -
  show g: "NVIC_GetPriorityGrouping (clocks_set k s) = 5"
    using assms(1) by (simp add: NVIC_GetPriorityGrouping_def)
  show "priority_of PendSV_IRQn (clocks_set k s) = (3, 3)"
    using assms clocks_set_priority(1) [of PendSV_IRQn k s] g by (simp add: priority_of_def HAL_NVIC_GetPriority_def)
  show "priority_of SysTick_IRQn (clocks_set k s) = (0, 0)"
    using clocks_set_priority(2) [of k s] by (simp add: priority_of_def HAL_NVIC_GetPriority_def NVIC_DecodePriority_def)
qed

lemma MX_NVIC_Init_priorities:
  assumes "NVIC_GetPriorityGrouping s = 5"
  shows "NVIC_GetPriorityGrouping (MX_NVIC_Init s) = 5" "priority_of TIM3_IRQn (MX_NVIC_Init s) = (1, 1)"
    "priority_of TIM7_DAC2_IRQn (MX_NVIC_Init s) = (1, 2)"
    "priority_of PendSV_IRQn (MX_NVIC_Init s) = priority_of PendSV_IRQn s"
    "priority_of SysTick_IRQn (MX_NVIC_Init s) = priority_of SysTick_IRQn s"
  using assms by (simp_all add: MX_NVIC_Init_def Let_def priority_Set priority_Set_other)

lemma MX_NVIC_Init_enables:
  "bit (nv_ISER (NVIC (MX_NVIC_Init s)) 0) 29" "bit (nv_ISER (NVIC (MX_NVIC_Init s)) 1) 23"
  by (simp_all add: MX_NVIC_Init_def HAL_NVIC_EnableIRQ_def NVIC_EnableIRQ_def write_ISER_def Let_def HAL_NVIC_SetPriority_def
      NVIC_SetPriority_def bit_simps)

text \<open>When the clocks come up, the rest of the set-up always succeeds.\<close>

lemma board_setup_after_clocks:
  assumes "at_reset s" "SystemClock_Config (snd (HAL_Init s)) = Some (clocks_set k (snd (HAL_Init s)))"
  obtains t where "board_setup clk mst oc mst7 s = Some t" "SystemCoreClock t = 64000000" "st_LOAD (SysTick t) = 63999"
    "st_CTRL (SysTick t) = 7" "rcc_CFGR (RCC t) = rcc_CFGR (RCC (clocks_set k (snd (HAL_Init s))))"
    "NVIC_GetPriorityGrouping t = 5" "priority_of SysTick_IRQn t = (0, 0)" "priority_of TIM3_IRQn t = (1, 1)"
    "priority_of TIM7_DAC2_IRQn t = (1, 2)" "priority_of PendSV_IRQn t = (3, 3)"
    "bit (nv_ISER (NVIC t) 0) 29" "bit (nv_ISER (NVIC t) 1) 23"
    "th_Instance (tim_handle t htim3) = Some TIM3" "th_Instance (tim_handle t htim7) = Some TIM7"
    "running 15 0xffff (TIMx t TIM3)" "running 63 65535 (TIMx t TIM7)" "READ_BIT (tr_SMCR (TIMx t TIM3)) TIM_SMCR_SMS = 0"
    "stm32_tim.more t = stm32_tim.more s" "pins_ready t"
proof -
  define s1 where "s1 = clocks_set k (snd (HAL_Init s))"
  have "stm32.more s1 = stm32.more s" by (simp add: s1_def)
  note m = more_fields [OF this]
  obtain s2 where s2: "MX_TIM7_Init mst7 (MX_GPIO_Init s1) = Some s2" "only_timer htim7 TIM7 (MX_GPIO_Init s1) s2"
      "handle_ok TIM7 63 65535 (tim_handle s2 htim7)" "base_ok 63 65535 0 (TIMx s2 TIM7)"
    using MX_TIM7_Init_ok [of "MX_GPIO_Init s1" 0 mst7] assms(1) by (auto simp: m at_reset_def)
  obtain s3 where s3: "MX_TIM3_Init clk mst oc (MX_CRC_Init s2) = Some s3" "only_timer htim3 TIM3 (MX_CRC_Init s2) s3"
      "handle_ok TIM3 15 0xffff (tim_handle s3 htim3)" "timer_ok 15 0xffff 0 (TIMx s3 TIM3)"
    using MX_TIM3_Init_ok [of "MX_CRC_Init s2" 0 clk mst oc] assms(1) only_timerD [OF s2(2)] by (auto simp: m at_reset_def)
  let ?s3 = "HAL_ResumeTick (MX_NVIC_Init s3)"
  obtain s4 where s4: "HAL_TIM_Base_Start_IT htim3 ?s3 = Some (HAL_OK, s4)" "only_timer htim3 TIM3 ?s3 s4" "tim_handle s4 = tim_handle ?s3"
      "TIMx s4 TIM3 = (TIMx ?s3 TIM3)\<lparr>tr_DIER := tr_DIER (TIMx ?s3 TIM3) OR TIM_IT_UPDATE, tr_CR1 := tr_CR1 (TIMx ?s3 TIM3) OR TIM_CR1_CEN\<rparr>"
    using Start_IT_ok [of ?s3 htim3 TIM3] s3(3) by (auto simp: handle_ok_def)
  have i7: "th_Instance (tim_handle s4 htim7) = Some TIM7"
    using s2(3) only_timerD [OF s3(2)] by (simp add: s4(3) handle_ok_def)
  obtain t where t: "HAL_TIM_Base_Start_IT htim7 s4 = Some (HAL_OK, t)" "only_timer htim7 TIM7 s4 t" "tim_handle t = tim_handle s4"
      "TIMx t TIM7 = (TIMx s4 TIM7)\<lparr>tr_DIER := tr_DIER (TIMx s4 TIM7) OR TIM_IT_UPDATE, tr_CR1 := tr_CR1 (TIMx s4 TIM7) OR TIM_CR1_CEN\<rparr>"
    using Start_IT_ok [OF i7] by auto
  note D = only_timerD [OF s2(2)] only_timerD [OF s3(2)] only_timerD [OF s4(2)] only_timerD [OF t(2)]
  have "board_setup clk mst oc mst7 s = Some t"
    unfolding board_setup_def using assms(2) s2(1) s3(1) s4(1) t(1) by (simp add: s1_def)
  moreover have p1: "NVIC_GetPriorityGrouping s1 = 5" "priority_of PendSV_IRQn s1 = (3, 3)" "priority_of SysTick_IRQn s1 = (0, 0)"
    unfolding s1_def by (intro clocks_set_priorities HAL_Init_priorities)+
  have p3: "SCB s3 = SCB s1" "NVIC s3 = NVIC s1" by (simp_all add: D)
  have pt: "SCB t = SCB (MX_NVIC_Init s3)" "NVIC t = NVIC (MX_NVIC_Init s3)" by (simp_all add: D)
  note pr = MX_NVIC_Init_priorities [of s3] priority_cong [OF p3] priority_cong [OF pt] grouping_cong [OF p3(1)] grouping_cong [OF pt(1)]
  show thesis
  proof (rule that [of t])
    show "running 15 0xffff (TIMx t TIM3)"
      using base_ok_running [of 15 "0xffff" "TIMx s3 TIM3"] s3(4) by (simp add: D s4(4) timer_ok_def)
    show "running 63 65535 (TIMx t TIM7)"
      using base_ok_running [of 63 65535 "TIMx s2 TIM7"] s2(4) by (simp add: t(4) D)
    show "READ_BIT (tr_SMCR (TIMx t TIM3)) TIM_SMCR_SMS = 0"
      using s3(4) by (simp add: D s4(4) timer_ok_def)
    show "th_Instance (tim_handle t htim3) = Some TIM3" using s3(3) by (simp add: t(3) s4(3) handle_ok_def)
    show "th_Instance (tim_handle t htim7) = Some TIM7" using i7 by (simp add: t(3))
    show "stm32_tim.more t = stm32_tim.more s" by (simp add: D m)
    show "pins_ready t" by (simp add: D MX_GPIO_Init_pins)
  qed (use calculation p1 MX_NVIC_Init_enables [of s3] in \<open>simp_all add: pr pt D s1_def SET_BIT_def\<close>)
qed

section \<open>The start-up as a whole\<close>

text \<open>When an interrupt comes while the handler of another runs, it preempts it if its number for preemption is smaller.\<close>

definition preempts :: "int \<Rightarrow> int \<Rightarrow> 'z stm32_scheme \<Rightarrow> bool" where
  "preempts i j s \<longleftrightarrow> fst (priority_of i s) < fst (priority_of j s)"

text \<open>The three things the clock set-up waits for, one after the other.\<close>

definition clocks_come_up :: "'z stm32_scheme \<Rightarrow> bool" where
  "clocks_come_up s \<longleftrightarrow>
     READ_BIT (rd_ACR (hw_status s (hw_polls s))) FLASH_ACR_LATENCY = LL_FLASH_LATENCY_2 \<and>
     (\<exists>i j k. hw_polls s < i \<and> i < j \<and> j < k \<and> hsi_up (hw_status s i) \<and> pll_up (hw_status s j) \<and> on_pll (hw_status s k))"

lemma SystemClock_Config_iff: "SystemClock_Config s \<noteq> None \<longleftrightarrow> clocks_come_up s"
proof
  assume "SystemClock_Config s \<noteq> None"
  then obtain s' where "SystemClock_Config s = Some s'" by blast
  then show "clocks_come_up s"
    by (rule SystemClock_Config_Some) (auto simp: clocks_come_up_def)
next
  assume "clocks_come_up s"
  then show "SystemClock_Config s \<noteq> None"
    unfolding clocks_come_up_def by (elim conjE exE) (rule SystemClock_Config_returns)
qed

lemma clocks_come_up_init [simp]: "clocks_come_up (snd (HAL_Init s)) = clocks_come_up s"
  by (simp add: clocks_come_up_def)

lemma board_setup_None: "SystemClock_Config (snd (HAL_Init s)) = None \<Longrightarrow> board_setup clk mst oc mst7 s = None"
  by (simp add: board_setup_def)

text \<open>The frequency that the registers give is the one the program believes.\<close>

lemma SystemCoreClockUpdate_pll:
  assumes "READ_BIT (rcc_CFGR (RCC t)) RCC_CFGR_PLLMUL = LL_RCC_PLL_MUL_16"
    "READ_BIT (rcc_CFGR (RCC t)) RCC_CFGR_PLLSRC = LL_RCC_PLLSOURCE_HSI_DIV_2" "READ_BIT (rcc_CFGR (RCC t)) RCC_CFGR_HPRE = 0"
    "on_pll (hw_status t (hw_polls t))"
  shows "SystemCoreClock (SystemCoreClockUpdate t) = 64000000"
  using assms by (simp add: SystemCoreClockUpdate_def hw_read_def Let_def AHBPrescTable_def)

text \<open>A controller just reset, whose clocks are ready at once.\<close>

definition reset_timer :: TIM_TypeDef where
  "reset_timer = \<lparr>tr_CR1 = 0, tr_CR2 = 0, tr_SMCR = 0, tr_DIER = 0, tr_SR = 0, tr_CCMR1 = 0, tr_CCMR2 = 0, tr_CCER = 0, tr_CNT = 0,
     tr_PSC = 0, tr_ARR = 0xffff, tr_RCR = 0, tr_CCR1 = 0, tr_CCR2 = 0, tr_CCR3 = 0, tr_CCR4 = 0, tr_BDTR = 0, tr_DCR = 0, tr_DMAR = 0,
     tr_OR = 0, tr_CCMR3 = 0, tr_CCR5 = 0, tr_CCR6 = 0\<rparr>"

definition zero_handle :: TIM_HandleTypeDef where
  "zero_handle = \<lparr>th_Instance = None, th_Init = \<lparr>ti_Prescaler = 0, ti_CounterMode = 0, ti_Period = 0, ti_ClockDivision = 0,
     ti_RepetitionCounter = 0, ti_AutoReloadPreload = 0\<rparr>, th_Channel = HAL_TIM_ACTIVE_CHANNEL_CLEARED, th_Lock = False,
     th_State = HAL_TIM_STATE_RESET\<rparr>"

definition reset_board :: "unit board" where
  "reset_board = \<lparr>RCC = RCC reset_state, FLASH = FLASH reset_state, NVIC = NVIC reset_state, SCB = SCB reset_state,
     SysTick = SysTick reset_state, SystemCoreClock = 8000000, hw_status = hw_status reset_state, hw_polls = 0,
     GPIO = (\<lambda>_. \<lparr>gp_MODER = 0, gp_OTYPER = 0, gp_OSPEEDR = 0, gp_PUPDR = 0, gp_IDR = 0, gp_ODR = 0, gp_LCKR = 0, gp_AFR = (\<lambda>_. 0)\<rparr>),
     EXTI = \<lparr>ex_IMR = 0, ex_EMR = 0, ex_RTSR = 0, ex_FTSR = 0, ex_SWIER = 0, ex_PR = 0, ex_IMR2 = 0, ex_EMR2 = 0, ex_RTSR2 = 0,
       ex_FTSR2 = 0, ex_SWIER2 = 0, ex_PR2 = 0\<rparr>,
     SYSCFG = \<lparr>sy_CFGR1 = 0, sy_RCR = 0, sy_EXTICR = (\<lambda>_. 0), sy_CFGR2 = 0, sy_CFGR3 = 0\<rparr>,
     CRCx = \<lparr>cr_DR = 0xFFFFFFFF, cr_IDR = 0, cr_CR = 0, cr_INIT = 0xFFFFFFFF, cr_POL = 0x04C11DB7\<rparr>,
     TIMx = (\<lambda>_. reset_timer), tim_handle = (\<lambda>_. zero_handle)\<rparr>"

lemma reset_board_at_reset: "at_reset reset_board"
  by (simp add: at_reset_def reset_board_def reset_timer_def zero_handle_def fresh_def READ_BIT_def)

lemma reset_board_clocks: "clocks_come_up reset_board"
  unfolding clocks_come_up_def
  by (rule conjI, simp add: reset_board_def reset_state_def READ_BIT_def)
    (rule exI [of _ 1], rule exI [of _ 2], rule exI [of _ 3], simp add: reset_board_def reset_state_def READ_BIT_def)

abbreviation (input) no_clk :: TIM_ClockConfigTypeDef where "no_clk \<equiv> \<lparr>tc_ClockSource = 0, tc_ClockPolarity = 0, tc_ClockPrescaler = 0, tc_ClockFilter = 0\<rparr>"
abbreviation (input) no_mst :: TIM_MasterConfigTypeDef where "no_mst \<equiv> \<lparr>mc_MasterOutputTrigger = 0, mc_MasterOutputTrigger2 = 0, mc_MasterSlaveMode = 0\<rparr>"
abbreviation (input) no_oc :: TIM_OC_InitTypeDef where "no_oc \<equiv> \<lparr>oc_OCMode = 0, oc_Pulse = 0, oc_OCPolarity = 0, oc_OCNPolarity = 0, oc_OCFastMode = 0, oc_OCIdleState = 0, oc_OCNIdleState = 0\<rparr>"

text \<open> C22. The start-up returns if and only if the hardware comes up: the flash accepts its wait states, and then readings of the ready bits
  of the oscillator and of the PLL and of the clock switch show, in this order, what each of the three loops waits for.
  When it returns the core runs at 64 MHz, also by the vendor's computation from the registers while the PLL is the source, the
  system tick comes 1000 times a second, both timers count up from the prescalers and periods of the project, their interrupts are
  enabled and the first one is already pending. The system tick preempts the timers' handlers and
  the pend service; the timers preempt the pend service and not each other. The pins are set up: serial port, lamp (off) and button.
\<close>

theorem board_setup_returns:
  assumes "at_reset s"
  shows "(board_setup clk mst oc mst7 s \<noteq> None \<longleftrightarrow> clocks_come_up s) \<and>
    (\<forall>t. board_setup clk mst oc mst7 s = Some t \<longrightarrow>
       SystemCoreClock t = 64000000 \<and>
       (on_pll (hw_status t (hw_polls t)) \<longrightarrow> SystemCoreClock (SystemCoreClockUpdate t) = SystemCoreClock t) \<and>
       1000 * (st_LOAD (SysTick t) + 1) = SystemCoreClock t \<and> st_CTRL (SysTick t) = 7 \<and>
       running 15 0xffff (TIMx t TIM3) \<and> running 63 65535 (TIMx t TIM7) \<and> READ_BIT (tr_SMCR (TIMx t TIM3)) TIM_SMCR_SMS = 0 \<and>
       bit (nv_ISER (NVIC t) 0) (nat TIM3_IRQn) \<and> bit (nv_ISER (NVIC t) 1) (nat (TIM7_DAC2_IRQn - 32)) \<and>
       (\<forall>i \<in> {TIM3_IRQn, TIM7_DAC2_IRQn, PendSV_IRQn}. preempts SysTick_IRQn i t) \<and>
       (\<forall>i \<in> {TIM3_IRQn, TIM7_DAC2_IRQn}. preempts i PendSV_IRQn t \<and> \<not> preempts TIM3_IRQn i t \<and> \<not> preempts TIM7_DAC2_IRQn i t) \<and>
       pins_ready t)"
proof (cases "SystemClock_Config (snd (HAL_Init s))")
  case None
  then show ?thesis
    using SystemClock_Config_iff [of "snd (HAL_Init s)"] by (simp add: board_setup_None)
next
  case (Some s1)
  obtain k where "s1 = clocks_set k (snd (HAL_Init s))"
    using SystemClock_Config_Some [OF Some] by blast
  with Some have c: "SystemClock_Config (snd (HAL_Init s)) = Some (clocks_set k (snd (HAL_Init s)))" by simp
  show ?thesis
  proof (rule board_setup_after_clocks [OF assms c, of clk mst oc mst7], goal_cases)
    case (1 t)
    then show ?case
      using SystemClock_Config_iff [of "snd (HAL_Init s)"] c SystemCoreClockUpdate_pll [of t]
      by (simp add: preempts_def)
  qed
qed

theorem board_setup_returns_witness:
  "\<exists>t. board_setup no_clk no_mst no_oc no_mst reset_board = Some t \<and> SystemCoreClock t = 64000000 \<and> preempts TIM3_IRQn PendSV_IRQn t"
proof -
  obtain t where "board_setup no_clk no_mst no_oc no_mst reset_board = Some t"
    using board_setup_returns [OF reset_board_at_reset, of no_clk no_mst no_oc no_mst] reset_board_clocks by auto
  then show ?thesis
    using board_setup_returns [OF reset_board_at_reset, of no_clk no_mst no_oc no_mst] by simp
qed

end
