(* ===== verification/TimeBase.thy ===== *)
theory TimeBase
  imports StartUp
begin

text \<open>
  The time base of the timer test: its clock (\<open>GetTimeuSec\<close> of \<^verbatim>\<open>src/swtimertest/Src/main.c\<close>) and its timer interrupts
  (\<^verbatim>\<open>stm32f3xx_it.c\<close>) on the timer that the start-up leaves running. The counter of a timer is what the reference manual
  says: it counts one up in as many cycles of the timer's clock as its prescaler says, from 0 to its period.
\<close>

section \<open>The counter\<close>

text \<open>The timers of the first bus run at its clock, or at twice that if the bus clock is a divided one.\<close>

definition timer_clock :: "'z stm32_scheme \<Rightarrow> u32" where
  "timer_clock s =
     (if READ_BIT (rcc_CFGR (RCC s)) RCC_CFGR_PPRE1 < LL_RCC_APB1_DIV_2 then HAL_RCC_GetPCLK1Freq s else 2 * HAL_RCC_GetPCLK1Freq s)"

text \<open>The counter and the number of its rollovers, \<open>c\<close> cycles after the start.\<close>

definition tim_count :: "TIM_TypeDef \<Rightarrow> nat \<Rightarrow> nat" where
  "tim_count t c = c div (unat (tr_PSC t) + 1) mod (unat (tr_ARR t) + 1)"

definition tim_rolls :: "TIM_TypeDef \<Rightarrow> nat \<Rightarrow> nat" where
  "tim_rolls t c = c div (unat (tr_PSC t) + 1) div (unat (tr_ARR t) + 1)"

text \<open>Microseconds that have passed after \<open>c\<close> cycles of a clock of \<open>f\<close> Hz.\<close>

definition micros :: "u32 \<Rightarrow> nat \<Rightarrow> nat" where
  "micros f c = c * 1000000 div unat f"

lemma micros_64: "micros 64000000 c = c div 64"
  by (simp add: micros_def)

lemma count_time:
  assumes "tr_PSC t = 15" "tr_ARR t = 0xffff"
  shows "push_bit 14 (of_nat (r0 + tim_rolls t c)) + drop_bit 2 (of_nat (tim_count t c) :: u32) = of_nat (16384 * r0 + c div 64)"
proof -
  have n: "tim_count t c = c div 16 mod 65536" "tim_rolls t c = c div 16 div 65536"
    using assms by (simp_all add: tim_count_def tim_rolls_def)
  have "drop_bit 2 (of_nat (c div 16 mod 65536) :: u32) = of_nat (c div 16 mod 65536 div 4)"
  proof (rule unsigned_word_eqI)
    have "c div 16 mod 65536 < 65536" by simp
    then show "unat (drop_bit 2 (of_nat (c div 16 mod 65536) :: u32)) = unat (of_nat (c div 16 mod 65536 div 4) :: u32)"
      by (simp add: unsigned_drop_bit_eq unat_div unsigned_of_nat drop_bit_eq_div take_bit_nat_eq_self)
  qed
  then have "push_bit 14 (of_nat (r0 + tim_rolls t c)) + drop_bit 2 (of_nat (tim_count t c) :: u32) =
      of_nat (16384 * (r0 + c div 16 div 65536) + c div 16 mod 65536 div 4)"
    by (simp only: n push_bit_of_nat [symmetric] push_bit_eq_mult of_nat_add [symmetric]) (simp add: mult.commute)
  moreover have "16384 * (r0 + c div 16 div 65536) + c div 16 mod 65536 div 4 = 16384 * r0 + c div 64"
  proof -
    define m where "m = c div 16"
    have "m = 4 * (16384 * (m div 65536)) + m mod 65536" by simp
    then have "m div 4 = (4 * (16384 * (m div 65536)) + m mod 65536) div 4" by simp
    also have "\<dots> = 16384 * (m div 65536) + m mod 65536 div 4" by (rule div_mult_self4) simp
    finally have "16384 * (m div 65536) + m mod 65536 div 4 = m div 4" by (rule sym)
    moreover have "c div 16 div 4 = c div 64" using div_mult2_eq [of c 16 4] by simp
    ultimately show ?thesis by (simp add: m_def algebra_simps)
  qed
  ultimately show ?thesis by (simp only:)
qed


section \<open>Reading the clock\<close>

text \<open>\<open>p\<close> rollovers are not yet in the program's count.\<close>

lemma time_at_cycle:
  assumes "tr_PSC t = 15" "tr_ARR t = 0xffff" "snd (tt_tim3 w (tt_reads w + k)) = of_nat (tim_count t c)"
    "Clock3 w + rolled w (Suc k) + p = of_nat (r0 + tim_rolls t c)"
  shows "time_at w k = of_nat (16384 * r0 + c div 64) - 16384 * p"
proof -
  have c: "Clock3 w + rolled w (Suc k) = of_nat (r0 + tim_rolls t c) - p"
    using assms(4) unfolding eq_diff_eq .
  have "push_bit 14 (x - p) = push_bit 14 x - 16384 * p" for x :: u32
    by (simp add: push_bit_eq_mult algebra_simps)
  then have "time_at w k = push_bit 14 (of_nat (r0 + tim_rolls t c)) + drop_bit 2 (of_nat (tim_count t c) :: u32) - 16384 * p"
    unfolding time_at_def assms(3) c by simp
  then show ?thesis unfolding count_time [OF assms(1,2)] .
qed

lemma GetTimeuSec_cycle:
  assumes "tr_PSC t = 15" "tr_ARR t = 0xffff" "\<forall>k. snd (tt_tim3 w (tt_reads w + k)) = of_nat (tim_count t (cyc k))"
    "\<forall>k. Clock3 w + rolled w (Suc k) + p = of_nat (r0 + tim_rolls t (cyc k))"
    "\<exists>k. cyc k \<le> cyc (Suc k) \<and> cyc (Suc k) \<le> cyc k + 64"
  shows "\<exists>n. GetTimeuSec w = Some (of_nat (16384 * r0 + cyc (Suc n) div 64) - 16384 * p, after_reads (Suc (Suc n)) w)"
proof -
  have t: "time_at w k = of_nat (16384 * r0 + cyc k div 64) - 16384 * p" for k
    using assms by (intro time_at_cycle) blast+
  obtain k where k: "cyc k \<le> cyc (Suc k)" "cyc (Suc k) \<le> cyc k + 64"
    using assms(5) by blast
  have "cyc (Suc k) div 64 \<le> (cyc k + 64) div 64" "cyc k div 64 \<le> cyc (Suc k) div 64"
    by (rule div_le_mono, rule k)+
  then have "cyc (Suc k) div 64 = cyc k div 64 \<or> cyc (Suc k) div 64 = cyc k div 64 + 1"
    by auto
  then have le: "time_at w (Suc k) - time_at w k \<le> 1"
    by (auto simp: t)
  define n where "n = (LEAST n. time_at w (Suc n) - time_at w n \<le> 1)"
  have "time_at w (Suc n) - time_at w n \<le> 1"
    unfolding n_def by (rule LeastI, rule le)
  moreover have "\<forall>j < n. 1 < time_at w (Suc j) - time_at w j"
    using not_less_Least n_def by (auto simp: linorder_not_le [symmetric])
  ultimately show ?thesis
    using GetTimeuSec_first [of w n] t [of "Suc n"] by auto
qed


lemma board_timer3:
  assumes "at_reset s" "board_setup clk mst oc mst7 s = Some b"
  shows "tr_PSC (TIMx b TIM3) = 15" "tr_ARR (TIMx b TIM3) = 0xffff" "timer_clock b = 64000000"
    "\<not> preempts TIM3_IRQn SysTick_IRQn b" "irq_pending TIM_FLAG_UPDATE TIM_IT_UPDATE (TIMx b TIM3)"
    "th_Instance (tim_handle b htim3) = Some TIM3" "th_Instance (tim_handle b htim7) = Some TIM7" "stm32_tim.more b = stm32_tim.more s"
proof -
  obtain s1 where s1: "SystemClock_Config (snd (HAL_Init s)) = Some s1"
    using assms(2) board_setup_None by fastforce
  obtain k where "s1 = clocks_set k (snd (HAL_Init s))"
    using SystemClock_Config_Some [OF s1] by blast
  with s1 have c: "SystemClock_Config (snd (HAL_Init s)) = Some (clocks_set k (snd (HAL_Init s)))" by simp
  have "running 15 0xffff (TIMx b TIM3) \<and> HAL_RCC_GetPCLK1Freq b = 32000000 \<and> READ_BIT (rcc_CFGR (RCC b)) RCC_CFGR_PPRE1 = LL_RCC_APB1_DIV_2 \<and>
      \<not> preempts TIM3_IRQn SysTick_IRQn b \<and> th_Instance (tim_handle b htim3) = Some TIM3 \<and> th_Instance (tim_handle b htim7) = Some TIM7 \<and>
      stm32_tim.more b = stm32_tim.more s"
  proof (rule board_setup_after_clocks [OF assms(1) c, of clk mst oc mst7], goal_cases)
    case (1 t)
    then show ?case
      using assms(2) clocks_set_CFGR(1) [of k "snd (HAL_Init s)"]
      by (simp add: HAL_RCC_GetPCLK1Freq_def HAL_RCC_GetHCLKFreq_def READ_BIT_def APBPrescTable_def preempts_def)
  qed
  then show "tr_PSC (TIMx b TIM3) = 15" "tr_ARR (TIMx b TIM3) = 0xffff" "timer_clock b = 64000000"
    "\<not> preempts TIM3_IRQn SysTick_IRQn b" "irq_pending TIM_FLAG_UPDATE TIM_IT_UPDATE (TIMx b TIM3)"
    "th_Instance (tim_handle b htim3) = Some TIM3" "th_Instance (tim_handle b htim7) = Some TIM7" "stm32_tim.more b = stm32_tim.more s"
    by (simp_all add: running_def timer_clock_def)
qed

text \<open>The system tick: the background timers are signalled, then the clock is read.\<close>

lemma SysTick_Handler_reads:
  assumes "tt_ready w"
  obtains v where "Clock3 v = Clock3 w" "tt_tim3 v = tt_tim3 w" "tt_reads v = tt_reads w"
    "\<And>t u. GetTimeuSec v = Some (t, u) \<Longrightarrow> SysTick_Handler w = Some (u\<lparr>testusec := t\<rparr>)"
proof -
  let ?w = "w\<lparr>uwTick := uwTick w + 1\<rparr>"
  let ?w1 = "upd_entry (tt_at w 0) (te_scheduled_update USAT_INC_narrow) ?w"
  let ?w2 = "if uwTick ?w1 = 0 then ?w1\<lparr>extendedTick := extendedTick ?w1 + 1\<rparr> else ?w1"
  have bg: "bgTimerTask ?w = tt_at w 0"
    using assms by (simp add: tt_ready_def)
  have "TS_SignalTask (tt_at w 0) (Some ?w) = Some (TSC_OK, ?w1)"
    using assms by (simp add: TS_SignalTask_def TSC_SignalTask_def bad_handle_def te_scheduled_update_eq tt_ready_def) (simp add: tt_at_def)
  then have "SysTick_Handler w = map_option (\<lambda>(t, u). u\<lparr>testusec := t\<rparr>) (GetTimeuSec ?w2)"
    by (simp only: SysTick_Handler_def HAL_SYSTICK_Callback_def bg Let_def bind.simps prod.case)
  then show thesis
    by (intro that [of ?w2]) (simp_all add: upd_entry_def)
qed


section \<open>The timer's interrupts\<close>

text \<open>The callbacks of the driver as the application defines them; all but one are the driver's empty ones.\<close>

definition app_callback :: "(tt_tim, tt_world) tim_runner" where
  "app_callback c h = stm32_tim.more_update (if c = PeriodElapsedCallback then HAL_TIM_PeriodElapsedCallback h else id)"

definition tim_interrupt :: "tt_tim \<Rightarrow> tt_irq" where
  "tim_interrupt h = (case h of htim3 \<Rightarrow> Irq_TIM3 | htim7 \<Rightarrow> Irq_TIM7)"

lemma app_calls: "fold (\<lambda>c. if c = PeriodElapsedCallback then HAL_TIM_PeriodElapsedCallback h else id) (irq_calls t) w =
    (if irq_pending TIM_FLAG_UPDATE TIM_IT_UPDATE t then HAL_TIM_PeriodElapsedCallback h w else w)"
proof -
  let ?g = "\<lambda>c. if c = PeriodElapsedCallback then HAL_TIM_PeriodElapsedCallback h else id"
  have "fold ?g (channel_calls f sel t) w = w" for f sel w
    by (simp add: channel_calls_def)
  moreover have "fold ?g (if b then [c] else []) w = (if b then ?g c w else w)" for b c w
    by simp
  ultimately show ?thesis
    unfolding irq_calls_def fold_append comp_apply by simp
qed

lemma acked_all: "(f, it) \<in> set fs \<Longrightarrow> irq_pending f it t \<Longrightarrow> f AND irq_acked fs t = f"
proof (induction fs)
  case (Cons p fs)
  obtain g jt where p: "p = (g, jt)" by (cases p)
  show ?case
  proof (cases "(f, it) = p")
    case True
    then show ?thesis using Cons.prems p by (simp add: bit.conj_disj_distrib)
  next
    case False
    then have "f AND irq_acked fs t = f" using Cons by auto
    then show ?thesis using p by (simp add: bit.conj_disj_distrib or.commute)
  qed
qed simp

lemma none_pending:
  assumes "(f, it) \<in> set irq_flags"
  shows "\<not> irq_pending f it (t\<lparr>tr_SR := tr_SR t AND NOT (irq_acked irq_flags t)\<rparr>)"
proof
  assume p: "irq_pending f it (t\<lparr>tr_SR := tr_SR t AND NOT (irq_acked irq_flags t)\<rparr>)"
  then have f: "(tr_SR t AND NOT (irq_acked irq_flags t)) AND f = f" and it: "tr_DIER t AND it = it"
    by (simp_all add: irq_pending_def)
  have "tr_SR t AND f = f"
    using f by (metis and.assoc and.commute and.left_idem)
  then have "f AND irq_acked irq_flags t = f"
    using acked_all [OF assms] it by (simp add: irq_pending_def)
  then have "f AND NOT (irq_acked irq_flags t) = 0"
    by (metis and.assoc bit.conj_cancel_right and_zero_eq)
  then have "f = 0"
    using f by (metis and.assoc and.commute and_zero_eq)
  then show False using assms by (auto simp: irq_flags_def)
qed

text \<open>The first interrupt comes with the start: the clock begins at 16384.\<close>

lemma first_rollover:
  assumes "at_reset s" "board_setup clk mst oc mst7 s = Some b"
  shows "\<exists>t. HAL_TIM_IRQHandler app_callback htim3 b = Some t \<and> Clock3 (stm32_tim.more t) = Clock3 (stm32_tim.more s) + 1"
proof -
  note b = board_timer3 [OF assms]
  let ?g = "\<lambda>c. if c = PeriodElapsedCallback then HAL_TIM_PeriodElapsedCallback htim3 else id"
  obtain ch where "HAL_TIM_IRQHandler app_callback htim3 b =
      Some (irq_served htim3 TIM3 irq_flags ch (fold ?g (irq_calls (TIMx b TIM3)) (stm32_tim.more b)) b)"
    by (rule HAL_TIM_IRQHandler_serves [OF b(6), where run = app_callback and g = ?g]) (simp_all add: app_callback_def)
  then show ?thesis
    using b(5,8) by (simp add: app_calls HAL_TIM_PeriodElapsedCallback_def Let_def)
qed

section \<open>Properties\<close>

lemma reset_board_starts: "\<exists>b. board_setup no_clk no_mst no_oc no_mst reset_board = Some b"
proof -
  obtain s1 where s1: "SystemClock_Config (snd (HAL_Init reset_board)) = Some s1"
    using SystemClock_Config_iff [of "snd (HAL_Init reset_board)"] reset_board_clocks by auto
  obtain k where "s1 = clocks_set k (snd (HAL_Init reset_board))"
    using SystemClock_Config_Some [OF s1] by blast
  with s1 have c: "SystemClock_Config (snd (HAL_Init reset_board)) = Some (clocks_set k (snd (HAL_Init reset_board)))" by simp
  show ?thesis
    by (rule board_setup_after_clocks [OF reset_board_at_reset c]) blast
qed

text \<open> C15. The clock tells microseconds. On the timer that the start-up leaves running, if every reading finds the counter that the elapsed
  cycles of its clock give and every rollover up to it counted (besides \<open>r0\<close> counted before), and some two consecutive readings are
  at most a microsecond apart, then \<open>GetTimeuSec\<close> returns, and its result is, modulo the width of the word, the number of microseconds
  that have passed at its last reading, plus 16384 for each of the \<open>r0\<close>. \<close>

theorem GetTimeuSec_micros:
  assumes "at_reset s" "board_setup clk mst oc mst7 s = Some b"
    and "\<forall>k. snd (tt_tim3 w (tt_reads w + k)) = of_nat (tim_count (TIMx b TIM3) (cyc k))"
    and "\<forall>k. Clock3 w + rolled w (Suc k) = of_nat (r0 + tim_rolls (TIMx b TIM3) (cyc k))"
    and "\<exists>k. cyc k \<le> cyc (Suc k) \<and> cyc (Suc k) \<le> cyc k + 64"
  shows "\<exists>n. GetTimeuSec w = Some (of_nat (16384 * r0 + micros (timer_clock b) (cyc (Suc n))), after_reads (Suc (Suc n)) w)"
proof -
  have "\<forall>k. Clock3 w + rolled w (Suc k) + 0 = of_nat (r0 + tim_rolls (TIMx b TIM3) (cyc k))"
    unfolding add_0_right by (rule assms(4))
  from GetTimeuSec_cycle [OF board_timer3(1,2) [OF assms(1,2)] assms(3) this assms(5)] show ?thesis
    by (simp only: board_timer3(3) [OF assms(1,2)] micros_64 mult_zero_right diff_zero)
qed

theorem GetTimeuSec_micros_witness:
  "\<forall>w. \<exists>b. board_setup no_clk no_mst no_oc no_mst reset_board = Some b \<and>
     (\<exists>u. GetTimeuSec (w\<lparr>Clock3 := 0, tt_reads := 0, tt_tim3 := \<lambda>k. (False, if k = 0 then 0 else 400)\<rparr>) = Some (100, u))"
proof
  fix w :: tt_world
  let ?w = "w\<lparr>Clock3 := 0, tt_reads := 0, tt_tim3 := \<lambda>k. (False, if k = 0 then 0 else 400)\<rparr>"
  let ?cyc = "\<lambda>k :: nat. if k = 0 then 0 else 6400 :: nat"
  obtain b where b: "board_setup no_clk no_mst no_oc no_mst reset_board = Some b"
    using reset_board_starts by blast
  note r = reset_board_at_reset b
  note t = board_timer3(1,2) [OF r]
  have rolled: "rolled ?w k = 0" for k
    by (induction k) simp_all
  have "\<exists>n. GetTimeuSec ?w = Some (of_nat (16384 * 0 + micros (timer_clock b) (?cyc (Suc n))), after_reads (Suc (Suc n)) ?w)"
  proof (rule GetTimeuSec_micros [OF r])
    show "\<forall>k. snd (tt_tim3 ?w (tt_reads ?w + k)) = of_nat (tim_count (TIMx b TIM3) (?cyc k))"
      by (simp add: tim_count_def t)
    show "\<forall>k. Clock3 ?w + rolled ?w (Suc k) = of_nat (0 + tim_rolls (TIMx b TIM3) (?cyc k))"
      by (simp only: rolled) (simp add: tim_rolls_def t)
    show "\<exists>k. ?cyc k \<le> ?cyc (Suc k) \<and> ?cyc (Suc k) \<le> ?cyc k + 64"
      by (rule exI [of _ 1]) simp
  qed
  then have "\<exists>u. GetTimeuSec ?w = Some (100, u)"
    by (auto simp: board_timer3(3) [OF r] micros_64)
  with b show "\<exists>b. board_setup no_clk no_mst no_oc no_mst reset_board = Some b \<and> (\<exists>u. GetTimeuSec ?w = Some (100, u))"
    by blast
qed

text \<open> C33. The time the system tick records is right only when no rollover is pending. The tick preempts the timer's
  handler and is not preempted by it, so its handler sees no further rollover counted: when \<open>p\<close> rollovers are not yet counted as it begins,
  it returns with a \<open>testusec\<close> that is \<open>p\<close> times 16384 behind the microseconds of its last reading. The two readings agree, so the
  test in \<open>GetTimeuSec\<close> that should catch a rollover passes. \<close>

theorem SysTick_Handler_late:
  assumes "at_reset s" "board_setup clk mst oc mst7 s = Some b" "tt_ready w"
    and "\<forall>k. fst (tt_tim3 w (tt_reads w + k)) \<longrightarrow> preempts TIM3_IRQn SysTick_IRQn b"
    and "\<forall>k. snd (tt_tim3 w (tt_reads w + k)) = of_nat (tim_count (TIMx b TIM3) (cyc k))"
    and "\<forall>k. Clock3 w + p = of_nat (r0 + tim_rolls (TIMx b TIM3) (cyc k))"
    and "\<exists>k. cyc k \<le> cyc (Suc k) \<and> cyc (Suc k) \<le> cyc k + 64"
  shows "\<exists>n v. SysTick_Handler w = Some v \<and>
    testusec v = of_nat (16384 * r0 + micros (timer_clock b) (cyc (Suc n))) - 16384 * p"
proof -
  obtain v where v: "Clock3 v = Clock3 w" "tt_tim3 v = tt_tim3 w" "tt_reads v = tt_reads w"
    "\<And>t u. GetTimeuSec v = Some (t, u) \<Longrightarrow> SysTick_Handler w = Some (u\<lparr>testusec := t\<rparr>)"
    using SysTick_Handler_reads [OF assms(3)] by blast
  have "rolled v k = 0" for k
    using assms(4) board_timer3(4) [OF assms(1,2)] by (induction k) (simp_all add: v(2,3))
  then obtain n where "GetTimeuSec v = Some (of_nat (16384 * r0 + cyc (Suc n) div 64) - 16384 * p, after_reads (Suc (Suc n)) v)"
    using GetTimeuSec_cycle [OF board_timer3(1,2) [OF assms(1,2)], of v cyc p r0] assms(5-7) v(1-3)
    by (auto simp del: rolled.simps)
  then show ?thesis
    using v(4) by (auto simp: board_timer3(3) [OF assms(1,2)] micros_64)
qed

theorem SysTick_Handler_late_witness:
  "\<exists>b u v. board_setup no_clk no_mst no_oc no_mst reset_board = Some b \<and> Clock3 u = 0 \<and>
     tim_count (TIMx b TIM3) 1048576 = 0 \<and> micros (timer_clock b) 1048576 = 16384 \<and>
     tt_tim3 u = (\<lambda>_. (False, 0)) \<and> SysTick_Handler (u :: tt_world) = Some v \<and> testusec v = 0"
proof -
  obtain w :: tt_world where "w = w" by blast
  let ?w = "w\<lparr>tt_tim3 := \<lambda>_. (False, 0), tt_bg := (tt_bg w)\<lparr>timerList := None\<rparr>\<rparr>"
  obtain b where b: "board_setup no_clk no_mst no_oc no_mst reset_board = Some b"
    using reset_board_starts by blast
  note r = reset_board_at_reset b
  note t = board_timer3(1,2) [OF r]
  have "clock_ok ?w" "timerList (tt_bg ?w) = None"
    by (auto simp: clock_ok_def steady_def)
  from main_setup_phase [OF this, of 1000 0 1] obtain w0 where "tt_ready w0"
    by (auto simp: phase_def)
  then have ready: "tt_ready (w0\<lparr>Clock3 := 0, tt_tim3 := \<lambda>_. (False, 0)\<rparr>)"
    by (simp add: tt_ready_def tt_at_def clock_ok_def steady_def) auto
  let ?u = "w0\<lparr>Clock3 := 0, tt_tim3 := \<lambda>_. (False, 0)\<rparr>"
  have "\<exists>n v. SysTick_Handler ?u = Some v \<and>
      testusec v = of_nat (16384 * 0 + micros (timer_clock b) ((\<lambda>_. 1048576) (Suc n))) - 16384 * 1"
    by (rule SysTick_Handler_late [OF r ready]) (simp_all add: tim_count_def tim_rolls_def t)
  then obtain v where "SysTick_Handler ?u = Some v" "testusec v = 0"
    by (auto simp: board_timer3(3) [OF r] micros_64)
  with b show "\<exists>b u v. board_setup no_clk no_mst no_oc no_mst reset_board = Some b \<and> Clock3 u = 0 \<and>
     tim_count (TIMx b TIM3) 1048576 = 0 \<and> micros (timer_clock b) 1048576 = 16384 \<and>
     tt_tim3 u = (\<lambda>_. (False, 0)) \<and> SysTick_Handler (u :: tt_world) = Some v \<and> testusec v = 0"
    by (intro exI [of _ b] exI [of _ ?u] exI [of _ v])
      (simp add: tim_count_def t board_timer3(3) [OF r] micros_64)
qed



end
