(* ===== verification/TaskCounter.thy ===== *)
theory TaskCounter
  imports Prelude
begin

text \<open>
  Counters signalled through handles: the service of \<^verbatim>\<open>src/src/taskCounter.c\<close> and
  \<^verbatim>\<open>taskCounter.h\<close>, and the class version of \<^verbatim>\<open>taskCounterClass.c\<close> and
  \<^verbatim>\<open>taskCounterClass.h\<close>. The users' counters are 16 bit cells of a memory; a handle of the
  service is a number, a handle of the class the address of its record. \<open>None\<close> as the outcome
  of a call is an access through a NULL counter pointer. A pointer takes 4 bytes.
\<close>

section \<open>The service (taskCounter.c)\<close>

record tc_state =
  counterPointer :: "nat \<Rightarrow> nat option"
  tc_counters :: u32
  tc_allocated :: u32
  tc_misuse :: u32
  tc_mem :: "nat \<Rightarrow> u16"

definition satuinc :: "u32 \<Rightarrow> u32" where
  "satuinc val = (if val + 1 = 0 then val + 1 - 1 else val + 1)"

definition TC_InitHandleService :: "u32 \<Rightarrow> tc_state \<Rightarrow> tc_state" where
  "TC_InitHandleService spaceSize st =
     st\<lparr>counterPointer := (\<lambda>_. None), tc_counters := spaceSize div 4, tc_allocated := 0, tc_misuse := 0\<rparr>"

definition TC_AssociateHandle :: "nat option \<Rightarrow> tc_state \<Rightarrow> i32 \<times> tc_state" where
  "TC_AssociateHandle myCounter st =
     (if tc_allocated st \<ge> tc_counters st then (0, st)
      else let handle = tc_allocated st + 1 in
        (handle, st\<lparr>tc_allocated := handle,
           counterPointer := (counterPointer st)(unat (handle - 1) := myCounter)\<rparr>))"

text \<open>The guard all calls share; the signed handle is compared as unsigned, like \<open>allocated\<close>.\<close>

definition tc_valid :: "i32 \<Rightarrow> tc_state \<Rightarrow> bool" where
  "tc_valid task st \<longleftrightarrow> task \<noteq> 0 \<and> task \<le> tc_allocated st"

definition tc_cell :: "i32 \<Rightarrow> tc_state \<Rightarrow> nat option" where
  "tc_cell task st = counterPointer st (unat (task - 1))"

definition TC_SignalTask :: "i32 \<Rightarrow> tc_state \<Rightarrow> tc_state option" where
  "TC_SignalTask task st =
     (if tc_valid task st then
        (case tc_cell task st of
           None \<Rightarrow> None
         | Some a \<Rightarrow>
             let temp = tc_mem st a + 1
             in Some (if temp \<noteq> 0 then st\<lparr>tc_mem := (tc_mem st)(a := temp)\<rparr> else st))
      else Some (st\<lparr>tc_misuse := satuinc (tc_misuse st)\<rparr>))"

definition TC_Test :: "i32 \<Rightarrow> tc_state \<Rightarrow> (u16 \<times> tc_state) option" where
  "TC_Test task st =
     (if tc_valid task st then map_option (\<lambda>a. (tc_mem st a, st)) (tc_cell task st)
      else Some (0, st\<lparr>tc_misuse := satuinc (tc_misuse st)\<rparr>))"

definition TC_TestAndClear :: "i32 \<Rightarrow> tc_state \<Rightarrow> (u16 \<times> tc_state) option" where
  "TC_TestAndClear task st =
     (if tc_valid task st then
        map_option (\<lambda>a. (tc_mem st a, st\<lparr>tc_mem := (tc_mem st)(a := 0)\<rparr>)) (tc_cell task st)
      else Some (0, st\<lparr>tc_misuse := satuinc (tc_misuse st)\<rparr>))"

definition TC_misuse :: "tc_state \<Rightarrow> u32 \<times> tc_state" where
  "TC_misuse st = (tc_misuse st, st\<lparr>tc_misuse := 0\<rparr>)"

section \<open>The class (taskCounterClass.c)\<close>

record tcc_t =
  tcc_counter :: "nat option"
  tcc_context :: int

record tcc_heap =
  tcc_obj :: "nat \<Rightarrow> tcc_t"
  tcc_mem :: "nat \<Rightarrow> u16"

definition TCC_AssociateHandle :: "nat \<Rightarrow> nat option \<Rightarrow> int \<Rightarrow> tcc_heap \<Rightarrow> nat \<times> tcc_heap" where
  "TCC_AssociateHandle tcc myCounter context h =
     (tcc, h\<lparr>tcc_obj := (tcc_obj h)(tcc := \<lparr>tcc_counter = myCounter, tcc_context = context\<rparr>)\<rparr>)"

definition TCC_SignalUp :: "nat \<Rightarrow> tcc_heap \<Rightarrow> (int \<times> tcc_heap) option" where
  "TCC_SignalUp task h =
     (if task \<noteq> 0 then
        map_option (\<lambda>a. (tcc_context (tcc_obj h task),
            h\<lparr>tcc_mem := (tcc_mem h)(a := USAT_INC_narrow (tcc_mem h a))\<rparr>)) (tcc_counter (tcc_obj h task))
      else Some (0, h))"

definition TCC_SignalDown :: "nat \<Rightarrow> tcc_heap \<Rightarrow> (int \<times> tcc_heap) option" where
  "TCC_SignalDown task h =
     (if task \<noteq> 0 then
        map_option (\<lambda>a. (tcc_context (tcc_obj h task),
            h\<lparr>tcc_mem := (tcc_mem h)(a := USAT_DEC (tcc_mem h a))\<rparr>)) (tcc_counter (tcc_obj h task))
      else Some (0, h))"

definition TCC_Test :: "nat \<Rightarrow> tcc_heap \<Rightarrow> u16 option" where
  "TCC_Test task h = (if task \<noteq> 0 then map_option (tcc_mem h) (tcc_counter (tcc_obj h task)) else Some 0)"

definition TCC_TestAndClear :: "nat \<Rightarrow> tcc_heap \<Rightarrow> (u16 \<times> tcc_heap) option" where
  "TCC_TestAndClear task h =
     (if task \<noteq> 0 then
        map_option (\<lambda>a. (tcc_mem h a, h\<lparr>tcc_mem := (tcc_mem h)(a := 0)\<rparr>)) (tcc_counter (tcc_obj h task))
      else Some (0, h))"

section \<open>Counting signals\<close>

text \<open>Every handle the service gave out leads to a counter.\<close>

definition tc_inv :: "tc_state \<Rightarrow> bool" where
  "tc_inv st \<longleftrightarrow> (\<forall>i < unat (tc_allocated st). counterPointer st i \<noteq> None)"

lemma tc_inv_init: "tc_inv (TC_InitHandleService n st)"
  by (simp add: tc_inv_def TC_InitHandleService_def)

lemma tc_inv_associate:
  assumes "tc_inv st"
  shows "tc_inv (snd (TC_AssociateHandle (Some a) st))"
proof (cases "tc_counters st \<le> tc_allocated st")
  case False
  then have "tc_allocated st + 1 \<noteq> 0"
    by (metis eq_neg_iff_add_eq_0 linorder_not_le word_order.extremum)
  with assms show ?thesis
    by (auto simp: tc_inv_def TC_AssociateHandle_def Let_def unat_inc less_Suc_eq)
qed (use assms in \<open>simp add: TC_AssociateHandle_def\<close>)

lemma tc_cell_inv: "tc_inv st \<Longrightarrow> tc_valid task st \<Longrightarrow> tc_cell task st \<noteq> None"
proof -
  assume inv: "tc_inv st" and valid: "tc_valid task st"
  have "unat task \<le> unat (tc_allocated st)" "unat (task - 1) = unat task - 1"
    using valid by (simp_all add: tc_valid_def word_le_nat_alt unat_dec)
  moreover have "unat task \<noteq> 0"
    using valid by (metis tc_valid_def unsigned_eq_0_iff)
  ultimately have "unat (task - 1) < unat (tc_allocated st)"
    by linarith
  then show ?thesis
    using inv by (auto simp: tc_inv_def tc_cell_def)
qed

primrec tc_signals :: "i32 list \<Rightarrow> tc_state \<Rightarrow> tc_state option" where
  "tc_signals [] st = Some st"
| "tc_signals (h # hs) st = Option.bind (TC_SignalTask h st) (tc_signals hs)"

definition signals_to :: "tc_state \<Rightarrow> nat \<Rightarrow> i32 list \<Rightarrow> nat" where
  "signals_to st a hs = length (filter (\<lambda>h. tc_valid h st \<and> tc_cell h st = Some a) hs)"

definition bad_signals :: "tc_state \<Rightarrow> i32 list \<Rightarrow> nat" where
  "bad_signals st hs = length (filter (\<lambda>h. \<not> tc_valid h st) hs)"

lemma satuinc_wide: "satuinc v = USAT_INC_wide v"
  by (auto simp: satuinc_def USAT_INC_wide_def dest: sym simp flip: eq_neg_iff_add_eq_0)

lemma TC_SignalTask_step:
  assumes "tc_inv st"
  shows "\<exists>st1. TC_SignalTask h st = Some st1 \<and> counterPointer st1 = counterPointer st \<and>
    tc_allocated st1 = tc_allocated st \<and>
    (\<forall>a. unat (tc_mem st1 a) = min (unat (tc_mem st a) + signals_to st a [h]) 65535) \<and>
    unat (tc_misuse st1) = min (unat (tc_misuse st) + bad_signals st [h]) (2 ^ 32 - 1)"
proof -
  have less: "unat (tc_mem st a) \<le> 65535" "unat (tc_misuse st) \<le> 2 ^ 32 - 1" for a
    using unsigned_less [where w = "tc_mem st a" and ?'a = nat]
      unsigned_less [where w = "tc_misuse st" and ?'a = nat] by simp_all
  show ?thesis
  proof (cases "tc_valid h st")
    case True
    then obtain a where a: "tc_cell h st = Some a"
      using tc_cell_inv [OF assms] by auto
    have inc: "unat (USAT_INC_wide (tc_mem st a)) = min (unat (tc_mem st a) + 1) 65535"
      by (simp add: USAT_INC_wide_unat)
    have "TC_SignalTask h st = Some (st\<lparr>tc_mem := (tc_mem st)(a := USAT_INC_wide (tc_mem st a))\<rparr>)"
      using True a by (simp add: TC_SignalTask_def USAT_INC_wide_def Let_def)
    then show ?thesis
      using True a less inc by (auto simp: signals_to_def bad_signals_def min_def)
  next
    case False
    then show ?thesis
      using less by (simp add: TC_SignalTask_def signals_to_def bad_signals_def satuinc_wide USAT_INC_wide_unat)
  qed
qed

lemma tc_signals_count:
  "tc_inv st \<Longrightarrow> \<exists>st1. tc_signals hs st = Some st1 \<and> tc_inv st1 \<and>
    counterPointer st1 = counterPointer st \<and> tc_allocated st1 = tc_allocated st \<and>
    (\<forall>a. unat (tc_mem st1 a) = min (unat (tc_mem st a) + signals_to st a hs) 65535) \<and>
    unat (tc_misuse st1) = min (unat (tc_misuse st) + bad_signals st hs) (2 ^ 32 - 1)"
proof (induction hs arbitrary: st)
  case Nil
  have "unat (tc_mem st a) \<le> 65535" "unat (tc_misuse st) \<le> 2 ^ 32 - 1" for a
    using unsigned_less [where w = "tc_mem st a" and ?'a = nat]
      unsigned_less [where w = "tc_misuse st" and ?'a = nat] by simp_all
  then show ?case
    using Nil by (simp add: signals_to_def bad_signals_def)
next
  case (Cons h hs)
  obtain st1 where st1: "TC_SignalTask h st = Some st1" "counterPointer st1 = counterPointer st"
    "tc_allocated st1 = tc_allocated st"
    "\<And>a. unat (tc_mem st1 a) = min (unat (tc_mem st a) + signals_to st a [h]) 65535"
    "unat (tc_misuse st1) = min (unat (tc_misuse st) + bad_signals st [h]) (2 ^ 32 - 1)"
    using TC_SignalTask_step [OF Cons.prems] by blast
  have same: "signals_to st1 = signals_to st" "bad_signals st1 = bad_signals st"
    using st1(2,3) by (auto simp: signals_to_def bad_signals_def tc_valid_def tc_cell_def fun_eq_iff)
  have "tc_inv st1"
    using Cons.prems st1(2,3) by (simp add: tc_inv_def)
  from Cons.IH [OF this] obtain st2 where st2: "tc_signals hs st1 = Some st2" "tc_inv st2"
    "counterPointer st2 = counterPointer st" "tc_allocated st2 = tc_allocated st"
    "\<And>a. unat (tc_mem st2 a) = min (unat (tc_mem st1 a) + signals_to st a hs) 65535"
    "unat (tc_misuse st2) = min (unat (tc_misuse st1) + bad_signals st hs) (2 ^ 32 - 1)"
    unfolding same st1(2,3) by blast
  have add: "signals_to st a (h # hs) = signals_to st a [h] + signals_to st a hs"
    "bad_signals st (h # hs) = bad_signals st [h] + bad_signals st hs" for a
    by (simp_all add: signals_to_def bad_signals_def)
  have sat: "min (min (a + b) m + c) m = min (a + (b + c)) m" for a b c m :: nat
    by (simp add: min_def)
  show ?case
    using st1(1) st2(1-4) by (simp add: st2(5,6) st1(4,5) add sat)
qed

section \<open>Properties\<close>

text \<open> C29. The service counts signals exactly and saturates: after any sequence of signals, to valid and
  invalid handles in any mixture, every user counter has grown by the number of signals to handles
  associated with it, stopping at 65535, the misuse counter by the number of invalid ones, and
  \<open>TC_TestAndClear\<close> on a valid handle then returns that count and leaves 0. \<close>

theorem TC_signals_saturate:
  assumes "tc_inv st"
  shows "\<exists>st1. tc_signals hs st = Some st1 \<and>
    (\<forall>a. unat (tc_mem st1 a) = min (unat (tc_mem st a) + signals_to st a hs) 65535) \<and>
    unat (tc_misuse st1) = min (unat (tc_misuse st) + bad_signals st hs) (2 ^ 32 - 1) \<and>
    (\<forall>h a. tc_valid h st \<and> tc_cell h st = Some a \<longrightarrow>
       (\<exists>st2. TC_TestAndClear h st1 = Some (tc_mem st1 a, st2) \<and> TC_Test h st2 = Some (0, st2)))"
proof -
  obtain st1 where st1: "tc_signals hs st = Some st1" "counterPointer st1 = counterPointer st"
    "tc_allocated st1 = tc_allocated st"
    "\<forall>a. unat (tc_mem st1 a) = min (unat (tc_mem st a) + signals_to st a hs) 65535"
    "unat (tc_misuse st1) = min (unat (tc_misuse st) + bad_signals st hs) (2 ^ 32 - 1)"
    using tc_signals_count [OF assms] by blast
  then show ?thesis
    by (auto simp: TC_TestAndClear_def TC_Test_def tc_valid_def tc_cell_def)
qed

definition demo_tc :: tc_state where
  "demo_tc = snd (TC_AssociateHandle (Some 7) (snd (TC_AssociateHandle (Some 5) (TC_InitHandleService 8
     \<lparr>counterPointer = \<lambda>_. None, tc_counters = 0, tc_allocated = 0, tc_misuse = 0, tc_mem = (\<lambda>_. 65534)\<rparr>))))"

theorem TC_signals_saturate_witness:
  "\<exists>st1. tc_signals [1, 2, 1, 3, 1, -1] demo_tc = Some st1 \<and>
     unat (tc_mem st1 5) = 65535 \<and> unat (tc_mem st1 7) = 65535 \<and> unat (tc_mem st1 6) = 65534 \<and>
     unat (tc_misuse st1) = 2"
proof -
  have inv: "tc_inv demo_tc"
    unfolding demo_tc_def by (intro tc_inv_associate tc_inv_init)
  have c: "signals_to demo_tc 5 [1, 2, 1, 3, 1, -1] = 3" "signals_to demo_tc 7 [1, 2, 1, 3, 1, -1] = 1"
    "signals_to demo_tc 6 [1, 2, 1, 3, 1, -1] = 0" "bad_signals demo_tc [1, 2, 1, 3, 1, -1] = 2"
    by code_simp+
  have m: "unat (tc_mem demo_tc 5) = 65534" "unat (tc_mem demo_tc 7) = 65534" "unat (tc_mem demo_tc 6) = 65534"
    "unat (tc_misuse demo_tc) = 0"
    by (simp_all add: demo_tc_def TC_AssociateHandle_def TC_InitHandleService_def)
  obtain st1 where st1: "tc_signals [1, 2, 1, 3, 1, -1] demo_tc = Some st1"
    "\<forall>a. unat (tc_mem st1 a) = min (unat (tc_mem demo_tc a) + signals_to demo_tc a [1, 2, 1, 3, 1, -1]) 65535"
    "unat (tc_misuse st1) = min (unat (tc_misuse demo_tc) + bad_signals demo_tc [1, 2, 1, 3, 1, -1]) (2 ^ 32 - 1)"
    using TC_signals_saturate [OF inv, of "[1, 2, 1, 3, 1, -1]"] by blast
  then show ?thesis
    using st1(2) [rule_format, of 5] st1(2) [rule_format, of 6] st1(2) [rule_format, of 7] by (simp add: c m)
qed

text \<open> The class version does not saturate upwards: its macro adds in \<open>int\<close>, so \<open>n\<close> signals add
  \<open>n\<close> modulo 65536, and a counter at 65535 goes back to 0 and forgets every pending signal. Downwards
  it does stop at 0. The context is returned either way. \<close>

lemma TCC_SignalUp_wraps:
  assumes "task \<noteq> 0" "tcc_counter (tcc_obj h task) = Some a"
  shows "((\<lambda>s. Option.bind s (\<lambda>h. map_option snd (TCC_SignalUp task h))) ^^ n) (Some h) =
      Some (h\<lparr>tcc_mem := (tcc_mem h)(a := tcc_mem h a + of_nat n)\<rparr>) \<and>
    (tcc_mem h a = -1 \<longrightarrow>
       TCC_SignalUp task h = Some (tcc_context (tcc_obj h task), h\<lparr>tcc_mem := (tcc_mem h)(a := 0)\<rparr>)) \<and>
    (tcc_mem h a = 0 \<longrightarrow> TCC_SignalDown task h = Some (tcc_context (tcc_obj h task), h))"
proof (intro conjI impI)
  have up: "TCC_SignalUp task (h\<lparr>tcc_mem := (tcc_mem h)(a := v)\<rparr>) =
      Some (tcc_context (tcc_obj h task), h\<lparr>tcc_mem := (tcc_mem h)(a := v + 1)\<rparr>)" for v
    using assms by (simp add: TCC_SignalUp_def USAT_INC_narrow_add)
  show "((\<lambda>s. Option.bind s (\<lambda>h. map_option snd (TCC_SignalUp task h))) ^^ n) (Some h) =
      Some (h\<lparr>tcc_mem := (tcc_mem h)(a := tcc_mem h a + of_nat n)\<rparr>)"
  proof (induction n)
    case (Suc n)
    have "tcc_mem h a + of_nat n + 1 = tcc_mem h a + of_nat (Suc n)"
      by simp
    then show ?case
      by (simp only: funpow.simps o_apply Suc bind.simps up option.map snd_conv)
  qed (simp add: fun_upd_idem)
  show "TCC_SignalUp task h = Some (tcc_context (tcc_obj h task), h\<lparr>tcc_mem := (tcc_mem h)(a := 0)\<rparr>)"
    if "tcc_mem h a = -1"
    using up [of "-1"] that by (simp add: fun_upd_idem)
  show "TCC_SignalDown task h = Some (tcc_context (tcc_obj h task), h)" if "tcc_mem h a = 0"
    using assms that by (simp add: TCC_SignalDown_def USAT_DEC_def fun_upd_idem)
qed

lemma TCC_SignalUp_wraps_witness:
  "\<exists>h. TCC_SignalUp 64 h = Some (9, h\<lparr>tcc_mem := (tcc_mem h)(5 := 0)\<rparr>) \<and> tcc_mem h 5 = -1"
proof -
  define h where "h = snd (TCC_AssociateHandle 64 (Some 5) 9
    \<lparr>tcc_obj = (\<lambda>_. \<lparr>tcc_counter = None, tcc_context = 0\<rparr>), tcc_mem = (\<lambda>_. -1)\<rparr>)"
  have "(64 :: nat) \<noteq> 0" "tcc_counter (tcc_obj h 64) = Some 5" "tcc_mem h 5 = -1" "tcc_context (tcc_obj h 64) = 9"
    by (simp_all add: h_def TCC_AssociateHandle_def)
  then show ?thesis
    using TCC_SignalUp_wraps [of 64 h 5 1] by auto
qed

end
