(* ===== verification/OpTable.thy ===== *)
theory OpTable
  imports Prelude
begin

unbundle bit_operations_syntax

text \<open>
  The opcode table of \<^verbatim>\<open>src/src/optable.c\<close> and \<^verbatim>\<open>optable.h\<close>, and the multi-buffered
  object of \<^verbatim>\<open>src/src/fastswitch.c\<close> and \<^verbatim>\<open>fastswitch.h\<close>. The C library's \<open>bsearch\<close> is the
  usual halving loop; it calls the comparison with the key first.
\<close>

section \<open>The opcode table (optable.c)\<close>

record 'v opTableEntry_t =
  op_key :: u16
  op_value :: 'v

text \<open>The table is an array; a processor is of a type \<open>'p\<close> of function names.\<close>

record ('v, 'p) opTable_t =
  opt_table :: "nat \<Rightarrow> 'v opTableEntry_t"
  opt_tableLen :: nat
  opt_processor :: "'p option"

definition OPT_InitTable :: "(nat \<Rightarrow> 'v opTableEntry_t) \<Rightarrow> nat \<Rightarrow> 'p option \<Rightarrow> ('v, 'p) opTable_t" where
  "OPT_InitTable table tableLen processor =
     \<lparr>opt_table = table, opt_tableLen = tableLen, opt_processor = processor\<rparr>"

definition cmpfunc :: "u16 \<Rightarrow> u16 \<Rightarrow> int" where
  "cmpfunc a b = (let dif = a - b in if dif \<noteq> 0 then (if dif AND 0x8000 \<noteq> 0 then -1 else 1) else 0)"

function bsearch_loop :: "('k \<Rightarrow> 'e \<Rightarrow> int) \<Rightarrow> 'k \<Rightarrow> (nat \<Rightarrow> 'e) \<Rightarrow> nat \<Rightarrow> nat \<Rightarrow> nat option" where
  "bsearch_loop cmp key base l u =
     (if l < u then
        let idx = (l + u) div 2; c = cmp key (base idx) in
        if c < 0 then bsearch_loop cmp key base l idx
        else if c > 0 then bsearch_loop cmp key base (idx + 1) u
        else Some idx
      else None)"
  by pat_completeness auto

termination
  by (relation "measure (\<lambda>(cmp, key, base, l, u). u - l)") auto

declare bsearch_loop.simps [simp del]

text \<open>The entry found, as its index; \<open>None\<close> for the NULL result.\<close>

definition OPT_FindEntry :: "('v, 'p) opTable_t \<Rightarrow> u16 \<Rightarrow> nat option" where
  "OPT_FindEntry to key = bsearch_loop cmpfunc key (\<lambda>i. op_key (opt_table to i)) 0 (opt_tableLen to)"

text \<open>\<open>run\<close> runs a processor on an entry and a context, in the user's state \<open>'s\<close>.\<close>

definition OPT_ProcessViaTable ::
    "('p \<Rightarrow> 'v opTableEntry_t \<Rightarrow> nat \<Rightarrow> 's \<Rightarrow> 's) \<Rightarrow> ('v, 'p) opTable_t \<Rightarrow> u16 \<Rightarrow> nat \<Rightarrow> 's \<Rightarrow> nat option \<times> 's" where
  "OPT_ProcessViaTable run to key context s =
     (let entry = OPT_FindEntry to key in
      case (entry, opt_processor to) of
        (Some i, Some p) \<Rightarrow> (entry, run p (opt_table to i) context s)
      | _ \<Rightarrow> (entry, s))"

section \<open>The search\<close>

lemma bsearch_loop_sound:
  "bsearch_loop cmp key base l u = Some i \<Longrightarrow> l \<le> i \<and> i < u \<and> cmp key (base i) = 0"
proof (induction cmp key base l u rule: bsearch_loop.induct)
  case (1 cmp key base l u)
  note e = bsearch_loop.simps [of cmp key base l u]
  have lt: "l < u"
    using "1.prems" by (subst (asm) e) (simp split: if_splits)
  let ?idx = "(l + u) div 2" and ?c = "cmp key (base ((l + u) div 2))"
  have idx: "l \<le> ?idx" "?idx < u"
    using lt by linarith+
  consider "?c < 0" | "?c > 0" | "?c = 0"
    by linarith
  then show ?case
  proof cases
    case 1
    then have "bsearch_loop cmp key base l ?idx = Some i"
      using "1.prems" lt by (subst (asm) e) (simp add: Let_def)
    from "1.IH"(1) [OF lt refl refl 1 this] show ?thesis
      using idx by linarith
  next
    case 2
    then have "bsearch_loop cmp key base (?idx + 1) u = Some i"
      using "1.prems" lt by (subst (asm) e) (simp add: Let_def)
    from "1.IH"(2) [OF lt refl refl _ 2 this] show ?thesis
      using idx 2 by linarith
  next
    case 3
    then show ?thesis
      using "1.prems" lt idx by (subst (asm) e) (simp add: Let_def)
  qed
qed

text \<open>
  Completeness needs a comparison whose sign is monotone along the array: what sorts below the
  key comes first.
\<close>

lemma bsearch_loop_complete:
  assumes "\<And>i j. i < j \<Longrightarrow> j < n \<Longrightarrow> cmp key (base i) \<le> 0 \<Longrightarrow> cmp key (base j) < 0"
    and "\<And>i j. i < j \<Longrightarrow> j < n \<Longrightarrow> cmp key (base j) \<ge> 0 \<Longrightarrow> cmp key (base i) > 0"
    and "k < n" "cmp key (base k) = 0"
  shows "l \<le> k \<Longrightarrow> k < u \<Longrightarrow> u \<le> n \<Longrightarrow> bsearch_loop cmp key base l u = Some k"
proof (induction "u - l" arbitrary: l u rule: less_induct)
  case less
  let ?idx = "(l + u) div 2"
  have idx: "l \<le> ?idx" "?idx < u" "l < u" "?idx < n"
    using less.prems by linarith+
  note e = bsearch_loop.simps [of cmp key base l u]
  consider "k < ?idx" | "?idx < k" | "k = ?idx"
    by linarith
  then show ?case
  proof cases
    case 1
    then have "cmp key (base ?idx) < 0"
      using assms(1) [of k ?idx] assms(4) idx by simp
    moreover have "bsearch_loop cmp key base l ?idx = Some k"
      using less.hyps [of ?idx l] less.prems idx 1 by simp
    ultimately show ?thesis
      using idx by (subst e) (simp add: Let_def)
  next
    case 2
    then have "cmp key (base ?idx) > 0"
      using assms(2) [of ?idx k] assms(3,4) idx by simp
    moreover have "bsearch_loop cmp key base (?idx + 1) u = Some k"
      using less.hyps [of u "?idx + 1"] less.prems idx 2 by simp
    ultimately show ?thesis
      using idx by (subst e) (simp add: Let_def)
  next
    case 3
    then show ?thesis
      using assms(4) idx by (subst e) (simp add: Let_def)
  qed
qed

text \<open>The comparison is the sign of the 16 bit difference.\<close>

lemma cmpfunc_msb: "cmpfunc a b = (if a = b then 0 else if 0x8000 \<le> unat (a - b) then -1 else 1)"
proof -
  have "a - b AND 0x8000 \<noteq> 0 \<longleftrightarrow> bit (a - b) 15"
    using and_exp_eq_0_iff_not_bit [of "a - b" 15] by simp
  also have "\<dots> \<longleftrightarrow> bit (unat (a - b)) 15"
    by (simp add: bit_unsigned_iff)
  also have "\<dots> \<longleftrightarrow> odd (unat (a - b) div 2 ^ 15)"
    by (rule bit_iff_odd)
  also have "\<dots> \<longleftrightarrow> 0x8000 \<le> unat (a - b)"
  proof -
    have "unat (a - b) div 2 ^ 15 < 2"
      using unsigned_less [where w = "a - b" and ?'a = nat] by (simp add: div_less_iff_less_mult)
    then show ?thesis
      by (cases "unat (a - b) < 2 ^ 15") (auto simp: less_2_cases_iff div_greater_zero_iff linorder_not_less)
  qed
  finally show ?thesis
    by (simp add: cmpfunc_def Let_def)
qed

lemma unat_diff_cases: "unat (a - b) = (if b \<le> a then unat a - unat b else unat a + 65536 - unat b)" for a b :: u16
  using unat_sub_if' [of a b] by (simp add: word_le_nat_alt)

lemma cmpfunc_near:
  assumes "\<bar>uint a - uint b\<bar> < 0x8000"
  shows "cmpfunc a b = sgn (uint a - uint b)"
proof -
  have n: "uint a = int (unat a)" "uint b = int (unat b)" "unat a < 2 ^ 16" "unat b < 2 ^ 16"
    using unsigned_less [where w = a and ?'a = nat] unsigned_less [where w = b and ?'a = nat] by simp_all
  consider "a = b" | "unat b < unat a" | "unat a < unat b"
    using word_unat_eq_iff [of a b] by linarith
  then show ?thesis
  proof cases
    case 2
    then have "a \<noteq> b"
      by blast
    moreover have "unat (a - b) = unat a - unat b"
      using 2 unat_diff_cases [of a b] by (simp only: word_le_nat_alt) simp
    moreover have "\<not> 0x8000 \<le> unat a - unat b" "0 < uint a - uint b"
      using assms 2 unfolding n(1,2) by linarith+
    ultimately show ?thesis
      by (simp add: cmpfunc_msb)
  next
    case 3
    then have "a \<noteq> b"
      by blast
    moreover have "unat (a - b) = unat a + 65536 - unat b"
      using 3 unat_diff_cases [of a b] by (simp only: word_le_nat_alt) simp
    moreover have "0x8000 \<le> unat a + 65536 - unat b" "uint a - uint b < 0"
      using assms 3 unfolding n(1,2) by linarith+
    ultimately show ?thesis
      by (simp add: cmpfunc_msb)
  qed (simp add: cmpfunc_msb)
qed

definition opt_sorted :: "('v, 'p) opTable_t \<Rightarrow> bool" where
  "opt_sorted to \<longleftrightarrow> (\<forall>j < opt_tableLen to. \<forall>i < j. op_key (opt_table to i) < op_key (opt_table to j))"

lemma OPT_FindEntry_complete:
  assumes "opt_sorted to" "k < opt_tableLen to"
    and near: "\<And>i. i < opt_tableLen to \<Longrightarrow> \<bar>uint (op_key (opt_table to k)) - uint (op_key (opt_table to i))\<bar> < 0x8000"
  shows "OPT_FindEntry to (op_key (opt_table to k)) = Some k"
proof -
  have less: "uint (op_key (opt_table to i)) < uint (op_key (opt_table to j))"
    if "i < j" "j < opt_tableLen to" for i j
    using assms(1) that by (auto simp: opt_sorted_def word_less_def)
  show ?thesis
    unfolding OPT_FindEntry_def
  proof (rule bsearch_loop_complete [where n = "opt_tableLen to" and k = k])
    fix i j
    assume ij: "i < j" "j < opt_tableLen to"
    show "cmpfunc (op_key (opt_table to k)) (op_key (opt_table to j)) < 0"
      if "cmpfunc (op_key (opt_table to k)) (op_key (opt_table to i)) \<le> 0"
      using that less [OF ij] ij near [of i] near [of j] by (simp add: cmpfunc_near sgn_if split: if_splits)
    show "cmpfunc (op_key (opt_table to k)) (op_key (opt_table to i)) > 0"
      if "cmpfunc (op_key (opt_table to k)) (op_key (opt_table to j)) \<ge> 0"
      using that less [OF ij] ij near [of i] near [of j] by (simp add: cmpfunc_near sgn_if split: if_splits)
  qed (use assms(2) in \<open>simp_all add: cmpfunc_msb\<close>)
qed

section \<open>The multi-buffered object (fastswitch.c)\<close>

text \<open>\<open>current\<close> is the address of the user's pointer; pointers are kept in \<open>fw_ptr\<close>, bytes in \<open>fw_mem\<close>.\<close>

record fastSwitch_t =
  fs_current :: nat
  fs_root :: nat
  fs_size :: u16
  fs_copies :: u8
  fs_next :: u8

record fs_world =
  fw_fs :: fastSwitch_t
  fw_ptr :: "nat \<Rightarrow> nat"
  fw_mem :: "nat \<Rightarrow> u8"

definition MAKE_FAST_SWITCH :: "nat \<Rightarrow> nat \<Rightarrow> u16 \<Rightarrow> u8 \<Rightarrow> fs_world" where
  "MAKE_FAST_SWITCH name buf type_size copies =
     \<lparr>fw_fs = \<lparr>fs_current = name, fs_root = buf, fs_size = type_size, fs_copies = copies, fs_next = 0\<rparr>,
      fw_ptr = (\<lambda>_. buf + (unat copies - 1) * unat type_size), fw_mem = (\<lambda>_. 0)\<rparr>"

definition fsCopy :: "nat \<Rightarrow> fs_world \<Rightarrow> nat \<times> fs_world" where
  "fsCopy buf w =
     (let fs = fw_fs w;
          nxt = fs_root fs + unat (fs_next fs) * unat (fs_size fs);
          m = mem_write (fw_mem w) nxt (mem_read (fw_mem w) buf (unat (fs_size fs)));
          n1 = fs_next fs + 1;
          ptr = (fw_ptr w)(fs_current fs := nxt);
          n2 = (if n1 \<ge> fs_copies fs then 0 else n1)
      in (nxt, w\<lparr>fw_fs := fs\<lparr>fs_next := n2\<rparr>, fw_ptr := ptr, fw_mem := m\<rparr>))"

definition fs_slot :: "fs_world \<Rightarrow> nat \<Rightarrow> nat" where
  "fs_slot w i = fs_root (fw_fs w) + i * unat (fs_size (fw_fs w))"

definition fs_read :: "fs_world \<Rightarrow> nat \<Rightarrow> u8 list" where
  "fs_read w a = mem_read (fw_mem w) a (unat (fs_size (fw_fs w)))"

definition fs_outside :: "fs_world \<Rightarrow> nat \<Rightarrow> bool" where
  "fs_outside w a \<longleftrightarrow> a + unat (fs_size (fw_fs w)) \<le> fs_root (fw_fs w) \<or>
     fs_slot w (unat (fs_copies (fw_fs w))) \<le> a"

text \<open>The user's pointer is at the slot before \<open>next\<close> on the ring of copies.\<close>

definition fs_inv :: "fs_world \<Rightarrow> bool" where
  "fs_inv w \<longleftrightarrow> fs_next (fw_fs w) < fs_copies (fw_fs w) \<and>
     (\<exists>c < unat (fs_copies (fw_fs w)). Suc c mod unat (fs_copies (fw_fs w)) = unat (fs_next (fw_fs w)) \<and>
        fw_ptr w (fs_current (fw_fs w)) = fs_slot w c)"

lemma fs_slots_apart: "i \<noteq> j \<Longrightarrow> fs_slot w i + unat (fs_size (fw_fs w)) \<le> fs_slot w j \<or>
    fs_slot w j + unat (fs_size (fw_fs w)) \<le> fs_slot w i"
proof -
  have "i * s + s \<le> j * s" if "i < j" for i j s :: nat
    using mult_le_mono1 [of "Suc i" j s] that by simp
  then show "i \<noteq> j \<Longrightarrow> ?thesis"
    unfolding fs_slot_def by (metis add.assoc linorder_neqE_nat nat_add_left_cancel_le)
qed

lemma fs_inv_init:
  assumes "1 \<le> copies"
  shows "fs_inv (MAKE_FAST_SWITCH name buf n copies)"
proof -
  have "1 \<le> unat copies" "0 < copies"
    using assms by (simp_all add: word_le_nat_alt word_less_nat_alt)
  then show ?thesis
    unfolding fs_inv_def
    by (intro conjI exI [of _ "unat copies - 1"]) (simp_all add: MAKE_FAST_SWITCH_def fs_slot_def)
qed

text \<open>One copy: what it publishes and what it leaves alone.\<close>

lemma fsCopy_step:
  assumes inv: "fs_inv w" and out: "fs_outside w buf"
  defines "w1 \<equiv> snd (fsCopy buf w)" and "n \<equiv> unat (fs_next (fw_fs w))" and "k \<equiv> unat (fs_copies (fw_fs w))"
  shows "fs_inv w1" "fw_ptr w1 (fs_current (fw_fs w1)) = fs_slot w n" "fst (fsCopy buf w) = fs_slot w n"
    "fs_read w1 (fs_slot w n) = fs_read w buf"
    "\<And>i. i \<noteq> n \<Longrightarrow> fs_read w1 (fs_slot w i) = fs_read w (fs_slot w i)"
    "\<And>a. fs_outside w a \<Longrightarrow> fs_read w1 a = fs_read w a \<and> fs_outside w1 a"
    "\<And>i. fs_slot w1 i = fs_slot w i" "unat (fs_next (fw_fs w1)) = Suc n mod k"
    "fs_copies (fw_fs w1) = fs_copies (fw_fs w)"
proof -
  let ?fs = "fw_fs w"
  have nk: "n < k" "k < 256"
    using inv unsigned_less [where w = "fs_copies ?fs" and ?'a = nat]
    by (simp_all add: fs_inv_def n_def k_def word_less_nat_alt)
  have w1: "fw_fs w1 = ?fs\<lparr>fs_next := if fs_next ?fs + 1 \<ge> fs_copies ?fs then 0 else fs_next ?fs + 1\<rparr>"
    "fw_ptr w1 = (fw_ptr w)(fs_current ?fs := fs_slot w n)"
    "fw_mem w1 = mem_write (fw_mem w) (fs_slot w n) (fs_read w buf)"
    by (simp_all add: w1_def fsCopy_def Let_def fs_slot_def n_def fs_read_def)
  have "fs_next ?fs < fs_copies ?fs"
    using inv by (simp add: fs_inv_def)
  from unat_inc_less [OF this] have inc: "unat (fs_next ?fs + 1) = Suc n"
    by (simp add: n_def)
  have wrap: "fs_next ?fs + 1 \<ge> fs_copies ?fs \<longleftrightarrow> Suc n = k"
    using nk inc by (auto simp: word_le_nat_alt k_def)
  show nxt: "unat (fs_next (fw_fs w1)) = Suc n mod k"
    using nk inc wrap by (simp add: w1)
  show slot: "fs_slot w1 i = fs_slot w i" for i
    by (simp add: fs_slot_def w1)
  show cop: "fs_copies (fw_fs w1) = fs_copies (fw_fs w)"
    by (simp add: w1)
  show cur: "fw_ptr w1 (fs_current (fw_fs w1)) = fs_slot w n"
    by (simp add: w1)
  show "fst (fsCopy buf w) = fs_slot w n"
    by (simp add: fsCopy_def Let_def fs_slot_def n_def)
  have len: "length (fs_read w buf) = unat (fs_size ?fs)" and sz: "fs_size (fw_fs w1) = fs_size ?fs"
    by (simp_all add: fs_read_def w1)
  show "fs_read w1 (fs_slot w n) = fs_read w buf"
    unfolding fs_read_def [of w1] sz w1(3) len [symmetric] by (rule mem_read_write_same)
  show "fs_read w1 (fs_slot w i) = fs_read w (fs_slot w i)" if "i \<noteq> n" for i
    unfolding fs_read_def [of _ "fs_slot w i"] sz w1(3)
    by (rule mem_read_write_other) (use fs_slots_apart [OF that, of w] len in auto)
  have "fs_slot w n + unat (fs_size ?fs) \<le> fs_slot w k" "fs_root ?fs \<le> fs_slot w n"
    using nk mult_le_mono1 [of "Suc n" k "unat (fs_size ?fs)"] by (simp_all add: fs_slot_def)
  then show "fs_read w1 a = fs_read w a \<and> fs_outside w1 a" if "fs_outside w a" for a
    using that len unfolding fs_outside_def fs_read_def [of _ a] sz w1(3) cop slot k_def [symmetric]
    by (auto simp: w1(1) intro!: mem_read_write_other)
  show "fs_inv w1"
    unfolding fs_inv_def cop nxt
  proof (intro conjI exI [of _ n])
    show "fs_next (fw_fs w1) < fs_copies (fw_fs w)"
      using nxt nk by (simp add: word_less_nat_alt k_def)
  qed (use nk cur slot in \<open>simp_all add: k_def\<close>)
qed

primrec fs_copies_of :: "nat list \<Rightarrow> fs_world \<Rightarrow> fs_world" where
  "fs_copies_of [] w = w"
| "fs_copies_of (b # bs) w = fs_copies_of bs (snd (fsCopy b w))"

text \<open>The slot that \<open>j\<close> further copies have not reached keeps its object.\<close>

lemma fs_copies_of_keep:
  assumes "c < unat (fs_copies (fw_fs w))"
  shows "fs_inv w \<Longrightarrow> list_all (fs_outside w) bs \<Longrightarrow>
   ring_count (unat (fs_copies (fw_fs w))) c (unat (fs_next (fw_fs w))) \<ge> length bs \<Longrightarrow>
   fs_read (fs_copies_of bs w) (fs_slot w c) = fs_read w (fs_slot w c) \<and> fs_inv (fs_copies_of bs w)"
  using assms
proof (induction bs arbitrary: w)
  case (Cons b bs)
  let ?w1 = "snd (fsCopy b w)" and ?n = "unat (fs_next (fw_fs w))" and ?k = "unat (fs_copies (fw_fs w))"
  have out: "fs_outside w b" "list_all (fs_outside w) bs"
    using Cons.prems(2) by simp_all
  note st = fsCopy_step [OF Cons.prems(1) out(1)]
  have nk: "?n < ?k"
    using Cons.prems(1) by (simp add: fs_inv_def word_less_nat_alt)
  have "c \<noteq> ?n"
    using ring_count_zero [OF Cons.prems(4) nk] Cons.prems(3) by auto
  then have "Suc (ring_count ?k c (Suc ?n mod ?k)) = ring_count ?k c ?n"
    by (rule ring_count_pop [OF Cons.prems(4) nk])
  moreover have "list_all (fs_outside ?w1) bs"
    using out(2) st(6) by (auto simp: list_all_iff)
  ultimately have "fs_read (fs_copies_of bs ?w1) (fs_slot ?w1 c) = fs_read ?w1 (fs_slot ?w1 c) \<and>
      fs_inv (fs_copies_of bs ?w1)"
    using Cons.IH [of ?w1] Cons.prems(3,4) st(1,8,9) by simp
  then show ?case
    using st(5) [OF \<open>c \<noteq> ?n\<close>] by (simp add: st(7))
qed simp

section \<open>Properties\<close>

text \<open> C31. In a table sorted by key in which no key is 32768 or more away from the key looked up, the
  lookup is exact: \<open>OPT_FindEntry\<close> returns the entry that has the key, or NULL when none has it,
  and \<open>OPT_ProcessViaTable\<close> runs the processor, if there is one, on that entry and on nothing else. \<close>

theorem OPT_FindEntry_exact:
  assumes "opt_sorted to"
    and near: "\<forall>i < opt_tableLen to. \<bar>uint key - uint (op_key (opt_table to i))\<bar> < 0x8000"
  shows "(OPT_FindEntry to key = Some i \<longleftrightarrow> i < opt_tableLen to \<and> op_key (opt_table to i) = key) \<and>
    (OPT_FindEntry to key = None \<longleftrightarrow> (\<forall>i < opt_tableLen to. op_key (opt_table to i) \<noteq> key)) \<and>
    OPT_ProcessViaTable run to key context s =
      (OPT_FindEntry to key,
       case OPT_FindEntry to key of None \<Rightarrow> s
       | Some i \<Rightarrow> (case opt_processor to of None \<Rightarrow> s | Some p \<Rightarrow> run p (opt_table to i) context s))"
proof -
  have found: "OPT_FindEntry to key = Some k" if "k < opt_tableLen to" "op_key (opt_table to k) = key" for k
    using OPT_FindEntry_complete [OF assms(1) that(1)] near that(2) by simp
  have sound: "k < opt_tableLen to \<and> op_key (opt_table to k) = key" if "OPT_FindEntry to key = Some k" for k
    using bsearch_loop_sound that by (fastforce simp: OPT_FindEntry_def cmpfunc_msb split: if_splits)
  show ?thesis
    using found sound
    by (cases "OPT_FindEntry to key") (auto simp: OPT_ProcessViaTable_def Let_def split: option.splits)
qed

definition demo_opt :: "(nat, nat) opTable_t" where
  "demo_opt = OPT_InitTable (\<lambda>i. \<lparr>op_key = of_nat (10 * i), op_value = i\<rparr>) 5 (Some 1)"

theorem OPT_FindEntry_exact_witness:
  "OPT_FindEntry demo_opt 30 = Some 3 \<and> OPT_FindEntry demo_opt 31 = None"
proof -
  have keys: "op_key (opt_table demo_opt i) = of_nat (10 * i)" "opt_tableLen demo_opt = 5" for i
    by (simp_all add: demo_opt_def OPT_InitTable_def)
  have sorted: "opt_sorted demo_opt"
    by (simp add: opt_sorted_def keys all_less_numeral)
  have near: "\<forall>i < opt_tableLen demo_opt. \<bar>uint (30 :: u16) - uint (op_key (opt_table demo_opt i))\<bar> < 0x8000"
    "\<forall>i < opt_tableLen demo_opt. \<bar>uint (31 :: u16) - uint (op_key (opt_table demo_opt i))\<bar> < 0x8000"
    by (simp_all add: keys all_less_numeral)
  have "OPT_FindEntry demo_opt 30 = Some 3"
  proof -
    have "3 < opt_tableLen demo_opt \<and> op_key (opt_table demo_opt 3) = 30"
      by (simp add: keys)
    then show ?thesis
      using OPT_FindEntry_exact [OF sorted near(1), of 3 "\<lambda>_ _ _ s. s" 0 "()"] by blast
  qed
  moreover have "\<forall>i < opt_tableLen demo_opt. op_key (opt_table demo_opt i) \<noteq> 31"
    by (simp add: keys all_less_numeral)
  then have "OPT_FindEntry demo_opt 31 = None"
    using OPT_FindEntry_exact [OF sorted near(2), of 0 "\<lambda>_ _ _ s. s" 0 "()"] by blast
  ultimately show ?thesis
    by simp
qed

text \<open>Keys far apart are not found: the comparison is the sign of a 16 bit difference, so when the
  middle entry of a sorted table is 32768 or more below a key of the upper half, the search turns
  the wrong way and reports the key missing although the table has it. \<close>

lemma OPT_FindEntry_far_key:
  assumes "opt_sorted to" "j < opt_tableLen to" "opt_tableLen to div 2 < j"
    and "uint (op_key (opt_table to j)) - uint (op_key (opt_table to (opt_tableLen to div 2))) \<ge> 0x8000"
  shows "OPT_FindEntry to (op_key (opt_table to j)) = None"
proof -
  let ?key = "op_key (opt_table to j)" and ?m = "opt_tableLen to div 2"
  let ?keys = "\<lambda>i. op_key (opt_table to i)"
  have d: "uint ?key = int (unat ?key)" "uint (?keys ?m) = int (unat (?keys ?m))" "unat ?key < 65536"
    using unsigned_less [where w = ?key and ?'a = nat] by simp_all
  have le: "unat (?keys ?m) + 0x8000 \<le> unat ?key"
    using assms(4) unfolding d(1,2) by linarith
  have "unat (?key - ?keys ?m) = unat ?key - unat (?keys ?m)"
    using le unat_diff_cases [of ?key "?keys ?m"] by (simp add: word_le_nat_alt)
  moreover have "0x8000 \<le> unat ?key - unat (?keys ?m)"
    using le by linarith
  moreover have "?key \<noteq> ?keys ?m"
    using le by auto
  ultimately have "cmpfunc ?key (?keys ?m) < 0"
    by (simp add: cmpfunc_msb)
  then have "OPT_FindEntry to ?key = bsearch_loop cmpfunc ?key ?keys 0 ?m"
    using assms(2) unfolding OPT_FindEntry_def by (subst bsearch_loop.simps) (simp add: Let_def)
  also have "\<dots> = None"
  proof (cases "bsearch_loop cmpfunc ?key ?keys 0 ?m")
    case (Some i)
    from bsearch_loop_sound [OF this] have "i < j" "?key = ?keys i"
      using assms(3) by (auto simp: cmpfunc_msb split: if_splits)
    moreover have "?keys i < ?key"
      using assms(1,2) \<open>i < j\<close> by (simp add: opt_sorted_def)
    ultimately show ?thesis
      by simp
  qed simp
  finally show ?thesis .
qed

definition far_opt :: "(nat, nat) opTable_t" where
  "far_opt = OPT_InitTable (\<lambda>i. \<lparr>op_key = [0, 1, 0x9000] ! i, op_value = i\<rparr>) 3 None"

lemma OPT_FindEntry_far_key_witness:
  "OPT_FindEntry far_opt 0x9000 = None \<and> op_key (opt_table far_opt 2) = 0x9000"
proof -
  have keys: "op_key (opt_table far_opt i) = [0, 1, 0x9000] ! i" "opt_tableLen far_opt = 3" for i
    by (simp_all add: far_opt_def OPT_InitTable_def)
  have "opt_sorted far_opt"
    by (simp add: opt_sorted_def keys all_less_numeral)
  moreover have "2 < opt_tableLen far_opt" "opt_tableLen far_opt div 2 < 2"
    "uint (op_key (opt_table far_opt 2)) - uint (op_key (opt_table far_opt (opt_tableLen far_opt div 2))) \<ge> 0x8000"
    "op_key (opt_table far_opt 2) = 0x9000"
    by (simp_all add: keys)
  ultimately show ?thesis
    using OPT_FindEntry_far_key [of far_opt 2] by simp
qed

text \<open> A reader of the switched object never sees a mixture: when the first of a sequence of copies
  has been made, the user's pointer leads to a complete copy of its source, and the object the
  pointer led to stays as it was through as many copies, from buffers outside the slots, as there
  are slots less one (this first one included). \<close>

lemma fsCopy_readers:
  assumes "fs_inv w" "list_all (fs_outside w) (b # bs)" "length (b # bs) < unat (fs_copies (fw_fs w))"
  shows "fs_read (snd (fsCopy b w)) (fw_ptr (snd (fsCopy b w)) (fs_current (fw_fs (snd (fsCopy b w))))) = fs_read w b \<and>
    fs_read (fs_copies_of (b # bs) w) (fw_ptr w (fs_current (fw_fs w))) = fs_read w (fw_ptr w (fs_current (fw_fs w))) \<and>
    fs_inv (fs_copies_of (b # bs) w)"
proof -
  let ?k = "unat (fs_copies (fw_fs w))" and ?n = "unat (fs_next (fw_fs w))"
  obtain c where c: "c < ?k" "Suc c mod ?k = ?n" "fw_ptr w (fs_current (fw_fs w)) = fs_slot w c"
    using assms(1) by (auto simp: fs_inv_def)
  have "?n < ?k"
    using assms(1) by (simp add: fs_inv_def word_less_nat_alt)
  then have "ring_count ?k c ?n = ?k - 1"
    using ring_count_full [OF c(1)] c(2) by blast
  then have "fs_read (fs_copies_of (b # bs) w) (fs_slot w c) = fs_read w (fs_slot w c) \<and> fs_inv (fs_copies_of (b # bs) w)"
    using fs_copies_of_keep [OF c(1) assms(1,2)] assms(3) by simp
  moreover have "fs_outside w b"
    using assms(2) by simp
  ultimately show ?thesis
    using fsCopy_step(2,4) [OF assms(1), of b] c(3) by simp
qed

theorem fsCopy_readers_witness:
  "\<exists>w. fs_inv w \<and> fs_read (snd (fsCopy 40 w)) (fw_ptr (snd (fsCopy 40 w)) 8) = fs_read w 40 \<and>
     fs_copies (fw_fs w) = 3"
proof -
  let ?w = "MAKE_FAST_SWITCH 8 100 4 3"
  have "fs_inv ?w"
    by (rule fs_inv_init) simp
  moreover have "list_all (fs_outside ?w) [40, 60]" "length [40, 60 :: nat] < unat (fs_copies (fw_fs ?w))"
    "fs_current (fw_fs (snd (fsCopy 40 ?w))) = 8" "fs_copies (fw_fs ?w) = 3"
    by (simp_all add: MAKE_FAST_SWITCH_def fs_outside_def fs_slot_def fsCopy_def Let_def)
  ultimately show ?thesis
    using fsCopy_readers [of ?w 40 "[60]"] by metis
qed

end
