(* ===== verification/Qmacs.thy ===== *)
theory Qmacs
  imports QueueSpec
begin

unbundle bit_operations_syntax

text \<open>
  The small queues of 16 bit values of \<^verbatim>\<open>src/src/qmacs.h\<close>: the macros over static variables
  and the inline functions over \<open>qi16_t\<close>; and the wrappers of \<^verbatim>\<open>src/src/isr_helper.c\<close> that run a
  callback with interrupts disabled or masked.
\<close>

section \<open>The macros\<close>

text \<open>
  The three groups differ in the number of slots, 4, 8 or 16, and hence in the mask \<open>m\<close>. \<open>OUTQ4\<close>
  does not compile (its loop ends in \<open>while(0c\<close>); the others are these.
\<close>

record qm_t =
  qm_buf :: "int \<Rightarrow> i16"
  qm_From :: int
  qm_To :: int

definition DEFQ :: qm_t where
  "DEFQ = \<lparr>qm_buf = (\<lambda>_. 0), qm_From = 0, qm_To = 0\<rparr>"

definition INQ :: "int \<Rightarrow> i16 \<Rightarrow> qm_t \<Rightarrow> qm_t" where
  "INQ m val q = q\<lparr>qm_buf := (qm_buf q)(qm_To q := val), qm_To := (qm_To q + 1) AND m\<rparr>"

definition OUTQ :: "int \<Rightarrow> qm_t \<Rightarrow> i16 \<times> qm_t" where
  "OUTQ m q = (qm_buf q (qm_From q), q\<lparr>qm_From := (qm_From q + 1) AND m\<rparr>)"

definition IS_DATAQ :: "qm_t \<Rightarrow> bool" where
  "IS_DATAQ q \<longleftrightarrow> qm_To q \<noteq> qm_From q"

text \<open>\<open>(To+1)&m != From\<close> parses as \<open>(To+1) & (m != From)\<close>.\<close>

definition IS_SPACEQ :: "int \<Rightarrow> qm_t \<Rightarrow> bool" where
  "IS_SPACEQ m q \<longleftrightarrow> (qm_To q + 1) AND (if m \<noteq> qm_From q then 1 else 0) \<noteq> 0"

definition RESETQ :: "qm_t \<Rightarrow> qm_t" where
  "RESETQ q = q\<lparr>qm_From := 0, qm_To := 0\<rparr>"

section \<open>The functions\<close>

record qi16_t =
  qi_buf :: "int \<Rightarrow> i16"
  qi_to :: int
  qi_from :: int
  qi_mask :: int

text \<open>The loop that counts the bits of the length, here of the length in bytes as a number.\<close>

fun qi_bits :: "nat \<Rightarrow> nat" where
  "qi_bits bufLen = (if bufLen = 0 then 0 else Suc (qi_bits (bufLen div 2)))"

declare qi_bits.simps [simp del]

text \<open>A buffer of less than one value makes the code shift by -1, which C leaves undefined: \<open>None\<close>.\<close>

definition defqi16 :: "(int \<Rightarrow> i16) \<Rightarrow> u8 \<Rightarrow> qi16_t option" where
  "defqi16 buf bufLen =
     (let i = qi_bits (unat (bufLen div 2)) in
      if i = 0 then None else Some \<lparr>qi_buf = buf, qi_to = 0, qi_from = 0, qi_mask = 2 ^ (i - 1) - 1\<rparr>)"

definition inqi16 :: "i16 \<Rightarrow> qi16_t \<Rightarrow> qi16_t" where
  "inqi16 val q = q\<lparr>qi_buf := (qi_buf q)(qi_to q := val), qi_to := (qi_to q + 1) AND qi_mask q\<rparr>"

definition outqi16 :: "qi16_t \<Rightarrow> i16 \<times> qi16_t" where
  "outqi16 q = (qi_buf q (qi_from q), q\<lparr>qi_from := (qi_from q + 1) AND qi_mask q\<rparr>)"

definition isdataqi16 :: "qi16_t \<Rightarrow> bool" where
  "isdataqi16 q \<longleftrightarrow> qi_to q \<noteq> qi_from q"

definition isspaceqi16 :: "qi16_t \<Rightarrow> bool" where
  "isspaceqi16 q \<longleftrightarrow> (qi_to q + 1) AND qi_mask q \<noteq> qi_from q"

definition resetqi16 :: "qi16_t \<Rightarrow> qi16_t" where
  "resetqi16 q = q\<lparr>qi_from := 0, qi_to := 0\<rparr>"

section \<open>Protected callbacks (isr_helper.c)\<close>

text \<open>
  The interrupt abstraction is machine dependent and not under \<^verbatim>\<open>src\<close>: \<open>disable\<close> and
  \<open>enable\<close>, \<open>mask_to\<close> and \<open>restore\<close> are parameters, as is the running of a callback. A NULL callback
  is called without a test: \<open>None\<close>.
\<close>

definition Run_Protected ::
    "('s \<Rightarrow> 'i \<times> 's) \<Rightarrow> ('i \<Rightarrow> 's \<Rightarrow> 's) \<Rightarrow> ('cb \<Rightarrow> Context_t \<Rightarrow> 's \<Rightarrow> Status_t \<times> 's) \<Rightarrow>
     'cb CbInstance_t \<Rightarrow> 's \<Rightarrow> (Status_t \<times> 's) option" where
  "Run_Protected disable enable run cb s =
     (let (state, s1) = disable s in
      case cbi_callback cb of
        None \<Rightarrow> None
      | Some f \<Rightarrow> (let (status, s2) = run f (cbi_context cb) s1 in Some (status, enable state s2)))"

definition Run_Privileged ::
    "('i \<Rightarrow> 's \<Rightarrow> 'i \<times> 's) \<Rightarrow> ('i \<Rightarrow> 's \<Rightarrow> 's) \<Rightarrow> ('cb \<Rightarrow> Context_t \<Rightarrow> 's \<Rightarrow> Status_t \<times> 's) \<Rightarrow>
     'i \<Rightarrow> 'cb CbInstance_t \<Rightarrow> 's \<Rightarrow> (Status_t \<times> 's) option" where
  "Run_Privileged mask_to restore run isr_mask cb s =
     (let (state, s1) = mask_to isr_mask s in
      case cbi_callback cb of
        None \<Rightarrow> None
      | Some f \<Rightarrow> (let (status, s2) = run f (cbi_context cb) s1 in Some (status, restore state s2)))"

section \<open>The queue as a ring\<close>

definition qi_slots :: "qi16_t \<Rightarrow> nat" where
  "qi_slots q = nat (qi_mask q + 1)"

definition qi_inv :: "qi16_t \<Rightarrow> bool" where
  "qi_inv q \<longleftrightarrow> (\<exists>k. qi_mask q = mask k) \<and> 0 \<le> qi_to q \<and> qi_to q \<le> qi_mask q \<and>
     0 \<le> qi_from q \<and> qi_from q \<le> qi_mask q"

definition qi_count :: "qi16_t \<Rightarrow> nat" where
  "qi_count q = ring_count (qi_slots q) (nat (qi_to q)) (nat (qi_from q))"

definition qi_items :: "qi16_t \<Rightarrow> i16 list" where
  "qi_items q = map (\<lambda>k. qi_buf q (int ((nat (qi_from q) + k) mod qi_slots q))) [0..<qi_count q]"

lemma qi_bounds:
  assumes "qi_inv q"
  shows "nat (qi_to q) < qi_slots q" "nat (qi_from q) < qi_slots q" "int (qi_slots q) = qi_mask q + 1"
  using assms by (auto simp: qi_inv_def qi_slots_def)

lemma qi_and:
  assumes "qi_inv q" "0 \<le> x"
  shows "nat ((x + 1) AND qi_mask q) = Suc (nat x) mod qi_slots q" "0 \<le> (x + 1) AND qi_mask q"
    "(x + 1) AND qi_mask q \<le> qi_mask q"
proof -
  obtain k where k: "qi_mask q = mask k"
    using assms(1) by (auto simp: qi_inv_def)
  have e: "(x + 1) AND qi_mask q = (x + 1) mod 2 ^ k"
    by (simp add: k take_bit_eq_mask [symmetric] take_bit_eq_mod)
  have n: "qi_slots q = 2 ^ k"
    by (simp add: qi_slots_def k mask_eq_exp_minus_1)
  show "nat ((x + 1) AND qi_mask q) = Suc (nat x) mod qi_slots q"
    using assms(2) by (simp add: e n nat_mod_distrib nat_add_distrib nat_power_eq)
  show "0 \<le> (x + 1) AND qi_mask q" "(x + 1) AND qi_mask q \<le> qi_mask q"
    unfolding e by (simp_all add: k mask_eq_exp_minus_1 zle_diff1_eq)
qed

lemma qi_space: "qi_inv q \<Longrightarrow> isspaceqi16 q \<longleftrightarrow> length (qi_items q) < qi_slots q - 1"
proof -
  assume inv: "qi_inv q"
  note b = qi_bounds [OF inv]
  have pos: "0 \<le> qi_to q" "0 \<le> qi_from q"
    using inv by (simp_all add: qi_inv_def)
  have "isspaceqi16 q \<longleftrightarrow> Suc (nat (qi_to q)) mod qi_slots q \<noteq> nat (qi_from q)"
    using eq_nat_nat_iff [OF qi_and(2) [OF inv pos(1)] pos(2)] qi_and(1) [OF inv pos(1)]
    by (simp add: isspaceqi16_def)
  also have "\<dots> \<longleftrightarrow> qi_count q \<noteq> qi_slots q - 1"
    using ring_count_full [OF b(1,2)] by (simp add: qi_count_def)
  finally show ?thesis
    using ring_count_less [OF b(1,2)] by (auto simp: qi_items_def qi_count_def)
qed

lemma qi_data: "qi_inv q \<Longrightarrow> isdataqi16 q \<longleftrightarrow> qi_items q \<noteq> []"
proof -
  assume inv: "qi_inv q"
  have "isdataqi16 q \<longleftrightarrow> nat (qi_to q) \<noteq> nat (qi_from q)"
    using inv by (auto simp: isdataqi16_def qi_inv_def)
  then show ?thesis
    using ring_count_zero [OF qi_bounds(1,2) [OF inv]] by (simp add: qi_items_def qi_count_def)
qed

lemma inqi16_items:
  assumes inv: "qi_inv q" and space: "isspaceqi16 q"
  shows "qi_inv (inqi16 v q)" "qi_items (inqi16 v q) = qi_items q @ [v]" "qi_slots (inqi16 v q) = qi_slots q"
proof -
  note b = qi_bounds [OF inv]
  have pos: "0 \<le> qi_to q" "0 \<le> qi_from q"
    using inv by (simp_all add: qi_inv_def)
  note a = qi_and [OF inv pos(1)]
  show "qi_inv (inqi16 v q)" "qi_slots (inqi16 v q) = qi_slots q"
    using inv a by (auto simp: qi_inv_def inqi16_def qi_slots_def)
  have "nat ((qi_to q + 1) AND qi_mask q) \<noteq> nat (qi_from q)"
    using space eq_nat_nat_iff [OF a(2) pos(2)] by (simp add: isspaceqi16_def)
  then have c: "qi_count (inqi16 v q) = Suc (qi_count q)"
    using ring_count_push [OF b(1,2)] a(1) by (simp add: qi_count_def inqi16_def qi_slots_def)
  have t: "(nat (qi_from q) + qi_count q) mod qi_slots q = nat (qi_to q)"
    unfolding qi_count_def by (rule ring_count_target [OF b(1,2)])
  have o: "int ((nat (qi_from q) + k) mod qi_slots q) \<noteq> qi_to q" if "k < qi_count q" for k
    using ring_before_target [OF b(1,2), of k] that pos(1) by (auto simp: qi_count_def)
  show "qi_items (inqi16 v q) = qi_items q @ [v]"
    unfolding qi_items_def c using o t pos(1)
    by (simp add: inqi16_def qi_slots_def)
qed

lemma outqi16_items:
  assumes inv: "qi_inv q" and data: "isdataqi16 q"
  shows "qi_inv (snd (outqi16 q))" "qi_items q = fst (outqi16 q) # qi_items (snd (outqi16 q))"
    "qi_slots (snd (outqi16 q)) = qi_slots q"
proof -
  note b = qi_bounds [OF inv]
  have pos: "0 \<le> qi_to q" "0 \<le> qi_from q"
    using inv by (simp_all add: qi_inv_def)
  note a = qi_and [OF inv pos(2)]
  show "qi_inv (snd (outqi16 q))" "qi_slots (snd (outqi16 q)) = qi_slots q"
    using inv a by (auto simp: qi_inv_def outqi16_def qi_slots_def)
  have "nat (qi_to q) \<noteq> nat (qi_from q)"
    using data pos by (auto simp: isdataqi16_def)
  then have c: "qi_count q = Suc (qi_count (snd (outqi16 q)))"
    using ring_count_pop [OF b(1,2)] a(1) by (simp add: qi_count_def outqi16_def qi_slots_def)
  have "(Suc (nat (qi_from q)) mod qi_slots q + k) mod qi_slots q = (nat (qi_from q) + Suc k) mod qi_slots q" for k
    by (simp add: mod_add_left_eq)
  then show "qi_items q = fst (outqi16 q) # qi_items (snd (outqi16 q))"
    unfolding qi_items_def c using b(2) pos(2) a(1)
    by (simp add: outqi16_def qi_slots_def upt_conv_Cons map_Suc_upt [symmetric] del: upt_Suc)
qed

section \<open>The queue interface\<close>

text \<open>The functions do not check: their user does, with \<open>isspaceqi16\<close> and \<open>isdataqi16\<close>.\<close>

definition qi_enq :: "i16 \<Rightarrow> qi16_t \<Rightarrow> qi16_t option" where
  "qi_enq v q = (if isspaceqi16 q then Some (inqi16 v q) else None)"

definition qi_deq :: "qi16_t \<Rightarrow> (i16 \<times> qi16_t) option" where
  "qi_deq q = (if isdataqi16 q then Some (outqi16 q) else None)"

interpretation qi: bounded_queue qi_enq qi_deq qi_items "\<lambda>q. qi_slots q - 1" "\<lambda>_ _. True" qi_inv
proof (unfold_locales, goal_cases)
  case (1 q)
  then show ?case
    using ring_count_less [OF qi_bounds(1,2) [OF 1]] by (simp add: qi_items_def qi_count_def)
next
  case (2 q x)
  then show ?case
    using qi_space [OF 2(1)] ring_count_less [OF qi_bounds(1,2) [OF 2(1)]]
    by (auto simp: qi_enq_def qi_items_def qi_count_def)
next
  case (3 q x q')
  then show ?case
    using inqi16_items [of q x] by (auto simp: qi_enq_def split: if_splits)
next
  case (4 q)
  then show ?case
    using qi_data [OF 4] by (auto simp: qi_deq_def)
next
  case (5 q x q')
  then show ?case
    using outqi16_items [of q] by (auto simp: qi_deq_def split: if_splits)
qed

lemma qi_bits_log: "n \<noteq> 0 \<Longrightarrow> qi_bits n \<noteq> 0 \<and> 2 ^ (qi_bits n - 1) \<le> n \<and> n < 2 ^ qi_bits n"
proof (induction n rule: less_induct)
  case (less n)
  show ?case
  proof (cases "n div 2 = 0")
    case True
    then have "n = 1"
      using less.prems by linarith
    then show ?thesis
      by (simp add: qi_bits.simps)
  next
    case False
    then obtain b where b: "qi_bits (n div 2) = Suc b"
      using less.IH [of "n div 2"] less.prems by (cases "qi_bits (n div 2)") auto
    have "2 ^ b \<le> n div 2" "n div 2 < 2 ^ Suc b"
      using less.IH [of "n div 2"] False less.prems b by auto
    then have "2 * 2 ^ b \<le> n" "n < 2 * 2 ^ Suc b"
      by linarith+
    moreover have "qi_bits n = Suc (Suc b)"
      using less.prems b by (subst qi_bits.simps) simp
    ultimately show ?thesis
      by simp
  qed
qed

lemma defqi16_fresh:
  assumes "4 \<le> bufLen"
  obtains q where "defqi16 buf bufLen = Some q" "qi_inv q" "qi_items q = []"
    "2 * qi_slots q \<le> unat bufLen" "unat bufLen < 4 * qi_slots q" "2 \<le> qi_slots q"
proof -
  let ?n = "unat (bufLen div 2)"
  have n: "?n = unat bufLen div 2" "4 \<le> unat bufLen"
    using assms by (simp_all add: unat_div_distrib word_le_nat_alt)
  then have "?n \<noteq> 0"
    by simp
  then obtain i where i: "qi_bits ?n = Suc i" "2 ^ i \<le> ?n" "?n < 2 ^ Suc i"
    using qi_bits_log [of ?n] by (cases "qi_bits ?n") auto
  define q where "q = \<lparr>qi_buf = buf, qi_to = 0, qi_from = 0, qi_mask = 2 ^ i - 1\<rparr>"
  have slots: "qi_slots q = 2 ^ i"
    by (simp add: qi_slots_def q_def nat_power_eq)
  have "i \<noteq> 0"
    using i(3) n by (cases i) auto
  then have "2 \<le> qi_slots q"
    unfolding slots by (cases i) simp_all
  moreover have "defqi16 buf bufLen = Some q"
    by (simp add: defqi16_def Let_def i(1) q_def)
  moreover have "qi_inv q"
    unfolding qi_inv_def by (intro conjI exI [of _ i]) (simp_all add: q_def mask_eq_exp_minus_1)
  moreover have "qi_items q = []"
    by (simp add: qi_items_def qi_count_def ring_count_def q_def)
  moreover have "2 * qi_slots q \<le> unat bufLen" "unat bufLen < 4 * qi_slots q"
    using i(2,3) n(1) unfolding slots by simp_all
  ultimately show ?thesis
    by (intro that [of q])
qed

text \<open>The macro test reports space in a full queue of four slots.\<close>

lemma IS_SPACEQ_full:
  assumes "qm_To q = 0" "qm_From q = 1"
  shows "IS_SPACEQ 3 q" "qm_To (INQ 3 v q) = qm_From (INQ 3 v q)"
  using assms by (simp_all add: IS_SPACEQ_def INQ_def)

section \<open>Bursts\<close>

text \<open>A \<open>qi16_t\<close> over a buffer of at least four bytes has as many slots as the largest power of two
  that fits the buffer, and holds one value less: a burst of that many values, or fewer, entered
  after testing for space each time, is all accepted, comes out in order and leaves the queue
  empty.\<close>

lemma qi16_burst:
  assumes "4 \<le> bufLen"
  shows "\<exists>q. defqi16 buf bufLen = Some q \<and> 2 * qi_slots q \<le> unat bufLen \<and> unat bufLen < 4 * qi_slots q \<and>
    (\<forall>vs. length vs < qi_slots q \<longrightarrow>
       (\<exists>q1 q2. qi.enq_all vs q = Some q1 \<and> qi.deq_n (length vs) q1 = Some (vs, q2) \<and> qi_items q2 = []))"
proof -
  obtain q where q: "defqi16 buf bufLen = Some q" "qi_inv q" "qi_items q = []"
    "2 * qi_slots q \<le> unat bufLen" "unat bufLen < 4 * qi_slots q" "2 \<le> qi_slots q"
    using defqi16_fresh [OF assms] by blast
  have "\<exists>q1 q2. qi.enq_all vs q = Some q1 \<and> qi.deq_n (length vs) q1 = Some (vs, q2) \<and> qi_items q2 = []"
    if "length vs < qi_slots q" for vs
    using qi.burst_roundtrip [OF q(2), of vs] that q(3) by (simp add: list_all_iff)
  with q(1,4,5) show ?thesis
    by blast
qed

lemma qi16_burst_witness:
  "\<exists>q. defqi16 (\<lambda>_. 0) 40 = Some q \<and> 10 < qi_slots q \<and> qi_slots q \<le> 20"
  using qi16_burst [of 40 "\<lambda>_. 0"] by auto

end
