(* ===== verification/Crc8.thy ===== *)
theory Crc8
  imports Prelude
begin

unbundle bit_operations_syntax

text \<open>
  The checksum of the bus protocol and the Hamming(7,4) code for 7 bit links:
  \<^verbatim>\<open>src/src/crc8.c\<close> and \<^verbatim>\<open>src/src/crc8.h\<close>. The lemmas follow the byte-wise table
  lookup back to the polynomial division it tabulates: the bit step is linear, a step by an odd
  generator is injective, and the CRC of a string is linear in the string.
\<close>

section \<open>The table generator\<close>

text \<open>One round of the inner loop of \<open>CalulateTable_CRC8\<close>, then its eight rounds.\<close>

definition crc8_bit :: "u8 \<Rightarrow> u8 \<Rightarrow> u8" where
  "crc8_bit generator currByte =
     (if currByte AND 0x80 \<noteq> 0 then push_bit 1 currByte XOR generator else push_bit 1 currByte)"

definition crc8_byte :: "u8 \<Rightarrow> u8 \<Rightarrow> u8" where
  "crc8_byte generator divident = (crc8_bit generator ^^ 8) divident"

definition CalulateTable_CRC8 :: "u8 \<Rightarrow> u8 list" where
  "CalulateTable_CRC8 generator = map (\<lambda>divident. crc8_byte generator (of_nat divident)) [0..<256]"

text \<open>The constant tables.\<close>

definition table_1d :: "u8 list" where
  "table_1d =
  [0x00, 0x1d, 0x3a, 0x27, 0x74, 0x69, 0x4e, 0x53, 0xe8, 0xf5, 0xd2, 0xcf, 0x9c, 0x81, 0xa6, 0xbb,
   0xcd, 0xd0, 0xf7, 0xea, 0xb9, 0xa4, 0x83, 0x9e, 0x25, 0x38, 0x1f, 0x02, 0x51, 0x4c, 0x6b, 0x76,
   0x87, 0x9a, 0xbd, 0xa0, 0xf3, 0xee, 0xc9, 0xd4, 0x6f, 0x72, 0x55, 0x48, 0x1b, 0x06, 0x21, 0x3c,
   0x4a, 0x57, 0x70, 0x6d, 0x3e, 0x23, 0x04, 0x19, 0xa2, 0xbf, 0x98, 0x85, 0xd6, 0xcb, 0xec, 0xf1,
   0x13, 0x0e, 0x29, 0x34, 0x67, 0x7a, 0x5d, 0x40, 0xfb, 0xe6, 0xc1, 0xdc, 0x8f, 0x92, 0xb5, 0xa8,
   0xde, 0xc3, 0xe4, 0xf9, 0xaa, 0xb7, 0x90, 0x8d, 0x36, 0x2b, 0x0c, 0x11, 0x42, 0x5f, 0x78, 0x65,
   0x94, 0x89, 0xae, 0xb3, 0xe0, 0xfd, 0xda, 0xc7, 0x7c, 0x61, 0x46, 0x5b, 0x08, 0x15, 0x32, 0x2f,
   0x59, 0x44, 0x63, 0x7e, 0x2d, 0x30, 0x17, 0x0a, 0xb1, 0xac, 0x8b, 0x96, 0xc5, 0xd8, 0xff, 0xe2,
   0x26, 0x3b, 0x1c, 0x01, 0x52, 0x4f, 0x68, 0x75, 0xce, 0xd3, 0xf4, 0xe9, 0xba, 0xa7, 0x80, 0x9d,
   0xeb, 0xf6, 0xd1, 0xcc, 0x9f, 0x82, 0xa5, 0xb8, 0x03, 0x1e, 0x39, 0x24, 0x77, 0x6a, 0x4d, 0x50,
   0xa1, 0xbc, 0x9b, 0x86, 0xd5, 0xc8, 0xef, 0xf2, 0x49, 0x54, 0x73, 0x6e, 0x3d, 0x20, 0x07, 0x1a,
   0x6c, 0x71, 0x56, 0x4b, 0x18, 0x05, 0x22, 0x3f, 0x84, 0x99, 0xbe, 0xa3, 0xf0, 0xed, 0xca, 0xd7,
   0x35, 0x28, 0x0f, 0x12, 0x41, 0x5c, 0x7b, 0x66, 0xdd, 0xc0, 0xe7, 0xfa, 0xa9, 0xb4, 0x93, 0x8e,
   0xf8, 0xe5, 0xc2, 0xdf, 0x8c, 0x91, 0xb6, 0xab, 0x10, 0x0d, 0x2a, 0x37, 0x64, 0x79, 0x5e, 0x43,
   0xb2, 0xaf, 0x88, 0x95, 0xc6, 0xdb, 0xfc, 0xe1, 0x5a, 0x47, 0x60, 0x7d, 0x2e, 0x33, 0x14, 0x09,
   0x7f, 0x62, 0x45, 0x58, 0x0b, 0x16, 0x31, 0x2c, 0x97, 0x8a, 0xad, 0xb0, 0xe3, 0xfe, 0xd9, 0xc4]"

definition table_2f :: "u8 list" where
  "table_2f =
  [0x00, 0x2f, 0x5e, 0x71, 0xbc, 0x93, 0xe2, 0xcd, 0x57, 0x78, 0x09, 0x26, 0xeb, 0xc4, 0xb5, 0x9a,
   0xae, 0x81, 0xf0, 0xdf, 0x12, 0x3d, 0x4c, 0x63, 0xf9, 0xd6, 0xa7, 0x88, 0x45, 0x6a, 0x1b, 0x34,
   0x73, 0x5c, 0x2d, 0x02, 0xcf, 0xe0, 0x91, 0xbe, 0x24, 0x0b, 0x7a, 0x55, 0x98, 0xb7, 0xc6, 0xe9,
   0xdd, 0xf2, 0x83, 0xac, 0x61, 0x4e, 0x3f, 0x10, 0x8a, 0xa5, 0xd4, 0xfb, 0x36, 0x19, 0x68, 0x47,
   0xe6, 0xc9, 0xb8, 0x97, 0x5a, 0x75, 0x04, 0x2b, 0xb1, 0x9e, 0xef, 0xc0, 0x0d, 0x22, 0x53, 0x7c,
   0x48, 0x67, 0x16, 0x39, 0xf4, 0xdb, 0xaa, 0x85, 0x1f, 0x30, 0x41, 0x6e, 0xa3, 0x8c, 0xfd, 0xd2,
   0x95, 0xba, 0xcb, 0xe4, 0x29, 0x06, 0x77, 0x58, 0xc2, 0xed, 0x9c, 0xb3, 0x7e, 0x51, 0x20, 0x0f,
   0x3b, 0x14, 0x65, 0x4a, 0x87, 0xa8, 0xd9, 0xf6, 0x6c, 0x43, 0x32, 0x1d, 0xd0, 0xff, 0x8e, 0xa1,
   0xe3, 0xcc, 0xbd, 0x92, 0x5f, 0x70, 0x01, 0x2e, 0xb4, 0x9b, 0xea, 0xc5, 0x08, 0x27, 0x56, 0x79,
   0x4d, 0x62, 0x13, 0x3c, 0xf1, 0xde, 0xaf, 0x80, 0x1a, 0x35, 0x44, 0x6b, 0xa6, 0x89, 0xf8, 0xd7,
   0x90, 0xbf, 0xce, 0xe1, 0x2c, 0x03, 0x72, 0x5d, 0xc7, 0xe8, 0x99, 0xb6, 0x7b, 0x54, 0x25, 0x0a,
   0x3e, 0x11, 0x60, 0x4f, 0x82, 0xad, 0xdc, 0xf3, 0x69, 0x46, 0x37, 0x18, 0xd5, 0xfa, 0x8b, 0xa4,
   0x05, 0x2a, 0x5b, 0x74, 0xb9, 0x96, 0xe7, 0xc8, 0x52, 0x7d, 0x0c, 0x23, 0xee, 0xc1, 0xb0, 0x9f,
   0xab, 0x84, 0xf5, 0xda, 0x17, 0x38, 0x49, 0x66, 0xfc, 0xd3, 0xa2, 0x8d, 0x40, 0x6f, 0x1e, 0x31,
   0x76, 0x59, 0x28, 0x07, 0xca, 0xe5, 0x94, 0xbb, 0x21, 0x0e, 0x7f, 0x50, 0x9d, 0xb2, 0xc3, 0xec,
   0xd8, 0xf7, 0x86, 0xa9, 0x64, 0x4b, 0x3a, 0x15, 0x8f, 0xa0, 0xd1, 0xfe, 0x33, 0x1c, 0x6d, 0x42]"

text \<open>
  \<open>crc8Table\<close> points either to the constant table or to the static array that
  \<open>CalulateTable_CRC8\<close> fills, so a new calculation changes what an old pointer reads.
\<close>

datatype crc8_ptr = Hard_table | Calculated_table

record crc8_state =
  crctable :: "u8 list"
  crc8Table :: crc8_ptr

definition crc8_lookup_table :: "crc8_state \<Rightarrow> u8 list" where
  "crc8_lookup_table st = (case crc8Table st of Hard_table \<Rightarrow> table_2f | Calculated_table \<Rightarrow> crctable st)"

definition crc8_start :: crc8_state where
  "crc8_start = \<lparr>crctable = replicate 256 0, crc8Table = Hard_table\<rparr>"

definition crc8Init :: "u8 \<Rightarrow> crc8_state \<Rightarrow> crc8_state" where
  "crc8Init gen st = st\<lparr>crctable := CalulateTable_CRC8 gen, crc8Table := Calculated_table\<rparr>"

definition crc8RestoreHardTable :: "crc8_state \<Rightarrow> crc8_state" where
  "crc8RestoreHardTable st = st\<lparr>crc8Table := Hard_table\<rparr>"

definition crc8 :: "crc8_state \<Rightarrow> u8 \<Rightarrow> u8 \<Rightarrow> u8" where
  "crc8 st lastCrc val = crc8_lookup_table st ! unat (val XOR lastCrc)"

text \<open>The loop over \<open>buf[0..bufLen)\<close>; the list is what the buffer holds.\<close>

primrec calcCrc8 :: "crc8_state \<Rightarrow> u8 \<Rightarrow> u8 list \<Rightarrow> u8" where
  "calcCrc8 st lastCrc [] = lastCrc"
| "calcCrc8 st lastCrc (b # buf) = calcCrc8 st (crc8_lookup_table st ! unat (b XOR lastCrc)) buf"

definition crc8place :: "u8 \<Rightarrow> u8" where
  "crc8place val = val"

section \<open>Hamming(7,4)\<close>

definition hammingCodes :: "u8 list" where
  "hammingCodes =
  [0x00, 0x71, 0x62, 0x13, 0x54, 0x25, 0x36, 0x47, 0x38, 0x49, 0x5a, 0x2b, 0x6c, 0x1d, 0x0e, 0x7f]"

definition HamEncode :: "u8 \<Rightarrow> u8" where
  "HamEncode b = hammingCodes ! unat (b AND 0x0f)"

definition hammingPackedDecodeValues :: "u8 list" where
  "hammingPackedDecodeValues =
  [0x00, 0x03, 0x05, 0xe7, 0x09, 0xeb, 0xed, 0xee, 0x03, 0x33, 0x4d, 0x63, 0x8d, 0xa3, 0xdd, 0xed,
   0x05, 0x2b, 0x55, 0x65, 0x8b, 0xbb, 0xc5, 0xeb, 0x81, 0x63, 0x65, 0x66, 0x88, 0x8b, 0x8d, 0x6f,
   0x09, 0x27, 0x47, 0x77, 0x99, 0xa9, 0xc9, 0xe7, 0x41, 0xa3, 0x44, 0x47, 0xa9, 0xaa, 0x4d, 0xaf,
   0x21, 0x22, 0xc5, 0x27, 0xc9, 0x2b, 0xcc, 0xcf, 0x11, 0x21, 0x41, 0x6f, 0x81, 0xaf, 0xcf, 0xff]"

definition hammingDecodeValues :: "u8 list" where
  "hammingDecodeValues =
  [0x00, 0x00, 0x00, 0x03, 0x00, 0x05, 0x0e, 0x07, 0x00, 0x09, 0x0e, 0x0b, 0x0e, 0x0d, 0x0e, 0x0e,
   0x00, 0x03, 0x03, 0x03, 0x04, 0x0d, 0x06, 0x03, 0x08, 0x0d, 0x0a, 0x03, 0x0d, 0x0d, 0x0e, 0x0d,
   0x00, 0x05, 0x02, 0x0b, 0x05, 0x05, 0x06, 0x05, 0x08, 0x0b, 0x0b, 0x0b, 0x0c, 0x05, 0x0e, 0x0b,
   0x08, 0x01, 0x06, 0x03, 0x06, 0x05, 0x06, 0x06, 0x08, 0x08, 0x08, 0x0b, 0x08, 0x0d, 0x06, 0x0f,
   0x00, 0x09, 0x02, 0x07, 0x04, 0x07, 0x07, 0x07, 0x09, 0x09, 0x0a, 0x09, 0x0c, 0x09, 0x0e, 0x07,
   0x04, 0x01, 0x0a, 0x03, 0x04, 0x04, 0x04, 0x07, 0x0a, 0x09, 0x0a, 0x0a, 0x04, 0x0d, 0x0a, 0x0f,
   0x02, 0x01, 0x02, 0x02, 0x0c, 0x05, 0x02, 0x07, 0x0c, 0x09, 0x02, 0x0b, 0x0c, 0x0c, 0x0c, 0x0f,
   0x01, 0x01, 0x02, 0x01, 0x04, 0x01, 0x06, 0x0f, 0x08, 0x01, 0x0a, 0x0f, 0x0c, 0x0f, 0x0f, 0x0f]"

text \<open>The decoder of \<open>USE_HAMMING_PACKED\<close> and the other one.\<close>

definition HamDecode_packed :: "u8 \<Rightarrow> u8" where
  "HamDecode_packed b =
     (let c = b AND 0x7f in
      if c AND 1 \<noteq> 0 then hammingPackedDecodeValues ! unat (drop_bit 1 c) AND 0x0f
      else drop_bit 4 (hammingPackedDecodeValues ! unat (drop_bit 1 c)))"

definition HamDecode :: "u8 \<Rightarrow> u8" where
  "HamDecode b = hammingDecodeValues ! unat (b AND 0x7F)"

section \<open>The bit step\<close>

definition shl1 :: "u8 \<Rightarrow> u8" where
  "shl1 c = push_bit 1 c"

lemma bit_shl1: "bit (shl1 c) n \<longleftrightarrow> n < 8 \<and> 0 < n \<and> bit c (n - 1)"
  unfolding shl1_def bit_push_bit_iff by (auto simp: possible_bit_word)

lemma shl1_xor: "shl1 (a XOR b) = shl1 a XOR shl1 b"
  by (simp add: shl1_def push_bit_xor)

lemma crc8_bit_alt: "crc8_bit g c = shl1 c XOR (if bit c 7 then g else 0)"
proof -
  have "c AND 0x80 \<noteq> 0 \<longleftrightarrow> bit c 7"
    using and_exp_eq_0_iff_not_bit [of c 7] by simp
  then show ?thesis
    by (simp add: crc8_bit_def shl1_def)
qed

lemma crc8_bit_xor: "crc8_bit g (a XOR b) = crc8_bit g a XOR crc8_bit g b"
  by (auto simp: crc8_bit_alt shl1_xor bit_xor_iff ac_simps)

lemma crc8_bit_0: "crc8_bit g 0 = 0"
  by (simp add: crc8_bit_alt shl1_def)

lemma crc8_bit_eq_0:
  assumes "bit g 0" "crc8_bit g c = 0"
  shows "c = 0"
proof -
  have "\<not> bit (crc8_bit g c) 0"
    using assms(2) by simp
  then have top: "\<not> bit c 7"
    using assms(1) by (auto simp: crc8_bit_alt bit_xor_iff bit_shl1 split: if_splits)
  have "\<not> bit c n" if "n < 7" for n
  proof -
    have "\<not> bit (crc8_bit g c) (Suc n)"
      using assms(2) by simp
    then show ?thesis
      using top that by (simp add: crc8_bit_alt bit_shl1)
  qed
  with top have "\<not> bit c n" if "n < 8" for n
    using that by (cases "n = 7") auto
  then show ?thesis
    by (intro bit_eqI) (auto dest: bit_imp_le_length)
qed

lemma crc8_bits_xor: "(crc8_bit g ^^ n) (a XOR b) = (crc8_bit g ^^ n) a XOR (crc8_bit g ^^ n) b"
  by (induction n) (simp_all add: crc8_bit_xor)

lemma crc8_bits_0: "(crc8_bit g ^^ n) 0 = 0"
  by (induction n) (simp_all add: crc8_bit_0)

lemma crc8_bits_eq_0: "bit g 0 \<Longrightarrow> (crc8_bit g ^^ n) c = 0 \<longleftrightarrow> c = 0"
  by (induction n) (auto simp: crc8_bits_0 crc8_bit_0 dest: crc8_bit_eq_0)

text \<open>While the bits that leave at the top are 0, the step is a shift.\<close>

lemma crc8_bits_shift:
  "(\<And>i. bit c i \<Longrightarrow> i + n < 8) \<Longrightarrow> (crc8_bit g ^^ n) c = push_bit n c"
proof (induction n)
  case (Suc n)
  have IH: "(crc8_bit g ^^ n) c = push_bit n c"
    using Suc by (metis add_Suc_right Suc_lessD)
  have "\<not> bit (push_bit n c) 7"
    using Suc.prems [of "7 - n"] by (auto simp: bit_push_bit_iff)
  then have "(crc8_bit g ^^ Suc n) c = shl1 (push_bit n c)"
    by (simp add: IH crc8_bit_alt)
  then show ?case
    by (simp only: shl1_def push_bit_push_bit) simp
qed simp

lemma crc8_byte_xor: "crc8_byte g (a XOR b) = crc8_byte g a XOR crc8_byte g b"
  by (simp only: crc8_byte_def crc8_bits_xor)

lemma crc8_byte_0: "crc8_byte g 0 = 0"
  by (simp only: crc8_byte_def crc8_bits_0)

lemma crc8_byte_eq_0: "bit g 0 \<Longrightarrow> crc8_byte g c = 0 \<longleftrightarrow> c = 0"
  by (simp only: crc8_byte_def crc8_bits_eq_0)

lemma xor_eq_0: "a XOR b = 0 \<longleftrightarrow> a = b" for a b :: u8
  by (metis xor.left_neutral xor.right_neutral xor_self_eq xor.assoc)

lemma xor_cancel: "c XOR a = c XOR b \<longleftrightarrow> a = b" for a b c :: u8
  by (metis xor.assoc xor.left_neutral xor_self_eq)

lemma crc8_byte_inject: "bit g 0 \<Longrightarrow> crc8_byte g a = crc8_byte g b \<longleftrightarrow> a = b"
  using crc8_byte_eq_0 [of g "a XOR b"] by (simp only: crc8_byte_xor xor_eq_0)

section \<open>Strings of bytes\<close>

text \<open>
  A table is the calculated one when its first half, doubled, is the whole: the entry of \<open>2b\<close> is
  one bit step from the entry of \<open>b\<close>, and the entry of \<open>2b + 1\<close> differs from it by the generator.
\<close>

lemma crc8_byte_double:
  assumes "n < 128"
  shows "crc8_byte g (of_nat (2 * n)) = crc8_bit g (crc8_byte g (of_nat n))"
    "crc8_byte g (of_nat (2 * n + 1)) = crc8_bit g (crc8_byte g (of_nat n)) XOR g"
proof -
  have less: "unat (of_nat n :: u8) = n"
    using assms by (simp add: unat_of_nat)
  have top: "\<not> bit (of_nat n :: u8) 7"
  proof
    assume "bit (of_nat n :: u8) 7"
    then have "bit (unat (of_nat n :: u8)) 7"
      unfolding bit_unsigned_iff by simp
    then have "bit n 7"
      by (simp only: less)
    then show False
      using assms by (simp add: bit_iff_odd)
  qed
  have dbl: "crc8_bit g (of_nat n) = of_nat (2 * n)"
    using top by (simp add: crc8_bit_alt shl1_def)
  have comm: "crc8_byte g (crc8_bit g c) = crc8_bit g (crc8_byte g c)" for c
    by (simp add: crc8_byte_def funpow_swap1)
  show 1: "crc8_byte g (of_nat (2 * n)) = crc8_bit g (crc8_byte g (of_nat n))"
    by (simp only: comm flip: dbl)
  have "(crc8_bit g ^^ 7) 1 = push_bit 7 1"
    by (rule crc8_bits_shift) (simp add: bit_1_iff)
  moreover have "shl1 (push_bit 7 1) = 0" "bit (push_bit 7 1 :: u8) 7"
    by code_simp+
  then have "crc8_bit g (push_bit 7 1) = g"
    by (simp only: crc8_bit_alt) simp
  moreover have "crc8_byte g 1 = crc8_bit g ((crc8_bit g ^^ 7) 1)"
    using funpow.simps(2) [of 7 "crc8_bit g"] by (simp add: crc8_byte_def)
  ultimately have one: "crc8_byte g 1 = g"
    by simp
  have "of_nat (2 * n + 1) = (of_nat (2 * n) XOR 1 :: u8)"
    by (simp add: xor_one_eq)
  then show "crc8_byte g (of_nat (2 * n + 1)) = crc8_bit g (crc8_byte g (of_nat n)) XOR g"
    by (simp only: crc8_byte_xor 1 one)
qed

definition doubled :: "u8 \<Rightarrow> u8 list \<Rightarrow> u8 list" where
  "doubled g xs = concat (map (\<lambda>x. [crc8_bit g x, crc8_bit g x XOR g]) xs)"

lemma length_doubled: "length (doubled g xs) = 2 * length xs"
  by (induction xs) (simp_all add: doubled_def)

lemma doubled_nth:
  "n < length xs \<Longrightarrow> doubled g xs ! (2 * n) = crc8_bit g (xs ! n) \<and>
     doubled g xs ! (2 * n + 1) = crc8_bit g (xs ! n) XOR g"
proof (induction xs arbitrary: n)
  case (Cons x xs)
  then show ?case
    by (cases n) (auto simp: doubled_def)
qed simp

lemma table_doubled:
  assumes "doubled g (take 128 t) = t" "length t = 256" "t ! 0 = 0"
  shows "t = CalulateTable_CRC8 g"
proof -
  have "t ! n = crc8_byte g (of_nat n)" if "n < 256" for n
    using that
  proof (induction n rule: less_induct)
    case (less n)
    show ?case
    proof (cases "n = 0")
      case False
      have half: "n div 2 < length (take 128 t)" "n div 2 < 128" "n div 2 < n"
        using less.prems False assms(2) by auto
      have "t ! (n div 2) = crc8_byte g (of_nat (n div 2))"
        using less half by simp
      then have "t ! (2 * (n div 2)) = crc8_byte g (of_nat (2 * (n div 2)))"
        "t ! (2 * (n div 2) + 1) = crc8_byte g (of_nat (2 * (n div 2) + 1))"
        using doubled_nth [OF half(1), of g] crc8_byte_double [OF half(2), of g] half(2)
        unfolding assms(1) by (simp_all only: nth_take)
      moreover have "n = 2 * (n div 2) \<or> n = 2 * (n div 2) + 1"
        by presburger
      ultimately show ?thesis
        by metis
    qed (simp add: assms(3) crc8_byte_0)
  qed
  then show ?thesis
    by (intro nth_equalityI) (simp_all add: assms(2) CalulateTable_CRC8_def)
qed

lemma table_2f_calculated: "table_2f = CalulateTable_CRC8 0x2f"
  by (rule table_doubled) code_simp+

lemma table_1d_calculated: "table_1d = CalulateTable_CRC8 0x1d"
  by (rule table_doubled) code_simp+

lemma CalulateTable_CRC8_nth: "CalulateTable_CRC8 g ! unat b = crc8_byte g b"
  using unsigned_less [where w = b and ?'a = nat] by (simp add: CalulateTable_CRC8_def)

lemma lookup_table [simp]:
  "crc8_lookup_table (crc8Init g st) = CalulateTable_CRC8 g"
  "crc8_lookup_table (crc8RestoreHardTable st) = CalulateTable_CRC8 0x2f"
  "crc8_lookup_table crc8_start = CalulateTable_CRC8 0x2f"
  by (simp_all add: crc8_lookup_table_def crc8Init_def crc8RestoreHardTable_def crc8_start_def
      table_2f_calculated)

definition crc_string :: "u8 \<Rightarrow> u8 \<Rightarrow> u8 list \<Rightarrow> u8" where
  "crc_string g c bs = foldl (\<lambda>c b. crc8_byte g (b XOR c)) c bs"

lemma crc_string_simps [simp]:
  "crc_string g c [] = c"
  "crc_string g c (b # bs) = crc_string g (crc8_byte g (b XOR c)) bs"
  "crc_string g c (xs @ ys) = crc_string g (crc_string g c xs) ys"
  by (simp_all add: crc_string_def)

lemma calcCrc8_string:
  "crc8_lookup_table st = CalulateTable_CRC8 g \<Longrightarrow> calcCrc8 st c buf = crc_string g c buf"
  by (induction buf arbitrary: c) (simp_all add: CalulateTable_CRC8_nth)

lemma crc_string_xor:
  "length xs = length ys \<Longrightarrow>
   crc_string g (a XOR b) (map2 (XOR) xs ys) = crc_string g a xs XOR crc_string g b ys"
proof (induction xs ys arbitrary: a b rule: list_induct2)
  case (Cons x xs y ys)
  have "crc8_byte g ((x XOR y) XOR (a XOR b)) = crc8_byte g (x XOR a) XOR crc8_byte g (y XOR b)"
    unfolding crc8_byte_xor [symmetric] by (simp only: ac_simps)
  with Cons.IH show ?case
    by simp
qed simp

lemma crc_string_inject: "bit g 0 \<Longrightarrow> crc_string g a bs = crc_string g b bs \<longleftrightarrow> a = b"
  by (induction bs arbitrary: a b) (simp_all add: crc8_byte_inject xor_cancel)

text \<open>The bit-serial register the table stands for, fed with each byte from its top bit.\<close>

definition crc_serial :: "u8 \<Rightarrow> u8 \<Rightarrow> bool \<Rightarrow> u8" where
  "crc_serial g c b = push_bit 1 c XOR (if bit c 7 \<noteq> b then g else 0)"

definition bits_msb :: "u8 \<Rightarrow> bool list" where
  "bits_msb b = map (\<lambda>i. bit b (7 - i)) [0..<8]"

lemma crc_serial_bits:
  "n \<le> 8 \<Longrightarrow> (crc8_bit g ^^ n) (b XOR c) =
     foldl (crc_serial g) c (map (\<lambda>i. bit b (7 - i)) [0..<n]) XOR push_bit n b"
proof (induction n)
  case (Suc n)
  define s where "s = foldl (crc_serial g) c (map (\<lambda>i. bit b (7 - i)) [0..<n])"
  have "(crc8_bit g ^^ n) (b XOR c) = s XOR push_bit n b"
    using Suc by (simp add: s_def)
  then have "(crc8_bit g ^^ Suc n) (b XOR c) = crc8_bit g (s XOR push_bit n b)"
    by simp
  also have "\<dots> = (shl1 s XOR (if bit s 7 \<noteq> bit b (7 - n) then g else 0)) XOR shl1 (push_bit n b)"
    using Suc.prems by (auto simp: crc8_bit_alt shl1_xor bit_xor_iff bit_push_bit_iff ac_simps)
  also have "shl1 (push_bit n b) = push_bit (Suc n) b"
    by (simp only: shl1_def push_bit_push_bit) simp
  finally have "(crc8_bit g ^^ Suc n) (b XOR c) = crc_serial g s (bit b (7 - n)) XOR push_bit (Suc n) b"
    by (simp only: crc_serial_def shl1_def)
  then show ?case
    by (simp only: s_def) simp
qed (simp add: xor.commute)

lemma crc8_byte_serial: "crc8_byte g (b XOR c) = foldl (crc_serial g) c (bits_msb b)"
proof -
  have "push_bit 8 b = 0"
    by (rule bit_eqI) (simp add: bit_push_bit_iff possible_bit_word)
  then show ?thesis
    using crc_serial_bits [of 8 g b c] by (simp add: crc8_byte_def bits_msb_def)
qed

lemma crc_string_serial: "crc_string g c bs = foldl (crc_serial g) c (concat (map bits_msb bs))"
  by (induction bs arbitrary: c) (simp_all add: crc8_byte_serial)

section \<open>Bit errors\<close>

text \<open>The number of bits set in a byte and in a string, and parity.\<close>

definition weight :: "u8 \<Rightarrow> nat" where
  "weight b = length (filter (bit b) [0..<8])"

definition weights :: "u8 list \<Rightarrow> nat" where
  "weights bs = sum_list (map weight bs)"

lemma weights_Cons: "weights (b # bs) = weight b + weights bs"
  by (simp add: weights_def)

lemma weight_0 [simp]: "weight b = 0 \<longleftrightarrow> b = 0"
proof
  assume "weight b = 0"
  then have "\<forall>i<8. \<not> bit b i"
    by (auto simp: weight_def filter_empty_conv)
  then show "b = 0"
    by (intro bit_eqI) (auto dest: bit_imp_le_length)
qed (simp add: weight_def)

lemma weight_zero [simp]: "weight 0 = 0"
  by (simp only: weight_0)

lemma even_filter_neq:
  "even (length (filter (\<lambda>i. P i \<noteq> Q i) xs)) \<longleftrightarrow>
     (even (length (filter P xs)) \<longleftrightarrow> even (length (filter Q xs)))"
  by (induction xs) auto

lemma weight_parity_xor: "even (weight (a XOR b)) \<longleftrightarrow> (even (weight a) \<longleftrightarrow> even (weight b))"
proof -
  have "weight (a XOR b) = length (filter (\<lambda>i. bit a i \<noteq> bit b i) [0..<8])"
    unfolding weight_def by (rule arg_cong [where f = length], rule filter_cong) (simp_all add: bit_xor_iff)
  then show ?thesis
    by (simp only: even_filter_neq weight_def)
qed

lemma weight_shl1: "weight b = weight (shl1 b) + of_bool (bit b 7)"
proof -
  have "[0..<8] = 0 # map Suc [0..<7]"
    by (simp add: map_Suc_upt upt_conv_Cons)
  then have "filter (bit (shl1 b)) [0..<8] = filter (bit (shl1 b)) (0 # map Suc [0..<7])"
    by (simp only:)
  also have "\<dots> = map Suc (filter (bit b) [0..<7])"
    by (auto simp: filter_map bit_shl1 o_def intro!: filter_cong)
  finally show ?thesis
    by (simp add: weight_def) (simp add: upt_rec numeral_eq_Suc)
qed

lemma weight_parity_bit: "odd (weight g) \<Longrightarrow> even (weight (crc8_bit g b)) \<longleftrightarrow> even (weight b)"
  using weight_shl1 [of b] by (auto simp: crc8_bit_alt weight_parity_xor)

lemma weight_parity_byte: "odd (weight g) \<Longrightarrow> even (weight (crc8_byte g b)) \<longleftrightarrow> even (weight b)"
proof -
  assume "odd (weight g)"
  then have "even (weight ((crc8_bit g ^^ n) b)) \<longleftrightarrow> even (weight b)" for n
    by (induction n) (simp_all add: weight_parity_bit)
  then show ?thesis
    by (simp only: crc8_byte_def)
qed

lemma weight_2f: "odd (weight 0x2f)"
  by code_simp

lemma crc_string_parity: "even (weight (crc_string 0x2f c bs)) \<longleftrightarrow> (even (weight c) \<longleftrightarrow> even (weights bs))"
  by (induction bs arbitrary: c) (auto simp: weights_def weight_parity_byte [OF weight_2f] weight_parity_xor)

lemma weights_0: "weights bs = 0 \<Longrightarrow> crc_string g c bs = crc_string g c (replicate (length bs) 0)"
  by (induction bs arbitrary: c) (simp_all add: weights_def)

lemma crc_string_zeros: "bit g 0 \<Longrightarrow> weights bs = 0 \<Longrightarrow> crc_string g c bs = 0 \<longleftrightarrow> c = 0"
proof -
  assume g: "bit g 0" and "weights bs = 0"
  moreover have "crc_string g c (replicate n 0) = 0 \<longleftrightarrow> c = 0" for n
    by (induction n arbitrary: c) (simp_all add: crc8_byte_eq_0 g)
  ultimately show ?thesis
    by (simp add: weights_0)
qed

lemma crc_string_leading: "crc_string g 0 (0 # bs) = crc_string g 0 bs"
  by (simp add: crc8_byte_0)

text \<open>The orbit of a single bit: with generator 0x2f no other single bit comes back before step 127.\<close>

lemma weight_1:
  assumes "weight b = 1"
  obtains i where "i < 8" "b = (crc8_bit g ^^ i) 1"
proof -
  obtain i where i: "filter (bit b) [0..<8] = [i]"
    using assms unfolding weight_def by (auto simp: length_Suc_conv)
  from arg_cong [where f = set, OF i] have "{j \<in> {0..<8}. bit b j} = {i}"
    unfolding set_filter set_upt by simp
  then have mem: "j < 8 \<and> bit b j \<longleftrightarrow> j = i" for j
    by (auto simp: set_eq_iff)
  then have "bit b j \<longleftrightarrow> j = i" for j
    using bit_imp_le_length [of b j] by auto
  moreover have "bit (push_bit i (1 :: u8)) j \<longleftrightarrow> j = i" for j
    using mem [of i] unfolding bit_push_bit_iff by (auto simp: bit_1_iff possible_bit_word)
  ultimately have "b = push_bit i 1"
    by (intro bit_eqI) blast
  moreover have "(crc8_bit g ^^ i) 1 = push_bit i 1"
    using mem [of i] by (intro crc8_bits_shift) (auto simp: bit_1_iff)
  ultimately have "b = (crc8_bit g ^^ i) 1"
    by (simp only:)
  then show ?thesis
    using that [of i] mem [of i] by blast
qed

primrec orbit :: "u8 \<Rightarrow> nat \<Rightarrow> u8 \<Rightarrow> u8 list" where
  "orbit g 0 c = []"
| "orbit g (Suc n) c = c # orbit g n (crc8_bit g c)"

lemma orbit_map: "orbit g n c = map (\<lambda>i. (crc8_bit g ^^ i) c) [0..<n]"
proof (induction n arbitrary: c)
  case (Suc n)
  have "[0..<Suc n] = 0 # map Suc [0..<n]"
    by (simp add: map_Suc_upt upt_conv_Cons)
  then show ?case
    by (simp only: Suc orbit.simps) (simp add: funpow_swap1)
qed simp

lemma orbit_mem: "k \<le> m \<Longrightarrow> m < n \<Longrightarrow> (crc8_bit g ^^ m) c \<in> set (drop k (orbit g n c))"
  by (auto simp: orbit_map drop_map)

lemma orbit_2f: "list_all (\<lambda>c. weight c \<noteq> 1) (drop 8 (orbit 0x2f 127 1))"
  by code_simp

lemma orbit_weight:
  assumes "8 \<le> m" "m < 127"
  shows "weight ((crc8_bit 0x2f ^^ m) 1) \<noteq> 1"
proof -
  have "(crc8_bit 0x2f ^^ m) 1 \<in> set (drop 8 (orbit 0x2f 127 1))"
    using orbit_mem assms by blast
  then show ?thesis
    using orbit_2f by (auto simp: list_all_iff)
qed

lemma crc_string_second_bit:
  "weights r = 1 \<Longrightarrow> 8 \<le> m \<Longrightarrow> m + 8 * length r < 135 \<Longrightarrow>
   crc_string 0x2f ((crc8_bit 0x2f ^^ m) 1) r \<noteq> 0"
proof (induction r arbitrary: m)
  case (Cons b r)
  have odd: "bit (0x2f :: u8) 0"
    by simp
  have "weight b = 0 \<and> weights r = 1 \<or> weight b = 1 \<and> weights r = 0"
    using Cons.prems(1) unfolding weights_Cons by arith
  then consider "weight b = 0" "weights r = 1" | "weight b = 1" "weights r = 0"
    by auto
  then show ?case
  proof cases
    case 1
    have "crc8_byte 0x2f ((crc8_bit 0x2f ^^ m) 1) = (crc8_bit 0x2f ^^ (8 + m)) 1"
      by (simp only: crc8_byte_def funpow_add o_apply)
    moreover have "b = 0"
      using 1 by simp
    ultimately show ?thesis
      using Cons.IH [of "8 + m"] Cons.prems 1 by simp
  next
    case 2
    then have "b \<noteq> (crc8_bit 0x2f ^^ m) 1"
      using orbit_weight [of m] Cons.prems by auto
    then show ?thesis
      using 2 by (simp add: crc_string_zeros odd crc8_byte_eq_0 xor_eq_0)
  qed
qed (simp add: weights_def)

lemma crc_string_two_bits:
  "weights e = 2 \<Longrightarrow> length e \<le> 15 \<Longrightarrow> crc_string 0x2f 0 e \<noteq> 0"
proof (induction e)
  case (Cons b r)
  have odd: "bit (0x2f :: u8) 0"
    by simp
  have "weight b = 0 \<and> weights r = 2 \<or> weight b = 1 \<and> weights r = 1 \<or> weight b = 2 \<and> weights r = 0"
    using Cons.prems(1) unfolding weights_Cons by arith
  then consider "weight b = 0" "weights r = 2" | "weight b = 1" "weights r = 1" | "weight b = 2" "weights r = 0"
    by auto
  then show ?case
  proof cases
    case 1
    then show ?thesis
      using Cons by (simp add: crc8_byte_0)
  next
    case 2
    obtain i where "i < 8" "b = (crc8_bit 0x2f ^^ i) 1"
      using weight_1 [OF 2(1)] by blast
    then have "crc8_byte 0x2f b = (crc8_bit 0x2f ^^ (8 + i)) 1"
      by (simp only: crc8_byte_def funpow_add o_apply)
    then show ?thesis
      using crc_string_second_bit [OF 2(2), of "8 + i"] \<open>i < 8\<close> Cons.prems(2) by simp
  next
    case 3
    then have "b \<noteq> 0"
      by auto
    then show ?thesis
      using 3 by (simp add: crc_string_zeros odd crc8_byte_eq_0)
  qed
qed (simp add: weights_def)

text \<open>What a difference of the strings does to their CRCs.\<close>

lemma crc_string_diff:
  assumes "length xs = length ys"
  shows "crc_string g c xs = crc_string g c ys \<longleftrightarrow> crc_string g 0 (map2 (XOR) xs ys) = 0"
  using crc_string_xor [OF assms, of g c c] by (simp add: xor_eq_0)

text \<open>A burst of at most eight bits touches at most two neighbouring bytes.\<close>

lemma crc8_byte_burst:
  assumes "k \<le> 8"
  shows "crc8_byte g (drop_bit k x) XOR push_bit (8 - k) x = (crc8_bit g ^^ (8 - k)) x"
proof -
  have "crc8_byte g (drop_bit k x) = (crc8_bit g ^^ (8 - k)) ((crc8_bit g ^^ k) (drop_bit k x))"
    using assms funpow_add [of "8 - k" k "crc8_bit g"] by (simp add: crc8_byte_def)
  also have "(crc8_bit g ^^ k) (drop_bit k x) = push_bit k (drop_bit k x)"
    by (rule crc8_bits_shift) (auto simp: bit_drop_bit_eq dest: bit_imp_le_length)
  finally have 1: "crc8_byte g (drop_bit k x) = (crc8_bit g ^^ (8 - k)) (push_bit k (drop_bit k x))" .
  have "push_bit (8 - k) x = push_bit (8 - k) (take_bit k x)"
    by (rule bit_eqI) (auto simp: bit_push_bit_iff bit_take_bit_iff)
  moreover have "(crc8_bit g ^^ (8 - k)) (take_bit k x) = push_bit (8 - k) (take_bit k x)"
    by (rule crc8_bits_shift) (use assms in \<open>auto simp: bit_take_bit_iff\<close>)
  ultimately have 2: "push_bit (8 - k) x = (crc8_bit g ^^ (8 - k)) (take_bit k x)"
    by simp
  have "push_bit k (drop_bit k x) XOR take_bit k x = x"
    by (rule bit_eqI) (auto simp: bit_xor_iff bit_push_bit_iff bit_drop_bit_eq bit_take_bit_iff)
  then show ?thesis
    unfolding 1 2 crc8_bits_xor [symmetric] by simp
qed

section \<open>Properties\<close>

text \<open> C25. The table lookup computes the polynomial division it tabulates: for the calculated table
  of any generator and for the constant table of generator 0x2f, \<open>calcCrc8\<close> is the bit-serial
  register run over the bits of the buffer, most significant first, and a message followed by its
  own CRC has CRC 0. The inline \<open>crc8\<close> is \<open>calcCrc8\<close> on one byte. \<close>

theorem calcCrc8_is_division:
  "calcCrc8 (crc8Init g st) c buf = foldl (crc_serial g) c (concat (map bits_msb buf)) \<and>
   calcCrc8 (crc8RestoreHardTable st) c buf = foldl (crc_serial 0x2f) c (concat (map bits_msb buf)) \<and>
   calcCrc8 (crc8Init g st) c (buf @ [calcCrc8 (crc8Init g st) c buf]) = 0 \<and>
   crc8 (crc8Init g st) c b = calcCrc8 (crc8Init g st) c [b]"
  by (simp add: calcCrc8_string crc8_byte_0 crc8_def)
    (simp only: crc_string_serial calcCrc8_string [OF lookup_table(2)] simp_thms)

text \<open> C26. With a generator whose constant term is 1 (both constant tables have one), a burst of at
  most eight bits, anywhere in a message of any length and across a byte boundary or not, changes the CRC. \<close>

theorem calcCrc8_detects_burst:
  assumes "bit g 0" "x \<noteq> 0" "k \<le> 8"
  shows "calcCrc8 (crc8Init g st) c (p @ [a, b] @ s) \<noteq>
    calcCrc8 (crc8Init g st) c (p @ [a XOR drop_bit k x, b XOR push_bit (8 - k) x] @ s)"
proof -
  let ?c = "crc_string g c p"
  have "crc_string g ?c [a, b] \<noteq> crc_string g ?c [a XOR drop_bit k x, b XOR push_bit (8 - k) x]"
  proof -
    have "map2 (XOR) [a, b] [a XOR drop_bit k x, b XOR push_bit (8 - k) x] = [drop_bit k x, push_bit (8 - k) x]"
      by (simp flip: xor.assoc)
    then show ?thesis
      using crc8_byte_burst [OF assms(3), of g x] assms(1,2)
      by (subst crc_string_diff) (simp_all add: crc8_byte_eq_0 crc8_bits_eq_0 xor.commute)
  qed
  then show ?thesis
    unfolding calcCrc8_string [OF lookup_table(1)] crc_string_simps(3) crc_string_inject [OF assms(1)] .
qed

theorem calcCrc8_detects_burst_witness:
  "calcCrc8 (crc8Init 0x2f crc8_start) 0 [1, 2, 3, 4] \<noteq> calcCrc8 (crc8Init 0x2f crc8_start) 0 [1, 5, 0xE3, 4]"
proof -
  have bytes: "2 XOR drop_bit 4 0x7E = (5 :: u8)" "3 XOR push_bit (8 - 4) 0x7E = (0xE3 :: u8)"
    by code_simp+
  have hyps: "bit (0x2f :: u8) 0" "(0x7E :: u8) \<noteq> 0" "4 \<le> (8 :: nat)"
    by simp_all
  show ?thesis
    using calcCrc8_detects_burst [OF hyps, of crc8_start 0 "[1]" 2 3 "[4]"] unfolding bytes append.simps .
qed

text \<open> C27. The constant table keeps messages of up to fifteen bytes (the CRC counted) at Hamming
  distance four: two messages that differ in one, two or three bits have different CRCs. \<close>

theorem calcCrc8_distance:
  assumes "length xs = length ys" "length xs \<le> 15"
    and "1 \<le> weights (map2 (XOR) xs ys)" "weights (map2 (XOR) xs ys) \<le> 3"
  shows "calcCrc8 (crc8RestoreHardTable st) c xs \<noteq> calcCrc8 (crc8RestoreHardTable st) c ys"
proof -
  let ?e = "map2 (XOR) xs ys"
  have "crc_string 0x2f 0 ?e \<noteq> 0"
  proof (cases "weights ?e = 2")
    case True
    then show ?thesis
      using crc_string_two_bits assms(1,2) by simp
  next
    case False
    then have "odd (weights ?e)"
      using assms(3,4) by (cases "weights ?e = 1"; cases "weights ?e = 3") auto
    then show ?thesis
      using crc_string_parity [of 0 ?e] by auto
  qed
  then show ?thesis
    using crc_string_diff [OF assms(1)] by (simp add: calcCrc8_string [OF lookup_table(2)])
qed

theorem calcCrc8_distance_witness:
  "calcCrc8 (crc8RestoreHardTable crc8_start) 0xff [0x10, 0x20, 0x30] \<noteq>
   calcCrc8 (crc8RestoreHardTable crc8_start) 0xff [0x11, 0x20, 0xB2]"
proof -
  have "weights (map2 (XOR) [0x10, 0x20, 0x30] [0x11, 0x20, 0xB2]) = 3"
    by code_simp
  then show ?thesis
    using calcCrc8_distance [of "[0x10, 0x20, 0x30]" "[0x11, 0x20, 0xB2]" crc8_start "0xff"] by (simp del: calcCrc8.simps)
qed

text \<open> C28. Hamming(7,4): whatever single bit of a code word is inverted on the line, either decoder
  returns the nibble that was encoded. \<close>

theorem HamDecode_corrects:
  assumes "weight e \<le> 1"
  shows "HamDecode (HamEncode d XOR e) = d AND 0x0f \<and> HamDecode_packed (HamEncode d XOR e) = d AND 0x0f"
proof -
  define n where "n = unat (d AND 0x0f)"
  have "(0x0f :: u8) = mask 4"
    by (simp add: mask_eq_exp_minus_1)
  then have "d AND 0x0f = take_bit 4 d"
    by (simp only: take_bit_eq_mask)
  then have "n < 16"
    unfolding n_def by (simp add: unsigned_take_bit_eq take_bit_nat_def)
  have d: "d AND 0x0f = of_nat n"
    by (simp add: n_def)
  have e: "e \<in> set [0, 1, 2, 4, 8, 0x10, 0x20, 0x40, 0x80]"
  proof (cases "weight e = 1")
    case True
    obtain i where "i < 8" "e = (crc8_bit 0 ^^ i) 1"
      using weight_1 [OF True] by blast
    then have "e \<in> set (orbit 0 8 1)"
      using orbit_mem [of 0 i 8 0 1] by simp
    moreover have "orbit 0 8 1 = [1, 2, 4, 8, 0x10, 0x20, 0x40, 0x80]"
      by code_simp
    ultimately show ?thesis
      by simp
  next
    case False
    then have "weight e = 0"
      using assms by linarith
    then have "e = 0"
      by (simp only: weight_0)
    then show ?thesis
      by simp
  qed
  have "list_all (\<lambda>n. list_all (\<lambda>e. HamDecode (hammingCodes ! n XOR e) = of_nat n \<and>
      HamDecode_packed (hammingCodes ! n XOR e) = of_nat n) [0, 1, 2, 4, 8, 0x10, 0x20, 0x40, 0x80]) [0..<16]"
    by code_simp
  then show ?thesis
    using e \<open>n < 16\<close> unfolding list_all_iff HamEncode_def d
    by (auto simp: n_def dest!: bspec [of _ _ n])
qed

theorem HamDecode_corrects_witness:
  "HamDecode (HamEncode 0x0b XOR 0x40) = 0x0b \<and> HamDecode_packed (HamEncode 0x0b XOR 0x40) = 0x0b"
proof -
  have "weight 0x40 \<le> 1"
    by code_simp
  from HamDecode_corrects [OF this, of "0x0b"] show ?thesis
    by simp
qed

end
