(* ===== verification/EventLog.thy ===== *)
theory EventLog
  imports Prelude
begin

text \<open>
  The event log of \<^verbatim>\<open>src/src/eventlog.c\<close> and \<^verbatim>\<open>eventlog.h\<close>: sixteen records and a counter
  per event in RAM that survives a reset. The pointer \<open>next\<close> is kept as its distance in bytes from
  \<open>events\<close>, an integer, since after a power up it may be anything; a record takes 12 bytes. An
  access through \<open>next\<close> that is not to a record of the log is \<open>None\<close>. The global 64 bit time is
  little endian, so \<open>EVENT_SECONDS\<close> is its lower half.
\<close>

section \<open>Data\<close>

datatype eventDes_t =
    InternalError | ParameterError | AssertError | SystemReset | BufferNotAvailable | TimeSet
  | EventsOverrun | Events

fun event_code :: "eventDes_t \<Rightarrow> nat" where
  "event_code InternalError = 0"
| "event_code ParameterError = 1"
| "event_code AssertError = 2"
| "event_code SystemReset = 3"
| "event_code BufferNotAvailable = 4"
| "event_code TimeSet = 5"
| "event_code EventsOverrun = 6"
| "event_code Events = 7"

abbreviation EVENTS_TO_STORE :: nat where "EVENTS_TO_STORE \<equiv> 16"
abbreviation sizeof_rec :: int where "sizeof_rec \<equiv> 12"

record eventRec_t =
  er_seconds :: u32
  er_event :: eventDes_t
  er_val :: u32

record eventStore_t =
  es_next :: int
  es_events :: "nat \<Rightarrow> eventRec_t"
  es_counts :: "nat \<Rightarrow> u8"

record ev_world =
  eventStore :: "eventStore_t option"
  eventTime :: u64

definition EVENT_SECONDS :: "ev_world \<Rightarrow> u32" where
  "EVENT_SECONDS w = ucast (eventTime w)"

definition EVENT_SECONDS_HIGH :: "ev_world \<Rightarrow> u32" where
  "EVENT_SECONDS_HIGH w = ucast (drop_bit 32 (eventTime w))"

text \<open>The record a pointer at byte distance \<open>p\<close> leads to.\<close>

definition rec_at :: "int \<Rightarrow> nat option" where
  "rec_at p = (if 0 \<le> p \<and> p < sizeof_rec * int EVENTS_TO_STORE \<and> p mod sizeof_rec = 0
               then Some (nat (p div sizeof_rec)) else None)"

section \<open>Operations (eventlog.c)\<close>

definition write_rec :: "int \<Rightarrow> eventRec_t \<Rightarrow> eventStore_t \<Rightarrow> eventStore_t option" where
  "write_rec p r es = map_option (\<lambda>i. es\<lparr>es_events := (es_events es)(i := r)\<rparr>) (rec_at p)"

definition setEvent :: "eventDes_t \<Rightarrow> u32 \<Rightarrow> ev_world \<Rightarrow> ev_world option" where
  "setEvent evt val w =
     (case eventStore w of
        None \<Rightarrow> Some w
      | Some es \<Rightarrow>
          Option.bind
            (if es_next es < sizeof_rec * int EVENTS_TO_STORE
             then map_option (\<lambda>es1. es1\<lparr>es_next := es_next es1 + sizeof_rec\<rparr>)
               (write_rec (es_next es) \<lparr>er_seconds = EVENT_SECONDS w, er_event = evt, er_val = val\<rparr> es)
             else write_rec (es_next es - sizeof_rec)
               \<lparr>er_seconds = EVENT_SECONDS w, er_event = EventsOverrun, er_val = of_nat (event_code evt)\<rparr> es)
            (\<lambda>es1. Some (w\<lparr>eventStore := Some
               (if event_code evt < event_code Events
                then es1\<lparr>es_counts := (es_counts es1)(event_code evt := USAT_INC_narrow (es_counts es1 (event_code evt)))\<rparr>
                else es1)\<rparr>)))"

definition getEventCnt :: "ev_world \<Rightarrow> u8" where
  "getEventCnt w = (case eventStore w of None \<Rightarrow> 0 | Some es \<Rightarrow> word_of_int (es_next es div sizeof_rec))"

text \<open>What is copied to the buffer is returned with the count.\<close>

definition getEvents :: "u32 \<Rightarrow> ev_world \<Rightarrow> u8 \<times> eventRec_t list \<times> ev_world" where
  "getEvents bufLen w =
     (case eventStore w of
        None \<Rightarrow> (0, [], w)
      | Some es \<Rightarrow>
          let m0 = bufLen div 12; events = (word_of_int (es_next es div sizeof_rec) :: u32);
              m = (if m0 > events then events else m0); n = unat m; rest = unat (events - m)
          in (ucast m, map (es_events es) [0..<n],
              w\<lparr>eventStore := Some (es\<lparr>
                es_events := (\<lambda>i. if i < rest then es_events es (n + i) else es_events es i),
                es_next := es_next es - sizeof_rec * int n\<rparr>)\<rparr>))"

text \<open>The search for a slot \<open>next\<close> points at, from slot \<open>i\<close> on; then the log as the RAM had it, or a clean one.\<close>

function valid_next :: "nat \<Rightarrow> eventStore_t \<Rightarrow> bool" where
  "valid_next i es =
     (if i < EVENTS_TO_STORE then (if es_next es = sizeof_rec * int i then True else valid_next (Suc i) es) else False)"
  by pat_completeness auto

termination
  by (relation "measure (\<lambda>(i, es). EVENTS_TO_STORE - i)") auto

declare valid_next.simps [simp del]

definition initEvents :: "eventStore_t \<Rightarrow> ev_world \<Rightarrow> ev_world option" where
  "initEvents baseAddress w =
     (if valid_next 1 baseAddress
      then setEvent SystemReset (EVENT_SECONDS_HIGH w) (w\<lparr>eventStore := Some baseAddress\<rparr>)
      else setEvent SystemReset (ucast (0 :: u64))
        (w\<lparr>eventStore := Some \<lparr>es_next = 0,
             es_events = (\<lambda>_. \<lparr>er_seconds = 0, er_event = InternalError, er_val = 0\<rparr>), es_counts = (\<lambda>_. 0)\<rparr>,
           eventTime := 0\<rparr>))"

definition setEventTime :: "u64 \<Rightarrow> ev_world \<Rightarrow> ev_world option" where
  "setEventTime time w = map_option (\<lambda>w1. w1\<lparr>eventTime := time\<rparr>) (setEvent TimeSet (EVENT_SECONDS_HIGH w) w)"

section \<open>The log as a list\<close>

text \<open>
  The abstract log: at most sixteen records, oldest first, the counters, the time. A seventeenth
  event replaces the last record by an overrun record that names it.
\<close>

record ev_log =
  el_recs :: "eventRec_t list"
  el_counts :: "nat \<Rightarrow> u8"
  el_time :: u64

datatype ev_op = EvSet eventDes_t u32 | EvCnt | EvGet u32 | EvTime u64

datatype ev_res = EvDone | EvCount u8 | EvGot u8 "eventRec_t list" | EvFault

definition log_event :: "eventDes_t \<Rightarrow> u32 \<Rightarrow> ev_log \<Rightarrow> ev_log" where
  "log_event evt val l = l\<lparr>
     el_recs := (if length (el_recs l) < 16
       then el_recs l @ [\<lparr>er_seconds = ucast (el_time l), er_event = evt, er_val = val\<rparr>]
       else butlast (el_recs l) @ [\<lparr>er_seconds = ucast (el_time l), er_event = EventsOverrun, er_val = of_nat (event_code evt)\<rparr>]),
     el_counts := (if evt = Events then el_counts l else (el_counts l)(event_code evt := el_counts l (event_code evt) + 1))\<rparr>"

fun ev_spec :: "ev_op \<Rightarrow> ev_log \<Rightarrow> ev_res \<times> ev_log" where
  "ev_spec (EvSet evt val) l = (EvDone, log_event evt val l)"
| "ev_spec EvCnt l = (EvCount (of_nat (length (el_recs l))), l)"
| "ev_spec (EvGet bufLen) l =
     (let n = min (unat bufLen div 12) (length (el_recs l))
      in (EvGot (of_nat n) (take n (el_recs l)), l\<lparr>el_recs := drop n (el_recs l)\<rparr>))"
| "ev_spec (EvTime time) l =
     (EvDone, (log_event TimeSet (ucast (drop_bit 32 (el_time l))) l)\<lparr>el_time := time\<rparr>)"

fun ev_step :: "ev_op \<Rightarrow> ev_world \<Rightarrow> ev_res \<times> ev_world" where
  "ev_step (EvSet evt val) w = (case setEvent evt val w of Some w1 \<Rightarrow> (EvDone, w1) | None \<Rightarrow> (EvFault, w))"
| "ev_step EvCnt w = (EvCount (getEventCnt w), w)"
| "ev_step (EvGet bufLen) w = (case getEvents bufLen w of (n, rs, w1) \<Rightarrow> (EvGot n rs, w1))"
| "ev_step (EvTime time) w = (case setEventTime time w of Some w1 \<Rightarrow> (EvDone, w1) | None \<Rightarrow> (EvFault, w))"

definition ev_inv :: "ev_world \<Rightarrow> bool" where
  "ev_inv w \<longleftrightarrow> (case eventStore w of None \<Rightarrow> False
     | Some es \<Rightarrow> 0 \<le> es_next es \<and> es_next es \<le> 192 \<and> es_next es mod 12 = 0)"

definition ev_abs :: "ev_world \<Rightarrow> ev_log" where
  "ev_abs w = (let es = the (eventStore w) in
     \<lparr>el_recs = map (es_events es) [0..<nat (es_next es div 12)], el_counts = es_counts es, el_time = eventTime w\<rparr>)"

lemma ev_inv_obtain:
  assumes "ev_inv w"
  obtains es n where "eventStore w = Some es" "es_next es = 12 * int n" "n \<le> 16"
proof -
  obtain es where es: "eventStore w = Some es" "0 \<le> es_next es" "es_next es \<le> 192" "es_next es mod 12 = 0"
    using assms by (auto simp: ev_inv_def split: option.splits)
  then have "es_next es = 12 * int (nat (es_next es div 12))"
    using mult_div_mod_eq [of 12 "es_next es"] pos_imp_zdiv_nonneg_iff [of 12 "es_next es"] by simp
  moreover have "nat (es_next es div 12) \<le> 16"
    using es(3) by simp
  ultimately show ?thesis
    by (rule that [OF es(1)])
qed

lemma rec_at_slot: "n < 16 \<Longrightarrow> rec_at (12 * int n) = Some n"
  by (simp add: rec_at_def)

lemma event_code_Events: "event_code evt < 7 \<longleftrightarrow> evt \<noteq> Events"
  by (cases evt) simp_all

text \<open>The effect of \<open>setEvent\<close> on a log of \<open>n\<close> records.\<close>

lemma setEvent_sim:
  assumes "ev_inv w"
  shows "\<exists>w1. setEvent evt val w = Some w1 \<and> ev_inv w1 \<and> ev_abs w1 = log_event evt val (ev_abs w) \<and>
    eventTime w1 = eventTime w"
proof -
  obtain es n where es: "eventStore w = Some es" "es_next es = 12 * int n" "n \<le> 16"
    using ev_inv_obtain [OF assms] by blast
  have abs: "ev_abs w = \<lparr>el_recs = map (es_events es) [0..<n], el_counts = es_counts es, el_time = eventTime w\<rparr>"
    using es by (simp add: ev_abs_def)
  show ?thesis
  proof (cases "n < 16")
    case True
    have "nat ((12 * int n + 12) div 12) = Suc n"
      by simp
    then show ?thesis
      using es True unfolding abs
      by (auto simp: setEvent_def write_rec_def rec_at_slot ev_inv_def ev_abs_def log_event_def
          EVENT_SECONDS_def event_code_Events USAT_INC_narrow_add)
  next
    case False
    then have n: "n = 16"
      using es(3) by simp
    have "rec_at (12 * int n - 12) = Some 15"
      using rec_at_slot [of 15] by (simp add: n)
    moreover have "butlast (map (es_events es) [0..<16]) = map (es_events es) [0..<15]"
      by (simp add: eval_nat_numeral)
    moreover have "[0..<16] = [0..<15] @ [15 :: nat]"
      by (simp add: eval_nat_numeral)
    ultimately show ?thesis
      using es n unfolding abs
      by (auto simp: setEvent_def write_rec_def ev_inv_def ev_abs_def log_event_def
          EVENT_SECONDS_def event_code_Events USAT_INC_narrow_add)
  qed
qed

lemma getEvents_sim:
  assumes "ev_inv w"
  shows "ev_spec (EvGet bufLen) (ev_abs w) = (fst (ev_step (EvGet bufLen) w), ev_abs (snd (ev_step (EvGet bufLen) w)))"
    "ev_inv (snd (ev_step (EvGet bufLen) w))"
proof -
  obtain es n where es: "eventStore w = Some es" "es_next es = 12 * int n" "n \<le> 16"
    using ev_inv_obtain [OF assms] by blast
  define m :: u32 where "m = (if bufLen div 12 > of_nat n then of_nat n else bufLen div 12)"
  have n: "unat (of_nat n :: u32) = n"
    using es(3) by (simp add: unat_of_nat)
  have d: "unat (bufLen div 12) = unat bufLen div 12"
    by (simp add: unat_div_distrib)
  have m: "unat m = min (unat bufLen div 12) n"
    using n d by (auto simp: m_def word_less_nat_alt)
  have le: "m \<le> of_nat n"
    by (auto simp: m_def)
  have rest: "unat (of_nat n - m) = n - unat m"
    using unat_sub [OF le] n by simp
  have ev: "(word_of_int (es_next es div 12) :: u32) = of_nat n"
    by (simp add: es)
  have byte: "(ucast m :: u8) = of_nat (unat m)"
    by simp
  have got: "getEvents bufLen w = (ucast m, map (es_events es) [0..<unat m],
      w\<lparr>eventStore := Some (es\<lparr>
        es_events := (\<lambda>i. if i < n - unat m then es_events es (unat m + i) else es_events es i),
        es_next := es_next es - 12 * int (unat m)\<rparr>)\<rparr>)"
    unfolding getEvents_def es(1) Let_def option.case ev m_def [symmetric] rest by simp
  have le': "unat m \<le> n"
    by (simp add: m)
  have nx: "es_next es - 12 * uint m = 12 * int (n - unat m)"
    using le' es(2) by (simp add: of_nat_diff)
  have recs: "map (\<lambda>i. if i < n - unat m then es_events es (unat m + i) else es_events es i) [0..<n - unat m] =
      drop (unat m) (map (es_events es) [0..<n])"
    by (rule nth_equalityI) simp_all
  have abs: "ev_abs w = \<lparr>el_recs = map (es_events es) [0..<n], el_counts = es_counts es, el_time = eventTime w\<rparr>"
    using es by (simp add: ev_abs_def)
  show "ev_inv (snd (ev_step (EvGet bufLen) w))"
  proof -
    have "uint m = int (unat m)"
      by simp
    then have "0 \<le> 12 * int (n - unat m)" "12 * int (n - unat m) \<le> 192" "12 * int (n - unat m) mod 12 = 0"
      using es(3) by simp_all
    then show ?thesis
      by (simp add: got ev_inv_def flip: nx)
  qed
  have "take (unat m) (map (es_events es) [0..<n]) = map (es_events es) [0..<unat m]"
    using le' by (simp add: take_map)
  then show "ev_spec (EvGet bufLen) (ev_abs w) = (fst (ev_step (EvGet bufLen) w), ev_abs (snd (ev_step (EvGet bufLen) w)))"
    unfolding abs by (simp add: got nx ev_abs_def Let_def recs flip: m)
qed

lemma ev_step_sim:
  assumes "ev_inv w"
  shows "ev_inv (snd (ev_step x w)) \<and> ev_spec x (ev_abs w) = (fst (ev_step x w), ev_abs (snd (ev_step x w)))"
proof (cases x)
  case (EvSet evt val)
  then show ?thesis
    using setEvent_sim [OF assms, of evt val] by auto
next
  case EvCnt
  then show ?thesis
    using assms by (auto elim!: ev_inv_obtain simp: getEventCnt_def ev_abs_def)
next
  case (EvGet bufLen)
  then show ?thesis
    using getEvents_sim [OF assms] by blast
next
  case (EvTime time)
  obtain w1 where w1: "setEvent TimeSet (EVENT_SECONDS_HIGH w) w = Some w1" "ev_inv w1"
    "ev_abs w1 = log_event TimeSet (EVENT_SECONDS_HIGH w) (ev_abs w)"
    using setEvent_sim [OF assms] by blast
  have "ev_abs (w1\<lparr>eventTime := time\<rparr>) = (ev_abs w1)\<lparr>el_time := time\<rparr>" "ev_inv (w1\<lparr>eventTime := time\<rparr>)"
    "el_time (ev_abs w) = eventTime w"
    using w1(2) by (simp_all add: ev_abs_def ev_inv_def Let_def)
  then show ?thesis
    using w1(1,3) EvTime by (simp add: setEventTime_def EVENT_SECONDS_HIGH_def)
qed

interpretation ev_sim: forward_sim ev_step ev_spec ev_abs ev_inv "\<lambda>_ _. True"
  by unfold_locales (simp_all add: ev_step_sim)

lemma valid_next_iff:
  "valid_next i es \<longleftrightarrow> (\<exists>j. i \<le> j \<and> j < 16 \<and> es_next es = 12 * int j)"
proof (induction i es rule: valid_next.induct)
  case (1 i es)
  show ?case
  proof (cases "i < 16 \<and> es_next es \<noteq> 12 * int i")
    case True
    then have "valid_next i es \<longleftrightarrow> valid_next (Suc i) es"
      by (subst valid_next.simps) simp
    also have "\<dots> \<longleftrightarrow> (\<exists>j. Suc i \<le> j \<and> j < 16 \<and> es_next es = 12 * int j)"
      using 1 True by simp
    also have "\<dots> \<longleftrightarrow> (\<exists>j. i \<le> j \<and> j < 16 \<and> es_next es = 12 * int j)"
      using True by (metis Suc_leD le_antisym not_less_eq_eq)
    finally show ?thesis .
  next
    case False
    then show ?thesis
      by (subst valid_next.simps) auto
  qed
qed

section \<open>Properties\<close>

text \<open> C35. The log is a bounded list of records: any sequence of events, counts, reads and time settings
  on an initialised log gives the results of the abstract log, which appends while there are fewer
  than sixteen records, replaces the newest by an overrun record naming the lost event when there
  are not, hands out the oldest records that fit the buffer and keeps the rest in order, and
  never faults. (The abstract counters add modulo 256: the counters do not saturate.) \<close>

theorem eventlog_run_refines:
  assumes "ev_inv w"
  shows "fst (run_ops ev_step ops w) = fst (run_ops ev_spec ops (ev_abs w)) \<and>
    ev_abs (snd (run_ops ev_step ops w)) = snd (run_ops ev_spec ops (ev_abs w)) \<and>
    ev_inv (snd (run_ops ev_step ops w))"
  using ev_sim.run_results [OF assms, of ops] ev_sim.run_abs [OF assms, of ops] ev_sim.run_inv [OF assms, of ops]
  by (simp add: list_all_iff)

definition demo_ev :: ev_world where
  "demo_ev = \<lparr>eventStore = Some \<lparr>es_next = 0,
     es_events = (\<lambda>_. \<lparr>er_seconds = 0, er_event = InternalError, er_val = 0\<rparr>), es_counts = (\<lambda>_. 0)\<rparr>, eventTime = 5\<rparr>"

theorem eventlog_run_refines_witness:
  "fst (run_ops ev_step [EvSet AssertError 7, EvSet TimeSet 8, EvGet 20, EvCnt] demo_ev) =
     [EvDone, EvDone, EvGot 1 [\<lparr>er_seconds = 5, er_event = AssertError, er_val = 7\<rparr>], EvCount 1]"
proof -
  have "ev_inv demo_ev"
    by (simp add: demo_ev_def ev_inv_def)
  moreover have "ev_abs demo_ev = \<lparr>el_recs = [], el_counts = (\<lambda>_. 0), el_time = 5\<rparr>"
    by (simp add: demo_ev_def ev_abs_def)
  ultimately show ?thesis
    using eventlog_run_refines [of demo_ev "[EvSet AssertError 7, EvSet TimeSet 8, EvGet 20, EvCnt]"]
    by (simp add: Let_def log_event_def)
qed

text \<open> A restart keeps a log of one to fifteen records and appends the reset to it, but treats a full
  log like a damaged one: with sixteen records in it \<open>initEvents\<close> erases the log, the counters and
  the time, and the only record left is the reset. \<close>

lemma initEvents_restart:
  assumes "ev_inv w" "eventStore w = Some es"
  shows "\<exists>w1. initEvents es w = Some w1 \<and> ev_inv w1 \<and>
    (let n = length (el_recs (ev_abs w)) in
     if 1 \<le> n \<and> n \<le> 15 then ev_abs w1 = log_event SystemReset (EVENT_SECONDS_HIGH w) (ev_abs w)
     else el_recs (ev_abs w1) = [\<lparr>er_seconds = 0, er_event = SystemReset, er_val = 0\<rparr>] \<and>
       el_counts (ev_abs w1) = (\<lambda>_. 0)(3 := 1) \<and> eventTime w1 = 0)"
proof -
  obtain n where n: "es_next es = 12 * int n" "n \<le> 16"
    using ev_inv_obtain [OF assms(1)] assms(2) by (metis option.inject)
  have len: "length (el_recs (ev_abs w)) = n"
    using n(1) assms(2) by (simp add: ev_abs_def)
  show ?thesis
  proof (cases "1 \<le> n \<and> n \<le> 15")
    case True
    then have "valid_next 1 es"
      using n unfolding valid_next_iff by (intro exI [of _ n]) simp
    moreover have "w\<lparr>eventStore := Some es\<rparr> = w"
      using assms(2) by simp
    ultimately have "initEvents es w = setEvent SystemReset (EVENT_SECONDS_HIGH w) w"
      by (simp add: initEvents_def)
    then show ?thesis
      using setEvent_sim [OF assms(1), of SystemReset "EVENT_SECONDS_HIGH w"] True
      by (auto simp: len Let_def)
  next
    case False
    then have "\<not> valid_next 1 es"
      using n by (auto simp: valid_next_iff)
    moreover define w0 where "w0 = w\<lparr>eventStore := Some \<lparr>es_next = 0,
             es_events = (\<lambda>_. \<lparr>er_seconds = 0, er_event = InternalError, er_val = 0\<rparr>), es_counts = (\<lambda>_. 0)\<rparr>,
           eventTime := 0\<rparr>"
    ultimately have i: "initEvents es w = setEvent SystemReset 0 w0"
      by (simp add: initEvents_def)
    have "ev_inv w0" and abs: "ev_abs w0 = \<lparr>el_recs = [], el_counts = (\<lambda>_. 0), el_time = 0\<rparr>" "eventTime w0 = 0"
      by (simp_all add: w0_def ev_inv_def ev_abs_def)
    from setEvent_sim [OF this(1), of SystemReset 0] obtain w1 where
      "setEvent SystemReset 0 w0 = Some w1" "ev_inv w1" "ev_abs w1 = log_event SystemReset 0 (ev_abs w0)"
      "eventTime w1 = eventTime w0"
      by blast
    then show ?thesis
      using False by (auto simp: i abs len log_event_def fun_eq_iff)
  qed
qed

theorem initEvents_restart_witness:
  "\<exists>w w1. length (el_recs (ev_abs w)) = 16 \<and> initEvents (the (eventStore w)) w = Some w1 \<and>
     length (el_recs (ev_abs w1)) = 1"
proof -
  define es where "es = (the (eventStore demo_ev))\<lparr>es_next := 192\<rparr>"
  define w where "w = demo_ev\<lparr>eventStore := Some es\<rparr>"
  have w: "ev_inv w" "eventStore w = Some es" "length (el_recs (ev_abs w)) = 16"
    by (simp_all add: w_def es_def demo_ev_def ev_inv_def ev_abs_def)
  obtain w1 where w1: "initEvents es w = Some w1"
    "el_recs (ev_abs w1) = [\<lparr>er_seconds = 0, er_event = SystemReset, er_val = 0\<rparr>]"
    using initEvents_restart [OF w(1,2)] w(3) by auto
  then show ?thesis
    using w(2,3) by (intro exI [of _ w] exI [of _ w1]) simp
qed

end
