(* ===== verification/MicroPSim.thy ===== *)
theory MicroPSim
  imports Prelude
begin

text \<open>
  The simulated micro controller of \<^verbatim>\<open>src/src/micro_p_sim.c\<close> and \<^verbatim>\<open>micro_p_sim.h\<close>: a table of
  interrupt handlers served from flags by one thread, and a main loop with a watchdog in another.
  The user's handlers and model functions are parameters; a model function says whether the model
  pointer it returns is not NULL. Threads take turns, a turn being one iteration of the thread's
  loop; statements that interleave, and the mutex, are in \<open>MicroPThreads\<close>. \<open>None\<close> is a loop that never
  ends.
\<close>

section \<open>State\<close>

record ('h, 'm) ModelBase_t =
  isr_table :: "nat \<Rightarrow> 'h option"
  isr_flags :: "nat \<Rightarrow> u8"
  isr_table_size :: u8
  isr_are_prioritized :: u8
  isr_auto_clear :: u8
  mb_tick :: u32
  main_tick :: u32
  sim_enabled :: u8
  in_isr :: u8
  mb_setup :: "'m option"
  isr_stimulus :: "'m option"
  mb_main_loop :: "'m option"
  mb_diagnostics :: "'m option"

type_synonym ('h, 'm, 'z) handlers =
  "'h \<Rightarrow> ('h, 'm, 'z) ModelBase_t_scheme \<Rightarrow> ('h, 'm, 'z) ModelBase_t_scheme option"

type_synonym ('h, 'm, 'z) model_funs =
  "'m \<Rightarrow> ('h, 'm, 'z) ModelBase_t_scheme \<Rightarrow> (bool \<times> ('h, 'm, 'z) ModelBase_t_scheme) option"

definition WD_RESET :: u32 where
  "WD_RESET = 0xffffffff"

section \<open>The interrupt thread\<close>

lemma table_index: "i < unat (n :: u8) \<Longrightarrow> i < 256"
proof -
  have "unat n < 2 ^ LENGTH(8)"
    by (rule unsigned_less)
  then show "i < unat n \<Longrightarrow> i < 256"
    by simp
qed

text \<open>One pass over the table from entry \<open>i\<close>: whether a handler ran, and the state. The size of the
  table is read before every entry; it has 8 bits.\<close>

function isr_for ::
    "('h, 'm, 'z) handlers \<Rightarrow> nat \<Rightarrow> ('h, 'm, 'z) ModelBase_t_scheme \<Rightarrow>
     (bool \<times> ('h, 'm, 'z) ModelBase_t_scheme) option" where
  "isr_for run i w =
     (if i < unat (isr_table_size w) then
        if isr_flags w i \<noteq> 0 then
          (case isr_table w i of
             Some h \<Rightarrow>
               (case run h (if isr_auto_clear w \<noteq> 0 then w\<lparr>isr_flags := (isr_flags w)(i := 0)\<rparr> else w) of
                  None \<Rightarrow> None
                | Some w1 \<Rightarrow>
                    if isr_are_prioritized w1 \<noteq> 0 then Some (True, w1)
                    else map_option (\<lambda>(_, w2). (True, w2)) (isr_for run (i + 1) w1))
           | None \<Rightarrow> isr_for run (i + 1) w)
        else isr_for run (i + 1) w
      else Some (False, w))"
  by pat_completeness auto
termination
  by (relation "measure (\<lambda>(run, i, w). 256 - i)") (auto dest!: table_index)

declare isr_for.simps [simp del]

partial_function (option) isr_loop ::
    "('h, 'm, 'z) handlers \<Rightarrow> ('h, 'm, 'z) ModelBase_t_scheme \<Rightarrow> ('h, 'm, 'z) ModelBase_t_scheme option" where
  "isr_loop run w =
     (case isr_for run 0 w of
        None \<Rightarrow> None
      | Some (served, w1) \<Rightarrow> if served then isr_loop run w1 else Some w1)"

declare isr_loop.simps [code]

definition isr_turn ::
    "('h, 'm, 'z) handlers \<Rightarrow> ('h, 'm, 'z) model_funs \<Rightarrow> ('h, 'm, 'z) ModelBase_t_scheme \<Rightarrow>
     ('h, 'm, 'z) ModelBase_t_scheme option" where
  "isr_turn run run_model w =
     (case (case isr_stimulus w of Some f \<Rightarrow> map_option snd (run_model f w) | None \<Rightarrow> Some w) of
        None \<Rightarrow> None
      | Some w1 \<Rightarrow>
          map_option (\<lambda>w2. w2\<lparr>in_isr := 0\<rparr>) (isr_loop run (w1\<lparr>mb_tick := mb_tick w1 + 1, in_isr := 1\<rparr>)))"

section \<open>The main thread\<close>

text \<open>What the main thread keeps beside the model, and how it can end: by the assertion of the
  watchdog, by a NULL model or a cleared enable flag.\<close>

datatype main_end = Watchdog | Model_gone

record main_vars =
  mv_wd :: u32
  mv_last_tick :: u32

definition sim_init ::
    "(('h, 'm, 'z) ModelBase_t_scheme \<Rightarrow> ('h, 'm, 'z) ModelBase_t_scheme) \<Rightarrow> ('h, 'm, 'z) ModelBase_t_scheme \<Rightarrow>
     ('h, 'm, 'z) ModelBase_t_scheme" where
  "sim_init user_init w = (user_init w)\<lparr>mb_tick := 0\<rparr>"

definition sim_start ::
    "('h, 'm, 'z) model_funs \<Rightarrow> ('h, 'm, 'z) ModelBase_t_scheme \<Rightarrow>
     (bool \<times> ('h, 'm, 'z) ModelBase_t_scheme) option" where
  "sim_start run_model w = (case mb_setup w of Some f \<Rightarrow> run_model f w | None \<Rightarrow> Some (True, w))"

definition main_start ::
    "(('h, 'm, 'z) ModelBase_t_scheme \<Rightarrow> ('h, 'm, 'z) ModelBase_t_scheme) \<Rightarrow> ('h, 'm, 'z) model_funs \<Rightarrow>
     ('h, 'm, 'z) ModelBase_t_scheme \<Rightarrow> (main_vars \<times> ('h, 'm, 'z) ModelBase_t_scheme) option" where
  "main_start user_init run_model w =
     (case sim_start run_model (sim_init user_init w) of
        Some (True, w1) \<Rightarrow> Some (\<lparr>mv_wd = WD_RESET, mv_last_tick = mb_tick w1\<rparr>, w1\<lparr>in_isr := 1, main_tick := 0\<rparr>)
      | _ \<Rightarrow> None)"

definition call_model ::
    "('h, 'm, 'z) model_funs \<Rightarrow> 'm option \<Rightarrow> ('h, 'm, 'z) ModelBase_t_scheme \<Rightarrow>
     (bool \<times> ('h, 'm, 'z) ModelBase_t_scheme) option" where
  "call_model run_model fp w = (case fp of Some f \<Rightarrow> run_model f w | None \<Rightarrow> Some (True, w))"

definition wd_check :: "main_vars \<Rightarrow> ('h, 'm, 'z) ModelBase_t_scheme \<Rightarrow> main_vars" where
  "wd_check v w =
     (if mv_last_tick v = mb_tick w then v\<lparr>mv_wd := mv_wd v - 1\<rparr>
      else \<lparr>mv_wd = WD_RESET, mv_last_tick = mb_tick w\<rparr>)"

definition main_turn ::
    "('h, 'm, 'z) model_funs \<Rightarrow> main_vars \<times> ('h, 'm, 'z) ModelBase_t_scheme \<Rightarrow>
     (main_end + (main_vars \<times> ('h, 'm, 'z) ModelBase_t_scheme)) option" where
  "main_turn run_model s =
     (let (v, w) = s; v1 = wd_check v w in
      if mv_wd v1 = 0 then Some (Inl Watchdog)
      else
        (case (if in_isr w = 0 then call_model run_model (mb_main_loop w) (w\<lparr>main_tick := main_tick w + 1\<rparr>)
               else Some (True, w)) of
           None \<Rightarrow> None
         | Some (False, w1) \<Rightarrow> Some (Inl Model_gone)
         | Some (True, w1) \<Rightarrow>
             (case call_model run_model (mb_diagnostics w1) w1 of
                None \<Rightarrow> None
              | Some (False, w2) \<Rightarrow> Some (Inl Model_gone)
              | Some (True, w2) \<Rightarrow> Some (Inr (v1, w2)))))"

text \<open>The two threads, each taking a turn while the simulation is enabled.\<close>

inductive sim_step ::
    "('h, 'm, 'z) handlers \<Rightarrow> ('h, 'm, 'z) model_funs \<Rightarrow>
     main_vars \<times> ('h, 'm, 'z) ModelBase_t_scheme \<Rightarrow> bool \<Rightarrow> main_vars \<times> ('h, 'm, 'z) ModelBase_t_scheme \<Rightarrow> bool"
  for run run_model where
  isr_thread: "sim_enabled w \<noteq> 0 \<Longrightarrow> isr_turn run run_model w = Some w1 \<Longrightarrow> sim_step run run_model (v, w) True (v, w1)"
| main_thread: "sim_enabled w \<noteq> 0 \<Longrightarrow> main_turn run_model (v, w) = Some (Inr s) \<Longrightarrow> sim_step run run_model (v, w) False s"

inductive_cases sim_stepE: "sim_step run run_model s t s1"

inductive sim_steps ::
    "('h, 'm, 'z) handlers \<Rightarrow> ('h, 'm, 'z) model_funs \<Rightarrow>
     main_vars \<times> ('h, 'm, 'z) ModelBase_t_scheme \<Rightarrow> bool list \<Rightarrow> main_vars \<times> ('h, 'm, 'z) ModelBase_t_scheme \<Rightarrow> bool"
  for run run_model where
  start: "sim_steps run run_model s [] s"
| more: "sim_steps run run_model s ts s1 \<Longrightarrow> sim_step run run_model s1 t s2 \<Longrightarrow> sim_steps run run_model s (ts @ [t]) s2"

section \<open>Serving interrupts\<close>

definition isr_log :: "('h, 'm, 'h list) handlers" where
  "isr_log h w = Some (ModelBase_t.more_update (\<lambda>l. l @ [h]) w)"

definition isr_pending :: "('h, 'm, 'z) ModelBase_t_scheme \<Rightarrow> nat \<Rightarrow> bool" where
  "isr_pending w i \<longleftrightarrow> isr_flags w i \<noteq> 0 \<and> isr_table w i \<noteq> None"

abbreviation pending_from :: "('h, 'm, 'z) ModelBase_t_scheme \<Rightarrow> nat \<Rightarrow> nat \<Rightarrow> nat list" where
  "pending_from w i n \<equiv> filter (isr_pending w) [i..<n]"

text \<open>The state after the handlers of the entries \<open>is\<close> have run.\<close>

definition isr_ran :: "nat list \<Rightarrow> ('h, 'm, 'h list) ModelBase_t_scheme \<Rightarrow> ('h, 'm, 'h list) ModelBase_t_scheme" where
  "isr_ran is w = ModelBase_t.more_update (\<lambda>l. l @ map (\<lambda>i. the (isr_table w i)) is)
     (w\<lparr>isr_flags := (\<lambda>i. if i \<in> set is then 0 else isr_flags w i)\<rparr>)"

lemma isr_ran_simps [simp]:
  "isr_table (isr_ran is w) = isr_table w" "isr_table_size (isr_ran is w) = isr_table_size w"
  "isr_auto_clear (isr_ran is w) = isr_auto_clear w" "isr_are_prioritized (isr_ran is w) = isr_are_prioritized w"
  "isr_pending (isr_ran is w) i \<longleftrightarrow> isr_pending w i \<and> i \<notin> set is"
  "isr_ran [] w = w" "isr_ran js (isr_ran is w) = isr_ran (is @ js) w"
  by (auto simp: isr_ran_def isr_pending_def fun_eq_iff)

lemma isr_served:
  assumes "isr_auto_clear w \<noteq> 0" "isr_table w i = Some h"
  shows "isr_log h (if isr_auto_clear w \<noteq> 0 then w\<lparr>isr_flags := (isr_flags w)(i := 0)\<rparr> else w) = Some (isr_ran [i] w)"
  using assms by (simp add: isr_log_def isr_ran_def fun_upd_def)

lemma isr_for_log:
  assumes "isr_auto_clear w \<noteq> 0" "unat (isr_table_size w) = n" "i \<le> n"
  shows "isr_for isr_log i w = Some (pending_from w i n \<noteq> [],
    isr_ran (if isr_are_prioritized w \<noteq> 0 then take 1 (pending_from w i n) else pending_from w i n) w)"
  using assms
proof (induction "n - i" arbitrary: i w)
  case 0
  then show ?case
    by (subst isr_for.simps) simp
next
  case (Suc k)
  have upt: "[i..<n] = i # [i + 1..<n]"
    using Suc.hyps(2) by (simp add: upt_conv_Cons)
  have k: "k = n - (i + 1)" "i + 1 \<le> n"
    using Suc.hyps(2) by simp_all
  show ?case
  proof (cases "isr_pending w i")
    case False
    then have "isr_for isr_log i w = isr_for isr_log (i + 1) w"
      using Suc.prems(2) k(2) by (subst isr_for.simps) (auto simp: isr_pending_def split: option.split)
    then show ?thesis
      using Suc.hyps(1) [OF k(1) Suc.prems(1,2) k(2)] False unfolding upt by simp
  next
    case True
    then obtain h where h: "isr_flags w i \<noteq> 0" "isr_table w i = Some h"
      by (auto simp: isr_pending_def)
    have rest: "pending_from (isr_ran [i] w) (i + 1) n = pending_from w (i + 1) n"
      by (auto intro!: filter_cong)
    show ?thesis
      using Suc.hyps(1) [OF k(1), of "isr_ran [i] w"] k(2) Suc.prems h True isr_served [OF Suc.prems(1) h(2)] rest
      unfolding upt by (subst isr_for.simps) simp
  qed
qed

text \<open>With automatic clearing and handlers that raise no flag, the service ends, whether or not the
  handlers are prioritised: every flagged handler has run exactly once, lowest entry first.\<close>

lemma isr_loop_log:
  assumes "isr_auto_clear w \<noteq> 0"
  shows "isr_loop isr_log w = Some (isr_ran (pending_from w 0 (unat (isr_table_size w))) w)"
  using assms
proof (induction "length (pending_from w 0 (unat (isr_table_size w)))" arbitrary: w rule: less_induct)
  case less
  let ?n = "unat (isr_table_size w)" and ?ps = "pending_from w 0 (unat (isr_table_size w))"
  let ?now = "if isr_are_prioritized w \<noteq> 0 then take 1 ?ps else ?ps"
  let ?w1 = "isr_ran ?now w"
  have step: "isr_for isr_log 0 w = Some (?ps \<noteq> [], ?w1)"
    using isr_for_log [OF less.prems, of ?n 0] by simp
  show ?case
  proof (cases "?ps = []")
    case True
    then have "isr_for isr_log 0 w = Some (False, w)"
      using step by simp
    then show ?thesis
      using True by (subst isr_loop.simps) simp
  next
    case False
    have left: "pending_from ?w1 0 ?n = filter (\<lambda>i. i \<notin> set ?now) ?ps"
    proof -
      have "isr_pending ?w1 = (\<lambda>i. isr_pending w i \<and> i \<notin> set ?now)"
        by (rule ext) (simp only: isr_ran_simps)
      then show ?thesis
        by (simp only: filter_filter)
    qed
    have "filter (\<lambda>i. i \<notin> set (take 1 ?ps)) ?ps = drop 1 ?ps"
      using distinct_filter [OF distinct_upt, of "isr_pending w" 0 ?n]
      by (cases ?ps) (auto simp: filter_id_conv)
    then have rest: "pending_from ?w1 0 ?n = (if isr_are_prioritized w \<noteq> 0 then drop 1 ?ps else [])"
      unfolding left by (simp add: filter_empty_conv)
    then have less1: "length (pending_from ?w1 0 (unat (isr_table_size ?w1))) < length ?ps"
      using False by (cases ?ps) auto
    have "isr_loop isr_log w = isr_loop isr_log ?w1"
      using step False by (subst isr_loop.simps) simp
    also have "\<dots> = Some (isr_ran (pending_from ?w1 0 (unat (isr_table_size ?w1))) ?w1)"
      using less1 less.prems by (intro less.hyps) simp_all
    also have "\<dots> = Some (isr_ran ?ps w)"
      using rest by simp
    finally show ?thesis .
  qed
qed

text \<open>Without automatic clearing, a handler that leaves its flag alone is served for ever.\<close>

lemma isr_for_quiet:
  assumes "isr_auto_clear w = 0" "i + k = unat (isr_table_size w)"
  shows "\<exists>b w1. isr_for isr_log i w = Some (b, w1) \<and> isr_auto_clear w1 = isr_auto_clear w \<and>
    isr_flags w1 = isr_flags w \<and> isr_table w1 = isr_table w \<and> isr_table_size w1 = isr_table_size w"
  using assms
proof (induction k arbitrary: i w)
  case 0
  then show ?case
    by (intro exI [of _ False] exI [of _ w]) (simp add: isr_for.simps [of _ "unat (isr_table_size w)"])
next
  case (Suc k)
  show ?case
  proof (cases "isr_table w i")
    case None
    then show ?thesis
      using Suc.IH [of w "i + 1"] Suc.prems by (subst isr_for.simps) auto
  next
    case (Some h)
    then show ?thesis
      using Suc.IH [of w "i + 1"] Suc.IH [of "ModelBase_t.more_update (\<lambda>l. l @ [h]) w" "i + 1"] Suc.prems
      by (subst isr_for.simps) (auto simp: isr_log_def [of h])
  qed
qed

lemma isr_for_stuck:
  assumes "isr_auto_clear w = 0" "isr_pending w j" "i \<le> j" "j < i + k" "i + k = unat (isr_table_size w)"
  shows "\<exists>w1. isr_for isr_log i w = Some (True, w1) \<and> isr_auto_clear w1 = 0 \<and> isr_pending w1 j \<and>
    isr_table_size w1 = isr_table_size w"
  using assms
proof (induction k arbitrary: i w)
  case (Suc k)
  show ?case
  proof (cases "isr_pending w i")
    case True
    then obtain h where h: "isr_flags w i \<noteq> 0" "isr_table w i = Some h"
      by (auto simp: isr_pending_def)
    then show ?thesis
      using isr_for_quiet [of "ModelBase_t.more_update (\<lambda>l. l @ [h]) w" "i + 1" k] Suc.prems(1,2,5)
      by (subst isr_for.simps) (auto simp: isr_log_def [of h] isr_pending_def)
  next
    case False
    then have "i \<noteq> j" "isr_for isr_log i w = isr_for isr_log (i + 1) w"
      using Suc.prems(2,5) by (auto simp: isr_for.simps [of _ i] isr_pending_def split: option.split)
    then show ?thesis
      using Suc.IH [of w "i + 1"] Suc.prems by simp
  qed
qed simp

lemma isr_loop_stuck:
  assumes "isr_auto_clear w = 0" "isr_pending w j" "j < unat (isr_table_size w)"
  shows "isr_loop isr_log w = None"
proof -
  let ?P = "\<lambda>run w (y :: ('a, 'b, 'a list) ModelBase_t_scheme). run = isr_log \<longrightarrow>
    \<not> (isr_auto_clear w = 0 \<and> isr_pending w j \<and> j < unat (isr_table_size w))"
  have "?P run w y" if "isr_loop run w = Some y" for run and w y :: "('a, 'b, 'a list) ModelBase_t_scheme"
    using _ that
  proof (rule isr_loop.raw_induct [where P = ?P])
    fix loop run and w y :: "('a, 'b, 'a list) ModelBase_t_scheme"
    assume IH: "\<And>run w y. loop run w = Some y \<Longrightarrow> ?P run w y"
      and eq: "(case isr_for run 0 w of None \<Rightarrow> None
        | Some (served, w1) \<Rightarrow> if served then loop run w1 else Some w1) = Some y"
    show "?P run w y"
    proof (intro impI notI)
      assume run: "run = isr_log" and w: "isr_auto_clear w = 0 \<and> isr_pending w j \<and> j < unat (isr_table_size w)"
      then obtain w1 where "isr_for run 0 w = Some (True, w1)" "isr_auto_clear w1 = 0"
        "isr_pending w1 j" "isr_table_size w1 = isr_table_size w"
        using isr_for_stuck [of w j 0 "unat (isr_table_size w)"] by auto
      then show False
        using IH [of run w1 y] eq run w by simp
    qed
  qed
  with assms show ?thesis
    by (cases "isr_loop isr_log w") auto
qed

section \<open>The watchdog and the start\<close>

text \<open>Model functions that leave the base of the model alone, and always return it.\<close>

definition base_kept :: "('h, 'm, 'z) model_funs \<Rightarrow> bool" where
  "base_kept run_model \<longleftrightarrow> (\<forall>f w. \<exists>w1. run_model f w = Some (True, w1) \<and> mb_tick w1 = mb_tick w \<and> in_isr w1 = in_isr w \<and>
     main_tick w1 = main_tick w)"

lemma call_model_kept:
  assumes "base_kept run_model"
  shows "\<exists>w1. call_model run_model fp w = Some (True, w1) \<and> mb_tick w1 = mb_tick w \<and> in_isr w1 = in_isr w \<and>
    main_tick w1 = main_tick w"
  using assms unfolding base_kept_def call_model_def by (cases fp) auto

lemma main_turn_kept:
  assumes "base_kept run_model"
  shows "mv_wd (wd_check v w) = 0 \<Longrightarrow> main_turn run_model (v, w) = Some (Inl Watchdog)"
    "mv_wd (wd_check v w) \<noteq> 0 \<Longrightarrow> \<exists>w1. main_turn run_model (v, w) = Some (Inr (wd_check v w, w1)) \<and> mb_tick w1 = mb_tick w \<and>
      in_isr w1 = in_isr w \<and> main_tick w1 = (if in_isr w = 0 then main_tick w + 1 else main_tick w)"
proof -
  show "mv_wd (wd_check v w) = 0 \<Longrightarrow> main_turn run_model (v, w) = Some (Inl Watchdog)"
    by (simp add: main_turn_def Let_def)
  assume wd: "mv_wd (wd_check v w) \<noteq> 0"
  let ?wa = "if in_isr w = 0 then w\<lparr>main_tick := main_tick w + 1\<rparr> else w"
  obtain wb where wb: "(if in_isr w = 0 then call_model run_model (mb_main_loop w) (w\<lparr>main_tick := main_tick w + 1\<rparr>)
      else Some (True, w)) = Some (True, wb)" "mb_tick wb = mb_tick ?wa" "in_isr wb = in_isr ?wa" "main_tick wb = main_tick ?wa"
  proof (cases "in_isr w = 0")
    case True
    then show ?thesis
      using call_model_kept [OF assms, of "mb_main_loop w" "w\<lparr>main_tick := main_tick w + 1\<rparr>"] that by force
  next
    case False
    then show ?thesis
      by (intro that [of w]) simp_all
  qed
  obtain wc where wc: "call_model run_model (mb_diagnostics wb) wb = Some (True, wc)" "mb_tick wc = mb_tick wb"
    "in_isr wc = in_isr wb" "main_tick wc = main_tick wb"
    using call_model_kept [OF assms, of "mb_diagnostics wb" wb] by blast
  show "\<exists>w1. main_turn run_model (v, w) = Some (Inr (wd_check v w, w1)) \<and> mb_tick w1 = mb_tick w \<and>
      in_isr w1 = in_isr w \<and> main_tick w1 = (if in_isr w = 0 then main_tick w + 1 else main_tick w)"
    using wd wb wc by (simp add: main_turn_def Let_def)
qed

text \<open>The watchdog: while the tick stands still the main loop lives for exactly \<open>WD_RESET - 1\<close> turns.\<close>

primrec main_turns ::
    "('h, 'm, 'z) model_funs \<Rightarrow> nat \<Rightarrow> main_vars \<times> ('h, 'm, 'z) ModelBase_t_scheme \<Rightarrow>
     (main_end + (main_vars \<times> ('h, 'm, 'z) ModelBase_t_scheme)) option" where
  "main_turns run_model 0 s = Some (Inr s)"
| "main_turns run_model (Suc k) s =
     (case main_turns run_model k s of Some (Inr s1) \<Rightarrow> main_turn run_model s1 | r \<Rightarrow> r)"

lemma watchdog_waits:
  assumes "base_kept run_model" "mv_wd v = WD_RESET" "mv_last_tick v = mb_tick w" "k < unat WD_RESET"
  shows "\<exists>v1 w1. main_turns run_model k (v, w) = Some (Inr (v1, w1)) \<and> unat (mv_wd v1) = unat WD_RESET - k \<and>
    mv_last_tick v1 = mb_tick w \<and> mb_tick w1 = mb_tick w"
  using assms(4)
proof (induction k)
  case 0
  then show ?case
    using assms by simp
next
  case (Suc k)
  then obtain v1 w1 where 1: "main_turns run_model k (v, w) = Some (Inr (v1, w1))" "unat (mv_wd v1) = unat WD_RESET - k"
    "mv_last_tick v1 = mb_tick w" "mb_tick w1 = mb_tick w"
    by auto
  have pos: "mv_wd v1 \<noteq> 0"
    using 1(2) Suc.prems by (auto simp flip: unat_eq_0)
  have wd: "unat (mv_wd v1 - 1) = unat WD_RESET - Suc k"
    using unat_dec [OF pos] 1(2) by simp
  then have "mv_wd v1 - 1 \<noteq> 0"
    using Suc.prems by (auto simp flip: unat_eq_0)
  then show ?case
    using main_turn_kept(2) [OF assms(1), of v1 w1] 1 wd by (auto simp: wd_check_def)
qed

lemma watchdog_fires:
  assumes "base_kept run_model" "mv_wd v = WD_RESET" "mv_last_tick v = mb_tick w"
  shows "main_turns run_model (unat WD_RESET) (v, w) = Some (Inl Watchdog)"
proof -
  have "unat WD_RESET = Suc (unat WD_RESET - 1)" "unat WD_RESET - 1 < unat WD_RESET"
    by (simp_all add: WD_RESET_def)
  then obtain v1 w1 where 1: "main_turns run_model (unat WD_RESET - 1) (v, w) = Some (Inr (v1, w1))"
    "unat (mv_wd v1) = 1" "mv_last_tick v1 = mb_tick w1"
    using watchdog_waits [OF assms] by (metis diff_diff_cancel less_imp_le One_nat_def Suc_le_eq zero_less_Suc)
  then have "mv_wd v1 - 1 = 0"
    by (metis diff_self unat_1 word_unat_eq_iff)
  then have "main_turns run_model (Suc (unat WD_RESET - 1)) (v, w) = Some (Inl Watchdog)"
    using main_turn_kept(1) [OF assms(1), of v1 w1] 1 by (simp add: wd_check_def)
  then show ?thesis
    using \<open>unat WD_RESET = _\<close> by simp
qed

text \<open>Until the interrupt thread has had a turn, the user's main loop is held off.\<close>

lemma main_held_off:
  assumes "sim_steps run run_model s ts s1" "base_kept run_model" "in_isr (snd s) \<noteq> 0" "True \<notin> set ts"
  shows "in_isr (snd s1) \<noteq> 0 \<and> main_tick (snd s1) = main_tick (snd s)"
  using assms(1,3,4)
proof (induction rule: sim_steps.induct)
  case (more s ts s1 t s2)
  then have s1: "in_isr (snd s1) \<noteq> 0" "main_tick (snd s1) = main_tick (snd s)" "t = False"
    by auto
  obtain v w where vw: "s1 = (v, w)"
    by (cases s1)
  then have turn: "main_turn run_model (v, w) = Some (Inr s2)"
    using more.hyps(2) s1(3) by (auto elim: sim_stepE)
  then have "in_isr (snd s2) = in_isr w \<and> main_tick (snd s2) = (if in_isr w = 0 then main_tick w + 1 else main_tick w)"
    using main_turn_kept [OF assms(2), of v w] by (cases "mv_wd (wd_check v w) = 0") auto
  then show ?case
    using s1 vw by simp
qed simp

end
