(* ===== verification/MicroPThreads.thy ===== *)
theory MicroPThreads
  imports MicroPSim
begin

text \<open>
  The two threads of \<^verbatim>\<open>src/src/micro_p_sim.c\<close> as they really interleave: each statement that reads or
  writes the shared model is a step of its own, and \<open>isr_mutex\<close> is modelled. \<open>ndebug\<close> says whether
  the program is compiled with \<^verbatim>\<open>NDEBUG\<close>, which removes \<open>assert\<close> and what stands inside it: the interrupt
  thread locks the mutex inside an \<open>assert\<close>. The user's functions are single steps and do not use the mutex.
\<close>

section \<open>State\<close>

text \<open>Where the interrupt thread is; \<open>I_While r\<close> is the test of \<open>isr_run = r\<close>, \<open>I_For i r\<close> the loop test for
  entry \<open>i\<close>, \<open>I_Call i h\<close> the call of its handler.\<close>

datatype 'h isr_pc =
    I_Test | I_Stimulus | I_Tick | I_Lock | I_Enter | I_While bool | I_For nat bool | I_Call nat 'h
  | I_Clear | I_Unlock | I_Exit | I_Done

datatype main_pc =
    M_Clear | M_Last | M_Test | M_Wd | M_Sync | M_Gate | M_Lock | M_Count | M_Unlock | M_Loop | M_Diag
  | M_Join | M_Return | M_Abort

datatype sim_thread = Isr | Main

record ('h, 'm, 'z) sim_state =
  st_model :: "('h, 'm, 'z) ModelBase_t_scheme"
  st_vars :: main_vars
  st_live :: bool
  st_isr :: "'h isr_pc"
  st_main :: main_pc
  st_mutex :: "sim_thread option"

abbreviation upd_model ::
    "(('h, 'm, 'z) ModelBase_t_scheme \<Rightarrow> ('h, 'm, 'z) ModelBase_t_scheme) \<Rightarrow> ('h, 'm, 'z) sim_state \<Rightarrow> ('h, 'm, 'z) sim_state" where
  "upd_model f s \<equiv> s\<lparr>st_model := f (st_model s)\<rparr>"

text \<open>Locking a mutex that is held waits: the thread has no step. Under \<open>skip\<close> the lock is not compiled.\<close>

definition mutex_lock :: "bool \<Rightarrow> sim_thread \<Rightarrow> ('h, 'm, 'z) sim_state \<Rightarrow> ('h, 'm, 'z) sim_state option" where
  "mutex_lock skip t s =
     (if skip then Some s else if st_mutex s = None then Some (s\<lparr>st_mutex := Some t\<rparr>) else None)"

definition mutex_unlock :: "bool \<Rightarrow> ('h, 'm, 'z) sim_state \<Rightarrow> ('h, 'm, 'z) sim_state" where
  "mutex_unlock skip s = (if skip then s else s\<lparr>st_mutex := None\<rparr>)"

section \<open>The steps of the threads\<close>

fun isr_step ::
    "bool \<Rightarrow> ('h, 'm, 'z) handlers \<Rightarrow> ('h, 'm, 'z) model_funs \<Rightarrow> 'h isr_pc \<Rightarrow> ('h, 'm, 'z) sim_state \<Rightarrow>
     ('h, 'm, 'z) sim_state option" where
  "isr_step nd run run_model I_Test s =
     Some (s\<lparr>st_isr := if sim_enabled (st_model s) \<noteq> 0 then I_Stimulus else I_Exit\<rparr>)"
| "isr_step nd run run_model I_Stimulus s =
     (case isr_stimulus (st_model s) of
        None \<Rightarrow> Some (s\<lparr>st_isr := I_Tick\<rparr>)
      | Some f \<Rightarrow> map_option (\<lambda>(_, w). s\<lparr>st_model := w, st_isr := I_Tick\<rparr>) (run_model f (st_model s)))"
| "isr_step nd run run_model I_Tick s =
     Some (upd_model (\<lambda>w. w\<lparr>mb_tick := mb_tick w + 1\<rparr>) (s\<lparr>st_isr := I_Lock\<rparr>))"
| "isr_step nd run run_model I_Lock s = mutex_lock nd Isr (s\<lparr>st_isr := I_Enter\<rparr>)"
| "isr_step nd run run_model I_Enter s = Some (upd_model (\<lambda>w. w\<lparr>in_isr := 1\<rparr>) (s\<lparr>st_isr := I_While True\<rparr>))"
| "isr_step nd run run_model (I_While isr_run) s =
     Some (s\<lparr>st_isr := if isr_run then I_For 0 False else I_Clear\<rparr>)"
| "isr_step nd run run_model (I_For i isr_run) s =
     (let w = st_model s in
      if i < unat (isr_table_size w) then
        if isr_flags w i \<noteq> 0 then
          (case isr_table w i of
             Some h \<Rightarrow> Some (s\<lparr>st_model := if isr_auto_clear w \<noteq> 0 then w\<lparr>isr_flags := (isr_flags w)(i := 0)\<rparr> else w,
                              st_isr := I_Call i h\<rparr>)
           | None \<Rightarrow> Some (s\<lparr>st_isr := I_For (i + 1) isr_run\<rparr>))
        else Some (s\<lparr>st_isr := I_For (i + 1) isr_run\<rparr>)
      else Some (s\<lparr>st_isr := I_While isr_run\<rparr>))"
| "isr_step nd run run_model (I_Call i h) s =
     (case run h (st_model s) of
        None \<Rightarrow> None
      | Some w \<Rightarrow> Some (s\<lparr>st_model := w,
          st_isr := if isr_are_prioritized w \<noteq> 0 then I_While True else I_For (i + 1) True\<rparr>))"
| "isr_step nd run run_model I_Clear s = Some (upd_model (\<lambda>w. w\<lparr>in_isr := 0\<rparr>) (s\<lparr>st_isr := I_Unlock\<rparr>))"
| "isr_step nd run run_model I_Unlock s = Some (mutex_unlock nd (s\<lparr>st_isr := I_Test\<rparr>))"
| "isr_step nd run run_model I_Exit s = Some (upd_model (\<lambda>w. w\<lparr>in_isr := 0\<rparr>) (s\<lparr>st_isr := I_Done\<rparr>))"
| "isr_step nd run run_model I_Done s = None"

text \<open>
  The main thread from the creation of the interrupt thread on. \<open>st_live\<close> is whether its model pointer
  is not NULL; the interrupt thread has a copy of its own. The joins waits for the end of the other.
\<close>

fun main_step ::
    "bool \<Rightarrow> ('h, 'm, 'z) model_funs \<Rightarrow> main_pc \<Rightarrow> ('h, 'm, 'z) sim_state \<Rightarrow> ('h, 'm, 'z) sim_state option" where
  "main_step nd run_model M_Clear s = Some (upd_model (\<lambda>w. w\<lparr>main_tick := 0\<rparr>) (s\<lparr>st_main := M_Last\<rparr>))"
| "main_step nd run_model M_Last s =
     Some (s\<lparr>st_vars := (st_vars s)\<lparr>mv_last_tick := mb_tick (st_model s)\<rparr>, st_main := M_Test\<rparr>)"
| "main_step nd run_model M_Test s =
     Some (s\<lparr>st_main := if st_live s \<and> sim_enabled (st_model s) \<noteq> 0 then M_Wd else M_Join\<rparr>)"
| "main_step nd run_model M_Wd s =
     (if mv_last_tick (st_vars s) = mb_tick (st_model s) then
        let wd = mv_wd (st_vars s) - 1; s1 = s\<lparr>st_vars := (st_vars s)\<lparr>mv_wd := wd\<rparr>\<rparr> in
        if wd \<noteq> 0 then Some (s1\<lparr>st_main := M_Gate\<rparr>)
        else if nd then Some (upd_model (\<lambda>w. w\<lparr>sim_enabled := 0\<rparr>) (s1\<lparr>st_main := M_Return\<rparr>))
        else Some (s1\<lparr>st_main := M_Abort\<rparr>)
      else Some (s\<lparr>st_main := M_Sync\<rparr>))"
| "main_step nd run_model M_Sync s =
     Some (s\<lparr>st_vars := \<lparr>mv_wd = WD_RESET, mv_last_tick = mb_tick (st_model s)\<rparr>, st_main := M_Gate\<rparr>)"
| "main_step nd run_model M_Gate s = Some (s\<lparr>st_main := if in_isr (st_model s) = 0 then M_Lock else M_Diag\<rparr>)"
| "main_step nd run_model M_Lock s = mutex_lock False Main (s\<lparr>st_main := M_Count\<rparr>)"
| "main_step nd run_model M_Count s =
     Some (upd_model (\<lambda>w. w\<lparr>main_tick := main_tick w + 1\<rparr>) (s\<lparr>st_main := M_Unlock\<rparr>))"
| "main_step nd run_model M_Unlock s = Some (mutex_unlock False (s\<lparr>st_main := M_Loop\<rparr>))"
| "main_step nd run_model M_Loop s =
     (if st_live s then map_option (\<lambda>(ok, w). s\<lparr>st_model := w, st_live := ok, st_main := M_Diag\<rparr>)
        (call_model run_model (mb_main_loop (st_model s)) (st_model s))
      else Some (s\<lparr>st_main := M_Diag\<rparr>))"
| "main_step nd run_model M_Diag s =
     (if st_live s then map_option (\<lambda>(ok, w). s\<lparr>st_model := w, st_live := ok, st_main := M_Test\<rparr>)
        (call_model run_model (mb_diagnostics (st_model s)) (st_model s))
      else Some (s\<lparr>st_main := M_Test\<rparr>))"
| "main_step nd run_model M_Join s = (if st_isr s = I_Done then Some (s\<lparr>st_main := M_Return\<rparr>) else None)"
| "main_step nd run_model M_Return s = None"
| "main_step nd run_model M_Abort s = None"

text \<open>A step of either thread; a failed assertion ends the whole program.\<close>

definition thread_step ::
    "bool \<Rightarrow> ('h, 'm, 'z) handlers \<Rightarrow> ('h, 'm, 'z) model_funs \<Rightarrow> sim_thread \<Rightarrow> ('h, 'm, 'z) sim_state \<Rightarrow>
     ('h, 'm, 'z) sim_state option" where
  "thread_step nd run run_model t s =
     (if st_main s = M_Abort then None
      else case t of
        Isr \<Rightarrow> isr_step nd run run_model (st_isr s) s
      | Main \<Rightarrow> main_step nd run_model (st_main s) s)"

text \<open>Both threads from the moment the second is created, on the model that the start produced.\<close>

definition threads_start ::
    "(('h, 'm, 'z) ModelBase_t_scheme \<Rightarrow> ('h, 'm, 'z) ModelBase_t_scheme) \<Rightarrow> ('h, 'm, 'z) model_funs \<Rightarrow>
     ('h, 'm, 'z) ModelBase_t_scheme \<Rightarrow> ('h, 'm, 'z) sim_state option" where
  "threads_start user_init run_model w =
     (case sim_start run_model (sim_init user_init w) of
        Some (True, w1) \<Rightarrow> Some \<lparr>st_model = w1\<lparr>in_isr := 1\<rparr>, st_vars = \<lparr>mv_wd = WD_RESET, mv_last_tick = 0\<rparr>, st_live = True,
          st_isr = I_Test, st_main = M_Clear, st_mutex = None\<rparr>
      | _ \<Rightarrow> None)"

text \<open>A schedule says which thread moves next; one that cannot move ends the run.\<close>

fun run_schedule ::
    "bool \<Rightarrow> ('h, 'm, 'z) handlers \<Rightarrow> ('h, 'm, 'z) model_funs \<Rightarrow> sim_thread list \<Rightarrow> ('h, 'm, 'z) sim_state \<Rightarrow>
     ('h, 'm, 'z) sim_state option" where
  "run_schedule nd run run_model [] s = Some s"
| "run_schedule nd run run_model (t # ts) s =
     Option.bind (thread_step nd run run_model t s) (run_schedule nd run run_model ts)"

lemma run_schedule_append:
  "run_schedule nd run run_model (ts @ us) s =
     Option.bind (run_schedule nd run run_model ts s) (run_schedule nd run run_model us)"
proof (induction ts arbitrary: s)
  case (Cons t ts)
  then show ?case
    by (cases "thread_step nd run run_model t s") simp_all
qed simp

section \<open>Mutual exclusion\<close>

fun isr_locked :: "'h isr_pc \<Rightarrow> bool" where
  "isr_locked I_Enter = True" | "isr_locked (I_While r) = True" | "isr_locked (I_For i r) = True"
| "isr_locked (I_Call i h) = True" | "isr_locked I_Clear = True" | "isr_locked I_Unlock = True"
| "isr_locked _ = False"

definition main_locked :: "main_pc \<Rightarrow> bool" where
  "main_locked p \<longleftrightarrow> p = M_Count \<or> p = M_Unlock"

text \<open>Each thread holds the mutex exactly while it is between locking and unlocking.\<close>

definition mutex_ok :: "('h, 'm, 'z) sim_state \<Rightarrow> bool" where
  "mutex_ok s \<longleftrightarrow> (st_mutex s = Some Isr \<longleftrightarrow> isr_locked (st_isr s)) \<and> (st_mutex s = Some Main \<longleftrightarrow> main_locked (st_main s))"

lemma isr_step_mutex:
  assumes "mutex_ok s" "isr_step False run run_model (st_isr s) s = Some s'"
  shows "mutex_ok s'"
  using assms by (cases "st_isr s") (auto simp: mutex_ok_def mutex_lock_def mutex_unlock_def Let_def
      split: if_splits option.splits)

lemma main_step_mutex:
  assumes "mutex_ok s" "main_step nd run_model (st_main s) s = Some s'"
  shows "mutex_ok s'"
  using assms by (cases "st_main s") (auto simp: mutex_ok_def main_locked_def mutex_lock_def mutex_unlock_def Let_def
      split: if_splits option.splits)

lemma thread_step_mutex: "mutex_ok s \<Longrightarrow> thread_step False run run_model t s = Some s' \<Longrightarrow> mutex_ok s'"
  using isr_step_mutex main_step_mutex by (auto simp: thread_step_def split: sim_thread.splits if_splits)

lemma run_schedule_mutex: "mutex_ok s \<Longrightarrow> run_schedule False run run_model ts s = Some s' \<Longrightarrow> mutex_ok s'"
proof (induction ts arbitrary: s)
  case (Cons t ts)
  then show ?case
    using thread_step_mutex [of s run run_model t] by (cases "thread_step False run run_model t s") auto
qed simp

lemma threads_start_mutex: "threads_start user_init run_model w = Some s \<Longrightarrow> mutex_ok s"
  by (auto simp: threads_start_def mutex_ok_def main_locked_def split: option.splits bool.splits prod.splits)

lemma mutex_holder: "m = None \<or> m = Some Isr \<or> m = Some Main"
  by (cases m; cases "the m") auto

lemma main_frees_mutex:
  assumes "mutex_ok s" "st_isr s = I_Lock" "st_main s \<noteq> M_Abort"
  shows "\<exists>k\<le>2. \<exists>s'. run_schedule False run run_model (replicate k Main @ [Isr]) s = Some s' \<and> st_isr s' = I_Enter"
proof -
  consider "st_main s = M_Count" "st_mutex s = Some Main" | "st_main s = M_Unlock" "st_mutex s = Some Main" | "st_mutex s = None"
    using assms(1,2) mutex_holder [of "st_mutex s"] by (auto simp: mutex_ok_def main_locked_def)
  then show ?thesis
  proof cases
    case 1
    then show ?thesis
      using assms by (intro exI [of _ 2]) (simp add: thread_step_def mutex_lock_def mutex_unlock_def numeral_2_eq_2)
  next
    case 2
    then show ?thesis
      using assms by (intro exI [of _ 1]) (simp add: thread_step_def mutex_lock_def mutex_unlock_def)
  next
    case 3
    then show ?thesis
      using assms by (intro exI [of _ 0]) (simp add: thread_step_def mutex_lock_def)
  qed
qed

text \<open>User functions that return.\<close>

definition user_total :: "('h, 'm, 'z) handlers \<Rightarrow> ('h, 'm, 'z) model_funs \<Rightarrow> bool" where
  "user_total run run_model \<longleftrightarrow> (\<forall>h w. run h w \<noteq> None) \<and> (\<forall>f w. run_model f w \<noteq> None)"

lemma isr_moves:
  assumes "user_total run run_model" "st_isr s \<noteq> I_Done" "st_isr s = I_Lock \<Longrightarrow> st_mutex s = None"
  shows "isr_step False run run_model (st_isr s) s \<noteq> None"
  using assms by (cases "st_isr s") (auto simp: user_total_def mutex_lock_def Let_def split: option.split)

lemma main_moves:
  assumes "user_total run run_model" "st_main s \<notin> {M_Return, M_Abort}" "st_main s = M_Lock \<Longrightarrow> st_mutex s = None"
    "st_main s = M_Join \<Longrightarrow> st_isr s = I_Done"
  shows "main_step False run_model (st_main s) s \<noteq> None"
  using assms by (cases "st_main s") (auto simp: user_total_def mutex_lock_def Let_def call_model_def split: option.split)

lemma no_deadlock:
  assumes "mutex_ok s" "user_total run run_model" "st_main s \<notin> {M_Return, M_Abort}"
  shows "\<exists>t. thread_step False run run_model t s \<noteq> None"
proof (cases "(st_main s = M_Lock \<longrightarrow> st_mutex s = None) \<and> (st_main s = M_Join \<longrightarrow> st_isr s = I_Done)")
  case True
  then show ?thesis
    using main_moves [OF assms(2,3)] assms(3) by (intro exI [of _ Main]) (auto simp: thread_step_def)
next
  case False
  then have "st_isr s \<noteq> I_Done" "st_isr s = I_Lock \<Longrightarrow> st_mutex s = None"
    using assms(1) mutex_holder [of "st_mutex s"] by (auto simp: mutex_ok_def main_locked_def)
  then show ?thesis
    using isr_moves [OF assms(2)] assms(3) by (intro exI [of _ Isr]) (auto simp: thread_step_def)
qed

section \<open>Turns are schedules\<close>

definition sched_reach ::
    "bool \<Rightarrow> ('h, 'm, 'z) handlers \<Rightarrow> ('h, 'm, 'z) model_funs \<Rightarrow> ('h, 'm, 'z) sim_state \<Rightarrow> ('h, 'm, 'z) sim_state \<Rightarrow> bool" where
  "sched_reach nd run run_model s s' \<longleftrightarrow> (\<exists>ts. run_schedule nd run run_model ts s = Some s')"

lemma sched_reach_refl: "sched_reach nd run run_model s s"
  unfolding sched_reach_def by (rule exI [of _ "[]"]) simp

lemma sched_reach_step:
  assumes "thread_step nd run run_model t s = Some s1" "sched_reach nd run run_model s1 s2"
  shows "sched_reach nd run run_model s s2"
proof -
  obtain ts where "run_schedule nd run run_model ts s1 = Some s2"
    using assms(2) by (auto simp: sched_reach_def)
  then have "run_schedule nd run run_model (t # ts) s = Some s2"
    using assms(1) by simp
  then show ?thesis
    unfolding sched_reach_def by blast
qed

lemma sched_reach_trans:
  assumes "sched_reach nd run run_model s s1" "sched_reach nd run run_model s1 s2"
  shows "sched_reach nd run run_model s s2"
proof -
  obtain ts us where "run_schedule nd run run_model ts s = Some s1" "run_schedule nd run run_model us s1 = Some s2"
    using assms by (auto simp: sched_reach_def)
  then have "run_schedule nd run run_model (ts @ us) s = Some s2"
    by (simp add: run_schedule_append)
  then show ?thesis
    unfolding sched_reach_def by blast
qed

text \<open>The interrupt thread takes a step, while the main thread has not aborted.\<close>

lemma isr_goes:
  assumes "st_main s \<noteq> M_Abort" "isr_step nd run run_model (st_isr s) s = Some s1" "sched_reach nd run run_model s1 s2"
  shows "sched_reach nd run run_model s s2"
  by (rule sched_reach_step [OF _ assms(3), of Isr]) (use assms in \<open>simp add: thread_step_def\<close>)

lemma main_goes:
  assumes "st_main s \<noteq> M_Abort" "main_step nd run_model (st_main s) s = Some s1" "sched_reach nd run run_model s1 s2"
  shows "sched_reach nd run run_model s s2"
  by (rule sched_reach_step [OF _ assms(3), of Main]) (use assms in \<open>simp add: thread_step_def\<close>)

lemma isr_for_threads:
  assumes "isr_for run i w = Some (served, w1)" "st_main s \<noteq> M_Abort" "st_isr s = I_For i r" "st_model s = w"
  shows "sched_reach nd run run_model s (s\<lparr>st_model := w1, st_isr := I_While (r \<or> served)\<rparr>)"
  using assms
proof (induction "256 - i" arbitrary: i w s r served rule: less_induct)
  case less
  let ?go = "sched_reach nd run run_model s (s\<lparr>st_model := w1, st_isr := I_While (r \<or> served)\<rparr>)"
  show ?case
  proof (cases "i < unat (isr_table_size w)")
    case False
    then have "\<not> served" "w1 = w"
      using less.prems(1) by (subst (asm) isr_for.simps, simp)+
    then show ?thesis
      using False less.prems by (intro isr_goes [OF _ _ sched_reach_refl]) (simp_all add: Let_def)
  next
    case True
    have smaller: "256 - (i + 1) < 256 - i"
      using table_index [OF True] by simp
    consider (skip) "isr_flags w i = 0 \<or> isr_table w i = None" | (call) h where "isr_flags w i \<noteq> 0" "isr_table w i = Some h"
      by (cases "isr_table w i") auto
    then show ?thesis
    proof cases
      case skip
      have "isr_for run (i + 1) w = Some (served, w1)"
        using skip True less.prems(1) by (subst (asm) isr_for.simps) (auto split: if_splits)
      then have "sched_reach nd run run_model (s\<lparr>st_isr := I_For (i + 1) r\<rparr>) (s\<lparr>st_model := w1, st_isr := I_While (r \<or> served)\<rparr>)"
        using less.hyps [OF smaller, where s = "s\<lparr>st_isr := I_For (i + 1) r\<rparr>"] less.prems by simp
      then show ?thesis
        using skip True less.prems by (intro isr_goes [where s = s]) (auto simp: Let_def)
    next
      case (call h)
      let ?wa = "if isr_auto_clear w \<noteq> 0 then w\<lparr>isr_flags := (isr_flags w)(i := 0)\<rparr> else w"
      obtain wb where wb: "run h ?wa = Some wb"
        using call True less.prems(1) by (subst (asm) isr_for.simps) (auto split: option.splits)
      let ?pc = "if isr_are_prioritized wb \<noteq> 0 then I_While True else I_For (i + 1) True"
      have rest: "sched_reach nd run run_model (s\<lparr>st_model := wb, st_isr := ?pc\<rparr>) (s\<lparr>st_model := w1, st_isr := I_While (r \<or> served)\<rparr>)"
      proof (cases "isr_are_prioritized wb = 0")
        case False
        then have "served" "w1 = wb"
          using call True wb less.prems(1) by (subst (asm) isr_for.simps, simp)+
        then show ?thesis
          using False sched_reach_refl by simp
      next
        case prio: True
        then obtain served1 where "isr_for run (i + 1) wb = Some (served1, w1)" "served"
          using call True wb less.prems(1) by (subst (asm) isr_for.simps) auto
        then show ?thesis
          using prio less.hyps [OF smaller, where s = "s\<lparr>st_model := wb, st_isr := I_For (i + 1) True\<rparr>"] less.prems by simp
      qed
      have "sched_reach nd run run_model (s\<lparr>st_model := ?wa, st_isr := I_Call i h\<rparr>) (s\<lparr>st_model := w1, st_isr := I_While (r \<or> served)\<rparr>)"
        using wb less.prems by (intro isr_goes [OF _ _ rest]) simp_all
      then show ?thesis
        using call True less.prems by (intro isr_goes [where s = s]) (auto simp: Let_def)
    qed
  qed
qed

lemma isr_loop_threads:
  fixes s :: "('h, 'm, 'z) sim_state"
  assumes "isr_loop run w = Some w1"
  shows "st_main s \<noteq> M_Abort \<longrightarrow> st_isr s = I_While True \<longrightarrow> st_model s = w \<longrightarrow>
    sched_reach nd run run_model s (s\<lparr>st_model := w1, st_isr := I_Clear\<rparr>)"
proof (rule isr_loop.raw_induct [OF _ assms, where P = "\<lambda>run w w1. \<forall>s :: ('h, 'm, 'z) sim_state.
      st_main s \<noteq> M_Abort \<longrightarrow> st_isr s = I_While True \<longrightarrow> st_model s = w \<longrightarrow>
      sched_reach nd run run_model s (s\<lparr>st_model := w1, st_isr := I_Clear\<rparr>)", THEN spec], intro allI impI)
  fix loop run w w1 and s :: "('h, 'm, 'z) sim_state"
  assume IH: "\<And>run w w1. loop run w = Some w1 \<Longrightarrow> \<forall>s :: ('h, 'm, 'z) sim_state.
      st_main s \<noteq> M_Abort \<longrightarrow> st_isr s = I_While True \<longrightarrow> st_model s = w \<longrightarrow>
      sched_reach nd run run_model s (s\<lparr>st_model := w1, st_isr := I_Clear\<rparr>)"
    and body: "(case isr_for run 0 w of None \<Rightarrow> None | Some (served, w1) \<Rightarrow> if served then loop run w1 else Some w1) = Some w1"
    and s: "st_main s \<noteq> M_Abort" "st_isr s = I_While True" "st_model s = w"
  obtain served w2 where f: "isr_for run 0 w = Some (served, w2)"
    using body by (auto split: option.splits)
  have pass: "sched_reach nd run run_model (s\<lparr>st_isr := I_For 0 False\<rparr>) (s\<lparr>st_model := w2, st_isr := I_While served\<rparr>)"
    using isr_for_threads [OF f, of "s\<lparr>st_isr := I_For 0 False\<rparr>"] s by simp
  have rest: "sched_reach nd run run_model (s\<lparr>st_model := w2, st_isr := I_While served\<rparr>) (s\<lparr>st_model := w1, st_isr := I_Clear\<rparr>)"
  proof (cases served)
    case True
    then show ?thesis
      using IH [of run w2 w1, THEN spec, of "s\<lparr>st_model := w2, st_isr := I_While True\<rparr>"] body f s by simp
  next
    case False
    then have "w1 = w2"
      using body f by simp
    then show ?thesis
      using False s by (intro isr_goes [OF _ _ sched_reach_refl]) simp_all
  qed
  show "sched_reach nd run run_model s (s\<lparr>st_model := w1, st_isr := I_Clear\<rparr>)"
    by (rule isr_goes [OF s(1) _ sched_reach_trans [OF pass rest]]) (use s in simp)
qed

text \<open>Between two turns both threads are at the head of their loop and nobody holds the mutex.\<close>

fun between_turns :: "main_vars \<times> ('h, 'm, 'z) ModelBase_t_scheme \<Rightarrow> ('h, 'm, 'z) sim_state" where
  "between_turns (v, w) = \<lparr>st_model = w, st_vars = v, st_live = True, st_isr = I_Test, st_main = M_Test, st_mutex = None\<rparr>"

lemma isr_turn_threads:
  assumes "isr_turn run run_model w = Some w1" "sim_enabled w \<noteq> 0"
  shows "sched_reach False run run_model (between_turns (v, w)) (between_turns (v, w1))"
proof -
  let ?s = "between_turns (v, w)"
  let ?at = "\<lambda>pc m w. \<lparr>st_model = w, st_vars = v, st_live = True, st_isr = pc, st_main = M_Test, st_mutex = m\<rparr>"
  obtain w2 where w2: "(case isr_stimulus w of Some f \<Rightarrow> map_option snd (run_model f w) | None \<Rightarrow> Some w) = Some w2"
    using assms(1) by (auto simp: isr_turn_def split: option.splits)
  let ?w3 = "w2\<lparr>mb_tick := mb_tick w2 + 1, in_isr := 1\<rparr>"
  obtain w4 where w4: "isr_loop run ?w3 = Some w4" "w1 = w4\<lparr>in_isr := 0\<rparr>"
    using assms(1) w2 by (auto simp: isr_turn_def split: option.splits)
  have "run_schedule False run run_model [Isr, Isr, Isr, Isr, Isr] ?s = Some (?at (I_While True) (Some Isr) ?w3)"
    using w2 assms(2) by (cases "isr_stimulus w") (auto simp: thread_step_def mutex_lock_def split: prod.split)
  then have enter: "sched_reach False run run_model ?s (?at (I_While True) (Some Isr) ?w3)"
    unfolding sched_reach_def by blast
  have loop: "sched_reach False run run_model (?at (I_While True) (Some Isr) ?w3) (?at I_Clear (Some Isr) w4)"
    using isr_loop_threads [OF w4(1), where s = "?at (I_While True) (Some Isr) ?w3"] by simp
  have "run_schedule False run run_model [Isr, Isr] (?at I_Clear (Some Isr) w4) = Some (between_turns (v, w1))"
    using w4(2) by (simp add: thread_step_def mutex_unlock_def)
  then have "sched_reach False run run_model (?at I_Clear (Some Isr) w4) (between_turns (v, w1))"
    unfolding sched_reach_def by blast
  with enter loop show ?thesis
    using sched_reach_trans by blast
qed

lemma main_turn_threads:
  assumes "main_turn run_model (v, w) = Some (Inr s')" "sim_enabled w \<noteq> 0"
  shows "sched_reach False run run_model (between_turns (v, w)) (between_turns s')"
proof -
  let ?v = "wd_check v w"
  let ?at = "\<lambda>pc w. \<lparr>st_model = w, st_vars = ?v, st_live = True, st_isr = I_Test, st_main = pc, st_mutex = None\<rparr>"
  have wd: "mv_wd ?v \<noteq> 0"
    using assms(1) by (auto simp: main_turn_def Let_def split: if_splits)
  obtain w1 where w1: "(if in_isr w = 0 then call_model run_model (mb_main_loop w) (w\<lparr>main_tick := main_tick w + 1\<rparr>)
      else Some (True, w)) = Some (True, w1)"
    using assms(1) wd by (auto simp: main_turn_def Let_def split: option.splits bool.splits)
  obtain w2 where w2: "call_model run_model (mb_diagnostics w1) w1 = Some (True, w2)" "s' = (?v, w2)"
    using assms(1) wd w1 by (auto simp: main_turn_def Let_def split: option.splits bool.splits)
  have "run_schedule False run run_model (if mv_last_tick v = mb_tick w then [Main, Main] else [Main, Main, Main]) (between_turns (v, w)) =
      Some (?at M_Gate w)"
    using wd assms(2) by (auto simp: thread_step_def wd_check_def)
  then have gate: "sched_reach False run run_model (between_turns (v, w)) (?at M_Gate w)"
    unfolding sched_reach_def by blast
  have "run_schedule False run run_model (if in_isr w = 0 then [Main, Main, Main, Main, Main] else [Main]) (?at M_Gate w) =
      Some (?at M_Diag w1)"
    using w1 by (auto simp: thread_step_def mutex_lock_def mutex_unlock_def)
  then have diag: "sched_reach False run run_model (?at M_Gate w) (?at M_Diag w1)"
    unfolding sched_reach_def by blast
  have "sched_reach False run run_model (?at M_Diag w1) (between_turns s')"
    using w2 by (intro main_goes [OF _ _ sched_reach_refl]) simp_all
  with gate diag show ?thesis
    using sched_reach_trans by blast
qed

lemma sim_step_threads:
  assumes "sim_step run run_model s t s'"
  shows "sched_reach False run run_model (between_turns s) (between_turns s')"
  using assms
proof cases
  case (isr_thread w w1 v)
  then show ?thesis
    using isr_turn_threads [of run run_model w w1 v] by simp
next
  case (main_thread w v)
  then show ?thesis
    using main_turn_threads [of run_model v w s'] by simp
qed

lemma sim_steps_threads:
  "sim_steps run run_model s ts s' \<Longrightarrow> sched_reach False run run_model (between_turns s) (between_turns s')"
proof (induction rule: sim_steps.induct)
  case (more s ts s1 t s2)
  then show ?case
    using sched_reach_trans sim_step_threads by blast
qed (rule sched_reach_refl)

lemma threads_start_turns:
  assumes "main_start user_init run_model w = Some s"
  shows "\<exists>s0. threads_start user_init run_model w = Some s0 \<and> sched_reach False run run_model s0 (between_turns s)"
proof -
  obtain w1 where w1: "sim_start run_model (sim_init user_init w) = Some (True, w1)"
    "s = (\<lparr>mv_wd = WD_RESET, mv_last_tick = mb_tick w1\<rparr>, w1\<lparr>in_isr := 1, main_tick := 0\<rparr>)"
    using assms by (auto simp: main_start_def split: option.splits prod.splits bool.splits)
  let ?s0 = "\<lparr>st_model = w1\<lparr>in_isr := 1\<rparr>, st_vars = \<lparr>mv_wd = WD_RESET, mv_last_tick = 0\<rparr>, st_live = True,
    st_isr = I_Test, st_main = M_Clear, st_mutex = None\<rparr>"
  have "run_schedule False run run_model [Main, Main] ?s0 = Some (between_turns s)"
    using w1(2) by (simp add: thread_step_def)
  then have "sched_reach False run run_model ?s0 (between_turns s)"
    unfolding sched_reach_def by blast
  then show ?thesis
    using w1(1) by (simp add: threads_start_def)
qed

section \<open>Properties\<close>


text \<open>A model with one handler, whose flag its stimulus raises, and a main loop that counts.\<close>

definition demo_init :: "(nat, nat, nat) ModelBase_t_scheme \<Rightarrow> (nat, nat, nat) ModelBase_t_scheme" where
  "demo_init w = w"

definition demo_model :: "(nat, nat, nat) ModelBase_t_scheme" where
  "demo_model = \<lparr>isr_table = (\<lambda>_. Some 7), isr_flags = (\<lambda>_. 0), isr_table_size = 1, isr_are_prioritized = 0,
     isr_auto_clear = 1, mb_tick = 0, main_tick = 0, sim_enabled = 1, in_isr = 1, mb_setup = None,
     isr_stimulus = Some 1, mb_main_loop = Some 2, mb_diagnostics = None, \<dots> = 0\<rparr>"

definition demo_handler :: "(nat, nat, nat) handlers" where
  "demo_handler h w = Some (ModelBase_t.more_update (\<lambda>n. n + h) w)"

definition demo_funs :: "(nat, nat, nat) model_funs" where
  "demo_funs f w = Some (True, if f = 1 then w\<lparr>isr_flags := (\<lambda>_. 1)\<rparr> else ModelBase_t.more_update Suc w)"

lemma demo_total: "user_total demo_handler demo_funs"
  by (simp add: user_total_def demo_handler_def demo_funs_def)

definition demo_start :: "(nat, nat, nat) sim_state" where
  "demo_start = the (threads_start demo_init demo_funs demo_model)"

lemma demo_start_ok: "threads_start demo_init demo_funs demo_model = Some demo_start"
  by (simp add: demo_start_def threads_start_def sim_start_def sim_init_def demo_init_def demo_model_def)

definition thread_at :: "('h, 'm, 'z) sim_state option \<Rightarrow> ('h isr_pc \<times> main_pc \<times> sim_thread option \<times> bool) option" where
  "thread_at r = map_option (\<lambda>s. (st_isr s, st_main s, st_mutex s, in_isr (st_model s) \<noteq> 0)) r"

text \<open>The interrupt thread serves once, the main thread enters its part, and the interrupt thread waits.\<close>

definition demo_sched :: "sim_thread list" where
  "demo_sched = replicate 15 Isr @ replicate 6 Main @ replicate 3 Isr"

lemma demo_waits:
  "thread_at (run_schedule False demo_handler demo_funs demo_sched demo_start) = Some (I_Lock, M_Count, Some Main, False)"
  by code_simp


text \<open> C30. The simulation in turns, one iteration of a thread's loop at a time, is one of the schedules of
  the threads: whatever the turns of \<open>sim_steps\<close> lead to from the start, the threads can reach, statement by
  statement, with both back at the head of their loops and the mutex free. \<close>

theorem turns_are_schedules:
  assumes "main_start user_init run_model w = Some s" "sim_steps run run_model s ts s'"
  shows "\<exists>s0 us. threads_start user_init run_model w = Some s0 \<and>
    run_schedule False run run_model us s0 = Some (between_turns s')"
proof -
  obtain s0 where "threads_start user_init run_model w = Some s0" "sched_reach False run run_model s0 (between_turns s)"
    using threads_start_turns [OF assms(1)] by blast
  moreover from this(2) have "sched_reach False run run_model s0 (between_turns s')"
    using sim_steps_threads [OF assms(2)] by (rule sched_reach_trans)
  ultimately show ?thesis
    by (auto simp: sched_reach_def)
qed

definition demo_turn :: "(nat, nat, nat) ModelBase_t_scheme" where
  "demo_turn = the (isr_turn demo_handler demo_funs (demo_model\<lparr>main_tick := 0\<rparr>))"

lemma demo_turn_ok:
  "map_option ModelBase_t.more (isr_turn demo_handler demo_funs (demo_model\<lparr>main_tick := 0\<rparr>)) = Some 7"
  by code_simp

theorem turns_are_schedules_witness:
  "\<exists>s0 us. threads_start demo_init demo_funs demo_model = Some s0 \<and>
    run_schedule False demo_handler demo_funs us s0 = Some (between_turns (\<lparr>mv_wd = WD_RESET, mv_last_tick = 0\<rparr>, demo_turn))"
proof -
  let ?w = "demo_model\<lparr>main_tick := 0\<rparr>" and ?v = "\<lparr>mv_wd = WD_RESET, mv_last_tick = 0\<rparr>"
  have start: "main_start demo_init demo_funs demo_model = Some (?v, ?w)"
    by (simp add: main_start_def sim_start_def sim_init_def demo_init_def demo_model_def)
  have "isr_turn demo_handler demo_funs ?w = Some demo_turn"
    using demo_turn_ok by (auto simp: demo_turn_def)
  then have "sim_step demo_handler demo_funs (?v, ?w) True (?v, demo_turn)"
    by (intro isr_thread) (simp_all add: demo_model_def)
  then have "sim_steps demo_handler demo_funs (?v, ?w) ([] @ [True]) (?v, demo_turn)"
    by (rule sim_steps.more [OF sim_steps.start])
  from turns_are_schedules [OF start this] show ?thesis .
qed

text \<open>
  The mutex does not cover the user's main loop. The flag \<open>in_isr\<close>, which is to lock the background out
  while interrupts are served, is only tested before: a handler can run in the middle of the
  main loop, with the flag set.
\<close>

lemma main_loop_not_locked_out:
  "thread_at (run_schedule False demo_handler demo_funs (replicate 15 Isr @ replicate 8 Main @ replicate 7 Isr) demo_start) =
     Some (I_Call 0 7, M_Loop, Some Isr, True)"
  by code_simp

text \<open>Compiled with \<^verbatim>\<open>NDEBUG\<close> the interrupt thread does not lock at all, and the exclusion is gone.\<close>

lemma ndebug_no_exclusion:
  "thread_at (run_schedule True demo_handler demo_funs (replicate 15 Isr @ replicate 6 Main @ replicate 7 Isr) demo_start) =
     Some (I_Call 0 7, M_Count, Some Main, True)"
  by code_simp

text \<open>
  When a function of the user returns NULL, the main thread waits for the end of the interrupt thread, which has
  its own pointer and goes on as long as \<open>sim_enabled\<close> is set: it stays where it is.
\<close>

lemma null_model_joins:
  assumes "st_main s = M_Test" "\<not> st_live s" "st_isr s \<noteq> I_Done"
  shows "\<exists>s'. thread_step nd run run_model Main s = Some s' \<and> st_main s' = M_Join \<and> st_isr s' = st_isr s \<and>
    thread_step nd run run_model Main s' = None"
  using assms by (simp add: thread_step_def)

end
