(* ===== verification/Rs485Dmx.thy ===== *)
theory Rs485Dmx
  imports IsrComm
begin

text \<open>
  The DMX512 receiver of \<^verbatim>\<open>src/src/rs485_dmx.c\<close> and \<^verbatim>\<open>rs485_dmx.h\<close>: it cuts the slots
  of each device out of the byte stream, into buffers that travel through the device's process
  target (\<open>IsrComm\<close>). The world gains the devices, by address, and the bytes of the buffers. A
  pointer is an integer, 0 is NULL. \<open>None\<close> is a list of devices that never ends.
\<close>

section \<open>State\<close>

record DmxDevice_t =
  dd_next_dev :: "nat option"
  dd_ipt :: nat
  dd_data :: int
  dd_next_data :: int
  dd_missed :: u32
  dd_first_slot :: u16
  dd_slots :: u16

record DmxReceiver_t =
  rx_first_device :: "nat option"
  rx_slot_cnt :: i16
  rx_slot0 :: u8

record 'cb dmx_world = "'cb isr_world" +
  dw_dev :: "nat \<Rightarrow> DmxDevice_t"
  dw_byte :: "int \<Rightarrow> u8"

definition upd_dev :: "nat \<Rightarrow> (DmxDevice_t \<Rightarrow> DmxDevice_t) \<Rightarrow> ('cb, 'z) dmx_world_scheme \<Rightarrow> ('cb, 'z) dmx_world_scheme" where
  "upd_dev a f w = w\<lparr>dw_dev := (dw_dev w)(a := f (dw_dev w a))\<rparr>"

section \<open>Operations (rs485_dmx.c)\<close>

text \<open>The copy loop: bytes go out while there are any and the buffer has room; the rest comes back.\<close>

fun add_loop :: "nat \<Rightarrow> int \<Rightarrow> u8 list \<Rightarrow> ('cb, 'z) dmx_world_scheme \<Rightarrow> u8 list \<times> ('cb, 'z) dmx_world_scheme" where
  "add_loop a e [] w = ([], w)"
| "add_loop a e (b # bs) w =
     (if dd_next_data (dw_dev w a) < e then
        add_loop a e bs (upd_dev a (\<lambda>d. d\<lparr>dd_next_data := dd_next_data d + 1\<rparr>)
          (w\<lparr>dw_byte := (dw_byte w)(dd_next_data (dw_dev w a) := b)\<rparr>))
      else (b # bs, w))"

definition add_to_device ::
    "('cb, 'z dmx_world_ext) callbacks \<Rightarrow> nat \<Rightarrow> u8 list \<Rightarrow> ('cb, 'z) dmx_world_scheme \<Rightarrow>
     nat \<times> ('cb, 'z) dmx_world_scheme" where
  "add_to_device run_cb a raw_data w =
     (let (ok, w1) =
        (if dd_data (dw_dev w a) = 0 then
           (case Ipt_DequeueInIsr (dd_ipt (dw_dev w a)) w of
              (Status_OK, Some p, w1) \<Rightarrow> (True, upd_dev a (\<lambda>d. d\<lparr>dd_data := p, dd_next_data := p\<rparr>) w1)
            | (_, _, w1) \<Rightarrow> (False, upd_dev a (\<lambda>d. d\<lparr>dd_missed := dd_missed d + 1\<rparr>) w1))
         else (True, w))
      in if \<not> ok then (0, w1)
      else
        let e = dd_data (dw_dev w1 a) + uint (dd_slots (dw_dev w1 a));
            (remaining, w2) = add_loop a e raw_data w1;
            w3 = (if dd_next_data (dw_dev w2 a) = e
                  then upd_dev a (\<lambda>d. d\<lparr>dd_data := 0\<rparr>)
                    (Ipt_ReturnToUserProcess run_cb (dd_ipt (dw_dev w2 a)) (dd_data (dw_dev w2 a)) w2)
                  else w2)
        in (length raw_data - length remaining, w3))"

text \<open>
  The walk over the devices. The counter is 16 bits and signed; what it is compared with is
  unsigned and promoted to \<open>int\<close>. When a device starts beyond the data the code adds what is
  left to the counter and returns, which is what it also does after the walk.
\<close>

partial_function (option) dev_loop ::
    "('cb, 'z dmx_world_ext) callbacks \<Rightarrow> i16 \<Rightarrow> u8 list \<Rightarrow> nat option \<Rightarrow> ('cb, 'z) dmx_world_scheme \<Rightarrow>
     (i16 \<times> u8 list \<times> ('cb, 'z) dmx_world_scheme) option" where
  "dev_loop run_cb slot_cnt raw dev w =
     (case dev of
        None \<Rightarrow> Some (slot_cnt, raw, w)
      | Some a \<Rightarrow>
          if raw = [] then Some (slot_cnt, raw, w)
          else
            let d = dw_dev w a; first = uint (dd_first_slot d) in
            if sint slot_cnt \<ge> first + uint (dd_slots d) then dev_loop run_cb slot_cnt raw (dd_next_dev d) w
            else if sint slot_cnt < first \<and> first - sint slot_cnt > int (length raw) then Some (slot_cnt, raw, w)
            else
              let skip = (if sint slot_cnt < first then first - sint slot_cnt else 0);
                  cnt1 = slot_cnt + word_of_int skip;
                  raw1 = drop (nat skip) raw;
                  (used, w1) = add_to_device run_cb a raw1 w
              in dev_loop run_cb (cnt1 + of_nat used) (drop used raw1) (dd_next_dev (dw_dev w1 a)) w1)"

declare dev_loop.simps [code]

partial_function (option) break_loop ::
    "nat option \<Rightarrow> ('cb, 'z) dmx_world_scheme \<Rightarrow> ('cb, 'z) dmx_world_scheme option" where
  "break_loop dev w =
     (case dev of
        None \<Rightarrow> Some w
      | Some a \<Rightarrow>
          let w1 = (if dd_data (dw_dev w a) = 0 then
                      (case Ipt_DequeueInIsr (dd_ipt (dw_dev w a)) w of
                         (_, Some p, w1) \<Rightarrow> upd_dev a (\<lambda>d. d\<lparr>dd_data := p\<rparr>) w1
                       | (_, None, w1) \<Rightarrow> w1)
                    else w);
              w2 = upd_dev a (\<lambda>d. d\<lparr>dd_next_data := dd_data d\<rparr>) w1
          in break_loop (dd_next_dev (dw_dev w2 a)) w2)"

declare break_loop.simps [code]

definition DMX_process_break ::
    "DmxReceiver_t \<Rightarrow> ('cb, 'z) dmx_world_scheme \<Rightarrow> (DmxReceiver_t \<times> ('cb, 'z) dmx_world_scheme) option" where
  "DMX_process_break self w =
     map_option (\<lambda>w1. (self\<lparr>rx_slot_cnt := 0\<rparr>, w1)) (break_loop (rx_first_device self) w)"

definition DMX_use_raw_data ::
    "('cb, 'z dmx_world_ext) callbacks \<Rightarrow> DmxReceiver_t \<Rightarrow> u8 list \<Rightarrow> ('cb, 'z) dmx_world_scheme \<Rightarrow>
     (DmxReceiver_t \<times> ('cb, 'z) dmx_world_scheme) option" where
  "DMX_use_raw_data run_cb self raw_data w =
     (case raw_data of
        [] \<Rightarrow> DMX_process_break self w
      | b # bs \<Rightarrow>
          if sint (rx_slot_cnt self) \<ge> 0 then
            if rx_slot_cnt self = 0 \<and> b \<noteq> rx_slot0 self then Some (self\<lparr>rx_slot_cnt := -1\<rparr>, w)
            else
              let (cnt, raw) = (if rx_slot_cnt self = 0 then (1, bs) else (rx_slot_cnt self, raw_data))
              in map_option (\<lambda>(cnt1, rest, w1). (self\<lparr>rx_slot_cnt := cnt1 + of_nat (length rest)\<rparr>, w1))
                   (dev_loop run_cb cnt raw (rx_first_device self) w)
          else Some (self, w))"

partial_function (option) reset_devs ::
    "('cb, 'z dmx_world_ext) callbacks \<Rightarrow> nat option \<Rightarrow> ('cb, 'z) dmx_world_scheme \<Rightarrow> ('cb, 'z) dmx_world_scheme option" where
  "reset_devs run_cb dev w =
     (case dev of
        None \<Rightarrow> Some w
      | Some a \<Rightarrow>
          (case Ipt_Reset run_cb (dd_ipt (dw_dev w a)) (upd_dev a (\<lambda>d. d\<lparr>dd_data := 0\<rparr>) w) of
             None \<Rightarrow> None
           | Some w1 \<Rightarrow> reset_devs run_cb (dd_next_dev (dw_dev w1 a)) w1))"

declare reset_devs.simps [code]

definition DMX_receiver_reset ::
    "('cb, 'z dmx_world_ext) callbacks \<Rightarrow> DmxReceiver_t \<Rightarrow> ('cb, 'z) dmx_world_scheme \<Rightarrow>
     (DmxReceiver_t \<times> ('cb, 'z) dmx_world_scheme) option" where
  "DMX_receiver_reset run_cb self w =
     map_option (\<lambda>w1. (self\<lparr>rx_slot_cnt := 0\<rparr>, w1)) (reset_devs run_cb (rx_first_device self) w)"

section \<open>Frame\<close>

text \<open>Returning a buffer to the user changes no device and no byte.\<close>

lemma upd_dev_simps [simp]:
  "dw_dev (upd_dev a f w) = (dw_dev w)(a := f (dw_dev w a))"
  "dw_byte (upd_dev a f w) = dw_byte w"
  by (simp_all add: upd_dev_def)

lemma pool_dev_frame:
  fixes w :: "('cb, 'z) dmx_world_scheme"
  shows "dw_dev (upd_pre p f w) = dw_dev w" "dw_dev (set_next s p w) = dw_dev w"
    "dw_byte (upd_pre p f w) = dw_byte w" "dw_byte (set_next s p w) = dw_byte w"
  by (simp_all add: upd_pre_def set_next_def)

lemma q_put_frame:
  fixes w :: "('cb, 'z) dmx_world_scheme"
  shows "dw_dev (snd (q_put k p w)) = dw_dev w" "dw_byte (snd (q_put k p w)) = dw_byte w"
  by (simp_all add: q_put_def split: prod.splits option.splits)

lemma ReturnPoolObject_frame:
  fixes w :: "('cb, 'z) dmx_world_scheme"
  shows "dw_dev (ReturnPoolObject run_cb obj w) = dw_dev w" "dw_byte (ReturnPoolObject run_cb obj w) = dw_byte w"
proof -
  let ?quiet = "\<lambda>_ _ w. (Status_OK, w) :: Status_t \<times> ('cb, 'z) dmx_world_scheme"
  have "dw_dev (snd (GenPool_return ?quiet obj w)) = dw_dev w" "dw_byte (snd (GenPool_return ?quiet obj w)) = dw_byte w"
    for w :: "('cb, 'z) dmx_world_scheme"
    by (simp_all add: GenPool_return_def Let_def pool_dev_frame split: option.splits)
  then show "dw_dev (ReturnPoolObject run_cb obj w) = dw_dev w" "dw_byte (ReturnPoolObject run_cb obj w) = dw_byte w"
    unfolding ReturnPoolObject_run_cb [of run_cb obj w ?quiet]
    using q_put_frame [of isrRetQ obj w]
    by (auto simp: ReturnPoolObject_def GenPool_extract_callback_def Let_def pool_dev_frame split: prod.splits)
qed

lemma Ipt_ReturnToUserProcess_frame:
  fixes w :: "('cb, 'z) dmx_world_scheme"
  shows "dw_dev (Ipt_ReturnToUserProcess run_cb i obj w) = dw_dev w"
    "dw_byte (Ipt_ReturnToUserProcess run_cb i obj w) = dw_byte w"
proof -
  have "dw_dev (returnPoolObjectToProcess run_cb i q obj w) = dw_dev w \<and>
      dw_byte (returnPoolObjectToProcess run_cb i q obj w) = dw_byte w" for q
    using q_put_frame [of q obj w]
    by (auto simp: returnPoolObjectToProcess_def Let_def ReturnPoolObject_frame split: prod.splits)
  then show "dw_dev (Ipt_ReturnToUserProcess run_cb i obj w) = dw_dev w"
    "dw_byte (Ipt_ReturnToUserProcess run_cb i obj w) = dw_byte w"
    by (simp_all add: Ipt_ReturnToUserProcess_def ReturnPoolObject_frame split: option.splits)
qed

section \<open>Byte by byte\<close>

text \<open>Where a device's window is; neither the walk nor the copies change it.\<close>

abbreviation win_first :: "('cb, 'z) dmx_world_scheme \<Rightarrow> nat \<Rightarrow> int" where
  "win_first w a \<equiv> uint (dd_first_slot (dw_dev w a))"

abbreviation win_end :: "('cb, 'z) dmx_world_scheme \<Rightarrow> nat \<Rightarrow> int" where
  "win_end w a \<equiv> uint (dd_first_slot (dw_dev w a)) + uint (dd_slots (dw_dev w a))"

definition same_geometry :: "('cb, 'z) dmx_world_scheme \<Rightarrow> ('cb, 'z) dmx_world_scheme \<Rightarrow> bool" where
  "same_geometry w w1 \<longleftrightarrow> (\<forall>a. dd_next_dev (dw_dev w1 a) = dd_next_dev (dw_dev w a) \<and>
     dd_ipt (dw_dev w1 a) = dd_ipt (dw_dev w a) \<and> dd_first_slot (dw_dev w1 a) = dd_first_slot (dw_dev w a) \<and>
     dd_slots (dw_dev w1 a) = dd_slots (dw_dev w a))"

text \<open>
  The reference: the device receives one byte; when the buffer is full it goes to the user. And
  one slot of a frame: it belongs to the first device whose window contains it, or to nobody.
\<close>

definition put_byte :: "nat \<Rightarrow> u8 \<Rightarrow> ('cb, 'z) dmx_world_scheme \<Rightarrow> ('cb, 'z) dmx_world_scheme" where
  "put_byte a b w = upd_dev a (\<lambda>d. d\<lparr>dd_next_data := dd_next_data d + 1\<rparr>)
     (w\<lparr>dw_byte := (dw_byte w)(dd_next_data (dw_dev w a) := b)\<rparr>)"

definition give_back ::
    "('cb, 'z dmx_world_ext) callbacks \<Rightarrow> nat \<Rightarrow> ('cb, 'z) dmx_world_scheme \<Rightarrow> ('cb, 'z) dmx_world_scheme" where
  "give_back run_cb a w = upd_dev a (\<lambda>d. d\<lparr>dd_data := 0\<rparr>)
     (Ipt_ReturnToUserProcess run_cb (dd_ipt (dw_dev w a)) (dd_data (dw_dev w a)) w)"

definition recv ::
    "('cb, 'z dmx_world_ext) callbacks \<Rightarrow> nat \<Rightarrow> u8 \<Rightarrow> ('cb, 'z) dmx_world_scheme \<Rightarrow> ('cb, 'z) dmx_world_scheme" where
  "recv run_cb a b w =
     (let w1 = put_byte a b w in
      if dd_next_data (dw_dev w1 a) = dd_data (dw_dev w1 a) + uint (dd_slots (dw_dev w1 a))
      then give_back run_cb a w1 else w1)"

definition dmx_byte ::
    "('cb, 'z dmx_world_ext) callbacks \<Rightarrow> nat list \<Rightarrow> int \<Rightarrow> u8 \<Rightarrow> ('cb, 'z) dmx_world_scheme \<Rightarrow> ('cb, 'z) dmx_world_scheme" where
  "dmx_byte run_cb ds cnt b w =
     (case find (\<lambda>a. win_first w a \<le> cnt \<and> cnt < win_end w a) ds of None \<Rightarrow> w | Some a \<Rightarrow> recv run_cb a b w)"

primrec dmx_bytes ::
    "('cb, 'z dmx_world_ext) callbacks \<Rightarrow> nat list \<Rightarrow> int \<Rightarrow> u8 list \<Rightarrow> ('cb, 'z) dmx_world_scheme \<Rightarrow> ('cb, 'z) dmx_world_scheme" where
  "dmx_bytes run_cb ds cnt [] w = w"
| "dmx_bytes run_cb ds cnt (b # bs) w = dmx_bytes run_cb ds (cnt + 1) bs (dmx_byte run_cb ds cnt b w)"

text \<open>
  A device waits for slot \<open>cnt\<close> with the buffer \<open>buf\<close> gave it, filled up to that slot; one whose
  window has passed is done. The windows of the list are disjoint and ascending.
\<close>

definition dmx_ready :: "(nat \<Rightarrow> int) \<Rightarrow> ('cb, 'z) dmx_world_scheme \<Rightarrow> int \<Rightarrow> nat list \<Rightarrow> bool" where
  "dmx_ready buf w cnt ds \<longleftrightarrow> (\<forall>a \<in> set ds. cnt < win_end w a \<longrightarrow>
     buf a \<noteq> 0 \<and> dd_data (dw_dev w a) = buf a \<and> dd_next_data (dw_dev w a) = buf a + max 0 (cnt - win_first w a))"

definition dmx_windows :: "('cb, 'z) dmx_world_scheme \<Rightarrow> nat list \<Rightarrow> bool" where
  "dmx_windows w ds \<longleftrightarrow> sorted_wrt (\<lambda>a b. win_end w a \<le> win_first w b) ds \<and>
     (\<forall>a \<in> set ds. dd_slots (dw_dev w a) \<noteq> 0)"

lemma put_byte_simps [simp]:
  "dw_dev (put_byte a b w) = (dw_dev w)(a := (dw_dev w a)\<lparr>dd_next_data := dd_next_data (dw_dev w a) + 1\<rparr>)"
  "dw_byte (put_byte a b w) = (dw_byte w)(dd_next_data (dw_dev w a) := b)"
  by (simp_all add: put_byte_def)

lemma give_back_simps [simp]:
  "dw_dev (give_back run_cb a w) = (dw_dev w)(a := (dw_dev w a)\<lparr>dd_data := 0\<rparr>)"
  "dw_byte (give_back run_cb a w) = dw_byte w"
  by (simp_all add: give_back_def Ipt_ReturnToUserProcess_frame)

lemma recv_simps:
  "dw_dev (recv run_cb a b w) = (dw_dev w)(a := (dw_dev w a)\<lparr>dd_next_data := dd_next_data (dw_dev w a) + 1,
     dd_data := (if dd_next_data (dw_dev w a) + 1 = dd_data (dw_dev w a) + uint (dd_slots (dw_dev w a))
                 then 0 else dd_data (dw_dev w a))\<rparr>)"
  "dw_byte (recv run_cb a b w) = (dw_byte w)(dd_next_data (dw_dev w a) := b)"
  by (auto simp: recv_def Let_def)

lemma same_geometry_refl: "same_geometry w w"
  by (simp add: same_geometry_def)

lemma same_geometry_trans: "same_geometry w w1 \<Longrightarrow> same_geometry w1 w2 \<Longrightarrow> same_geometry w w2"
  by (simp add: same_geometry_def)

lemma recv_geometry: "same_geometry w (recv run_cb a b w)"
  by (simp add: same_geometry_def recv_simps)

lemma dmx_byte_geometry: "same_geometry w (dmx_byte run_cb ds cnt b w)"
  by (simp add: dmx_byte_def recv_geometry same_geometry_refl split: option.splits)

lemma dmx_bytes_geometry: "same_geometry w (dmx_bytes run_cb ds cnt bs w)"
proof (induction bs arbitrary: cnt w)
  case (Cons b bs)
  show ?case
    unfolding dmx_bytes.simps by (rule same_geometry_trans [OF dmx_byte_geometry Cons.IH])
qed (simp add: same_geometry_refl)

lemma geometry_windows: "same_geometry w w1 \<Longrightarrow> dmx_windows w1 ds = dmx_windows w ds"
  by (simp add: same_geometry_def dmx_windows_def)

lemma geometry_win:
  "same_geometry w w1 \<Longrightarrow> win_first w1 a = win_first w a \<and> win_end w1 a = win_end w a"
  by (simp add: same_geometry_def)

lemma dmx_bytes_append:
  "dmx_bytes run_cb ds cnt (xs @ ys) w =
   dmx_bytes run_cb ds (cnt + int (length xs)) ys (dmx_bytes run_cb ds cnt xs w)"
  by (induction xs arbitrary: cnt w) (simp_all add: ac_simps)

lemma dmx_bytes_past:
  "win_end w a \<le> cnt \<Longrightarrow> dmx_bytes run_cb (a # ds) cnt bs w = dmx_bytes run_cb ds cnt bs w"
proof (induction bs arbitrary: cnt w)
  case (Cons b bs)
  have 1: "dmx_byte run_cb (a # ds) cnt b w = dmx_byte run_cb ds cnt b w"
    using Cons.prems by (simp add: dmx_byte_def)
  have "win_end (dmx_byte run_cb ds cnt b w) a \<le> cnt + 1"
    using Cons.prems geometry_win [OF dmx_byte_geometry [of w run_cb ds cnt b], of a] by simp
  from Cons.IH [OF this] show ?case
    by (simp add: 1)
qed simp

lemma dmx_bytes_before:
  "(\<And>a. a \<in> set ds \<Longrightarrow> cnt + int (length bs) \<le> win_first w a) \<Longrightarrow> dmx_bytes run_cb ds cnt bs w = w"
proof (induction bs arbitrary: cnt)
  case (Cons b bs)
  have "find (\<lambda>a. win_first w a \<le> cnt \<and> cnt < win_end w a) ds = None"
    using Cons.prems by (fastforce simp: find_None_iff)
  then have "dmx_byte run_cb ds cnt b w = w"
    by (simp add: dmx_byte_def)
  moreover have "cnt + 1 + int (length bs) \<le> win_first w a" if "a \<in> set ds" for a
    using Cons.prems [OF that] by simp
  ultimately show ?case
    using Cons.IH [of "cnt + 1"] by simp
qed simp

lemma dmx_bytes_inside:
  "win_first w a \<le> cnt \<Longrightarrow> cnt + int (length bs) \<le> win_end w a \<Longrightarrow>
   dmx_bytes run_cb (a # ds) cnt bs w = foldl (\<lambda>w b. recv run_cb a b w) w bs"
proof (induction bs arbitrary: cnt w)
  case (Cons b bs)
  have "dmx_byte run_cb (a # ds) cnt b w = recv run_cb a b w"
    using Cons.prems by (simp add: dmx_byte_def)
  moreover have "win_first (recv run_cb a b w) a \<le> cnt + 1"
    "cnt + 1 + int (length bs) \<le> win_end (recv run_cb a b w) a"
    using Cons.prems geometry_win [OF recv_geometry [of w run_cb a b], of a] by simp_all
  ultimately show ?case
    using Cons.IH by simp
qed simp

lemma recvs_geometry: "same_geometry w (foldl (\<lambda>w b. recv run_cb a b w) w bs)"
proof (induction bs arbitrary: w)
  case (Cons b bs)
  show ?case
    unfolding foldl_Cons by (rule same_geometry_trans [OF recv_geometry Cons.IH])
qed (simp add: same_geometry_refl)

lemma recvs_other: "d \<noteq> a \<Longrightarrow> dw_dev (foldl (\<lambda>w b. recv run_cb a b w) w bs) d = dw_dev w d"
  by (induction bs arbitrary: w) (simp_all add: recv_simps)

text \<open>The copy of a block into a waiting device, as single receptions.\<close>

lemma add_loop_put:
  "add_loop a e raw w = (let r = nat (e - dd_next_data (dw_dev w a))
     in (drop r raw, foldl (\<lambda>w b. put_byte a b w) w (take r raw)))"
proof (induction raw arbitrary: w)
  case (Cons b raw)
  show ?case
  proof (cases "dd_next_data (dw_dev w a) < e")
    case True
    have "add_loop a e (b # raw) w = add_loop a e raw (put_byte a b w)"
      using True by (simp add: put_byte_def)
    moreover have "nat (e - dd_next_data (dw_dev w a)) = Suc (nat (e - dd_next_data (dw_dev (put_byte a b w) a)))"
      using True by simp
    ultimately show ?thesis
      by (simp add: Cons Let_def del: put_byte_simps)
  next
    case False
    then show ?thesis
      by simp
  qed
qed simp

lemma put_bytes_dev:
  "dw_dev (foldl (\<lambda>w b. put_byte a b w) w bs) =
   (dw_dev w)(a := (dw_dev w a)\<lparr>dd_next_data := dd_next_data (dw_dev w a) + int (length bs)\<rparr>)"
  by (induction bs arbitrary: w) (simp_all add: fun_upd_idem add.assoc)

lemma recvs_short:
  "dd_next_data (dw_dev w a) + int (length bs) < dd_data (dw_dev w a) + uint (dd_slots (dw_dev w a)) \<Longrightarrow>
   foldl (\<lambda>w b. recv run_cb a b w) w bs = foldl (\<lambda>w b. put_byte a b w) w bs"
proof (induction bs arbitrary: w)
  case (Cons b bs)
  then have "recv run_cb a b w = put_byte a b w"
    by (simp add: recv_def Let_def)
  then show ?case
    using Cons by simp
qed simp

lemma add_to_device_recv:
  assumes "dd_data (dw_dev w a) \<noteq> 0"
    and room: "r = nat (dd_data (dw_dev w a) + uint (dd_slots (dw_dev w a)) - dd_next_data (dw_dev w a))" "0 < r"
  shows "add_to_device run_cb a raw w =
    (min r (length raw), foldl (\<lambda>w b. recv run_cb a b w) w (take r raw))"
proof -
  let ?e = "dd_data (dw_dev w a) + uint (dd_slots (dw_dev w a))"
  let ?w1 = "foldl (\<lambda>w b. put_byte a b w) w (take r raw)"
  have loop: "add_loop a ?e raw w = (drop r raw, ?w1)"
    unfolding add_loop_put Let_def room(1) ..
  have "add_to_device run_cb a raw w = (length raw - length (drop r raw),
      if dd_next_data (dw_dev ?w1 a) = ?e then give_back run_cb a ?w1 else ?w1)"
    using assms(1) by (simp add: add_to_device_def loop give_back_def)
  also have "length raw - length (drop r raw) = min r (length raw)"
    by simp
  also have "(if dd_next_data (dw_dev ?w1 a) = ?e then give_back run_cb a ?w1 else ?w1) =
      foldl (\<lambda>w b. recv run_cb a b w) w (take r raw)"
  proof (cases "length raw < r")
    case True
    then have "dd_next_data (dw_dev w a) + int (length raw) < ?e"
      using room by linarith
    then show ?thesis
      using True by (simp add: put_bytes_dev recvs_short)
  next
    case False
    have len: "length (take r raw) = r"
      using False by simp
    then obtain bs b where bs: "take r raw = bs @ [b]"
      using room(2) by (cases "take r raw" rule: rev_cases) auto
    then have "length bs = r - 1"
      using len by simp
    then have "dd_next_data (dw_dev w a) + int (length bs) < ?e" "dd_next_data (dw_dev w a) + int (length bs) + 1 = ?e"
      using room by linarith+
    define w2 where "w2 = foldl (\<lambda>w b. put_byte a b w) w bs"
    have w2: "foldl (\<lambda>w b. recv run_cb a b w) w (take r raw) = recv run_cb a b w2" "?w1 = put_byte a b w2"
      using \<open>dd_next_data (dw_dev w a) + int (length bs) < ?e\<close> by (simp_all add: w2_def bs recvs_short)
    have next2: "dd_next_data (dw_dev (put_byte a b w2) a) = ?e" "dd_data (dw_dev (put_byte a b w2) a) + uint (dd_slots (dw_dev (put_byte a b w2) a)) = ?e"
      using \<open>dd_next_data (dw_dev w a) + int (length bs) + 1 = ?e\<close> by (simp_all add: w2_def put_bytes_dev)
    show ?thesis
      by (simp only: w2) (simp only: recv_def Let_def next2 simp_thms if_True)
  qed
  finally show ?thesis .
qed

section \<open>The walk\<close>

fun dmx_walk ::
    "('cb, 'z dmx_world_ext) callbacks \<Rightarrow> nat list \<Rightarrow> int \<Rightarrow> u8 list \<Rightarrow> ('cb, 'z) dmx_world_scheme \<Rightarrow> ('cb, 'z) dmx_world_scheme" where
  "dmx_walk run_cb [] cnt raw w = w"
| "dmx_walk run_cb (a # ds) cnt raw w =
     (if raw = [] then w
      else if cnt \<ge> win_end w a then dmx_walk run_cb ds cnt raw w
      else if int (length raw) < win_first w a - cnt then w
      else
        let s = nat (win_first w a - cnt); (used, w1) = add_to_device run_cb a (drop s raw) w
        in dmx_walk run_cb ds (cnt + int s + int used) (drop (s + used) raw) w1)"

text \<open>What the walk does at a device whose window the block reaches, against the reference: both skip to
  the window and receive up to its end.\<close>

lemma dmx_bytes_window:
  assumes "\<And>d. d \<in> set ds \<Longrightarrow> win_end w a \<le> win_first w d" "win_first w a \<le> win_end w a"
    and "cnt < win_end w a" "s = nat (win_first w a - cnt)" "s \<le> length raw" "n = nat (win_end w a - (cnt + int s))"
  shows "dmx_bytes run_cb (a # ds) cnt raw w = dmx_bytes run_cb (a # ds) (cnt + int s + int (min n (length raw - s)))
    (drop n (drop s raw)) (foldl (\<lambda>w b. recv run_cb a b w) w (take n (drop s raw)))"
proof -
  have before: "dmx_bytes run_cb (a # ds) cnt (take s raw) w = w"
  proof (cases "s = 0")
    case False
    then have "cnt + int (length (take s raw)) = win_first w a"
      using assms(4,5) by auto
    moreover have "win_first w a \<le> win_first w d" if "d \<in> set (a # ds)" for d
      using that assms(1) [of d] order_trans [OF assms(2), of "win_first w d"] by (cases "d = a") simp_all
    ultimately show ?thesis
      by (intro dmx_bytes_before) simp
  qed simp
  have inside: "dmx_bytes run_cb (a # ds) (cnt + int s) (take n (drop s raw)) w =
      foldl (\<lambda>w b. recv run_cb a b w) w (take n (drop s raw))"
  proof (rule dmx_bytes_inside)
    have "int (length (take n (drop s raw))) \<le> int n"
      by simp
    moreover have "int n = win_end w a - (cnt + int s)"
      using assms(2-4,6) by simp
    ultimately show "cnt + int s + int (length (take n (drop s raw))) \<le> win_end w a"
      by linarith
  qed (use assms(4) in simp)
  have "dmx_bytes run_cb (a # ds) cnt raw w =
      dmx_bytes run_cb (a # ds) cnt (take s raw @ take n (drop s raw) @ drop n (drop s raw)) w"
    by (simp only: append_take_drop_id)
  moreover have "length (take s raw) = s" "length (take n (drop s raw)) = min n (length raw - s)"
    using assms(5) by simp_all
  ultimately show ?thesis
    by (simp only: dmx_bytes_append before inside)
qed

text \<open>The devices behind are ready for the rest of the block.\<close>

lemma dmx_ready_behind:
  assumes "dmx_ready buf w cnt ds" "a \<notin> set ds" "\<And>d. d \<in> set ds \<Longrightarrow> win_end w a \<le> win_first w d" "cnt < win_end w a"
  shows "dmx_ready buf (foldl (\<lambda>w b. recv run_cb a b w) w bs) (win_end w a) ds"
  unfolding dmx_ready_def
proof (intro ballI impI)
  let ?w1 = "foldl (\<lambda>w b. recv run_cb a b w) w bs"
  fix d assume d: "d \<in> set ds" "win_end w a < win_end ?w1 d"
  then have "dw_dev ?w1 d = dw_dev w d"
    using assms(2) by (intro recvs_other) auto
  moreover have "cnt < win_end w d"
    using assms(3) [OF d(1)] assms(4) by (smt (verit) uint_ge_0)
  ultimately show "buf d \<noteq> 0 \<and> dd_data (dw_dev ?w1 d) = buf d \<and>
      dd_next_data (dw_dev ?w1 d) = buf d + max 0 (win_end w a - win_first ?w1 d)"
    using assms(1,4) d(1) assms(3) [OF d(1)] by (auto simp: dmx_ready_def max_def)
qed

lemma dmx_walk_bytes:
  "dmx_ready buf w cnt ds \<Longrightarrow> dmx_windows w ds \<Longrightarrow> distinct ds \<Longrightarrow>
   dmx_walk run_cb ds cnt raw w = dmx_bytes run_cb ds cnt raw w"
proof (induction ds arbitrary: cnt raw w)
  case Nil
  then show ?case
    using dmx_bytes_before [of "[]" cnt raw w run_cb] by simp
next
  case (Cons a ds)
  have ready: "dmx_ready buf w cnt ds" and win: "dmx_windows w ds" and dist: "distinct ds" "a \<notin> set ds"
    and later: "\<And>d. d \<in> set ds \<Longrightarrow> win_end w a \<le> win_first w d" and "dd_slots (dw_dev w a) \<noteq> 0"
    using Cons.prems by (auto simp: dmx_ready_def dmx_windows_def)
  then have slots: "0 < uint (dd_slots (dw_dev w a))"
    by (metis order_le_less uint_0_iff uint_ge_0)
  consider "raw = []" | "raw \<noteq> []" "win_end w a \<le> cnt"
    | "raw \<noteq> []" "cnt < win_end w a" "int (length raw) < win_first w a - cnt"
    | "raw \<noteq> []" "cnt < win_end w a" "win_first w a - cnt \<le> int (length raw)"
    by linarith
  then show ?case
  proof cases
    case 2
    then show ?thesis
      using Cons.IH [OF ready win dist(1)] by (simp add: dmx_bytes_past)
  next
    case 3
    have "dmx_bytes run_cb (a # ds) cnt raw w = w"
    proof (rule dmx_bytes_before)
      fix d assume "d \<in> set (a # ds)"
      then show "cnt + int (length raw) \<le> win_first w d"
        using 3 later [of d] slots by auto
    qed
    then show ?thesis
      using 3 by simp
  next
    case 4
    define s where "s = nat (win_first w a - cnt)"
    define c where "c = cnt + int s"
    define r where "r = nat (win_end w a - c)"
    define raw1 where "raw1 = drop s raw"
    define w1 where "w1 = foldl (\<lambda>w b. recv run_cb a b w) w (take r raw1)"
    have s: "s \<le> length raw" "win_first w a \<le> c" "c < win_end w a" "c = max cnt (win_first w a)"
      using 4 slots by (auto simp: s_def c_def)
    have dev: "dd_data (dw_dev w a) \<noteq> 0" "dd_next_data (dw_dev w a) = dd_data (dw_dev w a) + (c - win_first w a)"
      using Cons.prems(1) 4(2) s(4) by (auto simp: dmx_ready_def max_def)
    have room: "r = nat (dd_data (dw_dev w a) + uint (dd_slots (dw_dev w a)) - dd_next_data (dw_dev w a))" "0 < r"
      using dev(2) s(3) by (simp_all add: r_def)
    have add: "add_to_device run_cb a raw1 w = (min r (length raw1), w1)"
      unfolding w1_def by (rule add_to_device_recv [OF dev(1) room])
    have geo: "same_geometry w w1"
      unfolding w1_def by (rule recvs_geometry)
    have bytes: "dmx_bytes run_cb (a # ds) cnt raw w =
        dmx_bytes run_cb (a # ds) (c + int (min r (length raw1))) (drop r raw1) w1"
      using dmx_bytes_window [OF later _ 4(2) s_def s(1), where n = r] slots by (simp add: c_def r_def raw1_def w1_def)
    have walk: "dmx_walk run_cb (a # ds) cnt raw w =
        dmx_walk run_cb ds (c + int (min r (length raw1))) (drop (min r (length raw1)) raw1) w1"
      using 4 add by (simp add: Let_def s_def [symmetric] c_def raw1_def ac_simps)
    show ?thesis
    proof (cases "length raw1 \<le> r")
      case True
      then have "drop (min r (length raw1)) raw1 = []" "drop r raw1 = []"
        by simp_all
      then show ?thesis
        unfolding bytes walk by (cases ds) simp_all
    next
      case False
      then have mr: "min r (length raw1) = r"
        by simp
      have cr: "c + int r = win_end w a"
        using s(3) by (simp add: r_def)
      have "dmx_ready buf w1 (c + int r) ds"
        unfolding w1_def cr by (rule dmx_ready_behind [OF ready dist(2) later 4(2)])
      then have "dmx_walk run_cb ds (c + int r) (drop r raw1) w1 = dmx_bytes run_cb ds (c + int r) (drop r raw1) w1"
        using Cons.IH win geometry_windows [OF geo] dist(1) by blast
      moreover have "win_end w1 a \<le> c + int r"
        using cr geometry_win [OF geo, of a] by simp
      ultimately show ?thesis
        unfolding bytes walk mr by (simp add: dmx_bytes_past)
    qed
  qed simp
qed

text \<open>The code's walk along the linked list, with its 16 bit counter, is that walk.\<close>

fun dmx_chain :: "(nat \<Rightarrow> DmxDevice_t) \<Rightarrow> nat option \<Rightarrow> nat list \<Rightarrow> bool" where
  "dmx_chain dev p [] \<longleftrightarrow> p = None"
| "dmx_chain dev p (a # ds) \<longleftrightarrow> p = Some a \<and> dmx_chain dev (dd_next_dev (dev a)) ds"

lemma geometry_chain: "same_geometry w w1 \<Longrightarrow> dmx_chain (dw_dev w1) p ds = dmx_chain (dw_dev w) p ds"
  by (induction ds arbitrary: p) (simp_all add: same_geometry_def)

lemma slot_cnt_int: "0 \<le> cnt \<Longrightarrow> cnt < 2 ^ 15 \<Longrightarrow> sint (word_of_int cnt :: i16) = cnt"
  by (simp add: signed_of_int signed_take_bit_int_eq_self)

lemma add_to_device_used: "fst (add_to_device run_cb a raw w) \<le> length raw"
  by (simp add: add_to_device_def Let_def split: prod.splits)

lemma q_get_frame:
  fixes w :: "('cb, 'z) dmx_world_scheme"
  shows "dw_dev (snd (snd (q_get k w))) = dw_dev w"
  by (simp add: q_get_def split: prod.splits option.splits list.splits)

lemma Ipt_Dequeue_frame:
  fixes w :: "('cb, 'z) dmx_world_scheme"
  shows "dw_dev (snd (snd (Ipt_DequeueInIsr k w))) = dw_dev w"
  by (simp add: Ipt_DequeueInIsr_def q_get_frame split: option.splits)

lemma add_loop_geometry: "same_geometry w (snd (add_loop a e raw w))"
proof -
  have "same_geometry w (foldl (\<lambda>w b. put_byte a b w) w bs)" for bs
    by (simp add: same_geometry_def put_bytes_dev)
  then show ?thesis
    by (simp add: add_loop_put Let_def)
qed

lemma add_to_device_geometry: "same_geometry w (snd (add_to_device run_cb a raw w))"
proof -
  let ?deq = "Ipt_DequeueInIsr (dd_ipt (dw_dev w a)) w"
  define body where "body w1 = (let e = dd_data (dw_dev w1 a) + uint (dd_slots (dw_dev w1 a));
            (remaining, w2) = add_loop a e raw w1;
            w3 = (if dd_next_data (dw_dev w2 a) = e
                  then upd_dev a (\<lambda>d. d\<lparr>dd_data := 0\<rparr>)
                    (Ipt_ReturnToUserProcess run_cb (dd_ipt (dw_dev w2 a)) (dd_data (dw_dev w2 a)) w2)
                  else w2)
        in (length raw - length remaining, w3))" for w1 :: "('a, 'b) dmx_world_scheme"
  have body: "same_geometry w1 (snd (body w1))" for w1
    using add_loop_geometry [of w1 a "dd_data (dw_dev w1 a) + uint (dd_slots (dw_dev w1 a))" raw]
    by (auto simp: body_def Let_def same_geometry_def Ipt_ReturnToUserProcess_frame split: prod.splits)
  obtain st p w1 where deq: "?deq = (st, p, w1)"
    by (metis prod.exhaust)
  have "dw_dev w1 = dw_dev w"
    using Ipt_Dequeue_frame [of "dd_ipt (dw_dev w a)" w] by (simp add: deq)
  then have up: "same_geometry w (upd_dev a f w1)"
    if "\<And>d. dd_next_dev (f d) = dd_next_dev d \<and> dd_ipt (f d) = dd_ipt d \<and>
      dd_first_slot (f d) = dd_first_slot d \<and> dd_slots (f d) = dd_slots d" for f
    using that by (simp add: same_geometry_def)
  have "add_to_device run_cb a raw w =
      (if dd_data (dw_dev w a) \<noteq> 0 then body w
       else case (st, p) of (Status_OK, Some q) \<Rightarrow> body (upd_dev a (\<lambda>d. d\<lparr>dd_data := q, dd_next_data := q\<rparr>) w1)
         | _ \<Rightarrow> (0, upd_dev a (\<lambda>d. d\<lparr>dd_missed := dd_missed d + 1\<rparr>) w1))"
    unfolding add_to_device_def body_def deq by (simp split: Status_t.splits option.splits)
  then show ?thesis
    using body [of w] same_geometry_trans [OF up body] up
    by (simp split: Status_t.splits option.splits)
qed

lemma dev_loop_walk:
  "dmx_chain (dw_dev w) p ds \<Longrightarrow> 0 \<le> cnt \<Longrightarrow> cnt + int (length raw) < 2 ^ 15 \<Longrightarrow>
   \<exists>c rest. dev_loop run_cb (word_of_int cnt) raw p w = Some (c, rest, dmx_walk run_cb ds cnt raw w) \<and>
     c + of_nat (length rest) = word_of_int (cnt + int (length raw))"
proof (induction ds arbitrary: p cnt raw w)
  case Nil
  then show ?case
    by (subst dev_loop.simps) simp
next
  case (Cons a ds)
  have cnt: "sint (word_of_int cnt :: i16) = cnt"
    using Cons.prems by (intro slot_cnt_int) auto
  have p: "p = Some a" "dmx_chain (dw_dev w) (dd_next_dev (dw_dev w a)) ds"
    using Cons.prems(1) by simp_all
  consider "raw = []" | "raw \<noteq> []" "win_end w a \<le> cnt"
    | "raw \<noteq> []" "cnt < win_end w a" "int (length raw) < win_first w a - cnt"
    | "raw \<noteq> []" "cnt < win_end w a" "win_first w a - cnt \<le> int (length raw)"
    by linarith
  then show ?case
  proof cases
    case 1
    then show ?thesis
      using p(1) by (subst dev_loop.simps) simp
  next
    case 2
    then show ?thesis
      using Cons.IH [OF p(2) Cons.prems(2,3)] p(1) by (subst dev_loop.simps) (simp add: cnt Let_def)
  next
    case 3
    then show ?thesis
      using p(1) by (subst dev_loop.simps) (simp add: cnt Let_def)
  next
    case 4
    define s where "s = nat (win_first w a - cnt)"
    obtain used w1 where add: "add_to_device run_cb a (drop s raw) w = (used, w1)"
      by fastforce
    have used: "used \<le> length (drop s raw)" and geo: "same_geometry w w1"
      using add_to_device_used [of run_cb a "drop s raw" w] add_to_device_geometry [of w run_cb a "drop s raw"] add
      by simp_all
    have s: "s \<le> length raw"
      using 4(3) by (simp add: s_def)
    have chain: "dmx_chain (dw_dev w1) (dd_next_dev (dw_dev w1 a)) ds"
      using p(2) geometry_chain [OF geo] geo by (simp add: same_geometry_def)
    let ?cnt = "cnt + int s + int used" and ?raw = "drop (s + used) raw"
    have total: "?cnt + int (length ?raw) = cnt + int (length raw)" "0 \<le> ?cnt"
      using used s Cons.prems(2) by simp_all
    have "dev_loop run_cb (word_of_int cnt) raw p w =
        dev_loop run_cb (word_of_int ?cnt) ?raw (dd_next_dev (dw_dev w1 a)) w1"
      using p(1) 4 add by (subst dev_loop.simps) (auto simp: cnt Let_def s_def add.commute)
    moreover have "dmx_walk run_cb (a # ds) cnt raw w = dmx_walk run_cb ds ?cnt ?raw w1"
      using 4 add by (simp add: Let_def s_def)
    ultimately show ?thesis
      using Cons.IH [OF chain total(2), of ?raw] Cons.prems(3) total(1) by simp
  qed
qed

section \<open>A frame in blocks\<close>

lemma windows_slots: "dmx_windows w ds \<Longrightarrow> a \<in> set ds \<Longrightarrow> 0 < uint (dd_slots (dw_dev w a))"
  unfolding dmx_windows_def by (metis order_le_less uint_0_iff uint_ge_0)

lemma windows_apart:
  "dmx_windows w ds \<Longrightarrow> a \<in> set ds \<Longrightarrow> b \<in> set ds \<Longrightarrow> a \<noteq> b \<Longrightarrow>
   win_end w a \<le> win_first w b \<or> win_end w b \<le> win_first w a"
  unfolding dmx_windows_def by (induction ds) auto

text \<open>The one device a slot belongs to.\<close>

lemma dmx_byte_cases:
  assumes "dmx_windows w ds"
  obtains (nobody) "dmx_byte run_cb ds cnt b w = w" "\<And>d. d \<in> set ds \<Longrightarrow> cnt < win_first w d \<or> win_end w d \<le> cnt"
  | (device) a where "a \<in> set ds" "win_first w a \<le> cnt" "cnt < win_end w a" "dmx_byte run_cb ds cnt b w = recv run_cb a b w"
      "\<And>d. d \<in> set ds \<Longrightarrow> d \<noteq> a \<Longrightarrow> cnt < win_first w d \<or> win_end w d \<le> cnt"
proof (cases "find (\<lambda>a. win_first w a \<le> cnt \<and> cnt < win_end w a) ds")
  case None
  then have "\<not> (win_first w d \<le> cnt \<and> cnt < win_end w d)" if "d \<in> set ds" for d
    using that by (auto simp: find_None_iff)
  then have "cnt < win_first w d \<or> win_end w d \<le> cnt" if "d \<in> set ds" for d
    using that by (meson not_le)
  with None show ?thesis
    by (intro nobody) (simp_all add: dmx_byte_def)
next
  case (Some a)
  then have a: "a \<in> set ds" "win_first w a \<le> cnt" "cnt < win_end w a"
    by (auto simp: find_Some_iff)
  have "cnt < win_first w d \<or> win_end w d \<le> cnt" if "d \<in> set ds" "d \<noteq> a" for d
    using windows_apart [OF assms a(1) that(1)] that(2) a(2,3) by linarith
  with a Some show ?thesis
    by (intro device [of a]) (simp_all add: dmx_byte_def)
qed

lemma dmx_byte_ready:
  assumes "dmx_ready buf w cnt ds" "dmx_windows w ds"
  shows "dmx_ready buf (dmx_byte run_cb ds cnt b w) (cnt + 1) ds"
  using assms(2)
proof (cases rule: dmx_byte_cases [where run_cb = run_cb and cnt = cnt and b = b])
  case nobody
  show ?thesis
    unfolding nobody(1) dmx_ready_def
  proof (intro ballI impI)
    fix d assume d: "d \<in> set ds" "cnt + 1 < win_end w d"
    then show "buf d \<noteq> 0 \<and> dd_data (dw_dev w d) = buf d \<and>
        dd_next_data (dw_dev w d) = buf d + max 0 (cnt + 1 - win_first w d)"
      using assms(1) nobody(2) [OF d(1)] by (auto simp: dmx_ready_def max_def)
  qed
next
  case (device a)
  show ?thesis
    unfolding device(4) dmx_ready_def
  proof (intro ballI impI)
    fix d assume d: "d \<in> set ds" "cnt + 1 < win_end (recv run_cb a b w) d"
    then have "cnt < win_end w d"
      using geometry_win [OF recv_geometry [of w run_cb a b], of d] by simp
    then have "buf d \<noteq> 0 \<and> dd_data (dw_dev w d) = buf d \<and>
        dd_next_data (dw_dev w d) = buf d + max 0 (cnt - win_first w d)"
      using assms(1) d(1) by (simp add: dmx_ready_def)
    then show "buf d \<noteq> 0 \<and> dd_data (dw_dev (recv run_cb a b w) d) = buf d \<and>
        dd_next_data (dw_dev (recv run_cb a b w) d) = buf d + max 0 (cnt + 1 - win_first (recv run_cb a b w) d)"
      using d(2) device(2) device(5) [OF d(1)] \<open>cnt < win_end w d\<close> by (cases "d = a") (auto simp: recv_simps max_def)
  qed
qed

lemma dmx_bytes_ready:
  "dmx_ready buf w cnt ds \<Longrightarrow> dmx_windows w ds \<Longrightarrow>
   dmx_ready buf (dmx_bytes run_cb ds cnt bs w) (cnt + int (length bs)) ds"
proof (induction bs arbitrary: cnt w)
  case (Cons b bs)
  have "dmx_windows (dmx_byte run_cb ds cnt b w) ds"
    using Cons.prems(2) geometry_windows [OF dmx_byte_geometry] by blast
  from Cons.IH [OF dmx_byte_ready [OF Cons.prems] this] show ?case
    by (simp add: add.assoc)
qed simp

text \<open>Buffers that do not overlap keep what has been received.\<close>

definition bufs_apart :: "(nat \<Rightarrow> int) \<Rightarrow> ('cb, 'z) dmx_world_scheme \<Rightarrow> nat list \<Rightarrow> bool" where
  "bufs_apart buf w ds \<longleftrightarrow> (\<forall>a \<in> set ds. \<forall>b \<in> set ds. a \<noteq> b \<longrightarrow>
     buf a + uint (dd_slots (dw_dev w a)) \<le> buf b \<or> buf b + uint (dd_slots (dw_dev w b)) \<le> buf a)"

lemma geometry_apart: "same_geometry w w1 \<Longrightarrow> bufs_apart buf w1 ds = bufs_apart buf w ds"
  by (simp add: same_geometry_def bufs_apart_def)

lemma dmx_byte_write:
  assumes "dmx_ready buf w cnt ds" "dmx_windows w ds" "bufs_apart buf w ds"
    and a: "a \<in> set ds" "win_first w a \<le> p" "p < win_end w a"
  shows "dw_byte (dmx_byte run_cb ds cnt b w) (buf a + (p - win_first w a)) =
    (if p = cnt then b else dw_byte w (buf a + (p - win_first w a)))"
  using assms(2)
proof (cases rule: dmx_byte_cases [where run_cb = run_cb and cnt = cnt and b = b])
  case nobody
  then show ?thesis
    using a by fastforce
next
  case (device d)
  have nxt: "dd_next_data (dw_dev w d) = buf d + (cnt - win_first w d)"
    using assms(1) device(1-3) by (auto simp: dmx_ready_def)
  show ?thesis
  proof (cases "d = a")
    case True
    then show ?thesis
      using device(4) nxt by (simp add: recv_simps)
  next
    case False
    then have "p \<noteq> cnt"
      using device(5) [OF a(1)] a by auto
    moreover have "buf d + (cnt - win_first w d) \<noteq> buf a + (p - win_first w a)"
      using assms(3) a device(1-3) False unfolding bufs_apart_def by (smt (verit))
    ultimately show ?thesis
      using device(4) nxt by (simp add: recv_simps)
  qed
qed

lemma dmx_bytes_write:
  "dmx_ready buf w cnt ds \<Longrightarrow> dmx_windows w ds \<Longrightarrow> bufs_apart buf w ds \<Longrightarrow>
   a \<in> set ds \<Longrightarrow> win_first w a \<le> p \<Longrightarrow> p < win_end w a \<Longrightarrow>
   dw_byte (dmx_bytes run_cb ds cnt bs w) (buf a + (p - win_first w a)) =
     (if cnt \<le> p \<and> p < cnt + int (length bs) then bs ! nat (p - cnt)
      else dw_byte w (buf a + (p - win_first w a)))"
proof (induction bs arbitrary: cnt w)
  case (Cons b bs)
  let ?w1 = "dmx_byte run_cb ds cnt b w"
  note geo = dmx_byte_geometry [of w run_cb ds cnt b]
  have "dmx_ready buf ?w1 (cnt + 1) ds" "dmx_windows ?w1 ds" "bufs_apart buf ?w1 ds"
    "win_first ?w1 a \<le> p" "p < win_end ?w1 a" "win_first ?w1 a = win_first w a"
    using Cons.prems dmx_byte_ready geometry_windows [OF geo] geometry_apart [OF geo] geometry_win [OF geo, of a]
    by simp_all
  then have "dw_byte (dmx_bytes run_cb ds cnt (b # bs) w) (buf a + (p - win_first w a)) =
     (if cnt + 1 \<le> p \<and> p < cnt + 1 + int (length bs) then bs ! nat (p - (cnt + 1))
      else dw_byte ?w1 (buf a + (p - win_first w a)))"
    using Cons.IH [of ?w1 "cnt + 1"] Cons.prems(4) by simp
  moreover have "nat (p - cnt) = Suc (nat (p - (cnt + 1)))" if "cnt + 1 \<le> p"
    using that by linarith
  ultimately show ?case
    using dmx_byte_write [OF Cons.prems, of run_cb b] by auto
qed auto

text \<open>A device whose window has been received has given its buffer to the user.\<close>

lemma dmx_bytes_done:
  "dmx_ready buf w cnt ds \<Longrightarrow> dmx_windows w ds \<Longrightarrow> a \<in> set ds \<Longrightarrow>
   (if cnt < win_end w a then win_end w a \<le> cnt + int (length bs) else dd_data (dw_dev w a) = 0) \<Longrightarrow>
   dd_data (dw_dev (dmx_bytes run_cb ds cnt bs w) a) = 0"
proof (induction bs arbitrary: cnt w)
  case (Cons b bs)
  let ?w1 = "dmx_byte run_cb ds cnt b w"
  note geo = dmx_byte_geometry [of w run_cb ds cnt b]
  have "if cnt + 1 < win_end ?w1 a then win_end ?w1 a \<le> cnt + 1 + int (length bs) else dd_data (dw_dev ?w1 a) = 0"
    using Cons.prems(2)
  proof (cases rule: dmx_byte_cases [where run_cb = run_cb and cnt = cnt and b = b])
    case nobody
    then show ?thesis
      using Cons.prems(4) nobody(2) [OF Cons.prems(3)] windows_slots [OF Cons.prems(2,3)] by (auto split: if_splits)
  next
    case (device d)
    have "dd_data (dw_dev w d) = buf d" "dd_next_data (dw_dev w d) = buf d + (cnt - win_first w d)"
      using Cons.prems(1) device(1-3) by (auto simp: dmx_ready_def)
    then have "dd_data (dw_dev ?w1 d) = 0" if "cnt + 1 = win_end w d"
      using that device(4) by (simp add: recv_simps)
    moreover have "dd_data (dw_dev ?w1 a) = dd_data (dw_dev w a)" if "a \<noteq> d"
      using that device(4) by (simp add: recv_simps)
    ultimately show ?thesis
      using Cons.prems(4) device(2,3) device(5) [OF Cons.prems(3)] geometry_win [OF geo, of a]
        windows_slots [OF Cons.prems(2,3)]
      by (cases "a = d") (auto split: if_splits)
  qed
  then show ?case
    using Cons.IH [OF dmx_byte_ready [OF Cons.prems(1,2)] _ Cons.prems(3)] Cons.prems(2) geometry_windows [OF geo]
    by simp
qed (auto split: if_splits)

lemma DMX_use_raw_data_on_line:
  assumes "dmx_chain (dw_dev w) (rx_first_device self) ds" "dmx_windows w ds" "distinct ds"
    "dmx_ready buf w cnt ds" "1 \<le> cnt" "cnt + int (length raw) < 2 ^ 15"
    "rx_slot_cnt self = word_of_int cnt" "raw \<noteq> []"
  shows "DMX_use_raw_data run_cb self raw w =
    Some (self\<lparr>rx_slot_cnt := word_of_int (cnt + int (length raw))\<rparr>, dmx_bytes run_cb ds cnt raw w)"
proof -
  have "sint (word_of_int cnt :: i16) = cnt"
    using assms(5,6) by (intro slot_cnt_int) auto
  then have cnt: "0 \<le> sint (rx_slot_cnt self)" "rx_slot_cnt self \<noteq> 0"
    using assms(5,7) by auto
  obtain b bs where raw: "raw = b # bs"
    using assms(8) by (cases raw) auto
  have "DMX_use_raw_data run_cb self raw w =
      map_option (\<lambda>(cnt1, rest, w1). (self\<lparr>rx_slot_cnt := cnt1 + of_nat (length rest)\<rparr>, w1))
        (dev_loop run_cb (rx_slot_cnt self) raw (rx_first_device self) w)"
    using cnt by (simp add: DMX_use_raw_data_def raw Let_def)
  then show ?thesis
    using dev_loop_walk [OF assms(1) _ assms(6), of run_cb] assms(5,7) dmx_walk_bytes [OF assms(4,2,3), of run_cb raw]
    by auto
qed

lemma DMX_use_raw_data_start:
  assumes "dmx_chain (dw_dev w) (rx_first_device self) ds" "dmx_windows w ds" "distinct ds"
    "dmx_ready buf w 1 ds" "1 + int (length raw) < 2 ^ 15" "rx_slot_cnt self = 0"
  shows "DMX_use_raw_data run_cb self (rx_slot0 self # raw) w =
    Some (self\<lparr>rx_slot_cnt := word_of_int (1 + int (length raw))\<rparr>, dmx_bytes run_cb ds 1 raw w)"
  using dev_loop_walk [OF assms(1) _ assms(5), of run_cb] assms(6) dmx_walk_bytes [OF assms(4,2,3), of run_cb raw]
  by (auto simp: DMX_use_raw_data_def Let_def)

primrec dmx_feed ::
    "('cb, 'z dmx_world_ext) callbacks \<Rightarrow> DmxReceiver_t \<Rightarrow> u8 list list \<Rightarrow> ('cb, 'z) dmx_world_scheme \<Rightarrow>
     (DmxReceiver_t \<times> ('cb, 'z) dmx_world_scheme) option" where
  "dmx_feed run_cb self [] w = Some (self, w)"
| "dmx_feed run_cb self (raw # raws) w =
     Option.bind (DMX_use_raw_data run_cb self raw w) (\<lambda>(self1, w1). dmx_feed run_cb self1 raws w1)"

lemma dmx_feed_on_line:
  "dmx_chain (dw_dev w) (rx_first_device self) ds \<Longrightarrow> dmx_windows w ds \<Longrightarrow> distinct ds \<Longrightarrow>
   dmx_ready buf w cnt ds \<Longrightarrow> 1 \<le> cnt \<Longrightarrow> cnt + int (length (concat raws)) < 2 ^ 15 \<Longrightarrow>
   rx_slot_cnt self = word_of_int cnt \<Longrightarrow> [] \<notin> set raws \<Longrightarrow>
   dmx_feed run_cb self raws w =
     Some (self\<lparr>rx_slot_cnt := word_of_int (cnt + int (length (concat raws)))\<rparr>,
       dmx_bytes run_cb ds cnt (concat raws) w)"
proof (induction raws arbitrary: self cnt w)
  case (Cons raw raws)
  let ?w1 = "dmx_bytes run_cb ds cnt raw w" and ?cnt = "cnt + int (length raw)"
  note geo = dmx_bytes_geometry [of w run_cb ds cnt raw]
  have "DMX_use_raw_data run_cb self raw w = Some (self\<lparr>rx_slot_cnt := word_of_int ?cnt\<rparr>, ?w1)"
    using Cons.prems by (intro DMX_use_raw_data_on_line) auto
  moreover have "dmx_feed run_cb (self\<lparr>rx_slot_cnt := word_of_int ?cnt\<rparr>) raws ?w1 =
      Some (self\<lparr>rx_slot_cnt := word_of_int (?cnt + int (length (concat raws)))\<rparr>,
        dmx_bytes run_cb ds ?cnt (concat raws) ?w1)"
    using Cons.IH [of ?w1 "self\<lparr>rx_slot_cnt := word_of_int ?cnt\<rparr>" ?cnt] Cons.prems
      geometry_chain [OF geo] geometry_windows [OF geo] dmx_bytes_ready [OF Cons.prems(4,2)] by simp
  ultimately show ?case
    by (simp add: dmx_bytes_append add.assoc)
qed simp

lemma dmx_feed_frame:
  assumes "dmx_chain (dw_dev w) (rx_first_device self) ds" "dmx_windows w ds" "distinct ds"
    "dmx_ready buf w 1 ds" "1 + int (length frame) < 2 ^ 15" "rx_slot_cnt self = 0"
    "concat raws = rx_slot0 self # frame" "[] \<notin> set raws"
  shows "dmx_feed run_cb self raws w =
    Some (self\<lparr>rx_slot_cnt := word_of_int (1 + int (length frame))\<rparr>, dmx_bytes run_cb ds 1 frame w)"
proof (cases raws)
  case (Cons raw rest)
  then obtain first where raw: "raw = rx_slot0 self # first" "frame = first @ concat rest" "[] \<notin> set rest"
    using assms(7,8) by (cases raw) auto
  let ?w1 = "dmx_bytes run_cb ds 1 first w" and ?self = "self\<lparr>rx_slot_cnt := word_of_int (1 + int (length first))\<rparr>"
  note geo = dmx_bytes_geometry [of w run_cb ds 1 first]
  have "DMX_use_raw_data run_cb self raw w = Some (?self, ?w1)"
    unfolding raw(1) using assms raw(2) by (intro DMX_use_raw_data_start) auto
  moreover have "dmx_feed run_cb ?self rest ?w1 =
      Some (?self\<lparr>rx_slot_cnt := word_of_int (1 + int (length first) + int (length (concat rest)))\<rparr>,
        dmx_bytes run_cb ds (1 + int (length first)) (concat rest) ?w1)"
    using assms raw dmx_bytes_ready [OF assms(4,2), of run_cb first] geometry_chain [OF geo] geometry_windows [OF geo]
    by (intro dmx_feed_on_line) auto
  ultimately show ?thesis
    by (simp add: Cons raw(2) dmx_bytes_append add.assoc)
qed (use assms(7) in simp)

section \<open>Values of the bytes\<close>

text \<open>Which bytes arrive makes no difference to anything but the bytes of the buffers.\<close>

lemma q_put_bytes:
  fixes w :: "('cb, 'z) dmx_world_scheme"
  shows "q_put k p (w\<lparr>dw_byte := c\<rparr>) = (fst (q_put k p w), (snd (q_put k p w))\<lparr>dw_byte := c\<rparr>)"
  by (simp add: q_put_def split: prod.splits option.splits)

lemma pool_bytes:
  fixes w :: "('cb, 'z) dmx_world_scheme"
  shows "getPoolId (w\<lparr>dw_byte := c\<rparr>) = getPoolId w" "upd_pre p f (w\<lparr>dw_byte := c\<rparr>) = (upd_pre p f w)\<lparr>dw_byte := c\<rparr>"
    "set_next s q (w\<lparr>dw_byte := c\<rparr>) = (set_next s q w)\<lparr>dw_byte := c\<rparr>"
  by (simp_all add: getPoolId_def upd_pre_def set_next_def fun_eq_iff Let_def)

lemma ReturnPoolObject_bytes:
  fixes w :: "('cb, 'z) dmx_world_scheme"
  shows "ReturnPoolObject run_cb obj (w\<lparr>dw_byte := c\<rparr>) = (ReturnPoolObject run_cb obj w)\<lparr>dw_byte := c\<rparr>"
proof -
  let ?quiet = "\<lambda>_ _ w. (Status_OK, w) :: Status_t \<times> ('cb, 'z) dmx_world_scheme"
  have ret: "snd (GenPool_return ?quiet obj (w\<lparr>dw_byte := c\<rparr>)) = (snd (GenPool_return ?quiet obj w))\<lparr>dw_byte := c\<rparr>"
    for w :: "('cb, 'z) dmx_world_scheme"
    by (simp add: GenPool_return_def Let_def pool_bytes split: option.splits)
  have ext: "snd (GenPool_extract_callback obj (w\<lparr>dw_byte := c\<rparr>)) = (snd (GenPool_extract_callback obj w))\<lparr>dw_byte := c\<rparr>"
    for w :: "('cb, 'z) dmx_world_scheme"
    by (simp add: GenPool_extract_callback_def Let_def pool_bytes)
  have upd: "(w\<lparr>dw_byte := c\<rparr>)\<lparr>isrReqQ_dropped_objects := n\<rparr> = (w\<lparr>isrReqQ_dropped_objects := n\<rparr>)\<lparr>dw_byte := c\<rparr>"
    for w :: "('cb, 'z) dmx_world_scheme" and n
    by simp
  show ?thesis
    unfolding ReturnPoolObject_run_cb [of run_cb _ _ ?quiet]
    by (simp add: ReturnPoolObject_def q_put_bytes Let_def upd ext ret split: prod.splits)
qed

lemma Ipt_ReturnToUserProcess_bytes:
  fixes w :: "('cb, 'z) dmx_world_scheme"
  shows "Ipt_ReturnToUserProcess run_cb i obj (w\<lparr>dw_byte := c\<rparr>) = (Ipt_ReturnToUserProcess run_cb i obj w)\<lparr>dw_byte := c\<rparr>"
proof -
  have upd: "(w\<lparr>dw_byte := c\<rparr>)\<lparr>iw_ipt := n\<rparr> = (w\<lparr>iw_ipt := n\<rparr>)\<lparr>dw_byte := c\<rparr>"
    for w :: "('cb, 'z) dmx_world_scheme" and n
    by simp
  show ?thesis
    by (simp add: Ipt_ReturnToUserProcess_def returnPoolObjectToProcess_def q_put_bytes ReturnPoolObject_bytes Let_def upd
        split: option.splits prod.splits)
qed

lemma recv_bytes: "(recv run_cb a x w)\<lparr>dw_byte := b\<rparr> = recv run_cb a y (w\<lparr>dw_byte := c\<rparr>)\<lparr>dw_byte := b\<rparr>"
proof -
  have put: "put_byte a x w = (put_byte a y (w\<lparr>dw_byte := c\<rparr>))\<lparr>dw_byte := (dw_byte w)(dd_next_data (dw_dev w a) := x)\<rparr>"
    by (simp add: put_byte_def upd_dev_def)
  have give: "give_back run_cb a (w\<lparr>dw_byte := d\<rparr>) = (give_back run_cb a w)\<lparr>dw_byte := d\<rparr>" for d w
    by (simp add: give_back_def Ipt_ReturnToUserProcess_bytes upd_dev_def)
  show ?thesis
    unfolding recv_def Let_def put give by simp
qed

lemma dmx_bytes_values:
  "length xs = length ys \<Longrightarrow>
   (dmx_bytes run_cb ds cnt xs w)\<lparr>dw_byte := b\<rparr> = (dmx_bytes run_cb ds cnt ys (w\<lparr>dw_byte := c\<rparr>))\<lparr>dw_byte := b\<rparr>"
proof (induction xs arbitrary: ys cnt w c)
  case (Cons x xs)
  then obtain y ys1 where ys: "ys = y # ys1" "length xs = length ys1"
    by (cases ys) auto
  have "dmx_byte run_cb ds cnt y (w\<lparr>dw_byte := c\<rparr>) =
      (dmx_byte run_cb ds cnt x w)\<lparr>dw_byte := dw_byte (dmx_byte run_cb ds cnt y (w\<lparr>dw_byte := c\<rparr>))\<rparr>"
    using recv_bytes [where run_cb = run_cb and x = x and w = w and y = y and c = c]
    by (simp add: dmx_byte_def split: option.splits)
  then show ?case
    using Cons.IH [OF ys(2)] unfolding ys(1) by (metis dmx_bytes.simps(2))
qed simp
lemma dmx_bytes_past_all:
  "(\<And>a. a \<in> set ds \<Longrightarrow> win_end w a \<le> cnt) \<Longrightarrow> dmx_bytes run_cb ds cnt bs w = w"
proof (induction ds)
  case Nil
  show ?case
    by (rule dmx_bytes_before) simp
qed (simp add: dmx_bytes_past)

section \<open>Properties\<close>

text \<open> C37. How the stream is cut into blocks does not matter: on a list of devices with disjoint ascending
  windows, all holding a buffer, any sequence of non-empty blocks that make up a frame with the
  receiver's start code has exactly the effect of receiving the slots one at a time, each by the
  device whose window it falls into. The walk over the devices ends every time. \<close>

theorem DMX_blocks_irrelevant:
  assumes "dmx_chain (dw_dev w) (rx_first_device self) ds" "dmx_windows w ds" "distinct ds"
    and "dmx_ready buf w 1 ds" "rx_slot_cnt self = 0" "1 + int (length frame) < 2 ^ 15"
    and "concat raws = rx_slot0 self # frame" "[] \<notin> set raws"
  shows "dmx_feed run_cb self raws w =
    Some (self\<lparr>rx_slot_cnt := word_of_int (1 + int (length frame))\<rparr>, dmx_bytes run_cb ds 1 frame w)"
  using dmx_feed_frame [OF assms(1-4,6,5,7,8)] .


text \<open>Two devices with adjacent windows, and a frame of six slots cut into three blocks.\<close>

definition demo_devs :: "nat \<Rightarrow> DmxDevice_t" where
  "demo_devs a = (if a = 0
     then \<lparr>dd_next_dev = Some 1, dd_ipt = 0, dd_data = 100, dd_next_data = 100, dd_missed = 0,
            dd_first_slot = 1, dd_slots = 3\<rparr>
     else \<lparr>dd_next_dev = None, dd_ipt = 1, dd_data = 200, dd_next_data = 200, dd_missed = 0,
            dd_first_slot = 4, dd_slots = 2\<rparr>)"

definition demo_rx :: DmxReceiver_t where
  "demo_rx = \<lparr>rx_first_device = Some 0, rx_slot_cnt = 0, rx_slot0 = 0\<rparr>"

definition demo_buf :: "nat \<Rightarrow> int" where
  "demo_buf a = (if a = 0 then 100 else 200)"

lemma demo_devs_ok:
  fixes w :: "nat dmx_world"
  defines "w1 \<equiv> w\<lparr>dw_dev := demo_devs\<rparr>"
  shows "dmx_chain (dw_dev w1) (rx_first_device demo_rx) [0, 1]" "dmx_windows w1 [0, 1]" "distinct [0 :: nat, 1]"
    "dmx_ready demo_buf w1 1 [0, 1]" "rx_slot_cnt demo_rx = 0"
    "concat [[0, 5], [6, 7, 8], [9]] = rx_slot0 demo_rx # [5, 6, 7, 8, 9 :: u8]"
    "[] \<notin> set [[0, 5], [6, 7, 8], [9 :: u8]]" "1 + int (length [5, 6, 7, 8, 9 :: u8]) < 2 ^ 15"
    "bufs_apart demo_buf w1 [0, 1]"
  by (simp_all add: w1_def demo_devs_def demo_rx_def demo_buf_def dmx_windows_def dmx_ready_def bufs_apart_def)

theorem DMX_blocks_irrelevant_witness:
  "\<forall>w :: nat dmx_world. dmx_feed (\<lambda>_ _ w. (Status_OK, w)) demo_rx [[0, 5], [6, 7, 8], [9]] (w\<lparr>dw_dev := demo_devs\<rparr>) =
    Some (demo_rx\<lparr>rx_slot_cnt := 6\<rparr>,
      dmx_bytes (\<lambda>_ _ w. (Status_OK, w)) [0, 1] 1 [5, 6, 7, 8, 9] (w\<lparr>dw_dev := demo_devs\<rparr>))"
proof
  fix w :: "nat dmx_world"
  show "dmx_feed (\<lambda>_ _ w. (Status_OK, w)) demo_rx [[0, 5], [6, 7, 8], [9]] (w\<lparr>dw_dev := demo_devs\<rparr>) =
    Some (demo_rx\<lparr>rx_slot_cnt := 6\<rparr>,
      dmx_bytes (\<lambda>_ _ w. (Status_OK, w)) [0, 1] 1 [5, 6, 7, 8, 9] (w\<lparr>dw_dev := demo_devs\<rparr>))"
    using DMX_blocks_irrelevant [OF demo_devs_ok(1-5,8,6,7), of "\<lambda>_ _ w. (Status_OK, w)" w] by simp
qed


end
