(* ===== verification/DmxDemo.thy ===== *)
theory DmxDemo
  imports MicroPSim Rs485Dmx
begin

text \<open>
  The DMX demonstration of \<^verbatim>\<open>src/src/dmx_demo.c\<close> and \<^verbatim>\<open>dmx_demo.h\<close>: the user model of the simulated
  controller (\<open>MicroPSim\<close>), whose interrupt handlers feed the receiver (\<open>Rs485Dmx\<close>) and whose main
  loop takes the devices' buffers from their process targets (\<open>IsrComm\<close>). The model extends the
  simulation's base record; the receiver's world is one of its fields. The static variables of the
  stimulus are fields, the C clock is a sequence of readings, and what is printed is collected in
  \<open>dd_out\<close> as device number, bytes and time. The pools have no release callback.
\<close>

section \<open>State\<close>

datatype dd_isr = ms_isr | dmx1_isr_b_warpper | dmx1_isr_s_warpper

datatype dd_fun = F_setup | F_main | F_diag | F_isr_stimulus

record DdModel_t = "(dd_isr, dd_fun) ModelBase_t" +
  dd_ms_tick :: u32
  dd_frame :: u16
  dmx512_receiver :: DmxReceiver_t
  dd_world :: "unit dmx_world"
  dmx_sim_buffer :: "u8 list"
  dmx_sim_len :: nat
  sim_slot :: int
  sim_shift :: int
  dd_last :: int
  dd_dmx_last :: int
  dd_clock :: "nat \<Rightarrow> int"
  dd_clock_reads :: nat
  dd_out :: "(nat \<times> u8 list \<times> u32) list"
  dd_isrQ :: "u8 GenQ_t"

abbreviation TOTAL_ISRs :: u8 where "TOTAL_ISRs \<equiv> 6"
abbreviation DMX_BREAK :: nat where "DMX_BREAK \<equiv> 1"
abbreviation DMX_SERIAL :: nat where "DMX_SERIAL \<equiv> 2"
abbreviation MS_ISR :: nat where "MS_ISR \<equiv> 5"

text \<open>The devices and their targets, by number; the objects of target \<open>d\<close> take \<open>dev_slots d\<close> bytes.\<close>

abbreviation dev1_ipt :: nat where "dev1_ipt \<equiv> 1"
abbreviation dev2_ipt :: nat where "dev2_ipt \<equiv> 2"

definition dev_slots :: "nat \<Rightarrow> nat" where
  "dev_slots d = (if d = 1 then 4 else 7)"

definition dev_first :: "nat \<Rightarrow> nat" where
  "dev_first d = (if d = 1 then 10 else 124)"

definition no_cb :: "(unit, 'z) callbacks" where
  "no_cb _ _ w = (Status_OK, w)"

section \<open>The queue \<open>isrQ_\<close>\<close>

text \<open>Its generated wrappers; the demonstration calls none of them. \<open>isrQ_Get\<close> has no return statement, so only its effect and
  the object are modelled.\<close>

definition isrQ_Reset :: "'z DdModel_t_scheme \<Rightarrow> 'z DdModel_t_scheme" where
  "isrQ_Reset m = m\<lparr>dd_isrQ := GenQ_Reset (dd_isrQ m)\<rparr>"

definition isrQ_Put :: "u8 \<Rightarrow> 'z DdModel_t_scheme \<Rightarrow> Status_t \<times> 'z DdModel_t_scheme" where
  "isrQ_Put obj m = (let (r, q) = GenQ_Put (Some (dd_isrQ m)) [obj] in (r, m\<lparr>dd_isrQ := the q\<rparr>))"

definition isrQ_Get :: "'z DdModel_t_scheme \<Rightarrow> u8 list option \<times> 'z DdModel_t_scheme" where
  "isrQ_Get m = (let (r, obj, q) = GenQ_Get (Some (dd_isrQ m)) in (obj, m\<lparr>dd_isrQ := the q\<rparr>))"

definition isrQ_HasData :: "'z DdModel_t_scheme \<Rightarrow> bool" where
  "isrQ_HasData m = GenQ_HasData (Some (dd_isrQ m))"

definition isrQ_HasSpace :: "'z DdModel_t_scheme \<Rightarrow> bool" where
  "isrQ_HasSpace m = GenQ_HasSpace (Some (dd_isrQ m))"

section \<open>Interrupt handlers (dmx_demo.c)\<close>

definition run_isr :: "(dd_isr, dd_fun, 'z DdModel_t_ext) handlers" where
  "run_isr h m =
     (case h of
        ms_isr \<Rightarrow> Some (m\<lparr>dd_ms_tick := dd_ms_tick m + 1\<rparr>)
      | dmx1_isr_b_warpper \<Rightarrow>
          map_option (\<lambda>(rx, w). m\<lparr>dmx512_receiver := rx, dd_world := w, dd_frame := dd_frame m + 1\<rparr>)
            (DMX_process_break (dmx512_receiver m) (dd_world m))
      | dmx1_isr_s_warpper \<Rightarrow>
          map_option (\<lambda>(rx, w). m\<lparr>dmx512_receiver := rx, dd_world := w\<rparr>)
            (DMX_use_raw_data no_cb (dmx512_receiver m) (take (dmx_sim_len m) (dmx_sim_buffer m)) (dd_world m)))"

section \<open>The user model (dmx_demo.c)\<close>

partial_function (option) send_all :: "nat \<Rightarrow> unit dmx_world \<Rightarrow> unit dmx_world option" where
  "send_all ipt w =
     (case Allocate_Object ipt w of
        None \<Rightarrow> None
      | Some (None, w1) \<Rightarrow> Some w1
      | Some (Some working_buffer, w1) \<Rightarrow> send_all ipt (snd (Ipt_SendToIsr ipt working_buffer w1)))"

declare send_all.simps [code]

definition DD_setup :: "'z DdModel_t_scheme \<Rightarrow> (bool \<times> 'z DdModel_t_scheme) option" where
  "DD_setup m =
     (let m1 = m\<lparr>isr_table := (isr_table m)(MS_ISR \<mapsto> ms_isr, DMX_BREAK \<mapsto> dmx1_isr_b_warpper,
                 DMX_SERIAL \<mapsto> dmx1_isr_s_warpper), dd_ms_tick := 0\<rparr> in
      case DMX_receiver_reset no_cb (dmx512_receiver m1) (dd_world m1) of
        None \<Rightarrow> None
      | Some (rx, w1) \<Rightarrow>
          (case send_all dev1_ipt w1 of
             None \<Rightarrow> None
           | Some w2 \<Rightarrow> map_option (\<lambda>w3. (True, m1\<lparr>dmx512_receiver := rx, dd_world := w3\<rparr>)) (send_all dev2_ipt w2)))"

text \<open>The two background functions differ in the device only.\<close>

definition Dev_background :: "nat \<Rightarrow> 'z DdModel_t_scheme \<Rightarrow> 'z DdModel_t_scheme option" where
  "Dev_background d m =
     (case Allocate_Object d (dd_world m) of
        None \<Rightarrow> None
      | Some (workspace, w1) \<Rightarrow>
          let w2 = (case workspace of Some p \<Rightarrow> snd (Ipt_SendToIsr d p w1) | None \<Rightarrow> w1) in
          (case Ipt_ReceiveFromIsr d w2 of
             (Status_OK, Some p, w3) \<Rightarrow>
               Some (m\<lparr>dd_out := dd_out m @ [(d, map (\<lambda>i. dw_byte w3 (p + int i)) [0..<dev_slots d], dd_ms_tick m)],
                       dd_world := snd (Ipt_SendToIsr d p w3)\<rparr>)
           | (_, _, w3) \<Rightarrow> Some (m\<lparr>dd_world := w3\<rparr>)))"

definition Dev1_background :: "'z DdModel_t_scheme \<Rightarrow> 'z DdModel_t_scheme option" where
  "Dev1_background m = Dev_background dev1_ipt m"

definition Dev2_background :: "'z DdModel_t_scheme \<Rightarrow> 'z DdModel_t_scheme option" where
  "Dev2_background m = Dev_background dev2_ipt m"

definition dd_read_clock :: "'z DdModel_t_scheme \<Rightarrow> int \<times> 'z DdModel_t_scheme" where
  "dd_read_clock m = (dd_clock m (dd_clock_reads m), m\<lparr>dd_clock_reads := dd_clock_reads m + 1\<rparr>)"

definition sim_fill :: "nat \<Rightarrow> 'z DdModel_t_scheme \<Rightarrow> 'z DdModel_t_scheme" where
  "sim_fill i m =
     m\<lparr>dmx_sim_buffer := (if sim_slot m = 0 then (dmx_sim_buffer m)[0 := 0]
                          else (dmx_sim_buffer m)[i := word_of_int (sim_slot m + sim_shift m)]),
       sim_slot := sim_slot m + 1\<rparr>"

definition sim_block :: "'z DdModel_t_scheme \<Rightarrow> 'z DdModel_t_scheme" where
  "sim_block m =
     (if sim_slot m < 0 then m\<lparr>isr_flags := (isr_flags m)(DMX_BREAK := 1), sim_slot := 0\<rparr>
      else
        let m1 = fold sim_fill [0..<14] m;
            m2 = m1\<lparr>dmx_sim_len := 14\<rparr>;
            m3 = (if sim_slot m2 > 500 then m2\<lparr>sim_slot := -1, sim_shift := (sim_shift m2 + 1) mod 5\<rparr> else m2)
        in m3\<lparr>isr_flags := (isr_flags m3)(DMX_SERIAL := 1)\<rparr>)"

definition DD_isr_stimulus :: "'z DdModel_t_scheme \<Rightarrow> 'z DdModel_t_scheme" where
  "DD_isr_stimulus m =
     (let (clk, m1) = dd_read_clock m;
          m2 = (if dd_last m1 \<noteq> 0 then
                  (if clk - dd_last m1 > 100
                   then m1\<lparr>dd_last := dd_last m1 + 100, isr_flags := (isr_flags m1)(MS_ISR := 1)\<rparr> else m1)
                else let (c, m2) = dd_read_clock m1 in m2\<lparr>dd_last := c\<rparr>)
      in if dd_dmx_last m2 \<noteq> 0 then
           (if clk - dd_dmx_last m2 > 45 then sim_block (m2\<lparr>dd_dmx_last := dd_dmx_last m2 + 45\<rparr>) else m2)
         else let (c, m3) = dd_read_clock m2 in m3\<lparr>dd_dmx_last := c\<rparr>)"

definition DD_main :: "'z DdModel_t_scheme \<Rightarrow> (bool \<times> 'z DdModel_t_scheme) option" where
  "DD_main m = (case Dev1_background m of None \<Rightarrow> None | Some m1 \<Rightarrow> map_option (Pair True) (Dev2_background m1))"

definition DD_diag :: "'z DdModel_t_scheme \<Rightarrow> (bool \<times> 'z DdModel_t_scheme) option" where
  "DD_diag m = Some (True, m)"

definition run_fun :: "(dd_isr, dd_fun, 'z DdModel_t_ext) model_funs" where
  "run_fun f m =
     (case f of
        F_setup \<Rightarrow> DD_setup m
      | F_main \<Rightarrow> DD_main m
      | F_diag \<Rightarrow> DD_diag m
      | F_isr_stimulus \<Rightarrow> Some (True, DD_isr_stimulus m))"

definition demo_init_dev :: "nat \<Rightarrow> nat option \<Rightarrow> unit dmx_world \<Rightarrow> unit dmx_world" where
  "demo_init_dev d nxt w = upd_dev d (\<lambda>dv. dv\<lparr>dd_next_dev := nxt, dd_first_slot := of_nat (dev_first d),
     dd_slots := of_nat (dev_slots d), dd_ipt := d\<rparr>) w"

definition Micro_p_sim_init :: "'z DdModel_t_scheme \<Rightarrow> 'z DdModel_t_scheme" where
  "Micro_p_sim_init m = m\<lparr>mb_setup := Some F_setup, mb_main_loop := Some F_main, mb_diagnostics := Some F_diag,
     isr_stimulus := Some F_isr_stimulus, in_isr := 1, mb_tick := 0, main_tick := 0,
     dd_world := demo_init_dev 2 None (demo_init_dev 1 (Some 2) (dd_world m)),
     dmx512_receiver := (dmx512_receiver m)\<lparr>rx_slot_cnt := 0\<rparr>\<rparr>"

text \<open>The statically initialised model; \<open>clock\<close> is what the C clock will read.\<close>

definition dd_world0 :: "unit dmx_world" where
  "dd_world0 =
     DefineDoubleIsrObjectQueue dev2_ipt 3 4 2000 (dev_slots 2) 3 None
     (DefineDoubleIsrObjectQueue dev1_ipt 1 2 1000 (dev_slots 1) 3 None
       \<lparr>ph_pre = (\<lambda>_. \<lparr>pb_theboss = 0, pb_guard = 0, pb_onRelease = \<lparr>cbi_callback = None, cbi_context = 0\<rparr>\<rparr>),
        ph_pool = (\<lambda>_. \<lparr>gp_next = 0, gp_end = 0, gp_onRelease = None, gp_objectSize = 0, gp_cellSize = 0\<rparr>),
        iw_queue = (\<lambda>_. DefineStaticGenQ 0 1 RET_Q_LEN),
        iw_ipt = (\<lambda>_. \<lparr>ipt_iptPool = 0, ipt_toIsrQ = None, ipt_fromIsrQ = None, ipt_droppedTo = 0, ipt_droppedFrom = 0\<rparr>),
        isrReqQ_dropped_objects = 0, isrReqQ_errors = 0,
        dw_dev = (\<lambda>d. \<lparr>dd_next_dev = (if d = 1 then Some 2 else None), dd_ipt = d, dd_data = 0, dd_next_data = 0,
           dd_missed = 0, dd_first_slot = 0, dd_slots = 0\<rparr>),
        dw_byte = (\<lambda>_. 0)\<rparr>)"

definition dd_model :: "(nat \<Rightarrow> int) \<Rightarrow> DdModel_t" where
  "dd_model clock =
     \<lparr>isr_table = (\<lambda>_. None), isr_flags = (\<lambda>_. 0), isr_table_size = TOTAL_ISRs, isr_are_prioritized = 0,
      isr_auto_clear = 1, mb_tick = 0, main_tick = 0, sim_enabled = 0, in_isr = 1, mb_setup = None,
      isr_stimulus = None, mb_main_loop = None, mb_diagnostics = None,
      dd_ms_tick = 0, dd_frame = 0,
      dmx512_receiver = \<lparr>rx_first_device = Some 1, rx_slot_cnt = 0, rx_slot0 = 0\<rparr>,
      dd_world = dd_world0, dmx_sim_buffer = replicate 14 0, dmx_sim_len = 0, sim_slot = -1, sim_shift = 0,
      dd_last = 0, dd_dmx_last = 0, dd_clock = clock, dd_clock_reads = 0, dd_out = [],
      dd_isrQ = DefineGenQ 0 1 20\<rparr>"

section \<open>The demonstration starts\<close>

text \<open>The model after set-up and after the first break.\<close>

definition demo_m0 :: "(nat \<Rightarrow> int) \<Rightarrow> DdModel_t" where
  "demo_m0 clock = (case DD_setup (Micro_p_sim_init (dd_model clock)) of Some (_, m) \<Rightarrow> m | None \<Rightarrow> dd_model clock)"

definition demo_mb :: "(nat \<Rightarrow> int) \<Rightarrow> DdModel_t" where
  "demo_mb clock = (case run_isr dmx1_isr_b_warpper (demo_m0 clock) of Some m \<Rightarrow> m | None \<Rightarrow> demo_m0 clock)"

definition demo_bufs :: "nat \<Rightarrow> int" where
  "demo_bufs a = (if a = 1 then 1032 else 2032)"

lemma demo_setup: "DD_setup (Micro_p_sim_init (dd_model clock)) = Some (True, demo_m0 clock)"
proof -
  have "map_option fst (DD_setup (Micro_p_sim_init (dd_model clock))) = Some True"
    by code_simp
  then show ?thesis
    by (auto simp: demo_m0_def)
qed

lemma demo_break: "run_isr dmx1_isr_b_warpper (demo_m0 clock) = Some (demo_mb clock)"
proof -
  have "map_option (\<lambda>_. ()) (run_isr dmx1_isr_b_warpper (demo_m0 clock)) = Some ()"
    by code_simp
  then show ?thesis
    by (auto simp: demo_mb_def)
qed

lemma demo_receiver:
  "rx_first_device (dmx512_receiver (demo_mb clock)) = Some 1" "rx_slot_cnt (dmx512_receiver (demo_mb clock)) = 0"
  "rx_slot0 (dmx512_receiver (demo_mb clock)) = 0" "dmx_chain (dw_dev (dd_world (demo_mb clock))) (Some 1) [1, 2]"
  by code_simp+

lemma demo_windows: "dmx_windows (dd_world (demo_mb clock)) [1, 2]"
  by code_simp

lemma demo_ready: "dmx_ready demo_bufs (dd_world (demo_mb clock)) 1 [1, 2]"
  by code_simp

lemma demo_apart: "bufs_apart demo_bufs (dd_world (demo_mb clock)) [1, 2]"
  by code_simp

lemma demo_window:
  "win_first (dd_world (demo_mb clock)) 1 = 10 \<and> win_end (dd_world (demo_mb clock)) 1 = 14 \<and>
   win_first (dd_world (demo_mb clock)) 2 = 124 \<and> win_end (dd_world (demo_mb clock)) 2 = 131"
  by code_simp

text \<open>The main loop after the last slot of the second device, whatever the bytes are.\<close>

lemma demo_main:
  "map_option (\<lambda>(ok, m). (ok, dd_out m))
     (DD_main ((demo_mb clock)\<lparr>dmx512_receiver := rx,
        dd_world := (dmx_bytes no_cb [1, 2] 1 (replicate 130 0) (dd_world (demo_mb clock)))\<lparr>dw_byte := b\<rparr>\<rparr>)) =
   Some (True, [(1, map (\<lambda>i. b (1032 + int i)) [0..<4], 0), (2, map (\<lambda>i. b (2032 + int i)) [0..<7], 0)])"
  by code_simp

text \<open>The slots that decide are the first 130.\<close>

lemma demo_bytes:
  fixes clock frame
  defines "w1 \<equiv> dmx_bytes no_cb [1, 2] 1 frame (dd_world (demo_mb clock))"
  assumes "130 \<le> length frame"
  shows "w1 = (dmx_bytes no_cb [1, 2] 1 (replicate 130 0) (dd_world (demo_mb clock)))\<lparr>dw_byte := dw_byte w1\<rparr>"
proof -
  let ?w = "dd_world (demo_mb clock)" and ?w2 = "dmx_bytes no_cb [1, 2] 1 (take 130 frame) (dd_world (demo_mb clock))"
  note geo = dmx_bytes_geometry [of ?w no_cb "[1, 2]" 1 "take 130 frame"]
  have "w1 = dmx_bytes no_cb [1, 2] (1 + int (length (take 130 frame))) (drop 130 frame) ?w2"
    unfolding w1_def by (metis append_take_drop_id dmx_bytes_append)
  also have "\<dots> = ?w2"
  proof (rule dmx_bytes_past_all)
    fix a :: nat assume "a \<in> set [1, 2]"
    then have "win_end ?w a \<le> 131"
      using demo_window [of clock] by auto
    then show "win_end ?w2 a \<le> 1 + int (length (take 130 frame))"
      using geometry_win [OF geo, of a] assms(2) by simp
  qed
  finally have "w1 = ?w2" .
  then show ?thesis
    using dmx_bytes_values [where xs = "take 130 frame" and ys = "replicate 130 0" and run_cb = no_cb and ds = "[1, 2]"
        and cnt = 1 and w = ?w and b = "dw_byte ?w2" and c = "dw_byte ?w"] assms(2) by simp
qed

lemma demo_value:
  assumes "130 \<le> length frame" "a \<in> {1, 2}" "i < dev_slots a"
  shows "dw_byte (dmx_bytes no_cb [1, 2] 1 frame (dd_world (demo_mb clock))) (demo_bufs a + int i) =
    frame ! (dev_first a + i - 1)"
proof -
  let ?w = "dd_world (demo_mb clock)"
  have w: "win_first ?w a = int (dev_first a)" "win_end ?w a = int (dev_first a + dev_slots a)" "a \<in> set [1, 2]"
    using demo_window [of clock] assms(2) by (auto simp: dev_first_def dev_slots_def)
  have le: "1 \<le> dev_first a" "dev_first a + dev_slots a \<le> 131"
    using assms(2) by (auto simp: dev_first_def dev_slots_def)
  have p: "win_first ?w a \<le> int (dev_first a + i)" "int (dev_first a + i) < win_end ?w a"
    "int (dev_first a + i) - win_first ?w a = int i"
    using w assms(3) by linarith+
  have nat: "nat (int (dev_first a + i) - 1) = dev_first a + i - 1"
    using le(1) by linarith
  have c: "1 \<le> int (dev_first a + i) \<and> int (dev_first a + i) < 1 + int (length frame)"
    using le assms(1,3) by linarith
  from dmx_bytes_write [OF demo_ready demo_windows demo_apart w(3) p(1,2), of no_cb frame]
  show ?thesis
    unfolding p(3) nat if_P [OF c] .
qed

text \<open>The demonstration's own \<open>main\<close> never sets the enable flag, so neither thread takes a turn.\<close>

lemma demo_never_enabled:
  assumes "main_start Micro_p_sim_init run_fun (dd_model clock) = Some s"
  shows "\<not> sim_step run_isr run_fun s t s1"
proof -
  have "sim_enabled m1 = sim_enabled m" if "DD_setup m = Some (ok, m1)" for m m1 :: DdModel_t and ok
    using that by (auto simp: DD_setup_def Let_def split: option.splits)
  then have "sim_enabled (snd s) = 0"
    using assms by (auto simp: main_start_def sim_start_def sim_init_def Micro_p_sim_init_def run_fun_def dd_model_def
        split: option.splits bool.splits)
  then show ?thesis
    by (auto elim: sim_step.cases)
qed

text \<open>A block of the stimulus holds the consecutive slot numbers, shifted, with slot 0 the start code.\<close>

lemma sim_fill_block:
  assumes "length (dmx_sim_buffer m) = 14" "0 \<le> sim_slot m" "k \<le> 14"
  shows "sim_slot (fold sim_fill [0..<k] m) = sim_slot m + int k \<and> sim_shift (fold sim_fill [0..<k] m) = sim_shift m \<and>
    length (dmx_sim_buffer (fold sim_fill [0..<k] m)) = 14 \<and>
    (\<forall>i < k. dmx_sim_buffer (fold sim_fill [0..<k] m) ! i =
       (if sim_slot m + int i = 0 then 0 else word_of_int (sim_slot m + int i + sim_shift m)))"
  using assms(3)
proof (induction k)
  case (Suc k)
  then show ?case
    using assms(1,2) by (auto simp: sim_fill_def nth_list_update less_Suc_eq)
qed (use assms in simp)

section \<open>Properties\<close>

text \<open> C34. The demonstration works end to end: after its set-up and a break, any frame of at least 130
  slots with the start code 0, however the serial port cuts it into blocks, makes the next turn of
  the main loop print exactly the four slots of device 1, from slot 10, and the seven of device 2,
  from slot 124, in that order. \<close>

theorem demo_end_to_end:
  assumes "concat raws = 0 # frame" "[] \<notin> set raws" "130 \<le> length frame" "1 + int (length frame) < 2 ^ 15"
  shows "\<exists>m0 m1 rx w1 m2. DD_setup (Micro_p_sim_init (dd_model clock)) = Some (True, m0) \<and>
    run_isr dmx1_isr_b_warpper m0 = Some m1 \<and>
    dmx_feed no_cb (dmx512_receiver m1) raws (dd_world m1) = Some (rx, w1) \<and>
    DD_main (m1\<lparr>dmx512_receiver := rx, dd_world := w1\<rparr>) = Some (True, m2) \<and>
    dd_out m2 = [(1, map (\<lambda>i. frame ! (9 + i)) [0..<4], 0), (2, map (\<lambda>i. frame ! (123 + i)) [0..<7], 0)]"
proof -
  let ?m = "demo_mb clock" and ?w1 = "dmx_bytes no_cb [1, 2] 1 frame (dd_world (demo_mb clock))"
  let ?rx = "(dmx512_receiver ?m)\<lparr>rx_slot_cnt := word_of_int (1 + int (length frame))\<rparr>"
  have feed: "dmx_feed no_cb (dmx512_receiver ?m) raws (dd_world ?m) = Some (?rx, ?w1)"
    using assms demo_receiver [of clock] demo_windows demo_ready by (intro dmx_feed_frame) auto
  have out: "map_option (\<lambda>(ok, m). (ok, dd_out m)) (DD_main (?m\<lparr>dmx512_receiver := ?rx, dd_world := ?w1\<rparr>)) =
    Some (True, [(1, map (\<lambda>i. frame ! (9 + i)) [0..<4], 0), (2, map (\<lambda>i. frame ! (123 + i)) [0..<7], 0)])"
  proof -
    have "map (\<lambda>i. dw_byte ?w1 (1032 + int i)) [0..<4] = map (\<lambda>i. frame ! (9 + i)) [0..<4]"
      using demo_value [OF assms(3), where a = 1 and clock = clock]
      by (simp add: demo_bufs_def dev_slots_def dev_first_def)
    moreover have "map (\<lambda>i. dw_byte ?w1 (2032 + int i)) [0..<7] = map (\<lambda>i. frame ! (123 + i)) [0..<7]"
      using demo_value [OF assms(3), where a = 2 and clock = clock]
      by (simp add: demo_bufs_def dev_slots_def dev_first_def)
    ultimately show ?thesis
      using demo_main [where clock = clock and rx = ?rx and b = "dw_byte ?w1", folded demo_bytes [OF assms(3)]]
      by (simp only:)
  qed
  then obtain m2 where "DD_main (?m\<lparr>dmx512_receiver := ?rx, dd_world := ?w1\<rparr>) = Some (True, m2)"
    "dd_out m2 = [(1, map (\<lambda>i. frame ! (9 + i)) [0..<4], 0), (2, map (\<lambda>i. frame ! (123 + i)) [0..<7], 0)]"
    by auto
  with demo_setup demo_break feed show ?thesis
    by blast
qed

theorem demo_end_to_end_witness:
  "\<exists>m0 m1 rx w1 m2. DD_setup (Micro_p_sim_init (dd_model (\<lambda>_. 0))) = Some (True, m0) \<and>
    run_isr dmx1_isr_b_warpper m0 = Some m1 \<and>
    dmx_feed no_cb (dmx512_receiver m1) [[0, 7], replicate 129 9] (dd_world m1) = Some (rx, w1) \<and>
    DD_main (m1\<lparr>dmx512_receiver := rx, dd_world := w1\<rparr>) = Some (True, m2) \<and>
    dd_out m2 = [(1, map (\<lambda>i. (7 # replicate 129 9) ! (9 + i)) [0..<4], 0),
      (2, map (\<lambda>i. (7 # replicate 129 9) ! (123 + i)) [0..<7], 0)]"
  by (rule demo_end_to_end) simp_all

end
