(* ===== verification/Spec2Isabelle.thy ===== *)
theory Spec2Isabelle
  imports GenQSpsc LinkNode SetRunIsr StateMachine Tasker SwTimer SwBgTimers SwTimersHs Future TaskCalls TimeBase
    TaskCounter OpTable Qmacs Crc8 EventLog MicroPThreads DmxDemo
begin

text \<open>
  A model of the C modules of \<^verbatim>\<open>src/src\<close>, a collection for small micro controllers: queues, pools,
  schedulers, timers, a state machine, a DMX receiver and a simulated controller to run it on.
  File and function names below are those of \<^verbatim>\<open>src/src\<close>; a definition has the name of the C function
  or type it models, or is described where it is declared.

  The parts and how they interact.

  \<^item> Containers. \<open>GenQ\<close> is the object queue of \<^verbatim>\<open>genQ.c\<close>, \<open>GenQSpsc\<close> the same queue with one producer
    and one consumer interleaved access by access, \<open>GeneralQueue\<close> the older queue and pool of
    \<^verbatim>\<open>generalQueue.c\<close>, \<open>Qmacs\<close> the small queues of \<^verbatim>\<open>qmacs.h\<close>. All implement the interface of
    \<open>QueueSpec\<close>. \<open>LinkNode\<close> is the intrusive stack of \<^verbatim>\<open>linkNode.c\<close>, \<open>GenPool\<close> the object pool of
    \<^verbatim>\<open>genPool.c\<close>, whose return operation finds the pool from a bare object pointer.
  \<^item> Between interrupts and user code. \<open>IsrComm\<close> (\<^verbatim>\<open>isr_comm.c\<close>) sends pool objects through queues of
    pointers in both directions. \<open>SetRunIsr\<close> (\<^verbatim>\<open>set_run_isr.c\<close>) is the run loop on top: its tasks and
    timed calls are pool objects whose release callbacks decide whether they really go back, its
    lists are stacks of \<open>LinkNode\<close>.
  \<^item> Schedulers. \<open>Tasker\<close> (\<^verbatim>\<open>tasker.c\<close>), \<open>TaskService\<close> (\<^verbatim>\<open>taskServiceClass.c\<close>, \<^verbatim>\<open>taskService.c\<close>) and
    \<open>TaskCounter\<close> (\<^verbatim>\<open>taskCounter.c\<close>, \<^verbatim>\<open>taskCounterClass.c\<close>) run or signal tasks by event bits,
    priorities and counters. \<open>StateMachine\<close> (\<^verbatim>\<open>state.c\<close>) calls state functions.
  \<^item> Timers. \<open>SwTimer\<close> (\<^verbatim>\<open>swtimer.h\<close>, \<^verbatim>\<open>timercb.c\<close>, \<^verbatim>\<open>taskertick.h\<close>), \<open>SwBgTimers\<close> (\<^verbatim>\<open>swbgtimers.c\<close>),
    \<open>SwTimers\<close> (\<^verbatim>\<open>swtimers.c\<close> and \<^verbatim>\<open>micros/swtimer_st.c\<close>, over the pool and queue of
    \<open>GeneralQueue\<close>), \<open>SwTimersHs\<close> (the same built with \<^verbatim>\<open>HIGHSPEED\<close> and without
    \<^verbatim>\<open>BEST_EFFORTS_REPEAT\<close>) and \<open>Future\<close> (\<^verbatim>\<open>future.c\<close>).
  \<^item> Data. \<open>Crc8\<close> (\<^verbatim>\<open>crc8.c\<close>), \<open>OpTable\<close> (\<^verbatim>\<open>optable.c\<close>, \<^verbatim>\<open>fastswitch.c\<close>), \<open>EventLog\<close> (\<^verbatim>\<open>eventlog.c\<close>).
  \<^item> Application. \<open>Rs485Dmx\<close> (\<^verbatim>\<open>rs485_dmx.c\<close>) cuts device slots out of a byte stream into buffers that
    travel through \<open>IsrComm\<close>. \<open>MicroPSim\<close> (\<^verbatim>\<open>micro_p_sim.c\<close>) is the simulated controller in turns,
    \<open>MicroPThreads\<close> its two threads statement by statement with their mutex, and
    \<open>DmxDemo\<close> (\<^verbatim>\<open>dmx_demo.c\<close>) the demonstration that joins them all. \<open>TimerTest\<close>
    (\<^verbatim>\<open>src/swtimertest/Src/main.c\<close> and the interrupt handlers beside it) is the application that puts task service, background
    timers and fast timers on a real controller.
  \<^item> Controller. \<open>Stm32Core\<close>, \<open>Stm32Io\<close> and \<open>HalTim\<close> are the controller of that application: the registers of core, clocks,
    interrupt controller, pins, CRC unit and timers, with the functions of the vendor's drivers (\<^verbatim>\<open>src/swtimertest/Drivers\<close>) the
    application calls. \<open>StartUp\<close> is the way from reset to the running timers (\<^verbatim>\<open>main.c\<close>, \<^verbatim>\<open>tim.c\<close>,
    \<^verbatim>\<open>stm32f3xx_hal_msp.c\<close>), and \<open>TimeBase\<close> joins it with \<open>TimerTest\<close>: its interrupts and its clock on the timer so started.

  Conventions. A structure is a record, extended where the C code derives one from another or where
  a component adds state to the one below it. The machine integers are words of their width;
  promotions to \<open>int\<close> are written out. An address is a number: \<open>int\<close> where the code computes with
  it, \<open>nat\<close> where it only identifies, and memory is a function from addresses; NULL is \<open>None\<close> or 0, as the
  theory says. A function pointer is a value of a type variable, and what calling it does is an
  argument (\<open>run\<close>, \<open>run_cb\<close>, \<open>run_user\<close>) that maps states to states, so a callback may do anything to
  the state. Hardware counters are sequences of readings of which every read takes the next; so are the status bits for which the
  start-up waits (\<open>hw_status\<close>). A register of the controller is a field that holds what was last written; where the hardware does more on
  a write, the reference manual's effect is a definition of its own (\<open>write_EGR\<close>, \<open>clear_SR\<close>, \<open>write_ISER\<close>).

  Loops. A loop over a fixed range is a structural recursion or a fold; one that may not end is a
  \<open>partial_function\<close> and its result \<open>None\<close> means that the code does not return (or, where the theory
  says so, that it does something C leaves undefined). No fuel is used. That a loop ends is part of
  the properties: they state the result as \<open>Some\<close>.

  Groups of lemmas. For every component: its invariant and that the operations keep it; what each
  operation does on each branch; and its contract. \<open>Prelude\<close> has the interface \<open>forward_sim\<close>, by
  which runs of operations are compared with an abstract machine (queues with a bounded list, pools
  with a set of free objects, the event log with a list of records), and \<open>QueueSpec\<close> the interface
  \<open>bounded_queue\<close>, interpreted by \<open>GenQ\<close>, \<open>GeneralQueue\<close> and \<open>Qmacs\<close>. \<open>GenQSpsc\<close> shows by an
  invariant over interleavings that no lock is needed. \<open>Crc8\<close> follows table lookups back to
  polynomial division. \<open>StateMachine\<close> compares the calls of state functions with an automaton.
  \<open>Rs485Dmx\<close> shows the walk over the devices equal to a slot by slot reference, and \<open>DmxDemo\<close> uses it
  on the demonstration's own initial state, which is evaluated. \<open>SwTimers\<close> proves the tick of the
  system timers once, in the interface \<open>call_sink\<close>, for callbacks that are called at once and for callbacks that are queued;
  \<open>SwTimersHs\<close> uses it for the agreement of the two builds. \<open>TaskService\<close> shows loop and yield monotone, so that
  \<open>TimerTest\<close> can define tasks that yield into the loop that runs them; \<open>TaskCalls\<close> defines applications in general so, and
  shows the service's record safe from all of them. \<open>Stm32Core\<close> collects in \<open>reg_simps\<close> what a field of a register holds after writes to
  others and shows that waiting for the hardware ends exactly if it answers; \<open>HalTim\<close> compares the driver's interrupt handler with a list of
  the callbacks that flags and enabled interrupts call for; \<open>StartUp\<close> composes the driver's calls as steps between conditions
  (\<open>step_ok\<close>); \<open>TimeBase\<close> computes time from elapsed cycles. Some properties state faults of the
  code; they are named there.

  Layouts and bounds. A pointer has 4 bytes. \<open>GenPool\<close> needs pools whose distances fit the 16 bit
  fields of the headers (\<open>pool_fits\<close>), the DMX frame must fit the signed 16 bit slot counter, the pool of
  \<open>SwTimers\<close> has the 16 timers of \<^verbatim>\<open>swtimersupport.h\<close>.

  Not modelled. Under \<^verbatim>\<open>src/swtimertest\<close> what the application does not call of the vendor's drivers (other peripherals, DMA, capture
  and PWM modes, the DSP library) and the assembler start file; the tests and their framework are not the collection's own code.
  \<^verbatim>\<open>multi_thread\<close>, \<^verbatim>\<open>rs485_modbus\<close>,
  \<^verbatim>\<open>generalDef.h\<close> and \<^verbatim>\<open>qmacs.c\<close> are empty, \<^verbatim>\<open>isr_abstraction.h\<close>, \<^verbatim>\<open>swtimer_micro.h\<close> and
  \<^verbatim>\<open>swtimer_test.h\<close> declare without defining. \<open>DmxDemo\<close> runs the simulation in turns, which \<open>MicroPThreads\<close> shows to be schedules of the
  threads; the user's functions stay single steps. In \<open>SwBgTimers\<close> the build without \<^verbatim>\<open>TEST\<close> is modelled, in \<open>Crc8\<close> not the variant
  \<^verbatim>\<open>USE_1D\<close>, which does not compile. In \<open>TimerTest\<close> interrupts come where tasks work, in \<open>StartUp\<close> none comes. The registers of
  the timer that \<open>SwTimers\<close> uses for its compare channels are in its own state, apart from those of \<open>HalTim\<close>.
\<close>

end
